(* ===== verification/Prelude.thy ===== *)
theory Prelude
  imports Main "HOL-Library.Word"
begin

text \<open>
  Shared vocabulary of the development: the names of the machine types, C strings and
  fixed-size character buffers (\<open>strncpy\<close>, \<open>memcpy\<close>, \<open>strlen\<close>), ends of address lists,
  and the theorem collections the component theories extend.

  A C \<open>int\<close> whose bits are only compared is an \<open>int\<close>; a value whose wrap-around is
  observable (list lengths, ports, sequence numbers, counters, message ids) is a word of
  its C width. Bytes and C characters are both \<open>char\<close>.
\<close>

unbundle bit_operations_syntax

named_theorems lamb_defs \<open>definitions unfolded by the case proofs of the components\<close>
named_theorems frame \<open>what an operation leaves unchanged\<close>
named_theorems inv_intro \<open>preservation of component invariants\<close>

type_synonym u16 = "16 word"
type_synonym u32 = "32 word"
type_synonym u64 = "64 word"
type_synonym bytes = "char list"

subsection \<open>Options\<close>

abbreviation NUL :: char where
  "NUL \<equiv> CHR 0x00"

lemma bind_eq_SomeE:
  assumes "Option.bind m f = Some y"
  obtains x where "m = Some x" "f x = Some y"
  using assms by (auto simp: bind_eq_Some_conv)

subsection \<open>Ends of a list\<close>

primrec hd_or :: "'a option \<Rightarrow> 'a list \<Rightarrow> 'a option" where
  "hd_or d [] = d"
| "hd_or d (x # xs) = Some x"

primrec last_or :: "'a option \<Rightarrow> 'a list \<Rightarrow> 'a option" where
  "last_or d [] = d"
| "last_or d (x # xs) = last_or (Some x) xs"

lemma hd_or_append [simp]: "hd_or d (xs @ ys) = hd_or (hd_or d ys) xs"
  by (cases xs) simp_all

lemma last_or_append [simp]: "last_or d (xs @ ys) = last_or (last_or d xs) ys"
  by (induction xs arbitrary: d) simp_all

lemma hd_or_None_iff [simp]: "hd_or None xs = None \<longleftrightarrow> xs = []"
  by (cases xs) simp_all

lemma last_or_Some_in: "last_or d xs = Some a \<Longrightarrow> d = Some a \<or> a \<in> set xs"
  by (induction xs arbitrary: d) auto

lemma last_or_nonempty: "xs \<noteq> [] \<Longrightarrow> last_or d xs = Some (last xs)"
  by (induction xs arbitrary: d) auto

lemma last_or_None_iff [simp]: "last_or None xs = None \<longleftrightarrow> xs = []"
  by (cases "xs = []") (simp_all add: last_or_nonempty)

lemma hd_or_nonempty: "xs \<noteq> [] \<Longrightarrow> hd_or d xs = Some (hd xs)"
  by (cases xs) simp_all

lemma find_append: "find t (xs @ ys) = (case find t xs of Some x \<Rightarrow> Some x | None \<Rightarrow> find t ys)"
  by (induction xs) auto

lemma find_cong_set: "(\<And>x. x \<in> set xs \<Longrightarrow> f x = g x) \<Longrightarrow> find f xs = find g xs"
  by (induction xs) auto

subsection \<open>C strings in fixed-size buffers\<close>

text \<open>
  A buffer is the list of its bytes. \<open>cstr\<close> reads it as a C string, up to the first NUL;
  a buffer without a NUL is not a string at all, which \<open>terminated\<close> says.
  \<open>strncpy_buf\<close> writes \<open>n\<close> bytes: the source, padded with NUL, and leaves the rest.
\<close>

definition cstr :: "bytes \<Rightarrow> string" where
  "cstr buf = takeWhile (\<lambda>c. c \<noteq> NUL) buf"

definition terminated :: "bytes \<Rightarrow> bool" where
  "terminated buf \<longleftrightarrow> NUL \<in> set buf"

definition c_string :: "string \<Rightarrow> bool" where
  "c_string s \<longleftrightarrow> NUL \<notin> set s"

definition strncpy_buf :: "bytes \<Rightarrow> string \<Rightarrow> nat \<Rightarrow> bytes" where
  "strncpy_buf dst src n =
     take n src @ replicate (n - length src) NUL @ drop n dst"

definition zeroed :: "nat \<Rightarrow> bytes" where
  "zeroed n = replicate n NUL"

text \<open>
  \<open>strncpy_z n s\<close> is what the code gets when it copies at most \<open>n\<close> characters into a
  zeroed field of more than \<open>n\<close> bytes and later reads the field back as a string.
\<close>

definition strncpy_z :: "nat \<Rightarrow> string \<Rightarrow> string" where
  "strncpy_z n s = take n s"

text \<open>
  \<open>memcpy_z cap src\<close>: \<open>memcpy\<close> of all of \<open>src\<close> to the start of a zeroed field of \<open>cap\<close>
  bytes. Copying more bytes than the field holds is undefined behaviour, \<open>None\<close>.
\<close>

definition memcpy_z :: "nat \<Rightarrow> bytes \<Rightarrow> bytes option" where
  "memcpy_z cap src =
     (if length src \<le> cap then Some (src @ zeroed (cap - length src)) else None)"

text \<open>\<open>snprintf\<close> into a buffer of \<open>n\<close> bytes keeps at most \<open>n - 1\<close> characters.\<close>

definition snprintf_z :: "nat \<Rightarrow> string \<Rightarrow> string" where
  "snprintf_z n s = take (n - 1) s"

text \<open>A string between single quotes, as the messages and the SQL have them.\<close>

definition quoted :: "string \<Rightarrow> string" where
  "quoted key = [CHR 0x27] @ key @ [CHR 0x27]"

lemma cstr_append_NUL: "c_string s \<Longrightarrow> cstr (s @ NUL # rest) = s"
  by (auto simp: cstr_def c_string_def takeWhile_append)

lemma c_string_take: "c_string s \<Longrightarrow> c_string (take n s)"
  by (auto simp: c_string_def dest: in_set_takeD)

lemma strncpy_buf_zeroed:
  assumes "c_string s" and "n < m"
  shows "cstr (strncpy_buf (zeroed m) s n) = strncpy_z n s"
proof -
  have split: "replicate (n - length s) NUL @ replicate (m - n) NUL
      = NUL # replicate (n - length s + (m - n) - 1) NUL"
    using \<open>n < m\<close> by (cases "n - length s + (m - n)") (simp_all flip: replicate_add)
  have "strncpy_buf (zeroed m) s n
      = take n s @ (replicate (n - length s) NUL @ replicate (m - n) NUL)"
    by (simp add: strncpy_buf_def zeroed_def)
  also have "cstr \<dots> = take n s"
    unfolding split by (rule cstr_append_NUL [OF c_string_take [OF assms(1)]])
  finally show ?thesis by (simp add: strncpy_z_def)
qed

lemma length_strncpy_z: "length (strncpy_z n s) \<le> n"
  by (simp add: strncpy_z_def)

lemma strncpy_z_id [simp]: "length s \<le> n \<Longrightarrow> strncpy_z n s = s"
  by (simp add: strncpy_z_def)

lemma strncpy_z_idem [simp]: "strncpy_z n (strncpy_z n s) = strncpy_z n s"
  by (simp add: strncpy_z_def)

lemma memcpy_z_Some_iff: "(\<exists>b. memcpy_z cap src = Some b) \<longleftrightarrow> length src \<le> cap"
  by (simp add: memcpy_z_def)

lemma length_memcpy_z: "memcpy_z cap src = Some b \<Longrightarrow> length b = cap"
  by (auto simp: memcpy_z_def zeroed_def split: if_splits)

lemma take_memcpy_z: "memcpy_z cap src = Some b \<Longrightarrow> take (length src) b = src"
  by (auto simp: memcpy_z_def split: if_splits)

text \<open>\<open>strncpy\<close> with the size of the whole buffer leaves no room for the NUL.\<close>

lemma strncpy_full_terminated:
  assumes "c_string s" and "length buf = n"
  shows "terminated (strncpy_buf buf s n) \<longleftrightarrow> length s < n"
  using assms by (auto simp: terminated_def strncpy_buf_def c_string_def dest: in_set_takeD)

text \<open>
  The decimal prefix \<open>atoi\<close> and its kin read: blanks, a sign, then digits. The result is not bounded:
  a value that is no \<open>int\<close> of C, for which the C standard leaves the result of \<open>atoi\<close> open, is read as
  it is written.
\<close>

definition is_digit :: "char \<Rightarrow> bool" where
  "is_digit c \<longleftrightarrow> c \<in> set ''0123456789''"

definition digit_val :: "char \<Rightarrow> int" where
  "digit_val c = of_char c - 48"

definition is_blank :: "char \<Rightarrow> bool" where
  "is_blank c \<longleftrightarrow> c \<in> {CHR '' '', CHR 0x09, CHR 0x0A, CHR 0x0B, CHR 0x0C, CHR 0x0D}"

definition digits_val :: "string \<Rightarrow> int" where
  "digits_val ds = foldl (\<lambda>a c. 10 * a + digit_val c) 0 ds"

definition atoi :: "string \<Rightarrow> int" where
  "atoi s =
     (let t = dropWhile is_blank s
      in case t of
           [] \<Rightarrow> 0
         | c # r \<Rightarrow>
             if c = CHR ''-'' then - digits_val (takeWhile is_digit r)
             else if c = CHR ''+'' then digits_val (takeWhile is_digit r)
             else digits_val (takeWhile is_digit t))"

text \<open>\<open>strstr\<close>: does the needle occur in the haystack (the empty needle always does).\<close>

fun strstr :: "string \<Rightarrow> string \<Rightarrow> bool" where
  "strstr [] pat = (pat = [])"
| "strstr (c # s) pat = (take (length pat) (c # s) = pat \<or> strstr s pat)"

lemma strstr_iff: "strstr s pat \<longleftrightarrow> (\<exists>u v. s = u @ pat @ v)"
proof (induction s)
  case Nil
  show ?case by simp
next
  case (Cons c s)
  show ?case
  proof
    assume "strstr (c # s) pat"
    then consider "take (length pat) (c # s) = pat" | "strstr s pat" by auto
    then show "\<exists>u v. c # s = u @ pat @ v"
    proof cases
      case 1
      then have "c # s = [] @ pat @ drop (length pat) (c # s)"
        by (metis append_Nil append_take_drop_id)
      then show ?thesis by blast
    next
      case 2
      then obtain u v where "s = u @ pat @ v" using Cons.IH by blast
      then have "c # s = (c # u) @ pat @ v" by simp
      then show ?thesis by blast
    qed
  next
    assume "\<exists>u v. c # s = u @ pat @ v"
    then obtain u v where uv: "c # s = u @ pat @ v" by blast
    show "strstr (c # s) pat"
    proof (cases u)
      case Nil
      with uv have "take (length pat) (c # s) = pat" by simp
      then show ?thesis by simp
    next
      case (Cons d u')
      with uv have "s = u' @ pat @ v" by simp
      then have "strstr s pat" using Cons.IH by blast
      then show ?thesis by simp
    qed
  qed
qed

lemma strstr_singleton: "strstr s [c] \<longleftrightarrow> c \<in> set s"
  unfolding strstr_iff using in_set_conv_decomp [of c s] by auto

lemma strstr_prefix_pat: "strstr s (p @ q) \<Longrightarrow> strstr s p"
  by (metis append.assoc strstr_iff)

subsection \<open>Printing and reading numbers\<close>

text \<open>\<open>%u\<close>, \<open>%lu\<close>, \<open>%llu\<close> of a natural number and \<open>%d\<close>, \<open>%lld\<close> of an integer.\<close>

definition digit_char :: "nat \<Rightarrow> char" where
  "digit_char d = ''0123456789'' ! d"

fun show_nat :: "nat \<Rightarrow> string" where
  "show_nat n = (if n < 10 then [digit_char n] else show_nat (n div 10) @ [digit_char (n mod 10)])"

declare show_nat.simps [simp del]

definition show_int :: "int \<Rightarrow> string" where
  "show_int i = (if i < 0 then CHR ''-'' # show_nat (nat (- i)) else show_nat (nat i))"

lemma digit_cases:
  "d < (10 :: nat) \<Longrightarrow> d = 0 \<or> d = 1 \<or> d = 2 \<or> d = 3 \<or> d = 4 \<or> d = 5 \<or> d = 6 \<or> d = 7 \<or> d = 8 \<or> d = 9"
  by arith

lemma digit_char_digit: "d < 10 \<Longrightarrow> is_digit (digit_char d) \<and> digit_val (digit_char d) = int d"
  by (drule digit_cases) (auto simp: digit_char_def is_digit_def digit_val_def)

lemma digit_not_special:
  "is_digit c \<Longrightarrow> c \<noteq> CHR ''-'' \<and> c \<noteq> CHR ''+'' \<and> \<not> is_blank c \<and> c \<noteq> CHR ''.'' \<and> c \<noteq> NUL"
  by (auto simp: is_digit_def is_blank_def)

lemma digits_val_snoc: "digits_val (ds @ [c]) = 10 * digits_val ds + digit_val c"
  by (simp add: digits_val_def)

lemma show_nat_digits: "c \<in> set (show_nat n) \<Longrightarrow> is_digit c"
proof (induction n rule: show_nat.induct)
  case (1 n)
  then show ?case using digit_char_digit by (subst (asm) (2) show_nat.simps) (auto split: if_splits)
qed

lemma show_nat_nonempty [simp]: "show_nat n \<noteq> []"
  by (subst show_nat.simps) simp

lemma digits_val_show_nat [simp]: "digits_val (show_nat n) = int n"
proof (induction n rule: show_nat.induct)
  case (1 n)
  show ?case
  proof (cases "n < 10")
    case True
    then show ?thesis
      by (subst show_nat.simps) (simp add: digits_val_def digit_char_digit)
  next
    case False
    then have "digits_val (show_nat n) = 10 * int (n div 10) + int (n mod 10)"
      using 1 by (subst show_nat.simps) (simp add: digits_val_snoc digit_char_digit)
    also have "\<dots> = int n" by presburger
    finally show ?thesis .
  qed
qed

lemma show_nat_inject [simp]: "show_nat m = show_nat n \<longleftrightarrow> m = n"
proof
  assume "show_nat m = show_nat n"
  then have "digits_val (show_nat m) = digits_val (show_nat n)" by simp
  then show "m = n" by simp
qed simp

lemma takeWhile_show_nat [simp]: "takeWhile is_digit (show_nat n) = show_nat n"
  by (rule takeWhile_eq_all_conv [THEN iffD2]) (blast dest: show_nat_digits)

lemma takeWhile_show_nat_append:
  "\<not> is_digit c \<Longrightarrow> takeWhile is_digit (show_nat n @ c # s) = show_nat n"
  by (simp add: takeWhile_append show_nat_digits)

lemma show_nat_hd: "is_digit (hd (show_nat n))"
  using show_nat_digits show_nat_nonempty by (metis list.set_sel(1))

lemma dropWhile_blank_show_nat [simp]: "dropWhile is_blank (show_nat n) = show_nat n"
  using show_nat_hd [of n] digit_not_special
  by (cases "show_nat n") auto

lemma atoi_unsigned:
  assumes "dropWhile is_blank t = c # r" "c \<noteq> CHR ''-''" "c \<noteq> CHR ''+''"
  shows "atoi t = digits_val (takeWhile is_digit (c # r))"
  using assms by (simp add: atoi_def Let_def)

lemma atoi_show_nat [simp]: "atoi (show_nat n) = int n"
proof -
  obtain c r where cr: "show_nat n = c # r" by (cases "show_nat n") auto
  then have "is_digit c" using show_nat_hd [of n] by simp
  then have "c \<noteq> CHR ''-''" "c \<noteq> CHR ''+''" using digit_not_special by blast+
  moreover have "dropWhile is_blank (show_nat n) = c # r"
    using dropWhile_blank_show_nat [of n] cr by (rule trans)
  ultimately have "atoi (show_nat n) = digits_val (takeWhile is_digit (c # r))"
    by (rule atoi_unsigned [rotated 1])
  also have "\<dots> = int n" by (simp only: cr [symmetric] takeWhile_show_nat digits_val_show_nat)
  finally show ?thesis .
qed

lemma cstr_show_nat [simp]: "cstr (show_nat n) = show_nat n"
proof -
  have "c \<noteq> NUL" if "c \<in> set (show_nat n)" for c
    using digit_not_special [OF show_nat_digits [OF that]] by blast
  then show ?thesis by (auto simp: cstr_def takeWhile_eq_all_conv)
qed

end
