(* ===== verification/HeapList.thy ===== *)
theory HeapList
  imports Prelude "HOL-Library.Monad_Syntax"
begin

text \<open>
  The doubly linked list of \<open>src/src/list.c\<close>, on an explicit heap of nodes.

  A pointer is an \<open>addr option\<close> with \<open>None\<close> for NULL. The heap maps node addresses to
  nodes; \<open>malloc\<close> hands out fresh addresses until its quota is used up and then returns
  NULL, as the C function may. Every operation is a function of the list header and the
  heap into \<open>option\<close>: \<open>None\<close> is undefined behaviour (a NULL or dangling dereference) or,
  for the search loop, not returning. The mutex of the list only makes the pushes and pops
  atomic and has no part in the sequential model.

  The second half relates the pointers to a list of addresses (\<open>list_rep\<close>) and proves
  that each operation does to that list what its name says.
\<close>

subsection \<open>The node heap\<close>

type_synonym addr = nat

record 'v node =
  nprev :: "addr option"
  nnext :: "addr option"
  nval :: 'v

record 'v heap =
  hmem :: "addr \<rightharpoonup> 'v node"
  hbrk :: addr
  hquota :: nat
  hfreed :: "'v list"

definition rd :: "'v heap \<Rightarrow> addr option \<Rightarrow> 'v node option" where
  "rd h p = Option.bind p (hmem h)"

definition wr :: "'v heap \<Rightarrow> addr option \<Rightarrow> ('v node \<Rightarrow> 'v node) \<Rightarrow> 'v heap option" where
  "wr h p f = do { a \<leftarrow> p; n \<leftarrow> hmem h a; Some (h\<lparr>hmem := (hmem h)(a \<mapsto> f n)\<rparr>) }"

definition malloc :: "'v heap \<Rightarrow> (addr \<times> 'v heap) option" where
  "malloc h =
     (if hquota h = 0 then None
      else Some (hbrk h, h\<lparr>hbrk := Suc (hbrk h), hquota := hquota h - 1\<rparr>))"

definition free_node :: "'v heap \<Rightarrow> addr option \<Rightarrow> 'v heap option" where
  "free_node h p =
     (case p of
        None \<Rightarrow> Some h
      | Some a \<Rightarrow>
          (if hmem h a \<noteq> None then Some (h\<lparr>hmem := (hmem h)(a := None), hquota := Suc (hquota h)\<rparr>)
           else None))"

definition heap_wf :: "'v heap \<Rightarrow> bool" where
  "heap_wf h \<longleftrightarrow> (\<forall>a \<in> dom (hmem h). a < hbrk h)"

subsection \<open>The list header, iterators and operations\<close>

datatype direction = LIST_HEAD | LIST_TAIL

record ('k, 'v) clist =
  lhead :: "addr option"
  ltail :: "addr option"
  llen :: u32
  lfree :: bool
  lmatch :: "('k \<Rightarrow> 'v \<Rightarrow> bool) option"

record iterator =
  inext :: "addr option"
  idir :: direction

definition lamb_node_new :: "'v \<Rightarrow> 'v heap \<Rightarrow> addr option \<times> 'v heap" where
  "lamb_node_new v h =
     (case malloc h of
        None \<Rightarrow> (None, h)
      | Some (a, h') \<Rightarrow>
          (Some a, h'\<lparr>hmem := (hmem h')(a \<mapsto> \<lparr>nprev = None, nnext = None, nval = v\<rparr>)\<rparr>))"

text \<open>
  An iterator is a small object of its own: creating one takes a unit of the allocation
  quota and may fail, destroying it gives the unit back.
\<close>

definition lamb_list_iterator_new_from_node ::
  "addr option \<Rightarrow> direction \<Rightarrow> 'v heap \<Rightarrow> iterator option \<times> 'v heap" where
  "lamb_list_iterator_new_from_node node d h =
     (if hquota h = 0 then (None, h)
      else (Some \<lparr>inext = node, idir = d\<rparr>, h\<lparr>hquota := hquota h - 1\<rparr>))"

definition lamb_list_iterator_new ::
  "('k, 'v) clist \<Rightarrow> direction \<Rightarrow> 'v heap \<Rightarrow> iterator option \<times> 'v heap" where
  "lamb_list_iterator_new l d h =
     lamb_list_iterator_new_from_node (if d = LIST_HEAD then lhead l else ltail l) d h"

definition lamb_list_iterator_next ::
  "iterator \<Rightarrow> 'v heap \<Rightarrow> (addr option \<times> iterator) option" where
  "lamb_list_iterator_next it h =
     (case inext it of
        None \<Rightarrow> Some (None, it)
      | Some a \<Rightarrow> do {
          n \<leftarrow> hmem h a;
          Some (Some a, it\<lparr>inext := (if idir it = LIST_HEAD then nnext n else nprev n)\<rparr>) })"

definition lamb_list_iterator_destroy :: "'v heap \<Rightarrow> 'v heap" where
  "lamb_list_iterator_destroy h = h\<lparr>hquota := Suc (hquota h)\<rparr>"

definition lamb_list_new :: "'v heap \<Rightarrow> ('k, 'v) clist option \<times> 'v heap" where
  "lamb_list_new h =
     (if hquota h = 0 then (None, h)
      else (Some \<lparr>lhead = None, ltail = None, llen = 0, lfree = False, lmatch = None\<rparr>,
            h\<lparr>hquota := hquota h - 1\<rparr>))"

definition note_freed :: "bool \<Rightarrow> 'v \<Rightarrow> 'v heap \<Rightarrow> 'v heap" where
  "note_freed cb v h = (if cb then h\<lparr>hfreed := hfreed h @ [v]\<rparr> else h)"

primrec destroy_loop :: "nat \<Rightarrow> bool \<Rightarrow> addr option \<Rightarrow> 'v heap \<Rightarrow> 'v heap option" where
  "destroy_loop 0 cb cur h = Some h"
| "destroy_loop (Suc len) cb cur h = do {
     n \<leftarrow> rd h cur;
     h1 \<leftarrow> free_node (note_freed cb (nval n) h) cur;
     destroy_loop len cb (nnext n) h1 }"

definition lamb_list_destroy :: "('k, 'v) clist \<Rightarrow> 'v heap \<Rightarrow> 'v heap option" where
  "lamb_list_destroy l h = do {
     h1 \<leftarrow> destroy_loop (unat (llen l)) (lfree l) (lhead l) h;
     Some (h1\<lparr>hquota := Suc (hquota h1)\<rparr>) }"

definition lamb_list_rpush ::
  "('k, 'v) clist \<Rightarrow> addr option \<Rightarrow> 'v heap \<Rightarrow> (addr option \<times> ('k, 'v) clist \<times> 'v heap) option" where
  "lamb_list_rpush l node h =
     (if node = None then Some (None, l, h)
      else if llen l \<noteq> 0 then do {
        h1 \<leftarrow> wr h node (\<lambda>n. n\<lparr>nprev := ltail l, nnext := None\<rparr>);
        h2 \<leftarrow> wr h1 (ltail l) (\<lambda>n. n\<lparr>nnext := node\<rparr>);
        Some (node, l\<lparr>ltail := node, llen := llen l + 1\<rparr>, h2) }
      else do {
        h1 \<leftarrow> wr h node (\<lambda>n. n\<lparr>nprev := None, nnext := None\<rparr>);
        Some (node, l\<lparr>lhead := node, ltail := node, llen := llen l + 1\<rparr>, h1) })"

definition lamb_list_lpush ::
  "('k, 'v) clist \<Rightarrow> addr option \<Rightarrow> 'v heap \<Rightarrow> (addr option \<times> ('k, 'v) clist \<times> 'v heap) option" where
  "lamb_list_lpush l node h =
     (if node = None then Some (None, l, h)
      else if llen l \<noteq> 0 then do {
        h1 \<leftarrow> wr h node (\<lambda>n. n\<lparr>nnext := lhead l, nprev := None\<rparr>);
        h2 \<leftarrow> wr h1 (lhead l) (\<lambda>n. n\<lparr>nprev := node\<rparr>);
        Some (node, l\<lparr>lhead := node, llen := llen l + 1\<rparr>, h2) }
      else do {
        h1 \<leftarrow> wr h node (\<lambda>n. n\<lparr>nprev := None, nnext := None\<rparr>);
        Some (node, l\<lparr>lhead := node, ltail := node, llen := llen l + 1\<rparr>, h1) })"

definition lamb_list_rpop ::
  "('k, 'v) clist \<Rightarrow> 'v heap \<Rightarrow> (addr option \<times> ('k, 'v) clist \<times> 'v heap) option" where
  "lamb_list_rpop l h =
     (if llen l = 0 then Some (None, l, h)
      else do {
        let node = ltail l;
        n \<leftarrow> rd h node;
        (l1, h1) \<leftarrow>
          (if llen l - 1 \<noteq> 0 then do {
             h' \<leftarrow> wr h (nprev n) (\<lambda>m. m\<lparr>nnext := None\<rparr>);
             Some (l\<lparr>ltail := nprev n, llen := llen l - 1\<rparr>, h') }
           else Some (l\<lparr>lhead := None, ltail := None, llen := llen l - 1\<rparr>, h));
        h2 \<leftarrow> wr h1 node (\<lambda>m. m\<lparr>nnext := None, nprev := None\<rparr>);
        Some (node, l1, h2) })"

definition lamb_list_lpop ::
  "('k, 'v) clist \<Rightarrow> 'v heap \<Rightarrow> (addr option \<times> ('k, 'v) clist \<times> 'v heap) option" where
  "lamb_list_lpop l h =
     (if llen l = 0 then Some (None, l, h)
      else do {
        let node = lhead l;
        n \<leftarrow> rd h node;
        (l1, h1) \<leftarrow>
          (if llen l - 1 \<noteq> 0 then do {
             h' \<leftarrow> wr h (nnext n) (\<lambda>m. m\<lparr>nprev := None\<rparr>);
             Some (l\<lparr>lhead := nnext n, llen := llen l - 1\<rparr>, h') }
           else Some (l\<lparr>lhead := None, ltail := None, llen := llen l - 1\<rparr>, h));
        h2 \<leftarrow> wr h1 node (\<lambda>m. m\<lparr>nnext := None, nprev := None\<rparr>);
        Some (node, l1, h2) })"

partial_function (option) find_loop ::
  "('v \<Rightarrow> bool) \<Rightarrow> iterator \<Rightarrow> 'v heap \<Rightarrow> addr option option" where
  "find_loop t it h = do {
     (node, it1) \<leftarrow> lamb_list_iterator_next it h;
     (case node of
        None \<Rightarrow> Some None
      | Some a \<Rightarrow> do {
          n \<leftarrow> hmem h a;
          (if t (nval n) then Some (Some a) else find_loop t it1 h) }) }"

text \<open>
  Without a \<open>match\<close> callback the search compares the pointers themselves, the parameter
  \<open>same\<close>. If the iterator cannot be allocated the loop dereferences NULL.
\<close>

definition lamb_list_find ::
  "('k \<Rightarrow> 'v \<Rightarrow> bool) \<Rightarrow> ('k, 'v) clist \<Rightarrow> 'k \<Rightarrow> 'v heap \<Rightarrow> (addr option \<times> 'v heap) option" where
  "lamb_list_find same l val h =
     (case lamb_list_iterator_new l LIST_HEAD h of
        (None, _) \<Rightarrow> None
      | (Some it, h1) \<Rightarrow> do {
          r \<leftarrow> find_loop (case lmatch l of Some m \<Rightarrow> m val | None \<Rightarrow> same val) it h1;
          Some (r, lamb_list_iterator_destroy h1) })"

primrec at_loop :: "nat \<Rightarrow> addr option \<Rightarrow> iterator \<Rightarrow> 'v heap \<Rightarrow> addr option option" where
  "at_loop 0 node it h = Some node"
| "at_loop (Suc k) node it h = do {
     (node1, it1) \<leftarrow> lamb_list_iterator_next it h;
     at_loop k node1 it1 h }"

definition lamb_list_at :: "('k, 'v) clist \<Rightarrow> int \<Rightarrow> 'v heap \<Rightarrow> (addr option \<times> 'v heap) option" where
  "lamb_list_at l index h =
     (let (d, i) = (if index < 0 then (LIST_TAIL, - index - 1) else (LIST_HEAD, index))
      in if nat i < unat (llen l) then
           (case lamb_list_iterator_new l d h of
              (None, _) \<Rightarrow> None
            | (Some it, h1) \<Rightarrow> do {
                (node, it1) \<leftarrow> lamb_list_iterator_next it h1;
                r \<leftarrow> at_loop (nat i) node it1 h1;
                Some (r, lamb_list_iterator_destroy h1) })
         else Some (None, h))"

definition lamb_list_remove ::
  "('k, 'v) clist \<Rightarrow> addr option \<Rightarrow> 'v heap \<Rightarrow> (('k, 'v) clist \<times> 'v heap) option" where
  "lamb_list_remove l node h = do {
     n \<leftarrow> rd h node;
     (l1, h1) \<leftarrow>
       (if nprev n \<noteq> None then do {
          h' \<leftarrow> wr h (nprev n) (\<lambda>m. m\<lparr>nnext := nnext n\<rparr>);
          Some (l, h') }
        else Some (l\<lparr>lhead := nnext n\<rparr>, h));
     n1 \<leftarrow> rd h1 node;
     (l2, h2) \<leftarrow>
       (if nnext n1 \<noteq> None then do {
          h' \<leftarrow> wr h1 (nnext n1) (\<lambda>m. m\<lparr>nprev := nprev n1\<rparr>);
          Some (l1, h') }
        else Some (l1\<lparr>ltail := nprev n1\<rparr>, h1));
     h3 \<leftarrow> free_node (note_freed (lfree l2) (nval n1) h2) node;
     Some (l2\<lparr>llen := llen l2 - 1\<rparr>, h3) }"

text \<open>
  The loop that empties a list: \<open>while ((node = lamb_list_iterator_next(it))) lamb_list_remove(l, node)\<close>,
  as the reload handlers and the console's listings run it.
\<close>

partial_function (option) drain_loop ::
  "iterator \<Rightarrow> ('k, 'v) clist \<Rightarrow> 'v heap \<Rightarrow> (('k, 'v) clist \<times> 'v heap) option" where
  "drain_loop it l h = do {
     (node, it1) \<leftarrow> lamb_list_iterator_next it h;
     (case node of
        None \<Rightarrow> Some (l, h)
      | Some a \<Rightarrow> do {
          (l1, h1) \<leftarrow> lamb_list_remove l (Some a) h;
          drain_loop it1 l1 h1 }) }"

end
