(* ===== verification/HeapListRep.thy ===== *)
theory HeapListRep
  imports HeapList
begin

text \<open>
  The abstraction of the pointer list: \<open>dseg m p as q\<close> says that the nodes at the addresses
  \<open>as\<close> form a doubly linked segment entered from \<open>p\<close> and left to \<open>q\<close>; \<open>list_rep l h as\<close>
  that the header \<open>l\<close> owns exactly such a segment and that its length field is right.
  Each operation of the list is then proved to act on \<open>as\<close> as its name says, to touch no
  other node, and to keep the representation.
\<close>

subsection \<open>Doubly linked segments\<close>

primrec dseg :: "(addr \<rightharpoonup> 'v node) \<Rightarrow> addr option \<Rightarrow> addr list \<Rightarrow> addr option \<Rightarrow> bool" where
  "dseg m p [] q = True"
| "dseg m p (a # as) q =
     ((\<exists>v. m a = Some \<lparr>nprev = p, nnext = hd_or q as, nval = v\<rparr>) \<and> dseg m (Some a) as q)"

definition vals :: "(addr \<rightharpoonup> 'v node) \<Rightarrow> addr list \<Rightarrow> 'v list" where
  "vals m as = map (\<lambda>a. nval (the (m a))) as"

definition list_rep :: "('k, 'v) clist \<Rightarrow> 'v heap \<Rightarrow> addr list \<Rightarrow> bool" where
  "list_rep l h as \<longleftrightarrow>
     dseg (hmem h) None as None \<and> distinct as \<and>
     lhead l = hd_or None as \<and> ltail l = last_or None as \<and> unat (llen l) = length as"

lemma dseg_append [simp]:
  "dseg m p (xs @ ys) q \<longleftrightarrow> dseg m p xs (hd_or q ys) \<and> dseg m (last_or p xs) ys q"
  by (induction xs arbitrary: p) auto

lemma dseg_frame [simp]:
  "a \<notin> set xs \<Longrightarrow> dseg (m(a := x)) p xs q = dseg m p xs q"
  by (induction xs arbitrary: p) auto

lemma dseg_mapped: "dseg m p xs q \<Longrightarrow> a \<in> set xs \<Longrightarrow> \<exists>n. m a = Some n"
  by (induction xs arbitrary: p) auto

lemma dseg_cong:
  "(\<And>a. a \<in> set xs \<Longrightarrow> m a = m' a) \<Longrightarrow> dseg m p xs q = dseg m' p xs q"
  by (induction xs arbitrary: p) auto

lemma vals_simps [simp]:
  "vals m [] = []"
  "vals m (a # as) = nval (the (m a)) # vals m as"
  "vals m (as @ bs) = vals m as @ vals m bs"
  by (simp_all add: vals_def)

lemma length_vals [simp]: "length (vals m as) = length as"
  by (simp add: vals_def)

lemma vals_frame [simp]: "a \<notin> set xs \<Longrightarrow> vals (m(a := x)) xs = vals m xs"
  by (induction xs) auto

lemma vals_relink:
  assumes "m b = Some n" and "nval n' = nval n"
  shows "vals (m(b \<mapsto> n')) xs = vals m xs"
  using assms by (induction xs) auto

lemma vals_cong: "(\<And>a. a \<in> set xs \<Longrightarrow> m a = m' a) \<Longrightarrow> vals m xs = vals m' xs"
  by (induction xs) auto

subsection \<open>Raw reads and writes\<close>

lemma rd_simps [simp]: "rd h None = None" "rd h (Some a) = hmem h a"
  by (simp_all add: rd_def)

lemma wr_simps [simp]:
  "wr h None f = None"
  "hmem h a = Some n \<Longrightarrow> wr h (Some a) f = Some (h\<lparr>hmem := (hmem h)(a \<mapsto> f n)\<rparr>)"
  by (simp_all add: wr_def)

lemma free_node_Some [simp]:
  "hmem h a = Some n \<Longrightarrow>
   free_node h (Some a) = Some (h\<lparr>hmem := (hmem h)(a := None), hquota := Suc (hquota h)\<rparr>)"
  by (simp add: free_node_def)

lemma note_freed_simps [simp]:
  "hmem (note_freed cb v h) = hmem h"
  "hquota (note_freed cb v h) = hquota h"
  "hbrk (note_freed cb v h) = hbrk h"
  "hfreed (note_freed cb v h) = hfreed h @ (if cb then [v] else [])"
  by (simp_all add: note_freed_def)

lemma list_rep_len_0 [simp]: "list_rep l h as \<Longrightarrow> llen l = 0 \<longleftrightarrow> as = []"
  by (auto simp: list_rep_def unat_eq_0)

lemma unat_plus_1: "unat (w :: u32) + 1 < 2 ^ 32 \<Longrightarrow> unat (w + 1) = unat w + 1"
  by (simp add: unat_word_ariths)

lemma unat_minus_1: "w \<noteq> (0 :: u32) \<Longrightarrow> unat (w - 1) = unat w - 1"
  by (simp add: unat_minus_one)

lemma unat_one_iff: "unat (w :: u32) = Suc 0 \<longleftrightarrow> w = 1"
  by (metis One_nat_def unat_1 word_unat_eq_iff)

lemma node_relinked [simp]:
  "(n :: 'v node)\<lparr>nprev := p, nnext := q\<rparr> = \<lparr>nprev = p, nnext = q, nval = nval n\<rparr>"
  "(n :: 'v node)\<lparr>nnext := q, nprev := p\<rparr> = \<lparr>nprev = p, nnext = q, nval = nval n\<rparr>"
  by (cases n, simp)+

subsection \<open>Pushing\<close>

lemma lamb_list_rpush_rep:
  assumes rep: "list_rep l h as" and node: "hmem h a = Some n" and new: "a \<notin> set as"
    and room: "length as + 1 < 2 ^ 32"
  shows "\<exists>l' h'. lamb_list_rpush l (Some a) h = Some (Some a, l', h') \<and>
     list_rep l' h' (as @ [a]) \<and> vals (hmem h') (as @ [a]) = vals (hmem h) as @ [nval n] \<and>
     (\<forall>b. b \<notin> set (as @ [a]) \<longrightarrow> hmem h' b = hmem h b) \<and>
     lfree l' = lfree l \<and> lmatch l' = lmatch l \<and> hquota h' = hquota h \<and> hbrk h' = hbrk h
       \<and> dom (hmem h') = dom (hmem h)"
proof (cases as rule: rev_cases)
  case Nil
  with rep have l: "llen l = 0" by (auto simp: list_rep_def unat_eq_0)
  with Nil node show ?thesis
    by (auto simp: lamb_list_rpush_def list_rep_def)
next
  case (snoc xs b)
  with rep obtain v where b: "hmem h b = Some \<lparr>nprev = last_or None xs, nnext = None, nval = v\<rparr>"
    by (auto simp: list_rep_def)
  have ne: "llen l \<noteq> 0" and ab: "a \<noteq> b" using rep snoc new by auto
  have len: "unat (llen l + 1) = length as + 1"
    using rep room by (simp add: list_rep_def unat_plus_1)
  have tl: "ltail l = Some b" using rep snoc by (simp add: list_rep_def)
  let ?n = "n\<lparr>nprev := Some b, nnext := None\<rparr>"
  let ?m = "(hmem h)(a \<mapsto> ?n, b \<mapsto> \<lparr>nprev = last_or None xs, nnext = Some a, nval = v\<rparr>)"
  have run: "lamb_list_rpush l (Some a) h =
      Some (Some a, l\<lparr>ltail := Some a, llen := llen l + 1\<rparr>, h\<lparr>hmem := ?m\<rparr>)"
    using ne tl node b ab by (simp add: lamb_list_rpush_def)
  have rep': "list_rep (l\<lparr>ltail := Some a, llen := llen l + 1\<rparr>) (h\<lparr>hmem := ?m\<rparr>) (as @ [a])"
    using rep new snoc ab len by (auto simp: list_rep_def)
  have vs: "vals ?m (as @ [a]) = vals (hmem h) as @ [nval n]"
    using snoc new ab b rep by (auto simp: list_rep_def)
  have dm: "dom ?m = dom (hmem h)" using node b by auto
  show ?thesis using run rep' vs snoc dm by auto
qed

lemma lamb_list_lpush_rep:
  assumes rep: "list_rep l h as" and node: "hmem h a = Some n" and new: "a \<notin> set as"
    and room: "length as + 1 < 2 ^ 32"
  shows "\<exists>l' h'. lamb_list_lpush l (Some a) h = Some (Some a, l', h') \<and>
     list_rep l' h' (a # as) \<and> vals (hmem h') (a # as) = nval n # vals (hmem h) as \<and>
     (\<forall>b. b \<notin> set (a # as) \<longrightarrow> hmem h' b = hmem h b) \<and>
     lfree l' = lfree l \<and> lmatch l' = lmatch l \<and> hquota h' = hquota h \<and> hbrk h' = hbrk h
       \<and> dom (hmem h') = dom (hmem h)"
proof (cases as)
  case Nil
  with rep have l: "llen l = 0" by (auto simp: list_rep_def unat_eq_0)
  with Nil node show ?thesis
    by (auto simp: lamb_list_lpush_def list_rep_def)
next
  case (Cons b ys)
  with rep obtain v where b: "hmem h b = Some \<lparr>nprev = None, nnext = hd_or None ys, nval = v\<rparr>"
    by (auto simp: list_rep_def)
  have ne: "llen l \<noteq> 0" and ab: "a \<noteq> b" using rep Cons new by auto
  have len: "unat (llen l + 1) = length as + 1"
    using rep room by (simp add: list_rep_def unat_plus_1)
  have hd: "lhead l = Some b" using rep Cons by (simp add: list_rep_def)
  let ?n = "n\<lparr>nnext := Some b, nprev := None\<rparr>"
  let ?m = "(hmem h)(a \<mapsto> ?n, b \<mapsto> \<lparr>nprev = Some a, nnext = hd_or None ys, nval = v\<rparr>)"
  have run: "lamb_list_lpush l (Some a) h =
      Some (Some a, l\<lparr>lhead := Some a, llen := llen l + 1\<rparr>, h\<lparr>hmem := ?m\<rparr>)"
    using ne hd node b ab by (simp add: lamb_list_lpush_def)
  have rep': "list_rep (l\<lparr>lhead := Some a, llen := llen l + 1\<rparr>) (h\<lparr>hmem := ?m\<rparr>) (a # as)"
    using rep new Cons ab len by (auto simp: list_rep_def)
  have vs: "vals ?m (a # as) = nval n # vals (hmem h) as"
    using Cons new ab b rep by (auto simp: list_rep_def)
  have dm: "dom ?m = dom (hmem h)" using node b by auto
  show ?thesis using run rep' vs Cons dm by auto
qed

text \<open>A NULL node (a failed \<open>lamb_node_new\<close>) is refused and changes nothing.\<close>

lemma push_NULL [simp]:
  "lamb_list_rpush l None h = Some (None, l, h)"
  "lamb_list_lpush l None h = Some (None, l, h)"
  by (simp_all add: lamb_list_rpush_def lamb_list_lpush_def)

subsection \<open>Popping\<close>

lemma lamb_list_lpop_empty: "list_rep l h [] \<Longrightarrow> lamb_list_lpop l h = Some (None, l, h)"
  by (auto simp: lamb_list_lpop_def list_rep_def unat_eq_0)

lemma lamb_list_rpop_empty: "list_rep l h [] \<Longrightarrow> lamb_list_rpop l h = Some (None, l, h)"
  by (auto simp: lamb_list_rpop_def list_rep_def unat_eq_0)

lemma lamb_list_lpop_rep:
  assumes rep: "list_rep l h (a # as)"
  shows "\<exists>l' h' n. lamb_list_lpop l h = Some (Some a, l', h') \<and> list_rep l' h' as \<and>
     vals (hmem h') as = vals (hmem h) as \<and>
     hmem h' a = Some \<lparr>nprev = None, nnext = None, nval = nval n\<rparr> \<and> hmem h a = Some n \<and>
     (\<forall>b. b \<notin> set (a # as) \<longrightarrow> hmem h' b = hmem h b) \<and>
     lfree l' = lfree l \<and> lmatch l' = lmatch l \<and> hquota h' = hquota h \<and> hbrk h' = hbrk h
       \<and> dom (hmem h') = dom (hmem h)"
proof (cases as)
  case Nil
  with rep obtain v where a: "hmem h a = Some \<lparr>nprev = None, nnext = None, nval = v\<rparr>"
    and l: "llen l = 1"
    by (auto simp: list_rep_def unat_one_iff)
  with rep Nil show ?thesis
    by (auto simp: lamb_list_lpop_def list_rep_def)
next
  case (Cons b ys)
  with rep obtain v w where a: "hmem h a = Some \<lparr>nprev = None, nnext = Some b, nval = v\<rparr>"
    and b: "hmem h b = Some \<lparr>nprev = Some a, nnext = hd_or None ys, nval = w\<rparr>"
    by (auto simp: list_rep_def)
  have len0: "llen l \<noteq> 0" and ab: "a \<noteq> b" using rep Cons by (auto simp: list_rep_def)
  have len: "unat (llen l - 1) = length as"
    using rep len0 by (simp add: list_rep_def unat_minus_1)
  then have len1: "llen l - 1 \<noteq> 0" using Cons by auto
  have hd: "lhead l = Some a" using rep by (simp add: list_rep_def)
  let ?m = "(hmem h)(b \<mapsto> \<lparr>nprev = None, nnext = hd_or None ys, nval = w\<rparr>,
                     a \<mapsto> \<lparr>nprev = None, nnext = None, nval = v\<rparr>)"
  have run: "lamb_list_lpop l h =
      Some (Some a, l\<lparr>lhead := Some b, llen := llen l - 1\<rparr>, h\<lparr>hmem := ?m\<rparr>)"
    using len0 len1 hd a b ab by (simp add: lamb_list_lpop_def Let_def)
  have rep': "list_rep (l\<lparr>lhead := Some b, llen := llen l - 1\<rparr>) (h\<lparr>hmem := ?m\<rparr>) as"
    using rep Cons ab len by (auto simp: list_rep_def)
  have vs: "vals ?m as = vals (hmem h) as"
    using Cons ab b rep by (auto simp: list_rep_def)
  have dm: "dom ?m = dom (hmem h)" using a b by auto
  show ?thesis using run rep' vs Cons a ab dm by auto
qed

lemma lamb_list_rpop_rep:
  assumes rep: "list_rep l h (as @ [a])"
  shows "\<exists>l' h' n. lamb_list_rpop l h = Some (Some a, l', h') \<and> list_rep l' h' as \<and>
     vals (hmem h') as = vals (hmem h) as \<and>
     hmem h' a = Some \<lparr>nprev = None, nnext = None, nval = nval n\<rparr> \<and> hmem h a = Some n \<and>
     (\<forall>b. b \<notin> set (as @ [a]) \<longrightarrow> hmem h' b = hmem h b) \<and>
     lfree l' = lfree l \<and> lmatch l' = lmatch l \<and> hquota h' = hquota h \<and> hbrk h' = hbrk h
       \<and> dom (hmem h') = dom (hmem h)"
proof (cases as rule: rev_cases)
  case Nil
  with rep obtain v where a: "hmem h a = Some \<lparr>nprev = None, nnext = None, nval = v\<rparr>"
    and l: "llen l = 1"
    by (auto simp: list_rep_def unat_one_iff)
  with rep Nil show ?thesis
    by (auto simp: lamb_list_rpop_def list_rep_def)
next
  case (snoc xs b)
  with rep obtain v w where a: "hmem h a = Some \<lparr>nprev = Some b, nnext = None, nval = v\<rparr>"
    and b: "hmem h b = Some \<lparr>nprev = last_or None xs, nnext = Some a, nval = w\<rparr>"
    by (auto simp: list_rep_def)
  have len0: "llen l \<noteq> 0" and ab: "a \<noteq> b" using rep snoc by (auto simp: list_rep_def)
  have len: "unat (llen l - 1) = length as"
    using rep len0 by (simp add: list_rep_def unat_minus_1)
  then have len1: "llen l - 1 \<noteq> 0" using snoc by auto
  have tl: "ltail l = Some a" using rep by (simp add: list_rep_def)
  let ?m = "(hmem h)(b \<mapsto> \<lparr>nprev = last_or None xs, nnext = None, nval = w\<rparr>,
                     a \<mapsto> \<lparr>nprev = None, nnext = None, nval = v\<rparr>)"
  have run: "lamb_list_rpop l h =
      Some (Some a, l\<lparr>ltail := Some b, llen := llen l - 1\<rparr>, h\<lparr>hmem := ?m\<rparr>)"
    using len0 len1 tl a b ab by (simp add: lamb_list_rpop_def Let_def)
  have rep': "list_rep (l\<lparr>ltail := Some b, llen := llen l - 1\<rparr>) (h\<lparr>hmem := ?m\<rparr>) as"
    using rep snoc ab len by (auto simp: list_rep_def)
  have vs: "vals ?m as = vals (hmem h) as"
    using snoc ab b rep by (auto simp: list_rep_def)
  have dm: "dom ?m = dom (hmem h)" using a b by auto
  show ?thesis using run rep' vs snoc a ab dm by auto
qed

subsection \<open>Walking and searching\<close>

lemma iterator_next_simps [simp]:
  "lamb_list_iterator_next \<lparr>inext = None, idir = d\<rparr> h = Some (None, \<lparr>inext = None, idir = d\<rparr>)"
  "hmem h a = Some n \<Longrightarrow> lamb_list_iterator_next \<lparr>inext = Some a, idir = d\<rparr> h =
     Some (Some a, \<lparr>inext = (if d = LIST_HEAD then nnext n else nprev n), idir = d\<rparr>)"
  by (simp_all add: lamb_list_iterator_next_def)

lemma find_loop_rep:
  assumes "dseg (hmem h) p as None"
  shows "find_loop t \<lparr>inext = hd_or None as, idir = LIST_HEAD\<rparr> h =
     Some (find (\<lambda>a. t (nval (the (hmem h a)))) as)"
  using assms
proof (induction as arbitrary: p)
  case Nil
  show ?case by (subst find_loop.simps) simp
next
  case (Cons a as)
  then show ?case by (subst find_loop.simps) auto
qed

lemma find_loop_rep_mem:
  assumes "list_rep l h as" and "hmem h' = hmem h"
  shows "find_loop t \<lparr>inext = lhead l, idir = LIST_HEAD\<rparr> h' =
     Some (find (\<lambda>a. t (nval (the (hmem h a)))) as)"
  using assms find_loop_rep [of h' None as t] by (simp add: list_rep_def)

lemma lamb_list_find_rep:
  assumes rep: "list_rep l h as" and mem: "hquota h \<noteq> 0"
  shows "lamb_list_find same l k h =
     Some (find (\<lambda>a. (case lmatch l of Some m \<Rightarrow> m k | None \<Rightarrow> same k) (nval (the (hmem h a)))) as, h)"
proof -
  have "lamb_list_iterator_destroy (h\<lparr>hquota := hquota h - 1\<rparr>) = h"
    using mem by (simp add: lamb_list_iterator_destroy_def)
  then show ?thesis
    using mem find_loop_rep_mem [OF rep, of "h\<lparr>hquota := hquota h - 1\<rparr>"]
    by (simp add: lamb_list_find_def lamb_list_iterator_new_def
        lamb_list_iterator_new_from_node_def)
qed

lemma at_loop_forward:
  "dseg (hmem h) p (a # as) None \<Longrightarrow> k \<le> length as \<Longrightarrow>
   at_loop k (Some a) \<lparr>inext = hd_or None as, idir = LIST_HEAD\<rparr> h = Some (Some ((a # as) ! k))"
proof (induction as arbitrary: a p k)
  case Nil
  then show ?case by simp
next
  case (Cons b as)
  then show ?case by (cases k) auto
qed

lemma at_loop_backward:
  "dseg (hmem h) None (as @ [a]) q \<Longrightarrow> k \<le> length as \<Longrightarrow>
   at_loop k (Some a) \<lparr>inext = last_or None as, idir = LIST_TAIL\<rparr> h = Some (Some (rev (as @ [a]) ! k))"
proof (induction as arbitrary: a q k rule: rev_induct)
  case Nil
  then show ?case by simp
next
  case (snoc b as)
  then show ?case by (cases k) auto
qed

lemma lamb_list_at_rep:
  assumes rep: "list_rep l h as" and mem: "hquota h \<noteq> 0"
  shows "lamb_list_at l index h =
     Some (if 0 \<le> index \<and> nat index < length as then Some (as ! nat index)
           else if index < 0 \<and> nat (- index) \<le> length as then Some (as ! (length as - nat (- index)))
           else None, h)"
proof -
  let ?h = "h\<lparr>hquota := hquota h - 1\<rparr>"
  have d: "lamb_list_iterator_destroy ?h = h"
    using mem by (simp add: lamb_list_iterator_destroy_def)
  have len: "unat (llen l) = length as" using rep by (simp add: list_rep_def)
  consider (pos) "0 \<le> index" "nat index < length as"
    | (neg) "index < 0" "nat (- index - 1) < length as"
    | (out) "0 \<le> index" "\<not> nat index < length as"
    | (outneg) "index < 0" "\<not> nat (- index - 1) < length as" by linarith
  then show ?thesis
  proof cases
    case pos
    then obtain a xs where as: "as = a # xs" by (cases as) auto
    have seg: "dseg (hmem ?h) None (a # xs) None" and hd: "lhead l = Some a"
      using rep as by (auto simp: list_rep_def)
    obtain v where a: "hmem h a = Some \<lparr>nprev = None, nnext = hd_or None xs, nval = v\<rparr>"
      using seg by auto
    have "at_loop (nat index) (Some a) \<lparr>inext = hd_or None xs, idir = LIST_HEAD\<rparr> ?h
        = Some (Some (as ! nat index))"
      unfolding as using pos as by (intro at_loop_forward [OF seg]) simp
    then show ?thesis
      using pos len mem hd a d
      by (simp add: lamb_list_at_def lamb_list_iterator_new_def lamb_list_iterator_new_from_node_def)
  next
    case neg
    then obtain a xs where as: "as = xs @ [a]" by (cases as rule: rev_cases) auto
    have seg: "dseg (hmem ?h) None (xs @ [a]) None" and tl: "ltail l = Some a"
      using rep as by (auto simp: list_rep_def)
    obtain v where a: "hmem h a = Some \<lparr>nprev = last_or None xs, nnext = None, nval = v\<rparr>"
      using seg by auto
    have "at_loop (nat (- index - 1)) (Some a) \<lparr>inext = last_or None xs, idir = LIST_TAIL\<rparr> ?h
        = Some (Some (rev as ! nat (- index - 1)))"
      unfolding as using neg as by (intro at_loop_backward [OF seg]) simp
    moreover have "rev as ! nat (- index - 1) = as ! (length as - nat (- index))"
    proof -
      have "length as - Suc (nat (- index - 1)) = length as - nat (- index)"
        using neg(1) by simp
      then show ?thesis using neg(2) by (simp add: rev_nth)
    qed
    moreover have "nat (- index) \<le> length as" using neg by linarith
    ultimately show ?thesis
      using neg len mem tl a d
      by (simp add: lamb_list_at_def lamb_list_iterator_new_def lamb_list_iterator_new_from_node_def)
  next
    case out
    then show ?thesis using len by (simp add: lamb_list_at_def)
  next
    case outneg
    then have "\<not> nat (- index) \<le> length as" by linarith
    then show ?thesis using outneg len by (simp add: lamb_list_at_def)
  qed
qed

subsection \<open>Removing, draining and destroying\<close>

lemma wr_relink:
  assumes "hmem h a = Some n"
  shows "wr h (Some a) f = Some (h\<lparr>hmem := (hmem h)(a \<mapsto> f n)\<rparr>)"
  using assms by simp

lemma lamb_list_remove_rep:
  assumes rep: "list_rep l h (xs @ a # ys)"
  shows "\<exists>l' h' n. lamb_list_remove l (Some a) h = Some (l', h') \<and> hmem h a = Some n \<and>
     list_rep l' h' (xs @ ys) \<and> vals (hmem h') (xs @ ys) = vals (hmem h) (xs @ ys) \<and>
     hmem h' a = None \<and> hfreed h' = hfreed h @ (if lfree l then [nval n] else []) \<and>
     lfree l' = lfree l \<and> lmatch l' = lmatch l \<and> hquota h' = Suc (hquota h) \<and>
     (\<forall>b. b \<notin> set (xs @ a # ys) \<longrightarrow> hmem h' b = hmem h b)"
proof -
  obtain v where a: "hmem h a = Some \<lparr>nprev = last_or None xs, nnext = hd_or None ys, nval = v\<rparr>"
    using rep by (auto simp: list_rep_def)
  have len: "unat (llen l - 1) = length (xs @ ys)"
  proof -
    have "unat (llen l) = Suc (length (xs @ ys))" using rep by (simp add: list_rep_def)
    moreover from this have "llen l \<noteq> 0" by auto
    ultimately show ?thesis by (simp add: unat_minus_1)
  qed
  have fresh: "a \<notin> set xs" "a \<notin> set ys" "set xs \<inter> set ys = {}"
    using rep by (auto simp: list_rep_def)
  show ?thesis
  proof (cases xs rule: rev_cases)
    case xs: Nil
    show ?thesis
    proof (cases ys)
      case Nil
      then show ?thesis using xs rep a len
        by (auto simp: lamb_list_remove_def list_rep_def)
    next
      case (Cons c zs)
      then obtain w where c: "hmem h c = Some \<lparr>nprev = Some a, nnext = hd_or None zs, nval = w\<rparr>"
        using rep by (auto simp: list_rep_def)
      have "c \<noteq> a" using Cons fresh by auto
      then show ?thesis using xs Cons rep a c len
        by (auto simp: lamb_list_remove_def list_rep_def)
    qed
  next
    case xs: (snoc us b)
    then obtain u where b: "hmem h b = Some \<lparr>nprev = last_or None us, nnext = Some a, nval = u\<rparr>"
      using rep by (auto simp: list_rep_def)
    have ba: "b \<noteq> a" using xs fresh by auto
    show ?thesis
    proof (cases ys)
      case Nil
      then show ?thesis using xs rep a b ba len
        by (auto simp: lamb_list_remove_def list_rep_def)
    next
      case (Cons c zs)
      then obtain w where c: "hmem h c = Some \<lparr>nprev = Some a, nnext = hd_or None zs, nval = w\<rparr>"
        using rep by (auto simp: list_rep_def)
      have "c \<noteq> a" "c \<noteq> b" using Cons fresh xs by auto
      then show ?thesis using xs Cons rep a b c ba len
        by (auto simp: lamb_list_remove_def list_rep_def)
    qed
  qed
qed

text \<open>
  Draining: the iterator steps past a node before the node is removed, so removing while
  iterating visits and frees every node, from either end.
\<close>

definition drained :: "('k, 'v) clist \<Rightarrow> 'v heap \<Rightarrow> addr list \<Rightarrow> 'v list \<Rightarrow> ('k, 'v) clist \<Rightarrow> 'v heap \<Rightarrow> bool" where
  "drained l h as vs l' h' \<longleftrightarrow>
     list_rep l' h' [] \<and> lfree l' = lfree l \<and> lmatch l' = lmatch l \<and>
     hfreed h' = hfreed h @ (if lfree l then vs else []) \<and>
     hquota h' = hquota h + length as \<and> (\<forall>a \<in> set as. hmem h' a = None) \<and>
     (\<forall>b. b \<notin> set as \<longrightarrow> hmem h' b = hmem h b)"

lemma drain_loop_done:
  "inext it = None \<Longrightarrow> drain_loop it l h = Some (l, h)"
  by (subst drain_loop.simps) (simp add: lamb_list_iterator_next_def)

lemma drain_loop_step:
  assumes "hmem h a = Some n" and "lamb_list_remove l (Some a) h = Some (l1, h1)"
  shows "drain_loop \<lparr>inext = Some a, idir = d\<rparr> l h =
     drain_loop \<lparr>inext = (if d = LIST_HEAD then nnext n else nprev n), idir = d\<rparr> l1 h1"
  using assms by (subst drain_loop.simps) simp

lemma drained_Nil: "list_rep l h [] \<Longrightarrow> drained l h [] [] l h"
  by (simp add: drained_def)

lemma drained_step:
  assumes rem: "hmem h a = Some n" "hmem h1 a = None"
      "hfreed h1 = hfreed h @ (if lfree l then [nval n] else [])"
      "lfree l1 = lfree l" "lmatch l1 = lmatch l" "hquota h1 = Suc (hquota h)"
      "\<forall>b. b \<notin> insert a (set as) \<longrightarrow> hmem h1 b = hmem h b"
    and rest: "drained l1 h1 as vs l' h'" and notin: "a \<notin> set as" and set: "set cs = insert a (set as)"
      "length cs = Suc (length as)"
  shows "drained l h cs (nval n # vs) l' h'"
  using assms by (auto simp: drained_def)

lemma drain_loop_head:
  assumes "list_rep l h as"
  shows "\<exists>l' h'. drain_loop \<lparr>inext = lhead l, idir = LIST_HEAD\<rparr> l h = Some (l', h') \<and>
     drained l h as (vals (hmem h) as) l' h'"
  using assms
proof (induction as arbitrary: l h)
  case Nil
  then show ?case by (auto simp: drain_loop_done list_rep_def intro!: drained_Nil)
next
  case (Cons a as)
  have hd: "lhead l = Some a" "a \<notin> set as" using Cons.prems by (simp_all add: list_rep_def)
  obtain l1 h1 n where r: "lamb_list_remove l (Some a) h = Some (l1, h1)" "hmem h a = Some n"
      "list_rep l1 h1 as" "vals (hmem h1) as = vals (hmem h) as" "hmem h1 a = None"
      "hfreed h1 = hfreed h @ (if lfree l then [nval n] else [])"
      "lfree l1 = lfree l" "lmatch l1 = lmatch l" "hquota h1 = Suc (hquota h)"
      "\<forall>b. b \<notin> insert a (set as) \<longrightarrow> hmem h1 b = hmem h b"
    using lamb_list_remove_rep [of l h "[]" a as] Cons.prems by auto
  have n: "nnext n = lhead l1" using Cons.prems r(2,3) by (auto simp: list_rep_def)
  obtain l' h' where IH: "drain_loop \<lparr>inext = lhead l1, idir = LIST_HEAD\<rparr> l1 h1 = Some (l', h')"
      "drained l1 h1 as (vals (hmem h1) as) l' h'"
    using Cons.IH [OF r(3)] by blast
  have "drained l h (a # as) (nval n # vals (hmem h1) as) l' h'"
    by (rule drained_step [OF r(2,5,6,7,8,9,10) IH(2) hd(2)]) simp_all
  moreover have "drain_loop \<lparr>inext = lhead l, idir = LIST_HEAD\<rparr> l h = Some (l', h')"
    using drain_loop_step [OF r(2,1), of LIST_HEAD] IH(1) n hd(1) by simp
  ultimately show ?case using r(2,4) by auto
qed

lemma drain_loop_tail:
  assumes "list_rep l h as"
  shows "\<exists>l' h'. drain_loop \<lparr>inext = ltail l, idir = LIST_TAIL\<rparr> l h = Some (l', h') \<and>
     drained l h as (rev (vals (hmem h) as)) l' h'"
  using assms
proof (induction as arbitrary: l h rule: rev_induct)
  case Nil
  then show ?case by (auto simp: drain_loop_done list_rep_def intro!: drained_Nil)
next
  case (snoc a as)
  have tl: "ltail l = Some a" "a \<notin> set as" using snoc.prems by (simp_all add: list_rep_def)
  obtain l1 h1 n where r: "lamb_list_remove l (Some a) h = Some (l1, h1)" "hmem h a = Some n"
      "list_rep l1 h1 as" "vals (hmem h1) as = vals (hmem h) as" "hmem h1 a = None"
      "hfreed h1 = hfreed h @ (if lfree l then [nval n] else [])"
      "lfree l1 = lfree l" "lmatch l1 = lmatch l" "hquota h1 = Suc (hquota h)"
      "\<forall>b. b \<notin> insert a (set as) \<longrightarrow> hmem h1 b = hmem h b"
    using lamb_list_remove_rep [of l h as a "[]"] snoc.prems by auto
  have n: "nprev n = ltail l1" using snoc.prems r(2,3) by (auto simp: list_rep_def)
  obtain l' h' where IH: "drain_loop \<lparr>inext = ltail l1, idir = LIST_TAIL\<rparr> l1 h1 = Some (l', h')"
      "drained l1 h1 as (rev (vals (hmem h1) as)) l' h'"
    using snoc.IH [OF r(3)] by blast
  have "drained l h (as @ [a]) (nval n # rev (vals (hmem h1) as)) l' h'"
    by (rule drained_step [OF r(2,5,6,7,8,9,10) IH(2) tl(2)]) simp_all
  moreover have "drain_loop \<lparr>inext = ltail l, idir = LIST_TAIL\<rparr> l h = Some (l', h')"
    using drain_loop_step [OF r(2,1), of LIST_TAIL] IH(1) n tl(1) by simp
  ultimately show ?case using r(2,4) by auto
qed

lemma destroy_loop_rep:
  assumes "dseg (hmem h) p as None" and "distinct as"
  shows "\<exists>h'. destroy_loop (length as) cb (hd_or None as) h = Some h' \<and>
     (\<forall>a \<in> set as. hmem h' a = None) \<and> (\<forall>b. b \<notin> set as \<longrightarrow> hmem h' b = hmem h b) \<and>
     hfreed h' = hfreed h @ (if cb then vals (hmem h) as else []) \<and>
     hquota h' = hquota h + length as"
  using assms
proof (induction as arbitrary: h p)
  case Nil
  then show ?case by simp
next
  case (Cons a as)
  then obtain v where a: "hmem h a = Some \<lparr>nprev = p, nnext = hd_or None as, nval = v\<rparr>"
    and seg: "dseg (hmem h) (Some a) as None" and d: "a \<notin> set as" "distinct as" by auto
  let ?h = "(note_freed cb v h)\<lparr>hmem := (hmem h)(a := None), hquota := Suc (hquota h)\<rparr>"
  have "dseg (hmem ?h) (Some a) as None" using seg d by simp
  from Cons.IH [OF this d(2)] show ?case using a d by auto
qed

lemma lamb_list_destroy_rep:
  assumes "list_rep l h as"
  shows "\<exists>h'. lamb_list_destroy l h = Some h' \<and>
     (\<forall>a \<in> set as. hmem h' a = None) \<and> (\<forall>b. b \<notin> set as \<longrightarrow> hmem h' b = hmem h b) \<and>
     hfreed h' = hfreed h @ (if lfree l then vals (hmem h) as else []) \<and>
     hquota h' = hquota h + length as + 1"
proof -
  have "dseg (hmem h) None as None" "distinct as" "unat (llen l) = length as"
      "lhead l = hd_or None as"
    using assms by (auto simp: list_rep_def)
  then show ?thesis
    using destroy_loop_rep [of h None as "lfree l"] by (auto simp: lamb_list_destroy_def)
qed

subsection \<open>Allocation\<close>

lemma heap_wf_fresh: "heap_wf h \<Longrightarrow> hmem h (hbrk h) = None"
  by (auto simp: heap_wf_def)

lemma list_rep_bound:
  assumes "list_rep l h as" and "heap_wf h"
  shows "hbrk h \<notin> set as"
proof
  assume "hbrk h \<in> set as"
  with assms(1) obtain n where "hmem h (hbrk h) = Some n"
    using dseg_mapped by (fastforce simp: list_rep_def)
  with heap_wf_fresh [OF assms(2)] show False by simp
qed

lemma list_rep_cong:
  assumes "list_rep l h as" and "\<And>a. a \<in> set as \<Longrightarrow> hmem h' a = hmem h a"
  shows "list_rep l h' as" and "vals (hmem h') as = vals (hmem h) as"
  using assms dseg_cong [of as "hmem h'" "hmem h" None None] vals_cong [of as "hmem h'" "hmem h"]
  by (auto simp: list_rep_def)

lemma lamb_node_new_simps:
  "hquota h = 0 \<Longrightarrow> lamb_node_new v h = (None, h)"
  "hquota h \<noteq> 0 \<Longrightarrow> lamb_node_new v h =
     (Some (hbrk h), h\<lparr>hbrk := Suc (hbrk h), hquota := hquota h - 1,
        hmem := (hmem h)(hbrk h \<mapsto> \<lparr>nprev = None, nnext = None, nval = v\<rparr>)\<rparr>)"
  by (simp_all add: lamb_node_new_def malloc_def)

end
