(* ===== verification/Queue.thy ===== *)
theory Queue
  imports HeapListRep
begin

text \<open>
  The message queue of \<open>src/src/queue.c\<close>: an identifier and a pointer list, on the heap of
  HeapList. \<open>queue_take\<close> is the consumers' idiom around \<open>lamb_queue_pop\<close>: pop a node, read
  its value, free the node.

  The locale \<open>fifo\<close> is the contract the brokers rely on; its consequences for whole runs
  are proved once, and the heap queue is an instance of it.
\<close>

subsection \<open>Operations\<close>

record ('k, 'v) queue =
  qid :: int
  qlist :: "('k, 'v) clist option"

definition lamb_queue_new :: "int \<Rightarrow> 'v heap \<Rightarrow> ('k, 'v) queue option \<times> 'v heap" where
  "lamb_queue_new i h =
     (if hquota h = 0 then (None, h)
      else case lamb_list_new (h\<lparr>hquota := hquota h - 1\<rparr>) of
             (Some l, h1) \<Rightarrow> (Some \<lparr>qid = i, qlist = Some l\<rparr>, h1)
           | (None, h1) \<Rightarrow> (None, h1\<lparr>hquota := Suc (hquota h1)\<rparr>))"

definition lamb_queue_push ::
  "('k, 'v) queue option \<Rightarrow> 'v \<Rightarrow> 'v heap \<Rightarrow>
   (addr option \<times> ('k, 'v) queue option \<times> 'v heap) option" where
  "lamb_queue_push qp v h =
     (case qp of
        None \<Rightarrow> Some (None, None, h)
      | Some q \<Rightarrow>
          (case qlist q of
             None \<Rightarrow> Some (None, Some q, h)
           | Some l \<Rightarrow> do {
               let (node, h1) = lamb_node_new v h;
               (r, l', h2) \<leftarrow> lamb_list_rpush l node h1;
               Some (r, Some (q\<lparr>qlist := Some l'\<rparr>), h2) }))"

definition lamb_queue_pop ::
  "('k, 'v) queue option \<Rightarrow> 'v heap \<Rightarrow>
   (addr option \<times> ('k, 'v) queue option \<times> 'v heap) option" where
  "lamb_queue_pop qp h =
     (case qp of
        None \<Rightarrow> Some (None, None, h)
      | Some q \<Rightarrow>
          (case qlist q of
             None \<Rightarrow> Some (None, Some q, h)
           | Some l \<Rightarrow> do {
               (r, l', h1) \<leftarrow> lamb_list_lpop l h;
               Some (r, Some (q\<lparr>qlist := Some l'\<rparr>), h1) }))"

definition lamb_queue_compare :: "int \<Rightarrow> ('k, 'v) queue option \<Rightarrow> bool" where
  "lamb_queue_compare i qp = (case qp of None \<Rightarrow> False | Some q \<Rightarrow> qid q = i)"

definition lamb_queue_destroy ::
  "('k, 'v) queue option \<Rightarrow> 'v heap \<Rightarrow> (('k, 'v) queue option \<times> 'v heap) option" where
  "lamb_queue_destroy qp h =
     (case qp of
        None \<Rightarrow> Some (None, h)
      | Some q \<Rightarrow> do {
          l \<leftarrow> qlist q;
          h1 \<leftarrow> lamb_list_destroy l h;
          Some (Some (q\<lparr>qid := 0\<rparr>), h1) })"

definition queue_take ::
  "('k, 'v) queue option \<times> 'v heap \<Rightarrow> ('v option \<times> ('k, 'v) queue option \<times> 'v heap) option" where
  "queue_take s = do {
     (node, q1, h1) \<leftarrow> lamb_queue_pop (fst s) (snd s);
     (case node of
        None \<Rightarrow> Some (None, q1, h1)
      | Some a \<Rightarrow> do {
          n \<leftarrow> hmem h1 a;
          h2 \<leftarrow> free_node h1 (Some a);
          Some (Some (nval n), q1, h2) }) }"

definition queue_put ::
  "'v \<Rightarrow> ('k, 'v) queue option \<times> 'v heap \<Rightarrow> (bool \<times> ('k, 'v) queue option \<times> 'v heap) option" where
  "queue_put v s = do {
     (node, q1, h1) \<leftarrow> lamb_queue_push (fst s) v (snd s);
     Some (node \<noteq> None, q1, h1) }"

subsection \<open>The contract of a queue\<close>

datatype 'v qop = Put 'v | Take

text \<open>
  A run of puts and takes: the values that were accepted, the values that were handed out,
  and the last state.
\<close>

primrec fifo_run ::
  "('v \<Rightarrow> 's \<Rightarrow> (bool \<times> 's) option) \<Rightarrow> ('s \<Rightarrow> ('v option \<times> 's) option) \<Rightarrow>
   'v qop list \<Rightarrow> 's \<Rightarrow> ('v list \<times> 'v list \<times> 's) option" where
  "fifo_run put get [] s = Some ([], [], s)"
| "fifo_run put get (x # xs) s =
     (case x of
        Put v \<Rightarrow> do {
          (ok, s1) \<leftarrow> put v s;
          (acc, out, s2) \<leftarrow> fifo_run put get xs s1;
          Some ((if ok then v # acc else acc), out, s2) }
      | Take \<Rightarrow> do {
          (r, s1) \<leftarrow> get s;
          (acc, out, s2) \<leftarrow> fifo_run put get xs s1;
          Some (acc, (case r of None \<Rightarrow> out | Some v \<Rightarrow> v # out), s2) })"

locale fifo =
  fixes inv :: "'s \<Rightarrow> bool"
    and items :: "'s \<Rightarrow> 'v list"
    and room :: "'s \<Rightarrow> bool"
    and put :: "'v \<Rightarrow> 's \<Rightarrow> (bool \<times> 's) option"
    and get :: "'s \<Rightarrow> ('v option \<times> 's) option"
  assumes put_room: "inv s \<Longrightarrow> room s \<Longrightarrow> \<exists>s'. put v s = Some (True, s') \<and> inv s' \<and> items s' = items s @ [v]"
    and put_full: "inv s \<Longrightarrow> \<not> room s \<Longrightarrow> put v s = Some (False, s)"
    and get_empty: "inv s \<Longrightarrow> items s = [] \<Longrightarrow> get s = Some (None, s)"
    and get_first: "inv s \<Longrightarrow> items s = v # vs \<Longrightarrow> \<exists>s'. get s = Some (Some v, s') \<and> inv s' \<and> items s' = vs"
begin

lemma put_total: "inv s \<Longrightarrow> \<exists>ok s'. put v s = Some (ok, s') \<and> inv s' \<and> items s' = items s @ (if ok then [v] else [])"
  using put_room [of s v] put_full [of s v] by (cases "room s") auto

lemma get_total:
  assumes "inv s"
  shows "\<exists>r s'. get s = Some (r, s') \<and> inv s' \<and> items s = (case r of None \<Rightarrow> [] | Some v \<Rightarrow> [v]) @ items s'"
  using assms get_empty [of s] get_first [of s] by (cases "items s") fastforce+

lemma run_order:
  assumes "inv s"
  shows "\<exists>acc out s'. fifo_run put get xs s = Some (acc, out, s') \<and> inv s' \<and>
     items s @ acc = out @ items s'"
  using assms
proof (induction xs arbitrary: s)
  case Nil
  then show ?case by simp
next
  case (Cons x xs)
  show ?case
  proof (cases x)
    case (Put v)
    obtain ok s1 where p: "put v s = Some (ok, s1)" "inv s1" "items s1 = items s @ (if ok then [v] else [])"
      using put_total [OF Cons.prems] by blast
    then obtain acc out s2 where "fifo_run put get xs s1 = Some (acc, out, s2)" "inv s2"
        "items s1 @ acc = out @ items s2"
      using Cons.IH by blast
    with p Put show ?thesis by auto
  next
    case Take
    obtain r s1 where t: "get s = Some (r, s1)" "inv s1"
        "items s = (case r of None \<Rightarrow> [] | Some v \<Rightarrow> [v]) @ items s1"
      using get_total [OF Cons.prems] by blast
    then obtain acc out s2 where "fifo_run put get xs s1 = Some (acc, out, s2)" "inv s2"
        "items s1 @ acc = out @ items s2"
      using Cons.IH by blast
    with t Take show ?thesis by (auto split: option.split)
  qed
qed

lemma run_first_in_first_out:
  assumes "inv s" and "items s = []" and "fifo_run put get xs s = Some (acc, out, s')"
  shows "out = take (length out) acc" and "items s' = drop (length out) acc"
  using run_order [OF assms(1), of xs] assms(2,3) by auto

end

subsection \<open>The heap queue meets the contract\<close>

primrec node_addrs :: "nat \<Rightarrow> addr option \<Rightarrow> 'v heap \<Rightarrow> addr list" where
  "node_addrs 0 p h = []"
| "node_addrs (Suc k) p h =
     (case p of
        None \<Rightarrow> []
      | Some a \<Rightarrow> (case hmem h a of None \<Rightarrow> [] | Some n \<Rightarrow> a # node_addrs k (nnext n) h))"

definition queue_items :: "('k, 'v) queue option \<times> 'v heap \<Rightarrow> 'v list" where
  "queue_items s =
     (case fst s of
        None \<Rightarrow> []
      | Some q \<Rightarrow>
          (case qlist q of
             None \<Rightarrow> []
           | Some l \<Rightarrow> vals (hmem (snd s)) (node_addrs (unat (llen l)) (lhead l) (snd s))))"

text \<open>
  The invariant of a queue in use: its list is well formed, the heap is, and memory holds
  fewer than \<open>2 ^ 32\<close> nodes, so the length field cannot wrap.
\<close>

definition queue_inv :: "('k, 'v) queue option \<times> 'v heap \<Rightarrow> bool" where
  "queue_inv s \<longleftrightarrow>
     (\<exists>q l as. fst s = Some q \<and> qlist q = Some l \<and> list_rep l (snd s) as \<and>
        heap_wf (snd s) \<and> hquota (snd s) + length as < 2 ^ 32)"

definition queue_room :: "('k, 'v) queue option \<times> 'v heap \<Rightarrow> bool" where
  "queue_room s \<longleftrightarrow> hquota (snd s) \<noteq> 0"

lemma node_addrs_seg: "dseg (hmem h) p as None \<Longrightarrow> node_addrs (length as) (hd_or None as) h = as"
  by (induction as arbitrary: p) auto

lemma node_addrs_rep: "list_rep l h as \<Longrightarrow> node_addrs (unat (llen l)) (lhead l) h = as"
  using node_addrs_seg by (auto simp: list_rep_def)

lemma queue_invE:
  assumes "queue_inv s"
  obtains q l as h where "s = (Some q, h)" "qlist q = Some l" "list_rep l h as" "heap_wf h"
    "hquota h + length as < 2 ^ 32" "queue_items s = vals (hmem h) as"
  using assms by (cases s) (auto simp: queue_inv_def queue_items_def node_addrs_rep)

lemma queue_invI:
  assumes "qlist q = Some l" "list_rep l h as" "heap_wf h" "hquota h + length as < 2 ^ 32"
  shows "queue_inv (Some q, h)" and "queue_items (Some q, h) = vals (hmem h) as"
  using assms by (auto simp: queue_inv_def queue_items_def node_addrs_rep)

lemma queue_put_full:
  assumes "queue_inv s" and "\<not> queue_room s"
  shows "queue_put v s = Some (False, s)"
proof -
  from assms(1) obtain q l as h where "s = (Some q, h)" "qlist q = Some l"
    by (rule queue_invE)
  with assms(2) show ?thesis
    by (cases q) (simp add: queue_put_def lamb_queue_push_def queue_room_def lamb_node_new_simps)
qed

lemma queue_put_room:
  assumes inv: "queue_inv s" and room: "queue_room s"
  shows "\<exists>s'. queue_put v s = Some (True, s') \<and> queue_inv s' \<and> queue_items s' = queue_items s @ [v]"
proof -
  from inv obtain q l as h where s: "s = (Some q, h)" and q: "qlist q = Some l"
    and rep: "list_rep l h as" and wf: "heap_wf h" and cap: "hquota h + length as < 2 ^ 32"
    and it: "queue_items s = vals (hmem h) as" by (rule queue_invE)
  have mem: "hquota h \<noteq> 0" using room s by (simp add: queue_room_def)
  let ?a = "hbrk h" and ?n = "\<lparr>nprev = None, nnext = None, nval = v\<rparr>"
  let ?h = "h\<lparr>hbrk := Suc ?a, hquota := hquota h - 1, hmem := (hmem h)(?a \<mapsto> ?n)\<rparr>"
  have new: "?a \<notin> set as" by (rule list_rep_bound [OF rep wf])
  have rep1: "list_rep l ?h as" and vs1: "vals (hmem ?h) as = vals (hmem h) as"
    by (rule list_rep_cong [OF rep], use new in auto)+
  have room1: "length as + 1 < 2 ^ 32" using cap mem by simp
  obtain l' h' where p: "lamb_list_rpush l (Some ?a) ?h = Some (Some ?a, l', h')"
      "list_rep l' h' (as @ [?a])" "vals (hmem h') (as @ [?a]) = vals (hmem ?h) as @ [v]"
      "hquota h' = hquota h - 1" "hbrk h' = Suc ?a" "dom (hmem h') = dom (hmem ?h)"
    using lamb_list_rpush_rep [OF rep1 _ new room1, of ?n] by auto
  have wf': "heap_wf h'" using wf p(5,6) by (auto simp: heap_wf_def less_Suc_eq)
  have cap': "hquota h' + length (as @ [?a]) < 2 ^ 32" using cap mem p(4) by simp
  note inv' = queue_invI [of "q\<lparr>qlist := Some l'\<rparr>", OF _ p(2) wf' cap', simplified]
  have "queue_put v s = Some (True, Some (q\<lparr>qlist := Some l'\<rparr>), h')"
    using s q mem p(1) by (simp add: queue_put_def lamb_queue_push_def lamb_node_new_simps)
  with inv' p(3) vs1 it show ?thesis by auto
qed

lemma queue_take_empty:
  assumes "queue_inv s" and "queue_items s = []"
  shows "queue_take s = Some (None, s)"
proof -
  from assms(1) obtain q l as h where s: "s = (Some q, h)" and q: "qlist q = Some l"
    and rep: "list_rep l h as" and it: "queue_items s = vals (hmem h) as" by (rule queue_invE)
  have "as = []" using assms(2) it by (simp add: vals_def)
  then show ?thesis using s q rep lamb_list_lpop_empty [of l h]
    by (cases q) (simp add: queue_take_def lamb_queue_pop_def)
qed

lemma queue_take_first:
  assumes inv: "queue_inv s" and items: "queue_items s = v # vs"
  shows "\<exists>s'. queue_take s = Some (Some v, s') \<and> queue_inv s' \<and> queue_items s' = vs"
proof -
  from inv obtain q l as h where s: "s = (Some q, h)" and q: "qlist q = Some l"
    and rep: "list_rep l h as" and wf: "heap_wf h" and cap: "hquota h + length as < 2 ^ 32"
    and it: "queue_items s = vals (hmem h) as" by (rule queue_invE)
  obtain a bs where as: "as = a # bs" using items it by (cases as) auto
  obtain l' h' n where p: "lamb_list_lpop l h = Some (Some a, l', h')" "list_rep l' h' bs"
      "vals (hmem h') bs = vals (hmem h) bs"
      "hmem h' a = Some \<lparr>nprev = None, nnext = None, nval = nval n\<rparr>" "hmem h a = Some n"
      "hquota h' = hquota h" "hbrk h' = hbrk h" "dom (hmem h') = dom (hmem h)"
    using lamb_list_lpop_rep [of l h a bs] rep as by auto
  let ?h = "h'\<lparr>hmem := (hmem h')(a := None), hquota := Suc (hquota h')\<rparr>"
  have notin: "a \<notin> set bs" using rep as by (simp add: list_rep_def)
  have rep': "list_rep l' ?h bs" and vs': "vals (hmem ?h) bs = vals (hmem h') bs"
    by (rule list_rep_cong [OF p(2)], use notin in auto)+
  have wf': "heap_wf ?h" using wf p(7,8) by (auto simp: heap_wf_def)
  have cap': "hquota ?h + length bs < 2 ^ 32" using cap as p(6) by simp
  note inv' = queue_invI [of "q\<lparr>qlist := Some l'\<rparr>", OF _ rep' wf' cap', simplified]
  have "queue_take s = Some (Some (nval n), Some (q\<lparr>qlist := Some l'\<rparr>), ?h)"
    using s q p(1,4) by (simp add: queue_take_def lamb_queue_pop_def)
  moreover have "nval n = v" "vals (hmem h) bs = vs" using items it as p(5) by auto
  ultimately show ?thesis using inv' vs' p(3) by auto
qed

interpretation hq: fifo queue_inv queue_items queue_room queue_put queue_take
  by unfold_locales
    (fact queue_put_room queue_put_full queue_take_empty queue_take_first)+

lemma lamb_queue_new_inv:
  fixes h :: "'v heap"
  assumes "heap_wf h" and "2 \<le> hquota h" and "hquota h < 2 ^ 32"
  shows "\<exists>(q :: ('k, 'v) queue) h'. lamb_queue_new i h = (Some q, h') \<and> qid q = i \<and>
     queue_inv (Some q, h') \<and> queue_items (Some q, h') = []"
proof -
  let ?l = "\<lparr>lhead = None, ltail = None, llen = 0, lfree = False, lmatch = None\<rparr> :: ('k, 'v) clist"
  let ?h = "h\<lparr>hquota := hquota h - 1 - 1\<rparr>"
  have "lamb_queue_new i h = (Some \<lparr>qid = i, qlist = Some ?l\<rparr>, ?h)"
    using assms(2) by (simp add: lamb_queue_new_def lamb_list_new_def)
  moreover have "list_rep ?l ?h []" by (simp add: list_rep_def)
  moreover have "heap_wf ?h" using assms(1) by (simp add: heap_wf_def)
  ultimately show ?thesis
    using queue_invI [of "\<lparr>qid = i, qlist = Some ?l\<rparr>" ?l ?h "[]"] assms(3) by auto
qed

end
