(* ===== verification/Wire.thy ===== *)
theory Wire
  imports Prelude "HOL-Library.Monad_Syntax"
begin

text \<open>
  The frames the processes exchange (\<open>src/src/socket.c\<close>, \<open>socket.h\<close>, \<open>common.h\<close>): a command
  of four bytes in network order and a protobuf body. The protobuf functions, generated from
  \<open>script/*.proto\<close>, and the sockets of the nanomsg library are parameters. The socket calls
  run against an environment that answers the call made at each tick of a counter, and the
  state records the sockets that are open and what was sent on them.
\<close>

subsection \<open>Commands\<close>

definition LAMB_SUBMIT :: u32 where "LAMB_SUBMIT = 1"
definition LAMB_DELIVER :: u32 where "LAMB_DELIVER = 2"
definition LAMB_REPORT :: u32 where "LAMB_REPORT = 3"
definition LAMB_UPDATE :: u32 where "LAMB_UPDATE = 4"
definition LAMB_MESSAGE :: u32 where "LAMB_MESSAGE = 5"

definition LAMB_OK :: u32 where "LAMB_OK = push_bit 1 1"
definition LAMB_REQ :: u32 where "LAMB_REQ = push_bit 2 1"
definition LAMB_BYE :: u32 where "LAMB_BYE = push_bit 3 1"
definition LAMB_PUSH :: u32 where "LAMB_PUSH = push_bit 4 1"
definition LAMB_PULL :: u32 where "LAMB_PULL = push_bit 5 1"
definition LAMB_EMPTY :: u32 where "LAMB_EMPTY = push_bit 6 1"
definition LAMB_BUSY :: u32 where "LAMB_BUSY = push_bit 7 1"
definition LAMB_REJECT :: u32 where "LAMB_REJECT = push_bit 8 1"
definition LAMB_NOROUTE :: u32 where "LAMB_NOROUTE = push_bit 9 1"
definition LAMB_REQUEST :: u32 where "LAMB_REQUEST = push_bit 10 1"
definition LAMB_RESPONSE :: u32 where "LAMB_RESPONSE = push_bit 11 1"
definition LAMB_PING :: u32 where "LAMB_PING = push_bit 12 1"
definition LAMB_TEST :: u32 where "LAMB_TEST = push_bit 13 1"

lemmas message_commands = LAMB_SUBMIT_def LAMB_DELIVER_def LAMB_REPORT_def LAMB_UPDATE_def LAMB_MESSAGE_def

lemmas control_commands = LAMB_OK_def LAMB_REQ_def LAMB_BYE_def LAMB_PUSH_def LAMB_PULL_def
  LAMB_EMPTY_def LAMB_BUSY_def LAMB_REJECT_def LAMB_NOROUTE_def LAMB_REQUEST_def
  LAMB_RESPONSE_def LAMB_PING_def LAMB_TEST_def

lemmas commands = message_commands control_commands

subsection \<open>Frames\<close>

definition HEAD :: nat where "HEAD = 4"

definition htonl :: "u32 \<Rightarrow> bytes" where
  "htonl w = map (\<lambda>k. char_of (unat (drop_bit k w))) [24, 16, 8, 0]"

definition ntohl :: "bytes \<Rightarrow> u32" where
  "ntohl bs = of_nat (foldl (\<lambda>a c. 256 * a + of_char c) 0 bs)"

definition CHECK_COMMAND :: "bytes \<Rightarrow> u32" where
  "CHECK_COMMAND buf = ntohl (take 4 buf)"

text \<open>
  \<open>lamb_pack_assembly(&buf, method, pk, len)\<close>: \<open>None\<close> when \<open>malloc\<close> fails (the call returns
  0); the returned size is the length of the buffer.
\<close>

definition lamb_pack_assembly :: "bool \<Rightarrow> u32 \<Rightarrow> bytes option \<Rightarrow> bytes option" where
  "lamb_pack_assembly mem method pk =
     (if \<not> mem then None
      else Some (htonl method @
                 (case pk of Some p \<Rightarrow> (if 0 < length p then p else []) | None \<Rightarrow> [])))"

lemma length_htonl [simp]: "length (htonl w) = 4"
  by (simp add: htonl_def)

lemma bytes_of_nat:
  assumes "n < 4294967296"
  shows "256 * (256 * (256 * (n div 16777216 mod 256) + n div 65536 mod 256) + n div 256 mod 256)
           + n mod 256 = (n :: nat)"
proof -
  have top: "n div 16777216 mod 256 = n div 16777216" using assms by simp
  have "n div 65536 div 256 = n div 16777216" by (simp flip: div_mult2_eq)
  then have a: "256 * (n div 16777216) + n div 65536 mod 256 = n div 65536"
    by (metis mult_div_mod_eq)
  have "n div 256 div 256 = n div 65536" by (simp flip: div_mult2_eq)
  then have b: "256 * (n div 65536) + n div 256 mod 256 = n div 256"
    by (metis mult_div_mod_eq)
  show ?thesis by (simp only: top a b mult_div_mod_eq)
qed

lemma ntohl_htonl [simp]: "ntohl (htonl w) = w"
proof -
  have shift: "unat (drop_bit k w) = unat w div 2 ^ k" for k
    by (simp only: unat_drop_bit_eq drop_bit_nat_def)
  have "unat w < 4294967296" using unsigned_less [of w] by simp
  then have "foldl (\<lambda>a c. 256 * a + of_char c) 0 (htonl w) = unat w"
    using bytes_of_nat [of "unat w"]
    by (simp add: htonl_def shift)
  then show ?thesis by (simp add: ntohl_def)
qed

lemma htonl_of_nat:
  assumes "n < 4294967296"
  shows "htonl (of_nat n) = [char_of (n div 16777216), char_of (n div 65536), char_of (n div 256), char_of n]"
proof -
  have "unat (of_nat n :: u32) = n" using assms by (simp add: unat_of_nat)
  then have "unat (drop_bit k (of_nat n :: u32)) = n div 2 ^ k" for k
    by (simp only: unat_drop_bit_eq drop_bit_nat_def)
  then show ?thesis by (simp add: htonl_def)
qed

lemma char_of_plus_256 [simp]: "char_of (256 * m + of_char c :: nat) = c"
proof -
  have "(256 * m + of_char c :: nat) mod 256 = of_char c" by simp
  then show ?thesis by (metis char_of_char char_of_mod_256)
qed

lemma htonl_ntohl: "length bs = 4 \<Longrightarrow> htonl (ntohl bs) = bs"
proof -
  assume "length bs = 4"
  then obtain a b c d where bs: "bs = [a, b, c, d]"
    by (auto simp: length_Suc_conv numeral_eq_Suc)
  let ?a = "of_char a :: nat" and ?b = "of_char b :: nat" and ?c = "of_char c :: nat" and ?d = "of_char d :: nat"
  let ?n = "256 * (256 * (256 * ?a + ?b) + ?c) + ?d"
  have byte: "(of_char x :: nat) < 256" for x by (metis of_char_mod_256 mod_less_divisor zero_less_numeral)
  note lt = byte [of a] byte [of b] byte [of c] byte [of d]
  have le: "256 * x + y < 256 * z" if "x < z" and "y < 256" for x y z :: nat
    using that by linarith
  have n: "?n < 4294967296"
    using le [OF le [OF le [OF lt(1,2)] lt(3)] lt(4)] by simp
  have shift: "(256 * x + y) div 256 = x" if "y < 256" for x y :: nat
    using that by simp
  have d1: "?n div 256 = 256 * (256 * ?a + ?b) + ?c" by (rule shift [OF lt(4)])
  have d2: "?n div 65536 = 256 * ?a + ?b"
  proof -
    have "?n div 65536 = ?n div 256 div 256" by (simp flip: div_mult2_eq)
    then show ?thesis by (simp only: d1 shift [OF lt(3)])
  qed
  have d3: "?n div 16777216 = ?a"
  proof -
    have "?n div 16777216 = ?n div 65536 div 256" by (simp flip: div_mult2_eq)
    then show ?thesis by (simp only: d2 shift [OF lt(2)])
  qed
  have "ntohl bs = of_nat ?n" by (simp add: ntohl_def bs)
  then show ?thesis by (simp only: htonl_of_nat [OF n] d1 d2 d3 bs char_of_plus_256 char_of_char)
qed

lemma frame_of_parts: "4 \<le> length buf \<Longrightarrow> htonl (CHECK_COMMAND buf) @ drop HEAD buf = buf"
  by (simp add: CHECK_COMMAND_def htonl_ntohl HEAD_def)

lemma CHECK_COMMAND_bare [simp]: "CHECK_COMMAND (htonl w) = w"
  by (simp add: CHECK_COMMAND_def)

lemma CHECK_COMMAND_htonl [simp]: "CHECK_COMMAND (htonl w @ p) = w"
  by (simp add: CHECK_COMMAND_def)

lemma drop_HEAD_htonl [simp]: "drop HEAD (htonl w @ p) = p"
  by (simp add: HEAD_def)

lemma lamb_pack_assembly_frame:
  assumes "lamb_pack_assembly mem method pk = Some buf"
  shows "CHECK_COMMAND buf = method" and "drop HEAD buf = (case pk of Some p \<Rightarrow> p | None \<Rightarrow> [])"
    and "HEAD \<le> length buf"
  using assms by (auto simp: lamb_pack_assembly_def HEAD_def split: if_splits option.splits)

end
