(* ===== verification/Messages.thy ===== *)
theory Messages
  imports Wire
begin

text \<open>
  The messages: as the generated protobuf structs carry them on the wire (\<open>Submit\<close>,
  \<open>Report\<close>, \<open>Deliver\<close>, \<open>Message\<close>) and as the processes keep them in memory
  (\<open>lamb_submit_t\<close>, \<open>lamb_report_t\<close>, \<open>lamb_deliver_t\<close> of \<open>src/src/common.h\<close>), with the copies
  between the two that every broker makes. A character field of the in-memory struct is the
  string read back from it; the content is the whole 160-byte array.
\<close>

record Submit =
  sb_id :: u64
  sb_account :: int
  sb_company :: int
  sb_spid :: string
  sb_spcode :: string
  sb_phone :: string
  sb_msgfmt :: int
  sb_length :: int
  sb_content :: bytes

record Report =
  rp_id :: u64
  rp_account :: int
  rp_company :: int
  rp_spcode :: string
  rp_phone :: string
  rp_status :: int
  rp_submittime :: string
  rp_donetime :: string

record Deliver =
  dl_id :: u64
  dl_account :: int
  dl_company :: int
  dl_phone :: string
  dl_spcode :: string
  dl_serviceid :: string
  dl_msgfmt :: int
  dl_length :: int
  dl_content :: bytes

record Message =
  mg_id :: u64
  mg_spid :: string
  mg_spcode :: string
  mg_phone :: string
  mg_msgfmt :: int
  mg_length :: int
  mg_content :: bytes
  mg_channel :: int

record lamb_submit_t =
  ls_id :: u64
  ls_account :: int
  ls_company :: int
  ls_spid :: string
  ls_spcode :: string
  ls_phone :: string
  ls_msgfmt :: int
  ls_length :: int
  ls_content :: bytes

record lamb_report_t =
  lr_id :: u64
  lr_account :: int
  lr_company :: int
  lr_spcode :: string
  lr_phone :: string
  lr_status :: int
  lr_submittime :: string
  lr_donetime :: string

record lamb_deliver_t =
  ld_id :: u64
  ld_account :: int
  ld_company :: int
  ld_phone :: string
  ld_spcode :: string
  ld_serviceid :: string
  ld_msgfmt :: int
  ld_length :: int
  ld_content :: bytes

text \<open>
  The queues of the mo and delivery processes hold both kinds; the leading \<open>type\<close> field
  that \<open>CHECK_TYPE\<close> reads is the constructor.
\<close>

datatype upmsg = UpReport lamb_report_t | UpDeliver lamb_deliver_t

subsection \<open>From the wire into memory\<close>

definition submit_store :: "Submit \<Rightarrow> lamb_submit_t option" where
  "submit_store p = do {
     content \<leftarrow> memcpy_z 160 (sb_content p);
     Some \<lparr>ls_id = sb_id p, ls_account = sb_account p, ls_company = sb_company p,
           ls_spid = strncpy_z 6 (sb_spid p), ls_spcode = strncpy_z 20 (sb_spcode p),
           ls_phone = strncpy_z 11 (sb_phone p), ls_msgfmt = sb_msgfmt p,
           ls_length = sb_length p, ls_content = content\<rparr> }"

definition report_store :: "Report \<Rightarrow> lamb_report_t" where
  "report_store p =
     \<lparr>lr_id = rp_id p, lr_account = rp_account p, lr_company = rp_company p,
      lr_spcode = strncpy_z 20 (rp_spcode p), lr_phone = strncpy_z 11 (rp_phone p),
      lr_status = rp_status p, lr_submittime = strncpy_z 10 (rp_submittime p),
      lr_donetime = strncpy_z 10 (rp_donetime p)\<rparr>"

definition deliver_store :: "Deliver \<Rightarrow> lamb_deliver_t option" where
  "deliver_store p = do {
     content \<leftarrow> memcpy_z 160 (dl_content p);
     Some \<lparr>ld_id = dl_id p, ld_account = dl_account p, ld_company = dl_company p,
           ld_phone = strncpy_z 11 (dl_phone p), ld_spcode = strncpy_z 20 (dl_spcode p),
           ld_serviceid = strncpy_z 10 (dl_serviceid p), ld_msgfmt = dl_msgfmt p,
           ld_length = dl_length p, ld_content = content\<rparr> }"

subsection \<open>From memory to the wire\<close>

text \<open>Packing reads \<open>length\<close> bytes of the array; a length outside it reads out of bounds.\<close>

definition content_bytes :: "int \<Rightarrow> bytes \<Rightarrow> bytes option" where
  "content_bytes n buf = (if 0 \<le> n \<and> n \<le> 160 then Some (take (nat n) buf) else None)"

definition submit_load :: "lamb_submit_t \<Rightarrow> Submit option" where
  "submit_load m = do {
     c \<leftarrow> content_bytes (ls_length m) (ls_content m);
     Some \<lparr>sb_id = ls_id m, sb_account = ls_account m, sb_company = ls_company m,
           sb_spid = ls_spid m, sb_spcode = ls_spcode m, sb_phone = ls_phone m,
           sb_msgfmt = ls_msgfmt m, sb_length = ls_length m, sb_content = c\<rparr> }"

definition report_load :: "lamb_report_t \<Rightarrow> Report" where
  "report_load r =
     \<lparr>rp_id = lr_id r, rp_account = lr_account r, rp_company = lr_company r,
      rp_spcode = lr_spcode r, rp_phone = lr_phone r, rp_status = lr_status r,
      rp_submittime = lr_submittime r, rp_donetime = lr_donetime r\<rparr>"

definition deliver_load :: "lamb_deliver_t \<Rightarrow> Deliver option" where
  "deliver_load d = do {
     c \<leftarrow> content_bytes (ld_length d) (ld_content d);
     Some \<lparr>dl_id = ld_id d, dl_account = ld_account d, dl_company = ld_company d,
           dl_phone = ld_phone d, dl_spcode = ld_spcode d, dl_serviceid = ld_serviceid d,
           dl_msgfmt = ld_msgfmt d, dl_length = ld_length d, dl_content = c\<rparr> }"

subsection \<open>What survives a broker\<close>

text \<open>
  A well-formed message fits the fields; it passes through memory unchanged. Any message
  whose content fits passes with its character fields cut to the field widths.
\<close>

definition submit_fits :: "Submit \<Rightarrow> bool" where
  "submit_fits p \<longleftrightarrow> length (sb_spid p) \<le> 6 \<and> length (sb_spcode p) \<le> 20 \<and>
     length (sb_phone p) \<le> 11 \<and> sb_length p = int (length (sb_content p)) \<and> sb_length p \<le> 160"

definition deliver_fits :: "Deliver \<Rightarrow> bool" where
  "deliver_fits p \<longleftrightarrow> length (dl_phone p) \<le> 11 \<and> length (dl_spcode p) \<le> 20 \<and>
     length (dl_serviceid p) \<le> 10 \<and> dl_length p = int (length (dl_content p)) \<and> dl_length p \<le> 160"

definition report_fits :: "Report \<Rightarrow> bool" where
  "report_fits p \<longleftrightarrow> length (rp_spcode p) \<le> 20 \<and> length (rp_phone p) \<le> 11 \<and>
     length (rp_submittime p) \<le> 10 \<and> length (rp_donetime p) \<le> 10"

lemma content_bytes_memcpy [simp]:
  "memcpy_z 160 src = Some b \<Longrightarrow> content_bytes (int (length src)) b = Some src"
  using take_memcpy_z [of 160 src b] memcpy_z_Some_iff [of 160 src] by (auto simp: content_bytes_def)

lemma submit_store_Some_iff: "(\<exists>m. submit_store p = Some m) \<longleftrightarrow> length (sb_content p) \<le> 160"
  by (auto simp: submit_store_def memcpy_z_def)

lemma deliver_store_Some_iff: "(\<exists>m. deliver_store p = Some m) \<longleftrightarrow> length (dl_content p) \<le> 160"
  by (auto simp: deliver_store_def memcpy_z_def)

lemma submit_store_load:
  assumes "submit_store p = Some m" and "sb_length p = int (length (sb_content p))"
  shows "submit_load m = Some (p\<lparr>sb_spid := strncpy_z 6 (sb_spid p),
     sb_spcode := strncpy_z 20 (sb_spcode p), sb_phone := strncpy_z 11 (sb_phone p)\<rparr>)"
  using assms by (auto simp: submit_store_def submit_load_def bind_eq_Some_conv)

lemma submit_fits_round:
  assumes "submit_fits p"
  shows "\<exists>m. submit_store p = Some m \<and> submit_load m = Some p"
proof -
  obtain m where "submit_store p = Some m"
    using submit_store_Some_iff [of p] assms by (auto simp: submit_fits_def)
  with submit_store_load [OF this] assms show ?thesis by (auto simp: submit_fits_def)
qed

lemma deliver_store_load:
  assumes "deliver_store p = Some m" and "dl_length p = int (length (dl_content p))"
  shows "deliver_load m = Some (p\<lparr>dl_phone := strncpy_z 11 (dl_phone p),
     dl_spcode := strncpy_z 20 (dl_spcode p), dl_serviceid := strncpy_z 10 (dl_serviceid p)\<rparr>)"
  using assms by (auto simp: deliver_store_def deliver_load_def bind_eq_Some_conv)

lemma deliver_fits_round:
  assumes "deliver_fits p"
  shows "\<exists>m. deliver_store p = Some m \<and> deliver_load m = Some p"
proof -
  obtain m where "deliver_store p = Some m"
    using deliver_store_Some_iff [of p] assms by (auto simp: deliver_fits_def)
  with deliver_store_load [OF this] assms show ?thesis by (auto simp: deliver_fits_def)
qed

lemma report_fits_round: "report_fits p \<Longrightarrow> report_load (report_store p) = p"
  by (simp add: report_fits_def report_load_def report_store_def)

end
