(* ===== verification/Socket.thy ===== *)
theory Socket
  imports Wire
begin

text \<open>
  The client and server side of the sockets (\<open>src/src/socket.c\<close>) and the search for a free
  port (\<open>lamb_child_server\<close> of the brokers).

  The nanomsg library is the parameter \<open>nnenv\<close>: it answers the call made at each tick. The
  state \<open>nnet\<close> records the sockets that are open, the options set on them and what was sent.
\<close>

subsection \<open>The socket library\<close>

record nnenv =
  e_socket :: "nat \<Rightarrow> int \<Rightarrow> int"
  e_connect :: "nat \<Rightarrow> int \<Rightarrow> string \<Rightarrow> int"
  e_bind :: "nat \<Rightarrow> int \<Rightarrow> string \<Rightarrow> int"
  e_send :: "nat \<Rightarrow> int \<Rightarrow> bytes \<Rightarrow> int"
  e_recv :: "nat \<Rightarrow> int \<Rightarrow> bytes option"
  e_malloc :: "nat \<Rightarrow> bool"

record nnet =
  ntick :: nat
  nsocks :: "int list"
  nopts :: "(int \<times> int) list"
  nsent :: "(int \<times> bytes) list"

definition tick :: "nnet \<Rightarrow> nnet" where
  "tick s = s\<lparr>ntick := Suc (ntick s)\<rparr>"

definition nn_socket :: "nnenv \<Rightarrow> int \<Rightarrow> nnet \<Rightarrow> int \<times> nnet" where
  "nn_socket e protocol s =
     (let fd = e_socket e (ntick s) protocol
      in (fd, if fd < 0 then tick s else (tick s)\<lparr>nsocks := fd # nsocks s\<rparr>))"

definition nn_setsockopt :: "int \<Rightarrow> int \<Rightarrow> nnet \<Rightarrow> nnet" where
  "nn_setsockopt fd timeo s = s\<lparr>nopts := (fd, timeo) # nopts s\<rparr>"

definition nn_close :: "int \<Rightarrow> nnet \<Rightarrow> nnet" where
  "nn_close fd s = s\<lparr>nsocks := remove1 fd (nsocks s)\<rparr>"

definition nn_send :: "nnenv \<Rightarrow> int \<Rightarrow> bytes \<Rightarrow> nnet \<Rightarrow> int \<times> nnet" where
  "nn_send e fd buf s =
     (let rc = e_send e (ntick s) fd buf
      in (rc, if rc < 0 then tick s else (tick s)\<lparr>nsent := nsent s @ [(fd, buf)]\<rparr>))"

definition mallocs :: "nnenv \<Rightarrow> nnet \<Rightarrow> bool \<times> nnet" where
  "mallocs e s = (e_malloc e (ntick s), tick s)"

definition NN_PAIR :: int where "NN_PAIR = 16"
definition NN_REQ :: int where "NN_REQ = 48"
definition NN_REP :: int where "NN_REP = 49"

subsection \<open>Requests and responses\<close>

record Request =
  req_id :: int
  req_type :: u32
  req_addr :: string

record Response =
  resp_id :: int
  resp_host :: string

text \<open>The generated codecs: packing a request, unpacking a response.\<close>

record codec =
  pack_req :: "Request \<Rightarrow> bytes"
  unpack_resp :: "bytes \<Rightarrow> Response option"

definition lamb_nn_connect :: "nnenv \<Rightarrow> string \<Rightarrow> int \<Rightarrow> int \<Rightarrow> nnet \<Rightarrow> int option \<times> nnet" where
  "lamb_nn_connect e host protocol timeout s =
     (let (fd, s1) = nn_socket e protocol s
      in if fd < 0 then (None, s1)
         else let s2 = nn_setsockopt fd timeout s1
              in if e_connect e (ntick s2) fd host < 0 then (None, nn_close fd (tick s2))
                 else (Some fd, tick s2))"

definition lamb_nn_request ::
  "nnenv \<Rightarrow> codec \<Rightarrow> string \<Rightarrow> Request \<Rightarrow> int \<Rightarrow> nnet \<Rightarrow> Response option \<times> nnet" where
  "lamb_nn_request e c host req timeout s =
     (let (mem, s1) = mallocs e s
      in if \<not> mem then (None, s1)
         else let (mem2, s2) = mallocs e s1
              in case lamb_pack_assembly mem2 LAMB_REQUEST (Some (pack_req c req)) of
                   None \<Rightarrow> (None, s2)
                 | Some buf \<Rightarrow>
                     (case lamb_nn_connect e host NN_REQ timeout s2 of
                        (None, s3) \<Rightarrow> (None, s3)
                      | (Some sock, s3) \<Rightarrow>
                          (let (rc, s4) = nn_send e sock buf s3
                           in if rc \<noteq> int (length buf) then (None, nn_close sock s4)
                              else (case e_recv e (ntick s4) sock of
                                      None \<Rightarrow> (None, nn_close sock (tick s4))
                                    | Some r \<Rightarrow>
                                        (if length r < 4 then (None, nn_close sock (tick s4))
                                         else if CHECK_COMMAND r \<noteq> LAMB_RESPONSE
                                           then (None, nn_close sock (tick s4))
                                         else (unpack_resp c (drop HEAD r),
                                               nn_close sock (tick s4)))))))"

definition ask_and_connect ::
  "nnenv \<Rightarrow> codec \<Rightarrow> string \<Rightarrow> Request \<Rightarrow> int \<Rightarrow> int \<Rightarrow> nnet \<Rightarrow> int \<times> nnet" where
  "ask_and_connect e c host req protocol timeout s =
     (case lamb_nn_request e c host req timeout s of
        (None, s1) \<Rightarrow> (-1, s1)
      | (Some resp, s1) \<Rightarrow>
          (case lamb_nn_connect e (resp_host resp) protocol timeout s1 of
             (None, s2) \<Rightarrow> (-1, s2)
           | (Some fd, s2) \<Rightarrow> (fd, s2)))"

definition lamb_nn_reqrep :: "nnenv \<Rightarrow> codec \<Rightarrow> string \<Rightarrow> int \<Rightarrow> int \<Rightarrow> nnet \<Rightarrow> int \<times> nnet" where
  "lamb_nn_reqrep e c host i timeout s =
     ask_and_connect e c host \<lparr>req_id = i, req_type = LAMB_PULL, req_addr = ''0.0.0.0''\<rparr> NN_REQ timeout s"

definition lamb_nn_pair :: "nnenv \<Rightarrow> codec \<Rightarrow> string \<Rightarrow> int \<Rightarrow> int \<Rightarrow> nnet \<Rightarrow> int \<times> nnet" where
  "lamb_nn_pair e c host i timeout s =
     ask_and_connect e c host \<lparr>req_id = i, req_type = LAMB_PUSH, req_addr = ''0.0.0.0''\<rparr> NN_PAIR timeout s"

definition lamb_nn_access ::
  "nnenv \<Rightarrow> codec \<Rightarrow> string \<Rightarrow> int \<Rightarrow> u32 \<Rightarrow> int \<Rightarrow> nnet \<Rightarrow> int \<times> nnet" where
  "lamb_nn_access e c host i type timeout s =
     ask_and_connect e c host \<lparr>req_id = i, req_type = type, req_addr = ''0.0.0.0''\<rparr> NN_PAIR timeout s"

definition lamb_nn_close :: "nnenv \<Rightarrow> int \<Rightarrow> nnet \<Rightarrow> nnet" where
  "lamb_nn_close e sock s =
     (let (mem, s1) = mallocs e s
      in case lamb_pack_assembly mem LAMB_BYE None of
           Some bye \<Rightarrow> nn_close sock (snd (nn_send e sock bye s1))
         | None \<Rightarrow> nn_close sock s1)"

subsection \<open>Servers and the search for a free port\<close>

definition server_addr :: "string \<Rightarrow> u16 \<Rightarrow> string" where
  "server_addr listen port = snprintf_z 128 (''tcp://'' @ listen @ '':'' @ show_nat (unat port))"

definition lamb_nn_server ::
  "nnenv \<Rightarrow> string \<Rightarrow> u16 \<Rightarrow> int \<Rightarrow> nnet \<Rightarrow> int option \<times> nnet" where
  "lamb_nn_server e listen port protocol s =
     (let (fd, s1) = nn_socket e protocol s
      in if fd < 0 then (None, s1)
         else if e_bind e (ntick s1) fd (server_addr listen port) < 0
           then (None, nn_close fd (tick s1))
         else (Some fd, tick s1))"

text \<open>
  The loop of \<open>lamb_child_server\<close> tries the next port until a server starts; the port is an
  \<open>unsigned short\<close> and wraps. The value is the socket and the port it got.
\<close>

partial_function (option) lamb_child_server ::
  "nnenv \<Rightarrow> string \<Rightarrow> u16 \<Rightarrow> int \<Rightarrow> nnet \<Rightarrow> (int \<times> u16 \<times> nnet) option" where
  "lamb_child_server e host port protocol s =
     (case lamb_nn_server e host port protocol s of
        (Some fd, s1) \<Rightarrow> Some (fd, port, s1)
      | (None, s1) \<Rightarrow> lamb_child_server e host (port + 1) protocol s1)"

subsection \<open>No socket is leaked\<close>

lemma nsocks_simps [simp]:
  "nsocks (tick s) = nsocks s"
  "nsocks (nn_setsockopt fd t s) = nsocks s"
  "nsocks (nn_close fd s) = remove1 fd (nsocks s)"
  "nsocks (snd (nn_send e fd buf s)) = nsocks s"
  "nsocks (snd (mallocs e s)) = nsocks s"
  by (simp_all add: tick_def nn_setsockopt_def nn_close_def nn_send_def mallocs_def Let_def)

lemma nsent_simps [simp]:
  "nsent (tick s) = nsent s"
  "nsent (nn_setsockopt fd t s) = nsent s"
  "nsent (nn_close fd s) = nsent s"
  "nsent (snd (mallocs e s)) = nsent s"
  "nsent (snd (nn_socket e p s)) = nsent s"
  by (simp_all add: tick_def nn_setsockopt_def nn_close_def mallocs_def nn_socket_def Let_def)

lemma lamb_nn_connect_socks:
  assumes "lamb_nn_connect e host p t s = (r, s')"
  shows "nsocks s' = (case r of None \<Rightarrow> nsocks s | Some fd \<Rightarrow> fd # nsocks s)" and "nsent s' = nsent s"
    and "r = Some fd \<Longrightarrow> 0 \<le> fd"
  using assms by (auto simp: lamb_nn_connect_def nn_socket_def Let_def split: if_splits)

lemma lamb_nn_server_socks:
  assumes "lamb_nn_server e host port p s = (r, s')"
  shows "nsocks s' = (case r of None \<Rightarrow> nsocks s | Some fd \<Rightarrow> fd # nsocks s)"
  using assms by (auto simp: lamb_nn_server_def nn_socket_def Let_def split: if_splits)

lemma lamb_nn_request_cases:
  assumes "lamb_nn_request e c host req t s = (r, s')"
  shows "nsocks s' = nsocks s"
    and "r \<noteq> None \<Longrightarrow> \<exists>sock k. nsent s' = nsent s @ [(sock, htonl LAMB_REQUEST @ pack_req c req)] \<and>
      (\<exists>b. e_recv e k sock = Some b \<and> 4 \<le> length b \<and> CHECK_COMMAND b = LAMB_RESPONSE \<and>
         r = unpack_resp c (drop HEAD b))"
proof -
  obtain m s1 where 1: "mallocs e s = (m, s1)" by fastforce
  obtain m2 s2 where 2: "mallocs e s1 = (m2, s2)" by fastforce
  obtain q s3 where 3: "lamb_nn_connect e host NN_REQ t s2 = (q, s3)" by fastforce
  have s12: "nsocks s2 = nsocks s" "nsocks s1 = nsocks s" "nsent s2 = nsent s"
    using 1 2 by (auto simp: mallocs_def)
  note c = lamb_nn_connect_socks [OF 3]
  let ?buf = "htonl LAMB_REQUEST @ pack_req c req"
  have buf: "lamb_pack_assembly m2 LAMB_REQUEST (Some (pack_req c req)) = (if m2 then Some ?buf else None)"
    by (simp add: lamb_pack_assembly_def)
  show "nsocks s' = nsocks s"
    using assms 1 2 3 s12 c(1)
    by (auto simp: lamb_nn_request_def Let_def buf nn_send_def split: if_splits option.splits)
  show "\<exists>sock k. nsent s' = nsent s @ [(sock, ?buf)] \<and>
      (\<exists>b. e_recv e k sock = Some b \<and> 4 \<le> length b \<and> CHECK_COMMAND b = LAMB_RESPONSE \<and>
         r = unpack_resp c (drop HEAD b))" if "r \<noteq> None"
  proof -
    from that assms 1 2 3 obtain sock where "q = Some sock"
      by (auto simp: lamb_nn_request_def Let_def buf split: if_splits option.splits)
    with that assms 1 2 3 s12 c(2) show ?thesis
      by (auto simp: lamb_nn_request_def Let_def buf nn_send_def not_less
          split: if_splits option.splits) metis
  qed
qed

lemma ask_and_connect_socks:
  assumes "ask_and_connect e c host req p t s = (fd, s')"
  shows "fd = -1 \<and> nsocks s' = nsocks s \<or> 0 \<le> fd \<and> nsocks s' = fd # nsocks s"
proof -
  obtain r s1 where r: "lamb_nn_request e c host req t s = (r, s1)" by fastforce
  note r' = lamb_nn_request_cases(1) [OF r]
  show ?thesis
  proof (cases r)
    case None
    then show ?thesis using assms r r' by (simp add: ask_and_connect_def)
  next
    case (Some resp)
    obtain q s2 where q: "lamb_nn_connect e (resp_host resp) p t s1 = (q, s2)" by fastforce
    show ?thesis using assms r r' q Some lamb_nn_connect_socks [OF q]
      by (cases q) (auto simp: ask_and_connect_def)
  qed
qed

lemma lamb_nn_close_closes: "nsocks (lamb_nn_close e fd s) = remove1 fd (nsocks s)"
  by (auto simp: lamb_nn_close_def mallocs_def lamb_pack_assembly_def Let_def)

subsection \<open>The port search ends at the first free port\<close>

definition answers_ports :: "nnenv \<Rightarrow> string \<Rightarrow> int \<Rightarrow> (u16 \<Rightarrow> bool) \<Rightarrow> bool" where
  "answers_ports e host protocol free \<longleftrightarrow>
     (\<forall>t. 0 \<le> e_socket e t protocol) \<and>
     (\<forall>t fd p. 0 \<le> e_bind e t fd (server_addr host p) \<longleftrightarrow> free p)"

lemma lamb_nn_server_free:
  assumes "answers_ports e host proto free"
  shows "free p \<Longrightarrow> \<exists>fd s'. lamb_nn_server e host p proto s = (Some fd, s') \<and> nsocks s' = fd # nsocks s"
    and "\<not> free p \<Longrightarrow> \<exists>s'. lamb_nn_server e host p proto s = (None, s') \<and> nsocks s' = nsocks s"
  using assms by (auto simp: lamb_nn_server_def nn_socket_def Let_def answers_ports_def linorder_not_less
      linorder_not_le [symmetric])

lemma lamb_child_server_search:
  assumes env: "answers_ports e host proto free" and "free (p + of_nat d)" and "\<forall>k < d. \<not> free (p + of_nat k)"
  shows "\<exists>fd s'. lamb_child_server e host p proto s = Some (fd, p + of_nat d, s') \<and>
     nsocks s' = fd # nsocks s"
  using assms(2,3)
proof (induction d arbitrary: p s)
  case 0
  then obtain fd s' where "lamb_nn_server e host p proto s = (Some fd, s')" "nsocks s' = fd # nsocks s"
    using lamb_nn_server_free(1) [OF env, of p s] by auto
  then show ?case by (subst lamb_child_server.simps) simp
next
  case (Suc d)
  have "\<not> free p" using Suc.prems(2) [rule_format, of 0] by simp
  then obtain s1 where s1: "lamb_nn_server e host p proto s = (None, s1)" "nsocks s1 = nsocks s"
    using lamb_nn_server_free(2) [OF env] by blast
  have "free (p + 1 + of_nat d)" "\<forall>k < d. \<not> free (p + 1 + of_nat k)"
    using Suc.prems(1) Suc.prems(2) [rule_format, of "Suc k" for k] by (auto simp: ac_simps)
  from Suc.IH [OF this, of s1] s1 show ?case
    by (subst lamb_child_server.simps) (simp add: ac_simps)
qed

lemma lamb_child_server_returned:
  assumes "lamb_child_server e host p proto s = Some r"
  shows "answers_ports e host proto free \<longrightarrow> free (fst (snd r))"
proof (rule lamb_child_server.raw_induct [where P = "\<lambda>e host p proto s r.
      answers_ports e host proto free \<longrightarrow> free (fst (snd r))", OF _ assms])
  fix f :: "nnenv \<Rightarrow> string \<Rightarrow> u16 \<Rightarrow> int \<Rightarrow> nnet \<Rightarrow> (int \<times> u16 \<times> nnet) option" and e host p proto s r
  assume ih: "\<And>e host p proto s r. f e host p proto s = Some r \<Longrightarrow>
      answers_ports e host proto free \<longrightarrow> free (fst (snd r))"
    and body: "(case lamb_nn_server e host p proto s of
        (None, s1) \<Rightarrow> f e host (p + 1) proto s1
      | (Some fd, s1) \<Rightarrow> Some (fd, p, s1)) = Some r"
  obtain q s1 where q: "lamb_nn_server e host p proto s = (q, s1)" by fastforce
  show "answers_ports e host proto free \<longrightarrow> free (fst (snd r))"
  proof (cases q)
    case None
    then show ?thesis using ih body q by auto
  next
    case (Some fd)
    then have "r = (fd, p, s1)" using body q by simp
    then show ?thesis using lamb_nn_server_free(2) [of e host proto free p s] q Some by auto
  qed
qed

lemma lamb_child_server_none:
  assumes "answers_ports e host proto free" and "\<forall>p. \<not> free p"
  shows "lamb_child_server e host p proto s = None"
  using lamb_child_server_returned [of e host p proto s _ free] assms
  by (cases "lamb_child_server e host p proto s") auto

end
