(* ===== verification/Pool.thy ===== *)
theory Pool
  imports Queue Messages Socket
begin

text \<open>
  The pool of client queues the brokers keep (the \<open>pool\<close> and \<open>gateway\<close> lists of
  \<open>src/src/mt.c\<close>, \<open>mo.c\<close>, \<open>scheduler.c\<close>, \<open>delivery.c\<close>).

  The pool is at the level of values: \<open>pqueues\<close> are the queues that were created, each
  with its contents (the list queue refines, by the contract proved in Queue), and
  \<open>plist\<close> is the C list of pointers to them, in its order. A queue pointer is the position
  in \<open>pqueues\<close>; queues are never freed.

  The locale \<open>client_queues\<close> is what the message loops rely on.
\<close>

record 'm bqueue =
  bq_id :: int
  bq_items :: "'m list"

record 'm pool =
  pqueues :: "'m bqueue list"
  plist :: "nat list"

definition empty_pool :: "'m pool" where
  "empty_pool = \<lparr>pqueues = [], plist = []\<rparr>"

definition pool_find :: "int \<Rightarrow> 'm pool \<Rightarrow> nat option" where
  "pool_find i P = find (\<lambda>k. bq_id (pqueues P ! k) = i) (plist P)"

text \<open>
  Creating a queue: \<open>qmem\<close> says whether \<open>lamb_queue_new\<close> got its memory, \<open>nmem\<close> whether the
  list node did. Without the node the queue exists but is in nobody else's reach.
\<close>

definition pool_create :: "bool \<Rightarrow> bool \<Rightarrow> int \<Rightarrow> 'm pool \<Rightarrow> nat option \<times> 'm pool" where
  "pool_create qmem nmem i P =
     (if \<not> qmem then (None, P)
      else let k = length (pqueues P);
               P1 = P\<lparr>pqueues := pqueues P @ [\<lparr>bq_id = i, bq_items = []\<rparr>]\<rparr>
           in (Some k, if nmem then P1\<lparr>plist := plist P1 @ [k]\<rparr> else P1))"

definition client_queue :: "bool \<Rightarrow> bool \<Rightarrow> int \<Rightarrow> 'm pool \<Rightarrow> nat option \<times> 'm pool" where
  "client_queue qmem nmem i P =
     (case pool_find i P of
        Some k \<Rightarrow> (Some k, P)
      | None \<Rightarrow> pool_create qmem nmem i P)"

definition pool_push :: "bool \<Rightarrow> nat \<Rightarrow> 'm \<Rightarrow> 'm pool \<Rightarrow> 'm pool" where
  "pool_push mem k m P =
     (if mem then P\<lparr>pqueues := (pqueues P)[k := (pqueues P ! k)\<lparr>bq_items := bq_items (pqueues P ! k) @ [m]\<rparr>]\<rparr>
      else P)"

definition pool_pop :: "nat \<Rightarrow> 'm pool \<Rightarrow> 'm option \<times> 'm pool" where
  "pool_pop k P =
     (case bq_items (pqueues P ! k) of
        [] \<Rightarrow> (None, P)
      | m # ms \<Rightarrow> (Some m, P\<lparr>pqueues := (pqueues P)[k := (pqueues P ! k)\<lparr>bq_items := ms\<rparr>]\<rparr>))"

definition pool_len :: "nat \<Rightarrow> 'm pool \<Rightarrow> nat" where
  "pool_len k P = length (bq_items (pqueues P ! k))"

subsection \<open>The contract\<close>

datatype 'm cop = Attach int | Push int 'm | Pull int

primrec cops_in :: "int \<Rightarrow> 'm cop list \<Rightarrow> 'm list" where
  "cops_in i [] = []"
| "cops_in i (x # xs) =
     (case x of Push j m \<Rightarrow> (if j = i then m # cops_in i xs else cops_in i xs) | _ \<Rightarrow> cops_in i xs)"

primrec client_run ::
  "(int \<Rightarrow> 's \<Rightarrow> 's) \<Rightarrow> (int \<Rightarrow> 'm \<Rightarrow> 's \<Rightarrow> 's) \<Rightarrow> (int \<Rightarrow> 's \<Rightarrow> 'm option \<times> 's) \<Rightarrow>
   'm cop list \<Rightarrow> 's \<Rightarrow> (int \<times> 'm) list \<times> 's" where
  "client_run att enq deq [] s = ([], s)"
| "client_run att enq deq (x # xs) s =
     (case x of
        Attach i \<Rightarrow> client_run att enq deq xs (att i s)
      | Push i m \<Rightarrow> client_run att enq deq xs (enq i m s)
      | Pull i \<Rightarrow>
          (let (r, s1) = deq i s; (out, s2) = client_run att enq deq xs s1
           in ((case r of None \<Rightarrow> out | Some m \<Rightarrow> (i, m) # out), s2)))"

definition outs_of :: "int \<Rightarrow> (int \<times> 'm) list \<Rightarrow> 'm list" where
  "outs_of i out = map snd (filter (\<lambda>p. fst p = i) out)"

lemma outs_of_simps [simp]:
  "outs_of i [] = []"
  "outs_of i ((j, m) # out) = (if j = i then m # outs_of i out else outs_of i out)"
  by (simp_all add: outs_of_def)

text \<open>Every push and pull of a run names a client that is attached by then.\<close>

primrec attached_run :: "(int \<Rightarrow> bool) \<Rightarrow> 'm cop list \<Rightarrow> bool" where
  "attached_run att [] = True"
| "attached_run att (x # xs) =
     (case x of
        Attach i \<Rightarrow> attached_run (\<lambda>j. j = i \<or> att j) xs
      | Push i m \<Rightarrow> att i \<and> attached_run att xs
      | Pull i \<Rightarrow> att i \<and> attached_run att xs)"

locale client_queues =
  fixes inv :: "'s \<Rightarrow> bool"
    and known :: "'s \<Rightarrow> int \<Rightarrow> bool"
    and content :: "'s \<Rightarrow> int \<Rightarrow> 'm list"
    and attach :: "int \<Rightarrow> 's \<Rightarrow> 's"
    and enq :: "int \<Rightarrow> 'm \<Rightarrow> 's \<Rightarrow> 's"
    and deq :: "int \<Rightarrow> 's \<Rightarrow> 'm option \<times> 's"
  assumes attach_law: "inv s \<Longrightarrow> inv (attach i s) \<and> known (attach i s) = (\<lambda>j. j = i \<or> known s j) \<and>
        content (attach i s) = content s"
    and enq_law: "inv s \<Longrightarrow> known s i \<Longrightarrow> inv (enq i m s) \<and> known (enq i m s) = known s \<and>
        content (enq i m s) = (content s)(i := content s i @ [m])"
    and deq_law: "inv s \<Longrightarrow> known s i \<Longrightarrow> inv (snd (deq i s)) \<and> known (snd (deq i s)) = known s \<and>
        fst (deq i s) = (case content s i of [] \<Rightarrow> None | m # ms \<Rightarrow> Some m) \<and>
        content (snd (deq i s)) = (content s)(i := tl (content s i))"
begin

lemma isolated_fifo:
  assumes "inv s" and "attached_run (known s) xs" and "client_run attach enq deq xs s = (out, s')"
  shows "inv s'" and "content s i @ cops_in i xs = outs_of i out @ content s' i"
  using assms
proof (induction xs arbitrary: s out)
  case Nil
  { case 1 then show ?case by simp }
  { case 2 then show ?case by simp }
next
  case (Cons x xs)
  have both: "inv s' \<and> content s i @ cops_in i (x # xs) = outs_of i out @ content s' i"
    if pre: "inv s" "attached_run (known s) (x # xs)" "client_run attach enq deq (x # xs) s = (out, s')"
    for s out
  proof (cases x)
    case (Attach j)
    then show ?thesis using pre Cons.IH [of "attach j s" out] attach_law [of s j] by simp
  next
    case (Push j m)
    then show ?thesis using pre Cons.IH [of "enq j m s" out] enq_law [of s j m]
      by (auto simp: fun_upd_def split: if_splits)
  next
    case (Pull j)
    obtain r s1 where d: "deq j s = (r, s1)" by fastforce
    obtain out1 where run: "client_run attach enq deq xs s1 = (out1, s')"
      and out: "out = (case r of None \<Rightarrow> out1 | Some m \<Rightarrow> (j, m) # out1)"
      using pre(3) Pull d by (auto split: prod.splits)
    have "inv s1" "known s1 = known s" "r = (case content s j of [] \<Rightarrow> None | m # ms \<Rightarrow> Some m)"
      "content s1 = (content s)(j := tl (content s j))"
      using deq_law [of s j] pre(1,2) Pull d by auto
    with Cons.IH [OF _ _ run] pre(2) Pull out show ?thesis
      by (cases "content s j") (auto simp: fun_upd_def split: if_splits)
  qed
  { case 1 then show ?case using both by blast }
  { case 2 then show ?case using both by blast }
qed

end

subsection \<open>The pool meets the contract\<close>

definition pool_inv :: "'m pool \<Rightarrow> bool" where
  "pool_inv P \<longleftrightarrow> (\<forall>k \<in> set (plist P). k < length (pqueues P)) \<and>
     distinct (map (\<lambda>k. bq_id (pqueues P ! k)) (plist P))"

definition pool_known :: "'m pool \<Rightarrow> int \<Rightarrow> bool" where
  "pool_known P i \<longleftrightarrow> pool_find i P \<noteq> None"

definition pool_content :: "'m pool \<Rightarrow> int \<Rightarrow> 'm list" where
  "pool_content P i = (case pool_find i P of None \<Rightarrow> [] | Some k \<Rightarrow> bq_items (pqueues P ! k))"

definition pool_attach :: "int \<Rightarrow> 'm pool \<Rightarrow> 'm pool" where
  "pool_attach i P = snd (client_queue True True i P)"

definition pool_enq :: "int \<Rightarrow> 'm \<Rightarrow> 'm pool \<Rightarrow> 'm pool" where
  "pool_enq i m P = (case pool_find i P of None \<Rightarrow> P | Some k \<Rightarrow> pool_push True k m P)"

definition pool_deq :: "int \<Rightarrow> 'm pool \<Rightarrow> 'm option \<times> 'm pool" where
  "pool_deq i P = (case pool_find i P of None \<Rightarrow> (None, P) | Some k \<Rightarrow> pool_pop k P)"

lemma pool_find_Some:
  "pool_find i P = Some k \<Longrightarrow> k \<in> set (plist P) \<and> bq_id (pqueues P ! k) = i"
  by (auto simp: pool_find_def find_Some_iff)

lemma pool_find_None: "pool_find i P = None \<longleftrightarrow> (\<forall>k \<in> set (plist P). bq_id (pqueues P ! k) \<noteq> i)"
  by (auto simp: pool_find_def find_None_iff)

lemma pool_find_unique:
  assumes "pool_inv P" and "k \<in> set (plist P)"
  shows "pool_find (bq_id (pqueues P ! k)) P = Some k"
proof -
  obtain k' where k': "pool_find (bq_id (pqueues P ! k)) P = Some k'"
    using assms(2) pool_find_None [of "bq_id (pqueues P ! k)" P] by auto
  then have "k' \<in> set (plist P)" "bq_id (pqueues P ! k') = bq_id (pqueues P ! k)"
    using pool_find_Some by blast+
  then have "k' = k" using assms by (auto simp: pool_inv_def distinct_map dest: inj_onD)
  with k' show ?thesis by simp
qed

lemma update_items_id [simp]:
  "bq_id (xs[k := (xs ! k)\<lparr>bq_items := ms\<rparr>] ! j) = bq_id (xs ! j)"
  by (cases "k < length xs") (auto simp: nth_list_update list_update_beyond not_less)

lemma pool_find_items [simp]:
  "pool_find i (P\<lparr>pqueues := (pqueues P)[k := (pqueues P ! k)\<lparr>bq_items := ms\<rparr>]\<rparr>) = pool_find i P"
  by (simp add: pool_find_def)

lemma pool_find_push [frame, simp]: "pool_find i (pool_push mem k m P) = pool_find i P"
  by (simp add: pool_push_def)

lemma pool_find_pop [frame, simp]: "pool_find i (snd (pool_pop k P)) = pool_find i P"
  by (simp add: pool_pop_def split: list.split)

lemma pool_inv_items:
  "pool_inv P \<Longrightarrow> pool_inv (P\<lparr>pqueues := (pqueues P)[k := (pqueues P ! k)\<lparr>bq_items := ms\<rparr>]\<rparr>)"
  by (simp add: pool_inv_def)

lemma pool_inv_push [inv_intro]: "pool_inv P \<Longrightarrow> pool_inv (pool_push mem k m P)"
  by (simp add: pool_push_def pool_inv_items)

lemma pool_inv_pop [inv_intro]: "pool_inv P \<Longrightarrow> pool_inv (snd (pool_pop k P))"
  by (simp add: pool_pop_def pool_inv_items split: list.split)

lemma nth_append_inv: "pool_inv P \<Longrightarrow> k \<in> set (plist P) \<Longrightarrow> (pqueues P @ xs) ! k = pqueues P ! k"
  by (auto simp: pool_inv_def nth_append)

lemma pool_find_create:
  assumes "pool_inv P" and "pool_find i P = None"
    and "pool_create qmem nmem i P = (Some k, P')"
  shows "pool_inv P'" and "pool_find j P' = (if nmem \<and> j = i then Some k else pool_find j P)"
    and "pool_content P' = pool_content P"
proof -
  have P': "P' = P\<lparr>pqueues := pqueues P @ [\<lparr>bq_id = i, bq_items = []\<rparr>],
      plist := plist P @ (if nmem then [k] else [])\<rparr>" and k: "k = length (pqueues P)"
    using assms(3) by (auto simp: pool_create_def Let_def split: if_splits)
  have old: "(pqueues P @ xs) ! m = pqueues P ! m" if "m \<in> set (plist P)" for m xs
    using nth_append_inv [OF assms(1) that] .
  have ids: "map (\<lambda>m. bq_id ((pqueues P @ xs) ! m)) (plist P) = map (\<lambda>m. bq_id (pqueues P ! m)) (plist P)" for xs
    using old by simp
  have "bq_id (pqueues P ! m) \<noteq> i" if "m \<in> set (plist P)" for m
    using assms(2) that pool_find_None by blast
  then show "pool_inv P'"
    using assms(1) by (auto simp: P' k pool_inv_def ids old)
  have oldf: "find (\<lambda>m. bq_id ((pqueues P @ xs) ! m) = j) (plist P)
      = find (\<lambda>m. bq_id (pqueues P ! m) = j) (plist P)" for xs j
    by (rule find_cong_set) (simp add: old)
  have "pool_find j P' = (case pool_find j P of Some m \<Rightarrow> Some m | None \<Rightarrow>
      (if nmem \<and> j = i then Some k else None))" for j
    by (simp add: pool_find_def P' find_append oldf k split: option.split)
  then show found: "pool_find j P' = (if nmem \<and> j = i then Some k else pool_find j P)" for j
    using assms(2) by (auto split: option.split)
  show "pool_content P' = pool_content P"
  proof
    fix j
    show "pool_content P' j = pool_content P j"
      using found [of j] assms(2) pool_find_Some [of j P] old
      by (auto simp: pool_content_def P' k split: option.splits)
  qed
qed

lemma client_queue_found:
  assumes "pool_inv P" and "client_queue qmem nmem i P = (r, P')"
  shows "pool_inv P'" and "pool_content P' = pool_content P"
    and "pool_find j P = Some k \<Longrightarrow> pool_find j P' = Some k"
    and "nmem \<Longrightarrow> r = Some k \<Longrightarrow> pool_find i P' = Some k"
proof -
  have both: "pool_inv P' \<and> pool_content P' = pool_content P \<and>
      (\<forall>j k. pool_find j P = Some k \<longrightarrow> pool_find j P' = Some k) \<and>
      (\<forall>k. nmem \<longrightarrow> r = Some k \<longrightarrow> pool_find i P' = Some k)"
  proof (cases "pool_find i P")
    case (Some k)
    then show ?thesis using assms by (auto simp: client_queue_def)
  next
    case None
    show ?thesis
    proof (cases r)
      case None
      then show ?thesis using assms \<open>pool_find i P = None\<close>
        by (auto simp: client_queue_def pool_create_def Let_def split: if_splits)
    next
      case (Some k)
      then have "pool_create qmem nmem i P = (Some k, P')"
        using assms None by (simp add: client_queue_def)
      from pool_find_create [OF assms(1) None this] None Some show ?thesis by auto
    qed
  qed
  then show "pool_inv P'" "pool_content P' = pool_content P"
    "pool_find j P = Some k \<Longrightarrow> pool_find j P' = Some k"
    "nmem \<Longrightarrow> r = Some k \<Longrightarrow> pool_find i P' = Some k" by blast+
qed

lemma client_queue_total: "client_queue True nmem i P = (r, P') \<Longrightarrow> r \<noteq> None"
  by (cases "pool_find i P"; simp add: client_queue_def pool_create_def Let_def; blast)

lemma pool_known_attach:
  assumes "pool_inv P"
  shows "pool_known (pool_attach i P) = (\<lambda>j. j = i \<or> pool_known P j)"
proof (cases "pool_find i P")
  case (Some k)
  then show ?thesis by (auto simp: pool_known_def pool_attach_def client_queue_def)
next
  case None
  obtain k P' where c: "pool_create True True i P = (Some k, P')"
    by (auto simp: pool_create_def Let_def)
  then show ?thesis using pool_find_create(2) [OF assms None c] None
    by (auto simp: pool_known_def pool_attach_def client_queue_def split: if_splits)
qed

lemma pool_attach_keeps:
  assumes "pool_inv P"
  shows "pool_inv (pool_attach i P)" and "pool_content (pool_attach i P) = pool_content P"
  using client_queue_found(1,2) [OF assms, of True True i] unfolding pool_attach_def
  by (metis prod.collapse)+

lemma pool_push_content:
  assumes "pool_inv P" and "pool_find i P = Some k"
  shows "pool_content (pool_push True k m P) = (pool_content P)(i := pool_content P i @ [m])"
proof
  fix j
  have k: "k \<in> set (plist P)" "bq_id (pqueues P ! k) = i" using assms(2) pool_find_Some by blast+
  then have len: "k < length (pqueues P)" using assms(1) by (simp add: pool_inv_def)
  show "pool_content (pool_push True k m P) j = ((pool_content P)(i := pool_content P i @ [m])) j"
    using assms k len pool_find_Some [of j P]
    by (cases "pool_find j P") (auto simp: pool_content_def pool_push_def nth_list_update)
qed

lemma bqueue_unchanged: "bq_items (q :: 'm bqueue) = ms \<Longrightarrow> q\<lparr>bq_items := ms\<rparr> = q"
  by (cases q) simp

lemma pool_pop_content:
  assumes "pool_inv P" and "pool_find i P = Some k"
  shows "fst (pool_pop k P) = (case pool_content P i of [] \<Rightarrow> None | m # ms \<Rightarrow> Some m)"
    and "pool_content (snd (pool_pop k P)) = (pool_content P)(i := tl (pool_content P i))"
proof -
  have k: "k \<in> set (plist P)" "bq_id (pqueues P ! k) = i" using assms(2) pool_find_Some by blast+
  then have len: "k < length (pqueues P)" using assms(1) by (simp add: pool_inv_def)
  show "fst (pool_pop k P) = (case pool_content P i of [] \<Rightarrow> None | m # ms \<Rightarrow> Some m)"
    using assms(2) by (simp add: pool_pop_def pool_content_def split: list.split)
  have pop: "snd (pool_pop k P) =
      P\<lparr>pqueues := (pqueues P)[k := (pqueues P ! k)\<lparr>bq_items := tl (bq_items (pqueues P ! k))\<rparr>]\<rparr>"
  proof (cases "bq_items (pqueues P ! k)")
    case Nil
    then have same: "(pqueues P ! k)\<lparr>bq_items := []\<rparr> = pqueues P ! k" by (rule bqueue_unchanged)
    have "snd (pool_pop k P) = P\<lparr>pqueues := (pqueues P)[k := pqueues P ! k]\<rparr>"
      by (simp add: pool_pop_def Nil)
    then show ?thesis by (simp only: Nil list.sel same)
  qed (simp add: pool_pop_def)
  show "pool_content (snd (pool_pop k P)) = (pool_content P)(i := tl (pool_content P i))"
  proof
    fix j
    show "pool_content (snd (pool_pop k P)) j = ((pool_content P)(i := tl (pool_content P i))) j"
    proof (cases "j = i")
      case True
      then show ?thesis using assms(2) len unfolding pop by (simp add: pool_content_def)
    next
      case False
      then have "pool_find j P \<noteq> Some k" using k(2) pool_find_Some by blast
      then show ?thesis using False unfolding pop
        by (cases "pool_find j P") (simp_all add: pool_content_def)
    qed
  qed
qed

interpretation cq: client_queues pool_inv pool_known pool_content pool_attach pool_enq pool_deq
proof unfold_locales
  fix P :: "'m pool" and i m
  assume inv: "pool_inv P"
  show "pool_inv (pool_attach i P) \<and> pool_known (pool_attach i P) = (\<lambda>j. j = i \<or> pool_known P j) \<and>
      pool_content (pool_attach i P) = pool_content P"
    using pool_attach_keeps [OF inv] pool_known_attach [OF inv] by blast
  assume "pool_known P i"
  then obtain k where k: "pool_find i P = Some k" by (auto simp: pool_known_def)
  show "pool_inv (pool_enq i m P) \<and> pool_known (pool_enq i m P) = pool_known P \<and>
      pool_content (pool_enq i m P) = (pool_content P)(i := pool_content P i @ [m])"
    using pool_push_content [OF inv k] pool_inv_push [OF inv] k
    by (simp add: pool_enq_def pool_known_def fun_eq_iff)
  show "pool_inv (snd (pool_deq i P)) \<and> pool_known (snd (pool_deq i P)) = pool_known P \<and>
      fst (pool_deq i P) = (case pool_content P i of [] \<Rightarrow> None | m # ms \<Rightarrow> Some m) \<and>
      pool_content (snd (pool_deq i P)) = (pool_content P)(i := tl (pool_content P i))"
    using pool_pop_content [OF inv k] pool_inv_pop [OF inv] k
    by (simp add: pool_deq_def pool_known_def fun_eq_iff)
qed

lemma pool_inv_empty: "pool_inv empty_pool" "pool_content empty_pool = (\<lambda>i. [])"
    "pool_known empty_pool = (\<lambda>i. False)"
  by (auto simp: pool_inv_def empty_pool_def pool_content_def pool_find_def pool_known_def)

end
