(* ===== verification/ListProps.thy ===== *)
theory ListProps
  imports Pool
begin

text \<open>
  What the list and the queues promise their users: the list is a double-ended queue whose
  operations do what their names say (\<open>src/src/list.c\<close>), the queue a first-in first-out queue
  (\<open>src/src/queue.c\<close>), a pool one such queue per client.
\<close>

subsection \<open>The list is a deque\<close>

datatype 'v lop = RPush 'v | LPush 'v | RPop | LPop

text \<open>
  One operation as the programs use it: a push of a new node, a pop and the value in the node
  popped, whose memory is the caller's. The result is the value popped.
\<close>

definition list_step ::
  "'v lop \<Rightarrow> ('k, 'v) clist \<times> 'v heap \<Rightarrow> ('v option \<times> ('k, 'v) clist \<times> 'v heap) option" where
  "list_step x s =
     (let (l, h) = s;
          popped = (\<lambda>(node, l1, h1). case node of None \<Rightarrow> Some (None, l1, h1) | Some a \<Rightarrow> do {
             n \<leftarrow> hmem h1 a; h2 \<leftarrow> free_node h1 node; Some (Some (nval n), l1, h2) })
      in case x of
           RPush v \<Rightarrow> (let (node, h1) = lamb_node_new v h in do {
             (r, l1, h2) \<leftarrow> lamb_list_rpush l node h1; Some (None, l1, h2) })
         | LPush v \<Rightarrow> (let (node, h1) = lamb_node_new v h in do {
             (r, l1, h2) \<leftarrow> lamb_list_lpush l node h1; Some (None, l1, h2) })
         | RPop \<Rightarrow> Option.bind (lamb_list_rpop l h) popped
         | LPop \<Rightarrow> Option.bind (lamb_list_lpop l h) popped)"

primrec list_run ::
  "'v lop list \<Rightarrow> ('k, 'v) clist \<times> 'v heap \<Rightarrow> ('v list \<times> ('k, 'v) clist \<times> 'v heap) option" where
  "list_run [] s = Some ([], s)"
| "list_run (x # xs) s = do {
     (r, s1) \<leftarrow> list_step x s;
     (outs, s2) \<leftarrow> list_run xs s1;
     Some ((case r of None \<Rightarrow> outs | Some v \<Rightarrow> v # outs), s2) }"

primrec deque_run :: "'v lop list \<Rightarrow> 'v list \<Rightarrow> 'v list \<times> 'v list" where
  "deque_run [] vs = ([], vs)"
| "deque_run (x # xs) vs =
     (case x of
        RPush v \<Rightarrow> deque_run xs (vs @ [v])
      | LPush v \<Rightarrow> deque_run xs (v # vs)
      | RPop \<Rightarrow> (if vs = [] then deque_run xs [] else map_prod (Cons (last vs)) id (deque_run xs (butlast vs)))
      | LPop \<Rightarrow> (if vs = [] then deque_run xs [] else map_prod (Cons (hd vs)) id (deque_run xs (tl vs))))"

text \<open>A list with the values \<open>vs\<close> in a heap with room for \<open>k\<close> more nodes.\<close>

definition list_holds :: "('k, 'v) clist \<times> 'v heap \<Rightarrow> 'v list \<Rightarrow> nat \<Rightarrow> bool" where
  "list_holds s vs k \<longleftrightarrow>
     (\<exists>as. list_rep (fst s) (snd s) as \<and> vals (hmem (snd s)) as = vs \<and> heap_wf (snd s) \<and>
        k \<le> hquota (snd s) \<and> hquota (snd s) + length as < 2 ^ 32)"

lemma new_node_heap:
  assumes "list_holds (l, h) vs (Suc k)"
  obtains as h1 where "lamb_node_new v h = (Some (hbrk h), h1)" "list_rep l h1 as" "vals (hmem h1) as = vs"
    "hmem h1 (hbrk h) = Some \<lparr>nprev = None, nnext = None, nval = v\<rparr>" "hbrk h \<notin> set as"
    "length as + 1 < 2 ^ 32" "k \<le> hquota h1" "hquota h1 + Suc (length as) < 2 ^ 32" "heap_wf h1"
proof -
  obtain as where rep: "list_rep l h as" and vs: "vals (hmem h) as = vs" and wf: "heap_wf h"
    and q: "Suc k \<le> hquota h" "hquota h + length as < 2 ^ 32"
    using assms by (auto simp: list_holds_def)
  let ?h = "h\<lparr>hbrk := Suc (hbrk h), hquota := hquota h - 1,
      hmem := (hmem h)(hbrk h \<mapsto> \<lparr>nprev = None, nnext = None, nval = v\<rparr>)\<rparr>"
  have new: "hbrk h \<notin> set as" by (rule list_rep_bound [OF rep wf])
  have same: "hmem ?h b = hmem h b" if "b \<in> set as" for b using that new by auto
  have "list_rep l ?h as" "vals (hmem ?h) as = vs"
    using list_rep_cong [OF rep same] vs by simp_all
  moreover have "heap_wf ?h" using wf by (auto simp: heap_wf_def less_Suc_eq)
  moreover have "lamb_node_new v h = (Some (hbrk h), ?h)" using q by (simp add: lamb_node_new_simps)
  ultimately show ?thesis using that [of ?h as] new q by simp
qed

lemma push_holds:
  assumes "list_rep l' h' as'" and "vals (hmem h') as' = vs'" and "length as' = Suc (length as)"
    and "hquota h' = hquota h1" and "hbrk h' = hbrk h1" and "dom (hmem h') = dom (hmem h1)"
    and "heap_wf h1" and "k \<le> hquota h1" and "hquota h1 + Suc (length as) < 2 ^ 32"
  shows "list_holds (l', h') vs' k"
  using assms by (auto simp: list_holds_def heap_wf_def)

lemma pop_holds:
  assumes "list_rep l' h' as" and "a \<notin> set as" and "heap_wf h" and "hquota h + Suc (length as) < 2 ^ 32"
    and "hquota h' = hquota h" and "hbrk h' = hbrk h" and "dom (hmem h') = dom (hmem h)" and "k \<le> hquota h"
  shows "list_holds (l', h'\<lparr>hmem := (hmem h')(a := None), hquota := Suc (hquota h')\<rparr>) (vals (hmem h') as) k"
proof -
  let ?h = "h'\<lparr>hmem := (hmem h')(a := None), hquota := Suc (hquota h')\<rparr>"
  have same: "hmem ?h b = hmem h' b" if "b \<in> set as" for b using that assms(2) by auto
  have "list_rep l' ?h as" "vals (hmem ?h) as = vals (hmem h') as"
    using list_rep_cong [OF assms(1) same] by simp_all
  moreover have "heap_wf ?h" using assms(3,6,7) by (auto simp: heap_wf_def)
  moreover have "k \<le> hquota ?h" "hquota ?h + length as < 2 ^ 32" using assms(4,5,8) by simp_all
  ultimately show ?thesis unfolding list_holds_def fst_conv snd_conv by blast
qed

lemma list_step_deque:
  assumes "list_holds s vs (Suc k)"
  shows "\<exists>r s'. list_step x s = Some (r, s') \<and>
     (case x of
        RPush v \<Rightarrow> r = None \<and> list_holds s' (vs @ [v]) k
      | LPush v \<Rightarrow> r = None \<and> list_holds s' (v # vs) k
      | RPop \<Rightarrow> (if vs = [] then r = None \<and> list_holds s' [] k else r = Some (last vs) \<and> list_holds s' (butlast vs) k)
      | LPop \<Rightarrow> (if vs = [] then r = None \<and> list_holds s' [] k else r = Some (hd vs) \<and> list_holds s' (tl vs) k))"
proof -
  obtain l h where s: "s = (l, h)" by fastforce
  obtain as where rep: "list_rep l h as" and vs: "vals (hmem h) as = vs" and wf: "heap_wf h"
    and q: "Suc k \<le> hquota h" "hquota h + length as < 2 ^ 32"
    using assms s by (auto simp: list_holds_def)
  have less: "list_holds (l, h) vs k" using rep vs wf q by (auto simp: list_holds_def)
  show ?thesis
  proof (cases x)
    case (RPush v)
    obtain as h1 where n: "lamb_node_new v h = (Some (hbrk h), h1)" "list_rep l h1 as" "vals (hmem h1) as = vs"
      "hmem h1 (hbrk h) = Some \<lparr>nprev = None, nnext = None, nval = v\<rparr>" "hbrk h \<notin> set as"
      "length as + 1 < 2 ^ 32" "k \<le> hquota h1" "hquota h1 + Suc (length as) < 2 ^ 32" "heap_wf h1"
      by (rule new_node_heap [OF assms [unfolded s]])
    obtain l' h' where p: "lamb_list_rpush l (Some (hbrk h)) h1 = Some (Some (hbrk h), l', h')"
      "list_rep l' h' (as @ [hbrk h])" "vals (hmem h') (as @ [hbrk h]) = vs @ [v]"
      "hquota h' = hquota h1" "hbrk h' = hbrk h1" "dom (hmem h') = dom (hmem h1)"
      using lamb_list_rpush_rep [OF n(2,4,5,6)] n(3) by auto
    have "list_holds (l', h') (vs @ [v]) k"
      using push_holds [OF p(2,3) _ p(4-6) n(9,7,8)] by simp
    then show ?thesis using RPush s n(1) p(1) by (simp add: list_step_def)
  next
    case (LPush v)
    obtain as h1 where n: "lamb_node_new v h = (Some (hbrk h), h1)" "list_rep l h1 as" "vals (hmem h1) as = vs"
      "hmem h1 (hbrk h) = Some \<lparr>nprev = None, nnext = None, nval = v\<rparr>" "hbrk h \<notin> set as"
      "length as + 1 < 2 ^ 32" "k \<le> hquota h1" "hquota h1 + Suc (length as) < 2 ^ 32" "heap_wf h1"
      by (rule new_node_heap [OF assms [unfolded s]])
    obtain l' h' where p: "lamb_list_lpush l (Some (hbrk h)) h1 = Some (Some (hbrk h), l', h')"
      "list_rep l' h' (hbrk h # as)" "vals (hmem h') (hbrk h # as) = v # vs"
      "hquota h' = hquota h1" "hbrk h' = hbrk h1" "dom (hmem h') = dom (hmem h1)"
      using lamb_list_lpush_rep [OF n(2,4,5,6)] n(3) by auto
    have "list_holds (l', h') (v # vs) k"
      using push_holds [OF p(2,3) _ p(4-6) n(9,7,8)] by simp
    then show ?thesis using LPush s n(1) p(1) by (simp add: list_step_def)
  next
    case RPop
    show ?thesis
    proof (cases as rule: rev_cases)
      case Nil
      then have "vs = []" using vs by simp
      then show ?thesis using RPop s less rep Nil lamb_list_rpop_empty [of l h] by (simp add: list_step_def)
    next
      case (snoc bs a)
      obtain l' h' n where p: "lamb_list_rpop l h = Some (Some a, l', h')" "list_rep l' h' bs"
        "vals (hmem h') bs = vals (hmem h) bs"
        "hmem h' a = Some \<lparr>nprev = None, nnext = None, nval = nval n\<rparr>" "hmem h a = Some n"
        "hquota h' = hquota h" "hbrk h' = hbrk h" "dom (hmem h') = dom (hmem h)"
        using lamb_list_rpop_rep [OF rep [unfolded snoc]] by auto
      have v: "vs = vals (hmem h) bs @ [nval n]" using vs snoc p(5) by (simp add: vals_def)
      have "a \<notin> set bs" using rep snoc by (simp add: list_rep_def)
      then have "list_holds (l', h'\<lparr>hmem := (hmem h')(a := None), hquota := Suc (hquota h')\<rparr>) (vals (hmem h') bs) k"
        using pop_holds [OF p(2) _ wf _ p(6-8)] q snoc by simp
      then show ?thesis using RPop s v p by (simp add: list_step_def)
    qed
  next
    case LPop
    show ?thesis
    proof (cases as)
      case Nil
      then have "vs = []" using vs by simp
      then show ?thesis using LPop s less rep Nil lamb_list_lpop_empty [of l h] by (simp add: list_step_def)
    next
      case (Cons a bs)
      obtain l' h' n where p: "lamb_list_lpop l h = Some (Some a, l', h')" "list_rep l' h' bs"
        "vals (hmem h') bs = vals (hmem h) bs"
        "hmem h' a = Some \<lparr>nprev = None, nnext = None, nval = nval n\<rparr>" "hmem h a = Some n"
        "hquota h' = hquota h" "hbrk h' = hbrk h" "dom (hmem h') = dom (hmem h)"
        using lamb_list_lpop_rep [OF rep [unfolded Cons]] by auto
      have v: "vs = nval n # vals (hmem h) bs" using vs Cons p(5) by (simp add: vals_def)
      have "a \<notin> set bs" using rep Cons by (simp add: list_rep_def)
      then have "list_holds (l', h'\<lparr>hmem := (hmem h')(a := None), hquota := Suc (hquota h')\<rparr>) (vals (hmem h') bs) k"
        using pop_holds [OF p(2) _ wf _ p(6-8)] q Cons by simp
      then show ?thesis using LPop s v p by (simp add: list_step_def)
    qed
  qed
qed

text \<open>
  C9: The linked list implements a deque. Any sequence of pushes and pops at both ends, run on
  the heap of nodes from a well-formed list with memory for the nodes, never reaches undefined
  behaviour, pops the values a plain list would, and leaves a well-formed list of the values
  a plain list would hold.
\<close>

theorem list_is_deque:
  assumes "list_holds s vs (length xs)"
  shows "\<exists>s'. list_run xs s = Some (fst (deque_run xs vs), s') \<and> list_holds s' (snd (deque_run xs vs)) 0"
  using assms
proof (induction xs arbitrary: s vs)
  case Nil
  then show ?case by simp
next
  case (Cons x xs)
  obtain r s1 where 1: "list_step x s = Some (r, s1)" and post: "case x of
        RPush v \<Rightarrow> r = None \<and> list_holds s1 (vs @ [v]) (length xs)
      | LPush v \<Rightarrow> r = None \<and> list_holds s1 (v # vs) (length xs)
      | RPop \<Rightarrow> (if vs = [] then r = None \<and> list_holds s1 [] (length xs)
                 else r = Some (last vs) \<and> list_holds s1 (butlast vs) (length xs))
      | LPop \<Rightarrow> (if vs = [] then r = None \<and> list_holds s1 [] (length xs)
                 else r = Some (hd vs) \<and> list_holds s1 (tl vs) (length xs))"
    using list_step_deque [of s vs "length xs" x] Cons.prems by auto
  obtain vs1 where "list_holds s1 vs1 (length xs)"
    and d: "deque_run (x # xs) vs = (case r of None \<Rightarrow> id | Some v \<Rightarrow> map_prod (Cons v) id) (deque_run xs vs1)"
    using post by (cases x) (auto split: if_splits)
  with Cons.IH obtain s2 where "list_run xs s1 = Some (fst (deque_run xs vs1), s2)"
    "list_holds s2 (snd (deque_run xs vs1)) 0" by blast
  with 1 d show ?case by (cases r) auto
qed

definition example_nodes :: "addr \<rightharpoonup> char node" where
  "example_nodes = [0 \<mapsto> \<lparr>nprev = None, nnext = Some 1, nval = CHR ''a''\<rparr>,
     1 \<mapsto> \<lparr>nprev = Some 0, nnext = None, nval = CHR ''b''\<rparr>]"

definition example_heap :: "char heap" where
  "example_heap = \<lparr>hmem = example_nodes, hbrk = 2, hquota = 5, hfreed = []\<rparr>"

definition example_list :: "(char, char) clist" where
  "example_list = \<lparr>lhead = Some 0, ltail = Some 1, llen = 2, lfree = True, lmatch = Some (=)\<rparr>"

lemma example_list_rep: "list_rep example_list example_heap ([0] @ 1 # [])"
  by (simp add: list_rep_def example_list_def example_heap_def example_nodes_def)

lemma example_list_rep2: "list_rep example_list example_heap [0, 1]"
  using example_list_rep by simp

lemma example_vals: "vals (hmem example_heap) [0, 1] = ''ab''"
  by (simp add: vals_def example_heap_def example_nodes_def)

lemma list_is_deque_witness:
  "\<exists>s'. list_run [LPop, RPush CHR ''c'', RPop, LPush CHR ''d''] (example_list, example_heap) = Some (''ac'', s') \<and>
     list_holds s' ''db'' 0"
proof -
  have "list_holds (example_list, example_heap) ''ab'' (length [LPop, RPush CHR ''c'', RPop, LPush CHR ''d''])"
    using example_list_rep2 example_vals
    by (auto simp: list_holds_def heap_wf_def example_heap_def example_nodes_def intro!: exI [of _ "[0, 1]"])
  from list_is_deque [OF this] show ?thesis by simp
qed

subsection \<open>Searching, indexing, removing, emptying\<close>

text \<open>
  \<open>lamb_list_find\<close> returns the first node from the head that matches, and NULL exactly when
  none does; the list, the heap and the memory it had are as before.
\<close>

theorem list_find_first:
  assumes "list_rep l h as" and "hquota h \<noteq> 0"
  shows "lamb_list_find same l k h =
     Some (find (\<lambda>a. (case lmatch l of Some m \<Rightarrow> m k | None \<Rightarrow> same k) (nval (the (hmem h a)))) as, h)"
  using assms by (rule lamb_list_find_rep)

lemma list_find_first_witness:
  "lamb_list_find (\<lambda>k v. False) example_list CHR ''b'' example_heap = Some (Some 1, example_heap)"
  by (subst list_find_first [OF example_list_rep2])
    (simp_all add: example_heap_def example_list_def example_nodes_def)

text \<open>
  \<open>lamb_list_at\<close> counts from the head for an index that is not negative and from the tail,
  with -1 for the last node, for a negative one; outside the list it returns NULL.
\<close>

theorem list_at_index:
  assumes "list_rep l h as" and "hquota h \<noteq> 0"
  shows "lamb_list_at l index h =
     Some (if 0 \<le> index \<and> nat index < length as then Some (as ! nat index)
           else if index < 0 \<and> nat (- index) \<le> length as then Some (as ! (length as - nat (- index)))
           else None, h)"
  using assms by (rule lamb_list_at_rep)

lemma list_at_index_witness:
  "lamb_list_at example_list (-2) example_heap = Some (Some 0, example_heap)"
  by (subst list_at_index [OF example_list_rep2]) (simp_all add: example_heap_def)

text \<open>
  \<open>lamb_list_remove\<close> of a node of the list unlinks and frees that node and no other, calls
  the list's free function on its value exactly once if there is one, and leaves the other
  nodes in order.
\<close>

theorem list_remove_unlinks:
  assumes "list_rep l h (xs @ a # ys)"
  shows "\<exists>l' h' n. lamb_list_remove l (Some a) h = Some (l', h') \<and> hmem h a = Some n \<and>
     list_rep l' h' (xs @ ys) \<and> vals (hmem h') (xs @ ys) = vals (hmem h) (xs @ ys) \<and>
     hmem h' a = None \<and> hfreed h' = hfreed h @ (if lfree l then [nval n] else []) \<and>
     (\<forall>b. b \<notin> set (xs @ a # ys) \<longrightarrow> hmem h' b = hmem h b)"
proof -
  obtain l' h' n where "lamb_list_remove l (Some a) h = Some (l', h')" "hmem h a = Some n"
     "list_rep l' h' (xs @ ys)" "vals (hmem h') (xs @ ys) = vals (hmem h) (xs @ ys)"
     "hmem h' a = None" "hfreed h' = hfreed h @ (if lfree l then [nval n] else [])"
     "\<forall>b. b \<notin> set (xs @ a # ys) \<longrightarrow> hmem h' b = hmem h b"
    using lamb_list_remove_rep [OF assms] by auto
  then show ?thesis by blast
qed

lemma list_remove_unlinks_witness:
  "\<exists>l' h'. lamb_list_remove example_list (Some 1) example_heap = Some (l', h') \<and> list_rep l' h' [0] \<and>
     hfreed h' = ''b''"
proof -
  from list_remove_unlinks [OF example_list_rep] obtain l' h' n where
    r: "lamb_list_remove example_list (Some 1) example_heap = Some (l', h')" "hmem example_heap 1 = Some n"
      "list_rep l' h' ([0] @ [])" "hfreed h' = hfreed example_heap @ (if lfree example_list then [nval n] else [])"
    by blast
  then have "nval n = CHR ''b''" by (auto simp: example_heap_def example_nodes_def)
  with r show ?thesis by (auto simp: example_heap_def example_list_def)
qed

text \<open>
  The loop of the reload handlers, removing each node while iterating, empties the list
  from either end: it stops, frees every node once, and leaves an empty list that can be
  filled again.
\<close>

theorem drain_empties:
  assumes "list_rep l h as"
  shows "\<exists>l' h'. drain_loop \<lparr>inext = (if d = LIST_HEAD then lhead l else ltail l), idir = d\<rparr> l h = Some (l', h') \<and>
     drained l h as (if d = LIST_HEAD then vals (hmem h) as else rev (vals (hmem h) as)) l' h'"
  using drain_loop_head [OF assms] drain_loop_tail [OF assms] by (cases d) simp_all

lemma drain_empties_witness:
  "\<exists>l' h'. drain_loop \<lparr>inext = Some 1, idir = LIST_TAIL\<rparr> example_list example_heap = Some (l', h') \<and>
     list_rep l' h' [] \<and> hfreed h' = ''ba''"
proof -
  from drain_empties [OF example_list_rep2, of LIST_TAIL] obtain l' h' where
    "drain_loop \<lparr>inext = ltail example_list, idir = LIST_TAIL\<rparr> example_list example_heap = Some (l', h')"
    "drained example_list example_heap [0, 1] (rev (vals (hmem example_heap) [0, 1])) l' h'" by auto
  then show ?thesis unfolding example_vals
    by (auto simp: drained_def example_list_def example_heap_def)
qed

subsection \<open>Queues\<close>

text \<open>
  \<open>queue.c\<close> is a first-in first-out queue, memory failures included. In any run of pushes
  and pops from a new queue the values popped are a prefix of the values accepted, in order,
  and the rest are still in the queue; a push that finds no memory is refused and changes
  nothing.
\<close>

theorem queue_first_in_first_out:
  assumes "queue_inv s" and "queue_items s = []" and "fifo_run queue_put queue_take xs s = Some (acc, out, s')"
  shows "acc = out @ queue_items s'"
  using hq.run_order [OF assms(1), of xs] assms(2,3) by auto

lemma queue_first_in_first_out_witness:
  "\<exists>acc out s'. fifo_run queue_put queue_take [Put CHR ''x'', Put CHR ''y'', Take, Put CHR ''z'']
       (Some \<lparr>qid = 7, qlist = Some (\<lparr>lhead = None, ltail = None, llen = 0, lfree = False, lmatch = None\<rparr> :: (char, char) clist)\<rparr>,
        \<lparr>hmem = Map.empty, hbrk = 0, hquota = 2, hfreed = []\<rparr>) = Some (acc, out, s') \<and>
     acc = out @ queue_items s'"
proof -
  let ?l = "\<lparr>lhead = None, ltail = None, llen = 0, lfree = False, lmatch = None\<rparr> :: (char, char) clist"
  let ?h = "\<lparr>hmem = Map.empty, hbrk = 0, hquota = 2, hfreed = []\<rparr> :: char heap"
  let ?s = "(Some \<lparr>qid = 7, qlist = Some ?l\<rparr>, ?h)"
  have rep: "list_rep ?l ?h []" by (simp add: list_rep_def)
  then have inv: "queue_inv ?s" "queue_items ?s = []"
    using queue_invI [of "\<lparr>qid = 7, qlist = Some ?l\<rparr>" ?l ?h "[]"] by (auto simp: heap_wf_def)
  obtain acc out s' where r: "fifo_run queue_put queue_take [Put CHR ''x'', Put CHR ''y'', Take, Put CHR ''z''] ?s =
      Some (acc, out, s')"
    using hq.run_order [OF inv(1)] by blast
  from queue_first_in_first_out [OF inv r] r show ?thesis by blast
qed

text \<open>
  C36: A pool keeps the clients apart. In any run that attaches clients, pushes and pulls, each
  client's pulls give its own pushes in order, whatever the other clients do, and what it has
  not pulled is still in its queue.
\<close>

theorem pool_isolates_clients:
  assumes "pool_inv P" and "attached_run (pool_known P) xs"
    and "client_run pool_attach pool_enq pool_deq xs P = (out, P')"
  shows "pool_content P i @ cops_in i xs = outs_of i out @ pool_content P' i"
  using assms by (rule cq.isolated_fifo(2))

lemma pool_isolates_clients_witness:
  "\<exists>out P'. client_run pool_attach pool_enq pool_deq
       [Attach 1, Attach 2, Push 1 CHR ''x'', Push 2 CHR ''y'', Pull 1, Push 1 CHR ''z''] empty_pool = (out, P') \<and>
     ''xz'' = outs_of 1 out @ pool_content P' 1"
proof -
  let ?xs = "[Attach 1, Attach 2, Push 1 CHR ''x'', Push 2 CHR ''y'', Pull 1, Push 1 CHR ''z'']"
  obtain out P' where r: "client_run pool_attach pool_enq pool_deq ?xs empty_pool = (out, P')" by fastforce
  have "attached_run (pool_known (empty_pool :: char pool)) ?xs" by simp
  from pool_isolates_clients [OF pool_inv_empty(1) this r, of 1] r
  show ?thesis by (auto simp: pool_inv_empty(2))
qed

end
