(* ===== verification/Broker.thy ===== *)
theory Broker
  imports Pool
begin

text \<open>
  What the queue brokers share (\<open>src/src/mt.c\<close>, \<open>mo.c\<close>; the other processes run variants of
  it): the state, and the sessions with their message loops. The request socket, the threads it
  starts and their interleaving with the sessions are in Handshake.

  An \<open>rx\<close> is one turn of a receive loop: what \<open>nn_recv\<close> returned (\<open>None\<close> for an error), what
  \<open>nn_errno\<close> and the connection statistic would answer, and which of the allocations of the
  turn succeed. A session loop is given as the function of one turn. A turn reads or changes the
  pool in one locked list operation (\<open>lamb_queue_push\<close>, \<open>lamb_queue_pop\<close>), so that it is atomic for
  the other threads.

  The locale \<open>store_forward\<close> is the contract of a pair of session loops; what a whole broker
  does with messages follows from it.
\<close>

subsection \<open>One turn of a receive loop\<close>

record rx =
  r_buf :: "bytes option"
  r_timedout :: bool
  r_conns :: nat
  r_calloc :: bool
  r_node :: bool
  r_pk :: bool
  r_frame :: bool

datatype frame = Short | Frame u32 bytes

definition classify :: "bytes option \<Rightarrow> frame" where
  "classify r =
     (case r of
        None \<Rightarrow> Short
      | Some buf \<Rightarrow> if length buf < HEAD then Short else Frame (CHECK_COMMAND buf) (drop HEAD buf))"

definition idle_stop :: "rx \<Rightarrow> bool" where
  "idle_stop r \<longleftrightarrow> r_timedout r \<and> r_conns r = 0"

definition rx_ok :: "rx \<Rightarrow> bool" where
  "rx_ok r \<longleftrightarrow> r_calloc r \<and> r_node r \<and> r_pk r \<and> r_frame r"

type_synonym 'm iter = "nat \<Rightarrow> rx \<Rightarrow> 'm pool \<Rightarrow> ('m pool \<times> bytes list \<times> bool) option"

lemma classify_frame [simp]: "classify (Some (htonl c @ p)) = Frame c p"
  by (simp add: classify_def HEAD_def)

lemma classify_bare [simp]: "classify (Some (htonl c)) = Frame c []"
  using classify_frame [of c "[]"] by simp

subsection \<open>Sessions\<close>

record session =
  s_push :: bool
  s_client :: int
  s_queue :: nat
  s_fd :: int

record bconf =
  bc_listen :: string
  bc_port :: int
  bc_timeout :: int

record 'm broker =
  b_pool :: "'m pool"
  b_net :: nnet
  b_resp :: Response
  b_sess :: "session option list"

text \<open>
  One turn of session \<open>j\<close>: its loop's turn, the frames it sends, and the end of the thread.
  The trace records what came in and what went out, by client.
\<close>

datatype wire = In int bytes | Out int bytes

definition send_all :: "nnenv \<Rightarrow> int \<Rightarrow> bytes list \<Rightarrow> nnet \<Rightarrow> nnet" where
  "send_all e fd out s = fold (\<lambda>f n. snd (nn_send e fd f n)) out s"

definition broker_frame ::
  "nnenv \<Rightarrow> 'm iter \<Rightarrow> 'm iter \<Rightarrow> nat \<Rightarrow> rx \<Rightarrow> 'm broker \<Rightarrow> ('m broker \<times> wire list) option" where
  "broker_frame e push_iter pull_iter j r B =
     (if length (b_sess B) \<le> j then Some (B, [])
      else case b_sess B ! j of
             None \<Rightarrow> Some (B, [])
           | Some s \<Rightarrow> do {
               (P, out, stop) \<leftarrow> (if s_push s then push_iter else pull_iter) (s_queue s) r (b_pool B);
               let n = send_all e (s_fd s) out (b_net B);
               Some (B\<lparr>b_pool := P, b_net := (if stop then nn_close (s_fd s) n else n),
                       b_sess := (if stop then (b_sess B)[j := None] else b_sess B)\<rparr>,
                     (if s_push s then (case r_buf r of None \<Rightarrow> [] | Some b \<Rightarrow> [In (s_client s) b])
                      else map (Out (s_client s)) out)) })"

definition broker_init :: "nnet \<Rightarrow> 'm broker" where
  "broker_init s = \<lparr>b_pool = empty_pool, b_net = s, b_resp = \<lparr>resp_id = 0, resp_host = []\<rparr>, b_sess = []\<rparr>"

subsection \<open>The contract of the two session loops\<close>

definition broker_inv :: "'m broker \<Rightarrow> bool" where
  "broker_inv B \<longleftrightarrow> pool_inv (b_pool B) \<and>
     (\<forall>s. Some s \<in> set (b_sess B) \<longrightarrow> pool_find (s_client s) (b_pool B) = Some (s_queue s))"

primrec got :: "(bytes \<Rightarrow> 'm list) \<Rightarrow> int \<Rightarrow> wire list \<Rightarrow> 'm list" where
  "got accept c [] = []"
| "got accept c (w # ws) =
     (case w of In d b \<Rightarrow> (if d = c then accept b else []) @ got accept c ws | Out d f \<Rightarrow> got accept c ws)"

primrec handed :: "int \<Rightarrow> wire list \<Rightarrow> bytes list" where
  "handed c [] = []"
| "handed c (w # ws) =
     (case w of In d b \<Rightarrow> handed c ws
      | Out d f \<Rightarrow> (if d = c \<and> CHECK_COMMAND f \<noteq> LAMB_EMPTY then f # handed c ws else handed c ws))"

text \<open>The frames of client \<open>c\<close> whose messages were queued.\<close>

primrec taken :: "(bytes \<Rightarrow> 'm list) \<Rightarrow> int \<Rightarrow> wire list \<Rightarrow> bytes list" where
  "taken accept c [] = []"
| "taken accept c (w # ws) =
     (case w of In d b \<Rightarrow> (if d = c \<and> accept b \<noteq> [] then b # taken accept c ws else taken accept c ws)
      | Out d f \<Rightarrow> taken accept c ws)"

lemma got_append [simp]: "got accept c (xs @ ys) = got accept c xs @ got accept c ys"
  by (induction xs) (auto split: wire.split)

lemma handed_append [simp]: "handed c (xs @ ys) = handed c xs @ handed c ys"
  by (induction xs) (auto split: wire.split)

lemma got_Out [simp]: "got accept c (map (Out d) out) = []"
  by (induction out) auto

locale store_forward =
  fixes push_iter :: "'m iter"
    and pull_iter :: "'m iter"
    and accept :: "bytes \<Rightarrow> 'm list"
    and emit :: "'m \<Rightarrow> bytes"
  assumes push_law: "push_iter k r P = Some (P', out, stop) \<Longrightarrow> rx_ok r \<Longrightarrow>
        out = [] \<and> P' = fold (pool_push True k) (case r_buf r of None \<Rightarrow> [] | Some b \<Rightarrow> accept b) P"
    and pull_law: "pull_iter k r P = Some (P', out, stop) \<Longrightarrow> rx_ok r \<Longrightarrow>
        P' = P \<and> (\<forall>f \<in> set out. CHECK_COMMAND f = LAMB_EMPTY) \<or>
        (\<exists>m. pool_pop k P = (Some m, P') \<and> out = [emit m])"
    and emit_law: "CHECK_COMMAND (emit m) \<noteq> LAMB_EMPTY"
begin

lemma push_all_content:
  assumes "pool_inv P" and "pool_find i P = Some k"
  shows "pool_inv (fold (pool_push True k) ms P)" and "pool_find j (fold (pool_push True k) ms P) = pool_find j P"
    and "pool_content (fold (pool_push True k) ms P) = (pool_content P)(i := pool_content P i @ ms)"
  using assms
proof (induction ms arbitrary: P)
  case Nil
  { case 1 then show ?case by simp }
  { case 2 then show ?case by simp }
  { case 3 then show ?case by simp }
next
  case (Cons m ms)
  { case 1 then show ?case using Cons.IH(1) by (simp add: pool_inv_push) }
  { case 2 then show ?case using Cons.IH(2) by (simp add: pool_inv_push) }
  { case 3 then show ?case using Cons.IH(3) [of "pool_push True k m P"] pool_push_content [of P i k m]
    by (simp add: pool_inv_push fun_eq_iff) }
qed

lemma handed_empty: "\<forall>f \<in> set out. CHECK_COMMAND f = LAMB_EMPTY \<Longrightarrow> handed c (map (Out d) out) = []"
  by (induction out) auto

lemma frame_step:
  assumes inv: "broker_inv B" and ok: "rx_ok r"
    and step: "broker_frame e push_iter pull_iter j r B = Some (B', w)"
  shows "broker_inv B'" and "map emit (pool_content (b_pool B) c @ got accept c w) =
     handed c w @ map emit (pool_content (b_pool B') c)"
proof -
  let ?P = "b_pool B"
  have "broker_inv B' \<and> map emit (pool_content ?P c @ got accept c w) =
     handed c w @ map emit (pool_content (b_pool B') c)"
  proof (cases "length (b_sess B) \<le> j \<or> b_sess B ! j = None")
    case True
    then have "B' = B" "w = []" using step by (auto simp: broker_frame_def split: option.splits if_splits)
    then show ?thesis using inv by simp
  next
    case False
    then obtain s where j: "j < length (b_sess B)" and s: "b_sess B ! j = Some s" by auto
    then have find: "pool_find (s_client s) ?P = Some (s_queue s)" and P: "pool_inv ?P"
      using inv by (auto simp: broker_inv_def in_set_conv_nth)
    let ?it = "(if s_push s then push_iter else pull_iter) (s_queue s) r ?P"
    obtain P' out stop where it: "?it = Some (P', out, stop)"
      using step j s by (cases ?it) (auto simp: broker_frame_def simp del: split_paired_Ex)
    have B': "b_pool B' = P'" "b_sess B' = (if stop then (b_sess B)[j := None] else b_sess B)"
      and w: "w = (if s_push s then (case r_buf r of None \<Rightarrow> [] | Some b \<Rightarrow> [In (s_client s) b])
                   else map (Out (s_client s)) out)"
      using step j s it by (simp_all add: broker_frame_def Let_def) auto
    have sess: "Some t \<in> set (b_sess B') \<Longrightarrow> Some t \<in> set (b_sess B)" for t
      using B'(2) set_update_subset_insert [of "b_sess B" j None] by (auto split: if_splits)
    have invI: "broker_inv B'" if "pool_inv P'" "\<And>i. pool_find i P' = pool_find i ?P"
      using that inv B'(1) sess by (auto simp: broker_inv_def)
    show ?thesis
    proof (cases "s_push s")
      case True
      let ?ms = "case r_buf r of None \<Rightarrow> [] | Some b \<Rightarrow> accept b"
      have "P' = fold (pool_push True (s_queue s)) ?ms ?P" using push_law [OF _ ok] it True by auto
      with push_all_content(1,3) [OF P find, of ?ms] push_all_content(2) [OF P find, of _ ?ms]
        invI w True B'(1) show ?thesis
        by (auto split: option.splits)
    next
      case False
      with it have "pull_iter (s_queue s) r ?P = Some (P', out, stop)" by simp
      from pull_law [OF this ok] show ?thesis
      proof
        assume "P' = ?P \<and> (\<forall>f \<in> set out. CHECK_COMMAND f = LAMB_EMPTY)"
        then show ?thesis using invI P w False B'(1) handed_empty [of out c "s_client s"]
          by auto
      next
        assume "\<exists>m. pool_pop (s_queue s) ?P = (Some m, P') \<and> out = [emit m]"
        then obtain m where m: "pool_pop (s_queue s) ?P = (Some m, P')" "out = [emit m]" by blast
        have "pool_inv P'" "\<And>i. pool_find i P' = pool_find i ?P"
          using pool_inv_pop [OF P, of "s_queue s"] pool_find_pop [of _ "s_queue s" ?P] m(1) by auto
        moreover have "pool_content ?P (s_client s) = m # pool_content P' (s_client s)"
          "\<And>i. i \<noteq> s_client s \<Longrightarrow> pool_content P' i = pool_content ?P i"
          using pool_pop_content [OF P find] m(1) by (auto split: list.splits)
        ultimately show ?thesis using invI w False B'(1) m(2) emit_law by auto
      qed
    qed
  qed
  then show "broker_inv B'" and "map emit (pool_content ?P c @ got accept c w) =
     handed c w @ map emit (pool_content (b_pool B') c)" by blast+
qed

end

subsection \<open>Loops that never reach undefined behaviour\<close>

definition pool_all :: "('m \<Rightarrow> bool) \<Rightarrow> 'm pool \<Rightarrow> bool" where
  "pool_all fine P \<longleftrightarrow> (\<forall>q \<in> set (pqueues P). \<forall>m \<in> set (bq_items q). fine m)"

lemma pool_all_update:
  assumes "pool_all fine P" and "\<forall>m \<in> set ms. fine m"
  shows "pool_all fine (P\<lparr>pqueues := (pqueues P)[k := q\<lparr>bq_items := ms\<rparr>]\<rparr>)"
  using assms set_update_subset_insert [of "pqueues P" k "q\<lparr>bq_items := ms\<rparr>"]
  by (fastforce simp: pool_all_def)

lemma pool_all_nth: "pool_all fine P \<Longrightarrow> k < length (pqueues P) \<Longrightarrow> m \<in> set (bq_items (pqueues P ! k)) \<Longrightarrow> fine m"
  by (auto simp: pool_all_def)

lemma pool_all_push:
  assumes "pool_all fine P" and "k < length (pqueues P)" and "fine m"
  shows "pool_all fine (pool_push mem k m P)"
  using assms by (auto simp: pool_push_def intro!: pool_all_update dest: pool_all_nth)

lemma length_pool_push [simp]: "length (pqueues (pool_push mem k m P)) = length (pqueues P)"
  by (simp add: pool_push_def)

lemma pool_all_push_list:
  "pool_all fine P \<Longrightarrow> k < length (pqueues P) \<Longrightarrow> \<forall>m \<in> set ms. fine m \<Longrightarrow>
   pool_all fine (fold (pool_push True k) ms P)"
  by (induction ms arbitrary: P) (simp_all add: pool_all_push)

lemma pool_all_pop:
  assumes "pool_all fine P" and "k < length (pqueues P)" and "pool_pop k P = (r, P')"
  shows "pool_all fine P'"
proof (cases "bq_items (pqueues P ! k)")
  case Nil
  then show ?thesis using assms by (simp add: pool_pop_def)
next
  case (Cons m ms)
  then have "\<forall>x \<in> set ms. fine x" using pool_all_nth [OF assms(1,2)] by simp
  with Cons assms(1,3) show ?thesis by (auto simp: pool_pop_def intro!: pool_all_update)
qed

definition rx_clean :: "(bytes \<Rightarrow> bool) \<Rightarrow> rx \<Rightarrow> bool" where
  "rx_clean clean r = (case r_buf r of None \<Rightarrow> True | Some b \<Rightarrow> clean b)"

locale store_forward_total = store_forward push_iter pull_iter accept emit
  for push_iter :: "'m iter" and pull_iter :: "'m iter" and accept :: "bytes \<Rightarrow> 'm list"
    and emit :: "'m \<Rightarrow> bytes" +
  fixes clean :: "bytes \<Rightarrow> bool"
    and fine :: "'m \<Rightarrow> bool"
  assumes push_total: "(case r_buf r of None \<Rightarrow> True | Some b \<Rightarrow> clean b) \<Longrightarrow> \<exists>x. push_iter k r P = Some x"
    and accept_fine: "clean b \<Longrightarrow> m \<in> set (accept b) \<Longrightarrow> fine m"
    and emit_accept: "clean b \<Longrightarrow> map emit (accept b) = (if accept b = [] then [] else [b])"
    and pull_total: "\<forall>m \<in> set (bq_items (pqueues P ! k)). fine m \<Longrightarrow> \<exists>x. pull_iter k r P = Some x"
begin

lemma frame_total:
  assumes inv: "broker_inv B" and all: "pool_all fine (b_pool B)" and ok: "rx_ok r"
    and cl: "rx_clean clean r"
  shows "\<exists>B' w. broker_frame e push_iter pull_iter j r B = Some (B', w) \<and> pool_all fine (b_pool B')"
proof (cases "length (b_sess B) \<le> j \<or> b_sess B ! j = None")
  case True
  then show ?thesis using all by (auto simp: broker_frame_def)
next
  case False
  then obtain s where j: "j < length (b_sess B)" and s: "b_sess B ! j = Some s" by auto
  let ?P = "b_pool B" and ?k = "s_queue s"
  have "pool_find (s_client s) ?P = Some ?k"
    using inv j s by (auto simp: broker_inv_def in_set_conv_nth)
  then have k: "?k < length (pqueues ?P)"
    using inv pool_find_Some by (fastforce simp: broker_inv_def pool_inv_def)
  let ?it = "(if s_push s then push_iter else pull_iter) ?k r ?P"
  have "\<exists>x. ?it = Some x"
  proof (cases "s_push s")
    case True
    then show ?thesis using push_total [of r ?k ?P] cl by (simp add: rx_clean_def)
  next
    case False
    have "\<forall>m \<in> set (bq_items (pqueues ?P ! ?k)). fine m" using all k by (auto simp: pool_all_def)
    with False show ?thesis using pull_total [of ?P ?k r] by simp
  qed
  then obtain P' out stop where it: "?it = Some (P', out, stop)" by auto
  have "pool_all fine P'"
  proof (cases "s_push s")
    case True
    let ?ms = "case r_buf r of None \<Rightarrow> [] | Some b \<Rightarrow> accept b"
    have "P' = fold (pool_push True ?k) ?ms ?P" using push_law [OF _ ok] it True by auto
    moreover have "\<forall>m \<in> set ?ms. fine m"
      using cl accept_fine by (auto simp: rx_clean_def split: option.splits)
    ultimately show ?thesis using pool_all_push_list [OF all k] by blast
  next
    case False
    with it have "pull_iter ?k r ?P = Some (P', out, stop)" by simp
    from pull_law [OF this ok] show ?thesis using all pool_all_pop [OF all k] by blast
  qed
  then show ?thesis using j s it by (auto simp: broker_frame_def Let_def)
qed

lemma taken_got: "\<forall>d b. In d b \<in> set ws \<longrightarrow> clean b \<Longrightarrow> map emit (got accept c ws) = taken accept c ws"
proof (induction ws)
  case Nil
  show ?case by simp
next
  case (Cons w ws)
  then have "map emit (got accept c ws) = taken accept c ws" by simp
  with Cons.prems emit_accept show ?case by (cases w) auto
qed

end

subsection \<open>The start\<close>

lemma pool_all_empty: "pool_all fine (b_pool (broker_init s))"
  by (simp add: pool_all_def broker_init_def empty_pool_def)

lemma broker_inv_init: "broker_inv (broker_init s)" "pool_content (b_pool (broker_init s)) = (\<lambda>i. [])"
  by (simp_all add: broker_inv_def broker_init_def pool_inv_empty)

end
