(* ===== verification/Mt.thy ===== *)
theory Mt
  imports Broker
begin

text \<open>
  The mt process (\<open>src/src/mt.c\<close>): it keeps the submits of each client until the client's
  server pulls them. The two session loops and the statistics; the request loop and the start of
  sessions are in Handshake.
\<close>

definition mt_push_loop :: "(bytes \<Rightarrow> Submit option) \<Rightarrow> lamb_submit_t iter" where
  "mt_push_loop unpack k r P =
     (case classify (r_buf r) of
        Short \<Rightarrow> Some (P, [], idle_stop r)
      | Frame c body \<Rightarrow>
          (if c = LAMB_SUBMIT then
             (case unpack body of
                None \<Rightarrow> Some (P, [], False)
              | Some packet \<Rightarrow>
                  (if r_calloc r then do {
                     message \<leftarrow> submit_store packet;
                     Some (pool_push (r_node r) k message P, [], False) }
                   else Some (P, [], False)))
           else Some (P, [], c = LAMB_BYE)))"

definition mt_pull_loop :: "(Submit \<Rightarrow> bytes) \<Rightarrow> lamb_submit_t iter" where
  "mt_pull_loop pack k r P =
     (case classify (r_buf r) of
        Short \<Rightarrow> Some (P, [], idle_stop r)
      | Frame c body \<Rightarrow>
          (if c = LAMB_REQ then
             (case pool_pop k P of
                (None, P1) \<Rightarrow>
                  Some (P1, (case lamb_pack_assembly (r_frame r) LAMB_EMPTY None of None \<Rightarrow> [] | Some f \<Rightarrow> [f]), False)
              | (Some message, P1) \<Rightarrow> do {
                  packet \<leftarrow> submit_load message;
                  Some (P1, (if r_pk r
                             then (case lamb_pack_assembly (r_frame r) LAMB_SUBMIT (Some (pack packet)) of
                                     None \<Rightarrow> [] | Some f \<Rightarrow> [f])
                             else []), False) })
           else Some (P, [], c = LAMB_BYE)))"

definition mt_session ::
  "nnenv \<Rightarrow> (bytes \<Rightarrow> Submit option) \<Rightarrow> (Submit \<Rightarrow> bytes) \<Rightarrow> nat \<Rightarrow> rx \<Rightarrow>
   lamb_submit_t broker \<Rightarrow> (lamb_submit_t broker \<times> wire list) option" where
  "mt_session e unpack pack j r B = broker_frame e (mt_push_loop unpack) (mt_pull_loop pack) j r B"

text \<open>The statistics: the commands sent to redis, in order; \<open>reply\<close> says which got a reply.\<close>

definition mt_sync_update :: "(string \<Rightarrow> bool) \<Rightarrow> bool \<Rightarrow> int \<Rightarrow> nat \<Rightarrow> int \<times> string list" where
  "mt_sync_update reply cache i num =
     (if \<not> cache then (-1, [])
      else let cmd = ''HSET mt.queue '' @ show_int i @ '' '' @ show_nat num
           in (if reply cmd then 0 else -1, [cmd]))"

definition mt_reset_queues :: "string list" where
  "mt_reset_queues = [''DEL mt.queue'']"

definition mt_stat_loop :: "(string \<Rightarrow> bool) \<Rightarrow> 'm pool \<Rightarrow> string list" where
  "mt_stat_loop reply P =
     concat (map (\<lambda>k. snd (mt_sync_update reply True (bq_id (pqueues P ! k)) (pool_len k P))) (plist P))"

subsection \<open>The loops meet the contract\<close>

definition mt_accept :: "(bytes \<Rightarrow> Submit option) \<Rightarrow> bytes \<Rightarrow> lamb_submit_t list" where
  "mt_accept unpack b =
     (case classify (Some b) of
        Short \<Rightarrow> []
      | Frame c body \<Rightarrow>
          (if c = LAMB_SUBMIT then
             (case unpack body of None \<Rightarrow> [] | Some p \<Rightarrow> (case submit_store p of None \<Rightarrow> [] | Some m \<Rightarrow> [m]))
           else []))"

definition mt_emit :: "(Submit \<Rightarrow> bytes) \<Rightarrow> lamb_submit_t \<Rightarrow> bytes" where
  "mt_emit pack m = htonl LAMB_SUBMIT @ pack (the (submit_load m))"

definition mt_clean :: "(bytes \<Rightarrow> Submit option) \<Rightarrow> (Submit \<Rightarrow> bytes) \<Rightarrow> bytes \<Rightarrow> bool" where
  "mt_clean unpack pack b =
     (case classify (Some b) of
        Short \<Rightarrow> True
      | Frame c body \<Rightarrow>
          c = LAMB_SUBMIT \<longrightarrow> (case unpack body of None \<Rightarrow> True | Some p \<Rightarrow> submit_fits p \<and> pack p = body))"

definition mt_fine :: "lamb_submit_t \<Rightarrow> bool" where
  "mt_fine m \<longleftrightarrow> 0 \<le> ls_length m \<and> ls_length m \<le> 160"

lemma submit_load_total: "mt_fine m \<Longrightarrow> \<exists>p. submit_load m = Some p"
  by (auto simp: mt_fine_def submit_load_def content_bytes_def)

lemma commands_differ [simp]:
  "LAMB_SUBMIT \<noteq> LAMB_EMPTY" "LAMB_REPORT \<noteq> LAMB_EMPTY" "LAMB_DELIVER \<noteq> LAMB_EMPTY"
  "LAMB_REPORT \<noteq> LAMB_DELIVER" "LAMB_DELIVER \<noteq> LAMB_REPORT" "LAMB_SUBMIT \<noteq> LAMB_BYE"
  "LAMB_REPORT \<noteq> LAMB_BYE" "LAMB_DELIVER \<noteq> LAMB_BYE" "LAMB_REQ \<noteq> LAMB_BYE"
  by (simp_all add: commands)

lemma lamb_pack_assembly_simps [simp]:
  "lamb_pack_assembly True c None = Some (htonl c)"
  "lamb_pack_assembly True c (Some p) = Some (htonl c @ p)"
  "lamb_pack_assembly False c x = None"
  by (simp_all add: lamb_pack_assembly_def)

lemma fits_fine: "submit_fits p \<Longrightarrow> submit_store p = Some m \<Longrightarrow> mt_fine m"
  by (auto simp: submit_fits_def submit_store_def mt_fine_def bind_eq_Some_conv)

lemma mt_acceptE:
  assumes "m \<in> set (mt_accept unpack b)"
  obtains body p where "classify (Some b) = Frame LAMB_SUBMIT body" "unpack body = Some p"
    "submit_store p = Some m"
proof (cases "classify (Some b)")
  case (Frame c body)
  with assms that show ?thesis
    by (cases "c = LAMB_SUBMIT"; cases "unpack body"; cases "submit_store (the (unpack body))")
      (simp_all add: mt_accept_def)
qed (use assms in \<open>simp add: mt_accept_def\<close>)

lemma mt_accept_fine: "mt_clean unpack pack b \<Longrightarrow> m \<in> set (mt_accept unpack b) \<Longrightarrow> mt_fine m"
  by (erule mt_acceptE) (simp add: mt_clean_def fits_fine)

lemma classify_Frame:
  assumes "classify (Some b) = Frame c body"
  shows "b = htonl c @ body"
proof -
  have "4 \<le> length b" "c = CHECK_COMMAND b" "body = drop HEAD b"
    using assms by (auto simp: classify_def HEAD_def split: if_splits)
  then show ?thesis using frame_of_parts [of b] by simp
qed

lemma mt_emit_accept:
  assumes "mt_clean unpack pack b"
  shows "map (mt_emit pack) (mt_accept unpack b) = (if mt_accept unpack b = [] then [] else [b])"
proof (cases "mt_accept unpack b")
  case (Cons m ms)
  then have "m \<in> set (mt_accept unpack b)" by simp
  then obtain body p where p: "classify (Some b) = Frame LAMB_SUBMIT body" "unpack body = Some p"
    "submit_store p = Some m" by (rule mt_acceptE)
  moreover have "submit_fits p" "pack p = body" using assms p by (simp_all add: mt_clean_def)
  moreover have "submit_load m = Some p" using submit_fits_round p(3) \<open>submit_fits p\<close> by fastforce
  moreover have "ms = []" using Cons p by (simp add: mt_accept_def)
  ultimately show ?thesis using Cons classify_Frame [OF p(1)] by (simp add: mt_emit_def)
qed simp

interpretation mt: store_forward_total "mt_push_loop unpack" "mt_pull_loop pack" "mt_accept unpack"
    "mt_emit pack" "mt_clean unpack pack" mt_fine for unpack pack
proof unfold_locales
  fix k r and P P' :: "lamb_submit_t pool" and out stop
  assume "mt_push_loop unpack k r P = Some (P', out, stop)" and "rx_ok r"
  then show "out = [] \<and> P' = fold (pool_push True k)
      (case r_buf r of None \<Rightarrow> [] | Some b \<Rightarrow> mt_accept unpack b) P"
    by (auto simp: mt_push_loop_def mt_accept_def rx_ok_def classify_def
        split: option.splits if_splits frame.splits)
next
  fix k r and P P' :: "lamb_submit_t pool" and out stop
  assume "mt_pull_loop pack k r P = Some (P', out, stop)" and "rx_ok r"
  then show "P' = P \<and> (\<forall>f \<in> set out. CHECK_COMMAND f = LAMB_EMPTY) \<or>
      (\<exists>m. pool_pop k P = (Some m, P') \<and> out = [mt_emit pack m])"
    by (cases "bq_items (pqueues P ! k)")
      (auto simp: mt_pull_loop_def mt_emit_def rx_ok_def bind_eq_Some_conv pool_pop_def
        split: if_splits frame.splits)
next
  show "CHECK_COMMAND (mt_emit pack m) \<noteq> LAMB_EMPTY" for m by (simp add: mt_emit_def)
next
  fix k and r :: rx and P :: "lamb_submit_t pool"
  assume "case r_buf r of None \<Rightarrow> True | Some b \<Rightarrow> mt_clean unpack pack b"
  then show "\<exists>x. mt_push_loop unpack k r P = Some x"
    using submit_fits_round
    by (fastforce simp: mt_push_loop_def mt_clean_def classify_def split: option.splits if_splits frame.splits)
next
  fix b m
  assume "mt_clean unpack pack b" and "m \<in> set (mt_accept unpack b)"
  then show "mt_fine m" by (rule mt_accept_fine)
next
  show "map (mt_emit pack) (mt_accept unpack b) = (if mt_accept unpack b = [] then [] else [b])"
    if "mt_clean unpack pack b" for b using that by (rule mt_emit_accept)
next
  fix P :: "lamb_submit_t pool" and k and r :: rx
  assume "\<forall>m \<in> set (bq_items (pqueues P ! k)). mt_fine m"
  then show "\<exists>x. mt_pull_loop pack k r P = Some x"
    using submit_load_total
    by (cases "bq_items (pqueues P ! k)")
      (auto simp: mt_pull_loop_def pool_pop_def split: frame.splits, fastforce)
qed

lemma mt_session_frame: "mt_session e unpack pack = broker_frame e (mt_push_loop unpack) (mt_pull_loop pack)"
  by (intro ext) (simp add: mt_session_def)

definition example_rx :: "bytes \<Rightarrow> rx" where
  "example_rx b = \<lparr>r_buf = Some b, r_timedout = False, r_conns = 1, r_calloc = True, r_node = True,
     r_pk = True, r_frame = True\<rparr>"

definition example_env :: nnenv where
  "example_env = \<lparr>e_socket = (\<lambda>t p. int t + 3), e_connect = (\<lambda>t fd h. 0), e_bind = (\<lambda>t fd a. 0),
     e_send = (\<lambda>t fd b. int (length b)), e_recv = (\<lambda>t fd. None), e_malloc = (\<lambda>t. True)\<rparr>"

definition example_submit :: "string \<Rightarrow> Submit" where
  "example_submit b = \<lparr>sb_id = 1, sb_account = 1, sb_company = 1, sb_spid = ''1'', sb_spcode = ''106'',
     sb_phone = ''13800000000'', sb_msgfmt = 11, sb_length = int (length b), sb_content = b\<rparr>"

lemma r_buf_example [simp]: "r_buf (example_rx b) = Some b"
  by (simp add: example_rx_def)

lemma rx_ok_example [simp]: "rx_ok (example_rx b)"
  by (simp add: rx_ok_def example_rx_def)

end
