(* ===== verification/Mo.thy ===== *)
theory Mo
  imports Mt
begin

text \<open>
  The mo process (\<open>src/src/mo.c\<close>): the queues of status reports and of messages from phones,
  kept per client until the client's gateway pulls them. It is the mt process with two kinds
  of message in one queue.
\<close>

record upcodec =
  unpack_report :: "bytes \<Rightarrow> Report option"
  unpack_deliver :: "bytes \<Rightarrow> Deliver option"
  pack_report :: "Report \<Rightarrow> bytes"
  pack_deliver :: "Deliver \<Rightarrow> bytes"

definition mo_push_loop :: "upcodec \<Rightarrow> upmsg iter" where
  "mo_push_loop u k r P =
     (case classify (r_buf r) of
        Short \<Rightarrow> Some (P, [], idle_stop r)
      | Frame c body \<Rightarrow>
          (if c = LAMB_REPORT then
             (case unpack_report u body of
                None \<Rightarrow> Some (P, [], False)
              | Some rpack \<Rightarrow>
                  (if r_calloc r
                   then Some (pool_push (r_node r) k (UpReport (report_store rpack)) P, [], False)
                   else Some (P, [], False)))
           else if c = LAMB_DELIVER then
             (case unpack_deliver u body of
                None \<Rightarrow> Some (P, [], False)
              | Some dpack \<Rightarrow>
                  (if r_calloc r then do {
                     d \<leftarrow> deliver_store dpack;
                     Some (pool_push (r_node r) k (UpDeliver d) P, [], False) }
                   else Some (P, [], False)))
           else Some (P, [], c = LAMB_BYE)))"

text \<open>An empty queue is answered with whatever frame there is: none was built, none is sent
  but an empty message.\<close>

definition mo_pull_loop :: "upcodec \<Rightarrow> upmsg iter" where
  "mo_pull_loop u k r P =
     (case classify (r_buf r) of
        Short \<Rightarrow> Some (P, [], idle_stop r)
      | Frame c body \<Rightarrow>
          (if c = LAMB_REQ then
             (case pool_pop k P of
                (None, P1) \<Rightarrow>
                  Some (P1, [case lamb_pack_assembly (r_frame r) LAMB_EMPTY None of None \<Rightarrow> [] | Some f \<Rightarrow> f], False)
              | (Some (UpReport report), P1) \<Rightarrow>
                  Some (P1, (if r_pk r
                             then (case lamb_pack_assembly (r_frame r) LAMB_REPORT
                                           (Some (pack_report u (report_load report))) of
                                     None \<Rightarrow> [] | Some f \<Rightarrow> [f])
                             else []), False)
              | (Some (UpDeliver deliver), P1) \<Rightarrow> do {
                  dpack \<leftarrow> deliver_load deliver;
                  Some (P1, (if r_pk r
                             then (case lamb_pack_assembly (r_frame r) LAMB_DELIVER
                                           (Some (pack_deliver u dpack)) of
                                     None \<Rightarrow> [] | Some f \<Rightarrow> [f])
                             else []), False) })
           else Some (P, [], c = LAMB_BYE)))"

definition mo_session ::
  "nnenv \<Rightarrow> upcodec \<Rightarrow> nat \<Rightarrow> rx \<Rightarrow> upmsg broker \<Rightarrow> (upmsg broker \<times> wire list) option" where
  "mo_session e u j r B = broker_frame e (mo_push_loop u) (mo_pull_loop u) j r B"

definition mo_server_init :: "nnenv \<Rightarrow> string \<Rightarrow> int \<Rightarrow> nnet \<Rightarrow> int option \<times> nnet" where
  "mo_server_init e listen port s =
     (let addr = snprintf_z 128 (''tcp://'' @ listen @ '':'' @ show_int port);
          (fd, s1) = nn_socket e NN_REP s
      in if fd < 0 then (None, s1)
         else if e_bind e (ntick s1) fd addr < 0 then (None, nn_close fd (tick s1))
         else (Some fd, tick s1))"

definition mo_sync_update :: "(string \<Rightarrow> bool) \<Rightarrow> bool \<Rightarrow> int \<Rightarrow> nat \<Rightarrow> int \<times> string list" where
  "mo_sync_update reply cache i num =
     (if \<not> cache then (-1, [])
      else let cmd = ''HSET mo.queue '' @ show_int i @ '' '' @ show_nat num
           in (if reply cmd then 0 else -1, [cmd]))"

definition mo_reset_queues :: "string list" where
  "mo_reset_queues = [''DEL mo.queue'']"

definition mo_stat_loop :: "(string \<Rightarrow> bool) \<Rightarrow> 'm pool \<Rightarrow> string list" where
  "mo_stat_loop reply P =
     concat (map (\<lambda>k. snd (mo_sync_update reply True (bq_id (pqueues P ! k)) (pool_len k P))) (plist P))"

subsection \<open>The loops meet the contract\<close>

definition mo_accept :: "upcodec \<Rightarrow> bytes \<Rightarrow> upmsg list" where
  "mo_accept u b =
     (case classify (Some b) of
        Short \<Rightarrow> []
      | Frame c body \<Rightarrow>
          (if c = LAMB_REPORT then
             (case unpack_report u body of None \<Rightarrow> [] | Some p \<Rightarrow> [UpReport (report_store p)])
           else if c = LAMB_DELIVER then
             (case unpack_deliver u body of None \<Rightarrow> []
              | Some p \<Rightarrow> (case deliver_store p of None \<Rightarrow> [] | Some d \<Rightarrow> [UpDeliver d]))
           else []))"

definition mo_emit :: "upcodec \<Rightarrow> upmsg \<Rightarrow> bytes" where
  "mo_emit u m =
     (case m of
        UpReport r \<Rightarrow> htonl LAMB_REPORT @ pack_report u (report_load r)
      | UpDeliver d \<Rightarrow> htonl LAMB_DELIVER @ pack_deliver u (the (deliver_load d)))"

definition mo_clean :: "upcodec \<Rightarrow> bytes \<Rightarrow> bool" where
  "mo_clean u b =
     (case classify (Some b) of
        Short \<Rightarrow> True
      | Frame c body \<Rightarrow>
          (c = LAMB_REPORT \<longrightarrow>
             (case unpack_report u body of None \<Rightarrow> True | Some p \<Rightarrow> report_fits p \<and> pack_report u p = body)) \<and>
          (c = LAMB_DELIVER \<longrightarrow>
             (case unpack_deliver u body of None \<Rightarrow> True | Some p \<Rightarrow> deliver_fits p \<and> pack_deliver u p = body)))"

definition mo_fine :: "upmsg \<Rightarrow> bool" where
  "mo_fine m = (case m of UpReport r \<Rightarrow> True | UpDeliver d \<Rightarrow> 0 \<le> ld_length d \<and> ld_length d \<le> 160)"

lemma deliver_load_total: "mo_fine (UpDeliver d) \<Longrightarrow> \<exists>p. deliver_load d = Some p"
  by (auto simp: mo_fine_def deliver_load_def content_bytes_def)

lemma deliver_fits_fine: "deliver_fits p \<Longrightarrow> deliver_store p = Some d \<Longrightarrow> mo_fine (UpDeliver d)"
  by (auto simp: deliver_fits_def deliver_store_def mo_fine_def bind_eq_Some_conv)

lemma mo_acceptE:
  assumes "m \<in> set (mo_accept u b)"
  obtains (report) body p where "classify (Some b) = Frame LAMB_REPORT body" "unpack_report u body = Some p"
      "m = UpReport (report_store p)" "mo_accept u b = [m]"
  | (deliver) body p d where "classify (Some b) = Frame LAMB_DELIVER body" "unpack_deliver u body = Some p"
      "deliver_store p = Some d" "m = UpDeliver d" "mo_accept u b = [m]"
proof (cases "classify (Some b)")
  case (Frame c body)
  consider "c = LAMB_REPORT" | "c = LAMB_DELIVER" | "c \<noteq> LAMB_REPORT" "c \<noteq> LAMB_DELIVER" by blast
  then show ?thesis
  proof cases
    case 1
    with assms Frame report show ?thesis
      by (cases "unpack_report u body") (simp_all add: mo_accept_def)
  next
    case 2
    with assms Frame deliver show ?thesis
      by (cases "unpack_deliver u body"; cases "deliver_store (the (unpack_deliver u body))")
        (simp_all add: mo_accept_def)
  qed (use assms Frame in \<open>simp add: mo_accept_def\<close>)
qed (use assms in \<open>simp add: mo_accept_def\<close>)

lemma mo_accept_fine: "mo_clean u b \<Longrightarrow> m \<in> set (mo_accept u b) \<Longrightarrow> mo_fine m"
  by (erule mo_acceptE) (simp_all add: mo_clean_def deliver_fits_fine, simp add: mo_fine_def)

lemma mo_emit_accept:
  assumes "mo_clean u b"
  shows "map (mo_emit u) (mo_accept u b) = (if mo_accept u b = [] then [] else [b])"
proof (cases "mo_accept u b")
  case (Cons m ms)
  then have "m \<in> set (mo_accept u b)" by simp
  then show ?thesis
  proof (cases rule: mo_acceptE)
    case (report body p)
    then have "report_fits p" "pack_report u p = body" using assms by (simp_all add: mo_clean_def)
    with report report_fits_round classify_Frame [OF report(1)] show ?thesis by (simp add: mo_emit_def)
  next
    case (deliver body p d)
    then have "deliver_fits p" "pack_deliver u p = body" using assms by (simp_all add: mo_clean_def)
    moreover have "deliver_load d = Some p"
      using deliver_fits_round deliver(3) \<open>deliver_fits p\<close> by fastforce
    ultimately show ?thesis using deliver classify_Frame [OF deliver(1)] by (simp add: mo_emit_def)
  qed
qed simp

interpretation mo: store_forward_total "mo_push_loop u" "mo_pull_loop u" "mo_accept u" "mo_emit u"
    "mo_clean u" mo_fine for u
proof unfold_locales
  fix k r and P P' :: "upmsg pool" and out stop
  assume "mo_push_loop u k r P = Some (P', out, stop)" and "rx_ok r"
  then show "out = [] \<and> P' = fold (pool_push True k)
      (case r_buf r of None \<Rightarrow> [] | Some b \<Rightarrow> mo_accept u b) P"
    by (auto simp: mo_push_loop_def mo_accept_def rx_ok_def classify_def bind_eq_Some_conv
        split: option.splits if_splits frame.splits)
next
  fix k r and P P' :: "upmsg pool" and out stop
  assume "mo_pull_loop u k r P = Some (P', out, stop)" and "rx_ok r"
  then show "P' = P \<and> (\<forall>f \<in> set out. CHECK_COMMAND f = LAMB_EMPTY) \<or>
      (\<exists>m. pool_pop k P = (Some m, P') \<and> out = [mo_emit u m])"
    by (cases "bq_items (pqueues P ! k)"; cases "hd (bq_items (pqueues P ! k))")
      (auto simp: mo_pull_loop_def mo_emit_def rx_ok_def bind_eq_Some_conv pool_pop_def
        split: if_splits frame.splits)
next
  show "CHECK_COMMAND (mo_emit u m) \<noteq> LAMB_EMPTY" for m by (cases m) (simp_all add: mo_emit_def)
next
  fix k and r :: rx and P :: "upmsg pool"
  assume cl: "case r_buf r of None \<Rightarrow> True | Some b \<Rightarrow> mo_clean u b"
  have store: "\<exists>d. deliver_store p = Some d" if "deliver_fits p" for p
    using deliver_fits_round [OF that] by blast
  show "\<exists>x. mo_push_loop u k r P = Some x"
  proof (cases "classify (r_buf r)")
    case (Frame c body)
    then obtain b where "r_buf r = Some b" by (cases "r_buf r") (simp_all add: classify_def)
    with cl Frame show ?thesis
      using store by (fastforce simp: mo_push_loop_def mo_clean_def split: option.splits)
  qed (simp add: mo_push_loop_def)
next
  show "mo_fine m" if "mo_clean u b" "m \<in> set (mo_accept u b)" for b m
    using that by (rule mo_accept_fine)
next
  show "map (mo_emit u) (mo_accept u b) = (if mo_accept u b = [] then [] else [b])"
    if "mo_clean u b" for b using that by (rule mo_emit_accept)
next
  fix P :: "upmsg pool" and k and r :: rx
  assume "\<forall>m \<in> set (bq_items (pqueues P ! k)). mo_fine m"
  then show "\<exists>x. mo_pull_loop u k r P = Some x"
    using deliver_load_total
    by (cases "bq_items (pqueues P ! k)"; cases "hd (bq_items (pqueues P ! k))")
      (auto simp: mo_pull_loop_def pool_pop_def split: frame.splits, fastforce)
qed

lemma mo_session_frame: "mo_session e u = broker_frame e (mo_push_loop u) (mo_pull_loop u)"
  by (intro ext) (simp add: mo_session_def)

definition example_up :: upcodec where
  "example_up = \<lparr>unpack_report = (\<lambda>b. if length b \<le> 11 then Some \<lparr>rp_id = 1, rp_account = 1, rp_company = 1,
       rp_spcode = ''106'', rp_phone = b, rp_status = 1, rp_submittime = ''1'', rp_donetime = ''2''\<rparr> else None),
     unpack_deliver = (\<lambda>b. None), pack_report = rp_phone, pack_deliver = dl_content\<rparr>"

end
