(* ===== verification/Handshake.thy ===== *)
theory Handshake
  imports Mt Mo
begin

text \<open>
  The brokers mt and mo at the granularity of their threads. The request loop of \<open>mt.c\<close> and \<open>mo.c\<close>
  starts a thread for each request, waits for it on a condition variable for three seconds, and
  answers with the shared \<open>resp\<close>, while the thread looks for the client's queue, makes it, searches
  a port, publishes the address and signals; each of these is a step of its own, and looking for
  the queue and adding a new one are two. The sessions go on in between.

  As long as every session is ready in time, the wait puts the starts one after the other, and the
  broker keeps the contract of its session loops. A start that is not ready in time goes on beside
  the next one, and then neither the answers nor the queues are right.
\<close>

subsection \<open>The threads\<close>

text \<open>
  Where the request loop is: it holds the mutex from \<open>Starting\<close> to \<open>Waiting\<close>, the wait releases
  it, and a wait that is over (\<open>Woken\<close>, with whether it was a signal) still has to get it back.
\<close>

datatype main_at = Receiving | Starting Request | Waiting Request | Woken Request bool

text \<open>
  Where a session thread is: about to search the pool, about to make the queue it did not find,
  about to search a port for its queue, about to publish the address of its socket, about to
  signal, serving as the session of a number. One that gets no queue exits without a signal.
\<close>

datatype thread_at =
  Finding | Making | Binding nat | Publishing nat int u16 | Signalling nat int u16 | Serving nat u16 | Exited

record start_thread =
  t_req :: Request
  t_at :: thread_at

record 'm hs =
  h_broker :: "'m broker"
  h_main :: main_at
  h_threads :: "start_thread list"
  h_answers :: "(Request \<times> Response) list"

definition hs_init :: "nnet \<Rightarrow> 'm hs" where
  "hs_init s = \<lparr>h_broker = broker_init s, h_main = Receiving, h_threads = [], h_answers = []\<rparr>"

definition is_push :: "Request \<Rightarrow> bool" where
  "is_push q \<longleftrightarrow> req_type q = LAMB_PUSH"

text \<open>The request in a received frame, if the loop starts a thread for it.\<close>

definition startable :: "(bytes \<Rightarrow> Request option) \<Rightarrow> rx \<Rightarrow> Request option" where
  "startable unpack r =
     (case classify (r_buf r) of
        Short \<Rightarrow> None
      | Frame cmd body \<Rightarrow>
          (if cmd \<noteq> LAMB_REQUEST then None
           else case unpack body of
                  None \<Rightarrow> None
                | Some q \<Rightarrow> (if req_id q < 1 \<or> req_type q \<notin> {LAMB_PULL, LAMB_PUSH} then None else Some q)))"

text \<open>
  What can happen: the request loop receives, waits, is timed out or woken without a signal,
  answers (with what memory it gets); thread \<open>j\<close> takes a step (with what memory it gets); session
  \<open>j\<close> makes a turn.
\<close>

datatype baction = Take rx | Wait | Timeout | Spurious | Answer bool bool | Start nat bool bool | Turn nat rx

definition the_answer :: "nnenv \<Rightarrow> (Response \<Rightarrow> bytes) \<Rightarrow> int \<Rightarrow> bool \<Rightarrow> bool \<Rightarrow> Request \<Rightarrow> 'm hs \<Rightarrow> 'm hs" where
  "the_answer e pack lfd pk frame q H =
     (if \<not> pk then H
      else case lamb_pack_assembly frame LAMB_RESPONSE (Some (pack (b_resp (h_broker H)))) of
             None \<Rightarrow> H
           | Some buf \<Rightarrow> H\<lparr>h_broker := (h_broker H)\<lparr>b_net := snd (nn_send e lfd buf (b_net (h_broker H)))\<rparr>,
                           h_answers := h_answers H @ [(q, b_resp (h_broker H))]\<rparr>)"

definition request_step ::
  "nnenv \<Rightarrow> (bytes \<Rightarrow> Request option) \<Rightarrow> (Response \<Rightarrow> bytes) \<Rightarrow> int \<Rightarrow> baction \<Rightarrow> 'm hs \<Rightarrow> 'm hs option" where
  "request_step e unpack pack lfd a H =
     (case (h_main H, a) of
        (Receiving, Take r) \<Rightarrow>
          (case startable unpack r of
             None \<Rightarrow> Some H
           | Some q \<Rightarrow> Some (H\<lparr>h_main := Starting q, h_threads := h_threads H @ [\<lparr>t_req = q, t_at = Finding\<rparr>]\<rparr>))
      | (Starting q, Wait) \<Rightarrow> Some (H\<lparr>h_main := Waiting q\<rparr>)
      | (Waiting q, Timeout) \<Rightarrow> Some (H\<lparr>h_main := Woken q False\<rparr>)
      | (Waiting q, Spurious) \<Rightarrow> Some (H\<lparr>h_main := Woken q True\<rparr>)
      | (Woken q signalled, Answer pk frame) \<Rightarrow>
          Some ((if signalled then the_answer e pack lfd pk frame q H else H)\<lparr>h_main := Receiving\<rparr>)
      | _ \<Rightarrow> None)"

definition session_host :: "bconf \<Rightarrow> nat \<Rightarrow> u16 \<Rightarrow> string" where
  "session_host c hostlen port = snprintf_z hostlen (''tcp://'' @ bc_listen c @ '':'' @ show_nat (unat port))"

definition thread_step ::
  "nnenv \<Rightarrow> bconf \<Rightarrow> nat \<Rightarrow> nat \<Rightarrow> bool \<Rightarrow> bool \<Rightarrow> 'm hs \<Rightarrow> 'm hs option" where
  "thread_step e c hostlen j qmem nmem H =
     (if length (h_threads H) \<le> j then None
      else let q = t_req (h_threads H ! j); B = h_broker H;
               go = (\<lambda>p. (h_threads H)[j := \<lparr>t_req = q, t_at = p\<rparr>])
      in case t_at (h_threads H ! j) of
        Finding \<Rightarrow>
          Some (H\<lparr>h_threads := go (case pool_find (req_id q) (b_pool B) of None \<Rightarrow> Making | Some k \<Rightarrow> Binding k)\<rparr>)
      | Making \<Rightarrow>
          (let (r, P) = pool_create qmem nmem (req_id q) (b_pool B)
           in Some (H\<lparr>h_broker := B\<lparr>b_pool := P\<rparr>, h_threads := go (case r of None \<Rightarrow> Exited | Some k \<Rightarrow> Binding k)\<rparr>))
      | Binding k \<Rightarrow> do {
          (fd, port, s) \<leftarrow> lamb_child_server e (bc_listen c) (word_of_int (bc_port c + 1))
            (if is_push q then NN_PAIR else NN_REP) (b_net B);
          Some (H\<lparr>h_broker := B\<lparr>b_net := s\<rparr>, h_threads := go (Publishing k fd port)\<rparr>) }
      | Publishing k fd port \<Rightarrow>
          (case h_main H of
             Starting q' \<Rightarrow> None
           | _ \<Rightarrow> Some (H\<lparr>h_broker := B\<lparr>b_resp := \<lparr>resp_id = req_id q, resp_host = session_host c hostlen port\<rparr>\<rparr>,
                          h_threads := go (Signalling k fd port)\<rparr>))
      | Signalling k fd port \<Rightarrow>
          Some (H\<lparr>h_main := (case h_main H of Waiting q' \<Rightarrow> Woken q' True | m \<Rightarrow> m),
                  h_broker := B\<lparr>b_net := nn_setsockopt fd (bc_timeout c) (b_net B),
                    b_sess := b_sess B @ [Some \<lparr>s_push = is_push q, s_client = req_id q, s_queue = k, s_fd = fd\<rparr>]\<rparr>,
                  h_threads := go (Serving (length (b_sess B)) port)\<rparr>)
      | _ \<Rightarrow> None)"

text \<open>The head of the session loops of mt and mo; both print the address into 64 bytes.\<close>

definition mt_session_start :: "nnenv \<Rightarrow> bconf \<Rightarrow> nat \<Rightarrow> bool \<Rightarrow> bool \<Rightarrow> lamb_submit_t hs \<Rightarrow> lamb_submit_t hs option" where
  "mt_session_start e c = thread_step e c 64"

definition mo_session_start :: "nnenv \<Rightarrow> bconf \<Rightarrow> nat \<Rightarrow> bool \<Rightarrow> bool \<Rightarrow> upmsg hs \<Rightarrow> upmsg hs option" where
  "mo_session_start e c = thread_step e c 64"

text \<open>The request loops of mt and mo, which are the same.\<close>

definition mt_event_loop ::
  "nnenv \<Rightarrow> (bytes \<Rightarrow> Request option) \<Rightarrow> (Response \<Rightarrow> bytes) \<Rightarrow> int \<Rightarrow> baction \<Rightarrow>
   lamb_submit_t hs \<Rightarrow> lamb_submit_t hs option" where
  "mt_event_loop e unpack pack lfd = request_step e unpack pack lfd"

definition mo_event_loop ::
  "nnenv \<Rightarrow> (bytes \<Rightarrow> Request option) \<Rightarrow> (Response \<Rightarrow> bytes) \<Rightarrow> int \<Rightarrow> baction \<Rightarrow> upmsg hs \<Rightarrow> upmsg hs option" where
  "mo_event_loop e unpack pack lfd = request_step e unpack pack lfd"

text \<open>
  One step of the process; \<open>request\<close> is the step of the request loop, \<open>start\<close> that of a thread that
  starts, \<open>frame\<close> the turn of a session. \<open>None\<close>: it is not possible.
\<close>

definition hs_step ::
  "(baction \<Rightarrow> 'm hs \<Rightarrow> 'm hs option) \<Rightarrow> (nat \<Rightarrow> bool \<Rightarrow> bool \<Rightarrow> 'm hs \<Rightarrow> 'm hs option) \<Rightarrow>
   (nat \<Rightarrow> rx \<Rightarrow> 'm broker \<Rightarrow> ('m broker \<times> wire list) option) \<Rightarrow> baction \<Rightarrow> 'm hs \<Rightarrow> ('m hs \<times> wire list) option" where
  "hs_step request start frame a H =
     (case a of
        Turn j r \<Rightarrow> do { (B, w) \<leftarrow> frame j r (h_broker H); Some (H\<lparr>h_broker := B\<rparr>, w) }
      | Start j qmem nmem \<Rightarrow> do { H1 \<leftarrow> start j qmem nmem H; Some (H1, []) }
      | _ \<Rightarrow> do { H1 \<leftarrow> request a H; Some (H1, []) })"

inductive hs_reach ::
  "(baction \<Rightarrow> 'm hs \<Rightarrow> ('m hs \<times> wire list) option) \<Rightarrow> (baction \<Rightarrow> bool) \<Rightarrow> 'm hs \<Rightarrow> 'm hs \<Rightarrow> wire list \<Rightarrow> bool"
  for step :: "baction \<Rightarrow> 'm hs \<Rightarrow> ('m hs \<times> wire list) option" and allowed :: "baction \<Rightarrow> bool" and H0 :: "'m hs" where
  reach_refl: "hs_reach step allowed H0 H0 []"
| reach_step: "hs_reach step allowed H0 H ws \<Longrightarrow> allowed a \<Longrightarrow> step a H = Some (H', w) \<Longrightarrow>
    hs_reach step allowed H0 H' (ws @ w)"

subsection \<open>Sessions that are ready in time\<close>

text \<open>No wait is timed out or ends without a signal, and memory for the nodes suffices.\<close>

definition prompt :: "baction \<Rightarrow> bool" where
  "prompt a = (case a of Timeout \<Rightarrow> False | Spurious \<Rightarrow> False | Start j qmem nmem \<Rightarrow> nmem | Turn j r \<Rightarrow> rx_ok r | _ \<Rightarrow> True)"

definition settled :: "start_thread \<Rightarrow> bool" where
  "settled t = (case t_at t of Serving j port \<Rightarrow> True | Exited \<Rightarrow> True | _ \<Rightarrow> False)"

definition response_of :: "bconf \<Rightarrow> nat \<Rightarrow> Request \<Rightarrow> u16 \<Rightarrow> Response" where
  "response_of c n q port = \<lparr>resp_id = req_id q, resp_host = session_host c n port\<rparr>"

definition stage_ok :: "bconf \<Rightarrow> nat \<Rightarrow> bool \<Rightarrow> 'm broker \<Rightarrow> start_thread \<Rightarrow> bool" where
  "stage_ok c n locked B t =
     (let found = pool_find (req_id (t_req t)) (b_pool B)
      in case t_at t of
        Finding \<Rightarrow> True
      | Making \<Rightarrow> found = None
      | Binding k \<Rightarrow> found = Some k
      | Publishing k fd port \<Rightarrow> found = Some k
      | Signalling k fd port \<Rightarrow> \<not> locked \<and> found = Some k \<and> b_resp B = response_of c n (t_req t) port
      | Serving j port \<Rightarrow> False
      | Exited \<Rightarrow> True)"

text \<open>Only the thread started last is not settled, and it is the one the request loop waits for.\<close>

definition main_ok :: "bconf \<Rightarrow> nat \<Rightarrow> 'm hs \<Rightarrow> bool" where
  "main_ok c n H =
     (case h_main H of
        Receiving \<Rightarrow> list_all settled (h_threads H)
      | Starting q \<Rightarrow> \<exists>ts t. h_threads H = ts @ [t] \<and> list_all settled ts \<and> t_req t = q \<and> stage_ok c n True (h_broker H) t
      | Waiting q \<Rightarrow> \<exists>ts t. h_threads H = ts @ [t] \<and> list_all settled ts \<and> t_req t = q \<and> stage_ok c n False (h_broker H) t
      | Woken q signalled \<Rightarrow> \<exists>ts j port. h_threads H = ts @ [\<lparr>t_req = q, t_at = Serving j port\<rparr>] \<and> list_all settled ts \<and>
          signalled \<and> b_resp (h_broker H) = response_of c n q port)"

definition served :: "'m broker \<Rightarrow> start_thread \<Rightarrow> bool" where
  "served B t = (case t_at t of
     Serving j port \<Rightarrow> j < length (b_sess B) \<and>
       (\<forall>s. b_sess B ! j = Some s \<longrightarrow> s_client s = req_id (t_req t) \<and> s_push s = is_push (t_req t))
   | _ \<Rightarrow> True)"

text \<open>Every answer names the port of a session opened for that very request.\<close>

definition answers_ok :: "bconf \<Rightarrow> nat \<Rightarrow> 'm hs \<Rightarrow> bool" where
  "answers_ok c n H \<longleftrightarrow> (\<forall>(q, r) \<in> set (h_answers H). \<exists>j port. \<lparr>t_req = q, t_at = Serving j port\<rparr> \<in> set (h_threads H) \<and>
     r = response_of c n q port)"

definition hs_inv :: "bconf \<Rightarrow> nat \<Rightarrow> 'm hs \<Rightarrow> bool" where
  "hs_inv c n H \<longleftrightarrow> broker_inv (h_broker H) \<and> main_ok c n H \<and> (\<forall>t \<in> set (h_threads H). served (h_broker H) t) \<and> answers_ok c n H"

lemmas hs_defs = hs_inv_def main_ok_def stage_ok_def answers_ok_def settled_def response_of_def

lemma hs_inv_init: "hs_inv c n (hs_init s)"
  by (simp add: hs_init_def hs_defs broker_inv_init)

lemma broker_inv_more [simp]:
  "broker_inv (B\<lparr>b_net := s\<rparr>) = broker_inv B" "broker_inv (B\<lparr>b_resp := r\<rparr>) = broker_inv B"
  by (simp_all add: broker_inv_def)

lemma served_more [simp]:
  "served (B\<lparr>b_net := s\<rparr>) t = served B t" "served (B\<lparr>b_resp := r\<rparr>) t = served B t" "served (B\<lparr>b_pool := P\<rparr>) t = served B t"
  by (simp_all add: served_def split: thread_at.split)

lemma served_simps [simp]:
  "served B \<lparr>t_req = q, t_at = Finding\<rparr>" "served B \<lparr>t_req = q, t_at = Making\<rparr>" "served B \<lparr>t_req = q, t_at = Binding k\<rparr>"
  "served B \<lparr>t_req = q, t_at = Publishing k fd port\<rparr>" "served B \<lparr>t_req = q, t_at = Signalling k fd port\<rparr>"
  "served B \<lparr>t_req = q, t_at = Exited\<rparr>"
  by (simp_all add: served_def)

lemma request_keeps:
  assumes "hs_inv c n H" and "request_step e unpack pack lfd a H = Some H'" and "prompt a"
  shows "hs_inv c n H' \<and> b_pool (h_broker H') = b_pool (h_broker H)"
proof (cases "h_main H")
  case Receiving
  then show ?thesis using assms
    by (auto simp: request_step_def hs_defs split: baction.splits option.splits)
next
  case (Starting q)
  then show ?thesis using assms
    by (auto simp: request_step_def hs_defs Let_def split: baction.splits thread_at.splits)
next
  case (Waiting q)
  then show ?thesis using assms
    by (auto simp: request_step_def prompt_def split: baction.splits)
next
  case (Woken q b)
  then show ?thesis using assms
    by (auto simp: request_step_def the_answer_def hs_defs split: baction.splits option.splits) fast+
qed

lemma pool_create_find:
  assumes "pool_inv P" and "pool_find i P = None" and "pool_create qmem True i P = (r, P')"
  shows "pool_inv P'" and "pool_content P' = pool_content P" and "pool_find j P = Some k \<Longrightarrow> pool_find j P' = Some k"
    and "r = Some k \<Longrightarrow> pool_find i P' = Some k"
proof -
  have "client_queue qmem True i P = (r, P')" using assms(2,3) by (simp add: client_queue_def)
  note f = client_queue_found [OF assms(1) this]
  show "pool_inv P'" "pool_content P' = pool_content P" "pool_find j P = Some k \<Longrightarrow> pool_find j P' = Some k"
    "r = Some k \<Longrightarrow> pool_find i P' = Some k" using f by simp_all
qed

text \<open>A thread that takes a step is the one started last, and the request loop waits for it.\<close>

lemma thread_last:
  assumes inv: "hs_inv c n H" and step: "thread_step e c n j qmem nmem H = Some H'"
  obtains ts t q where "h_threads H = ts @ [t]" "j = length ts" "list_all settled ts" "t_req t = q" "\<not> settled t"
    "h_main H = Starting q \<or> h_main H = Waiting q" "stage_ok c n (h_main H = Starting q) (h_broker H) t"
proof -
  have j: "j < length (h_threads H)" using step by (auto simp: thread_step_def split: if_splits)
  then have un: "\<not> settled (h_threads H ! j)"
    using step by (auto simp: thread_step_def settled_def Let_def split: thread_at.splits)
  have main: "main_ok c n H" using inv by (simp add: hs_inv_def)
  show ?thesis
  proof (cases "h_main H")
    case Receiving
    then show ?thesis using main un j by (simp add: main_ok_def list_all_length)
  next
    case (Woken q b)
    then obtain ts i port where "h_threads H = ts @ [\<lparr>t_req = q, t_at = Serving i port\<rparr>]" "list_all settled ts"
      using main by (auto simp: main_ok_def)
    then have "list_all settled (h_threads H)" by (simp add: settled_def)
    then show ?thesis using un j by (simp add: list_all_length)
  next
    case (Starting q)
    then obtain ts t where t: "h_threads H = ts @ [t]" "list_all settled ts" "t_req t = q" "stage_ok c n True (h_broker H) t"
      using main by (auto simp: main_ok_def)
    moreover have "j = length ts" using t(1,2) un j by (auto simp: list_all_length nth_append split: if_splits)
    ultimately show ?thesis using that [of ts t q] un Starting by simp
  next
    case (Waiting q)
    then obtain ts t where t: "h_threads H = ts @ [t]" "list_all settled ts" "t_req t = q" "stage_ok c n False (h_broker H) t"
      using main by (auto simp: main_ok_def)
    moreover have "j = length ts" using t(1,2) un j by (auto simp: list_all_length nth_append split: if_splits)
    ultimately show ?thesis using that [of ts t q] un Waiting by simp
  qed
qed

lemma served_append: "served B t \<Longrightarrow> b_sess B' = b_sess B @ xs \<Longrightarrow> served B' t"
  by (auto simp: served_def nth_append split: thread_at.splits)

lemma answers_ok_more:
  assumes "answers_ok c n H" and "h_answers H' = h_answers H"
    and "\<And>q j port. \<lparr>t_req = q, t_at = Serving j port\<rparr> \<in> set (h_threads H) \<Longrightarrow> \<lparr>t_req = q, t_at = Serving j port\<rparr> \<in> set (h_threads H')"
  shows "answers_ok c n H'"
  using assms unfolding answers_ok_def by fastforce

lemma thread_keeps:
  assumes inv: "hs_inv c n H" and step: "thread_step e c n j qmem True H = Some H'"
  shows "hs_inv c n H' \<and> pool_content (b_pool (h_broker H')) = pool_content (b_pool (h_broker H))"
proof -
  obtain ts t q where th: "h_threads H = ts @ [t]" "j = length ts" "list_all settled ts" "t_req t = q" "\<not> settled t"
    and main: "h_main H = Starting q \<or> h_main H = Waiting q" and stage: "stage_ok c n (h_main H = Starting q) (h_broker H) t"
    using thread_last [OF inv step] .
  let ?B = "h_broker H"
  have B: "broker_inv ?B" "\<forall>x \<in> set ts. served ?B x" "answers_ok c n H" using inv th(1) by (auto simp: hs_inv_def)
  have t: "t = \<lparr>t_req = q, t_at = t_at t\<rparr>" using th(4) by simp
  have answers: "answers_ok c n H'" if "h_answers H' = h_answers H" "h_threads H' = ts @ [t']" for t'
  proof (rule answers_ok_more [OF B(3) that(1)])
    fix q' i port assume "\<lparr>t_req = q', t_at = Serving i port\<rparr> \<in> set (h_threads H)"
    then show "\<lparr>t_req = q', t_at = Serving i port\<rparr> \<in> set (h_threads H')" using th(1,5) that(2) by (auto simp: settled_def)
  qed
  show ?thesis
  proof (cases "t_at t")
    case Finding
    then show ?thesis using step th main B answers
      by (auto simp: thread_step_def hs_inv_def main_ok_def stage_ok_def split: option.splits)
  next
    case Making
    obtain r P where r: "pool_create qmem True (req_id q) (b_pool ?B) = (r, P)" by fastforce
    have none: "pool_find (req_id q) (b_pool ?B) = None" using stage Making th(4) by (simp add: stage_ok_def)
    have P: "pool_inv (b_pool ?B)" using B(1) by (simp add: broker_inv_def)
    note c = pool_create_find [OF P none r]
    have "broker_inv (?B\<lparr>b_pool := P\<rparr>)" using B(1) c by (auto simp: broker_inv_def)
    then show ?thesis using step th main B c Making r answers
      by (auto simp: thread_step_def hs_inv_def main_ok_def stage_ok_def split: option.splits)
  next
    case (Binding k)
    then show ?thesis using step stage th main B answers
      by (auto simp: thread_step_def hs_inv_def main_ok_def stage_ok_def Let_def bind_eq_Some_conv)
  next
    case (Publishing k fd port)
    then show ?thesis using step stage th main B answers
      by (auto simp: thread_step_def hs_inv_def main_ok_def stage_ok_def response_of_def Let_def)
  next
    case (Signalling k fd port)
    then have w: "h_main H = Waiting q" "pool_find (req_id q) (b_pool ?B) = Some k" "b_resp ?B = response_of c n q port"
      using stage main th(4) by (auto simp: stage_ok_def)
    let ?s = "\<lparr>s_push = is_push q, s_client = req_id q, s_queue = k, s_fd = fd\<rparr>"
    let ?B' = "?B\<lparr>b_net := nn_setsockopt fd (bc_timeout c) (b_net ?B), b_sess := b_sess ?B @ [Some ?s]\<rparr>"
    have H': "H' = H\<lparr>h_main := Woken q True, h_broker := ?B', h_threads := ts @ [\<lparr>t_req = q, t_at = Serving (length (b_sess ?B)) port\<rparr>]\<rparr>"
      using step Signalling th(1,2,4) w(1) by (simp add: thread_step_def Let_def)
    have "broker_inv ?B'" using B(1) w(2) by (auto simp: broker_inv_def)
    moreover have "\<forall>x \<in> set ts. served ?B' x" using B(2) served_append [of ?B _ ?B'] by auto
    moreover have "served ?B' \<lparr>t_req = q, t_at = Serving (length (b_sess ?B)) port\<rparr>" by (simp add: served_def)
    ultimately show ?thesis using H' w(3) th(3) answers by (simp add: hs_inv_def main_ok_def)
  next
    case (Serving i port)
    then show ?thesis using th(5) by (simp add: settled_def)
  next
    case Exited
    then show ?thesis using th(5) by (simp add: settled_def)
  qed
qed

text \<open>The turn of a session changes neither the answers nor who has which queue.\<close>

definition frame_mild :: "'m broker \<Rightarrow> 'm broker \<Rightarrow> bool" where
  "frame_mild B B' \<longleftrightarrow> b_resp B' = b_resp B \<and> (\<forall>i. pool_find i (b_pool B') = pool_find i (b_pool B)) \<and>
     length (b_sess B') = length (b_sess B) \<and> (\<forall>j < length (b_sess B). b_sess B' ! j \<in> {b_sess B ! j, None})"

lemma hs_inv_frame:
  assumes "hs_inv c n H" and "broker_inv B" and "frame_mild (h_broker H) B"
  shows "hs_inv c n (H\<lparr>h_broker := B\<rparr>)"
proof -
  have st: "stage_ok c n l B t = stage_ok c n l (h_broker H) t" for l t
    using assms(3) by (simp add: stage_ok_def frame_mild_def split: thread_at.split)
  have "served B t" if "served (h_broker H) t" for t
    using that assms(3) by (fastforce simp: served_def frame_mild_def split: thread_at.splits)
  moreover have "main_ok c n (H\<lparr>h_broker := B\<rparr>)"
    using assms(1,3) by (auto simp: hs_inv_def main_ok_def st frame_mild_def split: main_at.splits)
  ultimately show ?thesis using assms(1,2) by (simp add: hs_inv_def answers_ok_def)
qed

context store_forward begin

lemma frame_mild:
  assumes inv: "broker_inv B" and ok: "rx_ok r"
    and step: "broker_frame e push_iter pull_iter j r B = Some (B', w)"
  shows "frame_mild B B'"
proof (cases "length (b_sess B) \<le> j \<or> b_sess B ! j = None")
  case True
  then have "B' = B" using step by (auto simp: broker_frame_def split: option.splits if_splits)
  then show ?thesis by (simp add: frame_mild_def)
next
  case False
  then obtain s where j: "j < length (b_sess B)" and s: "b_sess B ! j = Some s" by auto
  let ?it = "(if s_push s then push_iter else pull_iter) (s_queue s) r (b_pool B)"
  obtain P' out stop where it: "?it = Some (P', out, stop)"
    using step j s by (cases ?it) (auto simp: broker_frame_def simp del: split_paired_Ex)
  have B': "b_pool B' = P'" "b_sess B' = (if stop then (b_sess B)[j := None] else b_sess B)" "b_resp B' = b_resp B"
    using step j s it by (auto simp: broker_frame_def Let_def)
  have find: "pool_find (s_client s) (b_pool B) = Some (s_queue s)" "pool_inv (b_pool B)"
    using inv j s by (auto simp: broker_inv_def in_set_conv_nth)
  have "pool_find i P' = pool_find i (b_pool B)" for i
  proof (cases "s_push s")
    case True
    with it have "push_iter (s_queue s) r (b_pool B) = Some (P', out, stop)" by simp
    from push_law [OF this ok] show ?thesis using push_all_content(2) [OF find(2,1)] by simp
  next
    case False
    with it have "pull_iter (s_queue s) r (b_pool B) = Some (P', out, stop)" by simp
    from pull_law [OF this ok] show ?thesis by (metis pool_find_pop snd_conv)
  qed
  then show ?thesis using B' j by (auto simp: frame_mild_def nth_list_update split: if_splits)
qed

end

definition clean_action :: "(bytes \<Rightarrow> bool) \<Rightarrow> baction \<Rightarrow> bool" where
  "clean_action clean a = (case a of Turn j r \<Rightarrow> rx_clean clean r | _ \<Rightarrow> True)"

lemma pool_all_create: "pool_all fine P \<Longrightarrow> pool_create a b i P = (q, P') \<Longrightarrow> pool_all fine P'"
  by (auto simp: pool_create_def pool_all_def Let_def split: if_splits)

lemma thread_all:
  assumes "pool_all fine (b_pool (h_broker H))" and "thread_step e c n j qmem nmem H = Some H'"
  shows "pool_all fine (b_pool (h_broker H'))"
  using assms
  by (auto simp: thread_step_def Let_def bind_eq_Some_conv dest: pool_all_create split: if_splits thread_at.splits prod.splits main_at.splits)

context store_forward_total begin

lemma frame_clean:
  assumes "broker_frame e push_iter pull_iter j r B = Some (B', w)" and "rx_clean clean r" and "In d b \<in> set w"
  shows "clean b"
  using assms by (auto simp: broker_frame_def rx_clean_def Let_def bind_eq_Some_conv split: if_splits option.splits)

text \<open>What holds in every state that is reached while the sessions are ready in time.\<close>

lemma prompt_reach:
  assumes "hs_reach (hs_step (request_step e u p lfd) (thread_step e c n) (broker_frame e push_iter pull_iter)) (\<lambda>a. prompt a \<and> clean_action clean a)
      (hs_init s) H ws"
  shows "hs_inv c n H \<and> pool_all fine (b_pool (h_broker H)) \<and> (\<forall>d b. In d b \<in> set ws \<longrightarrow> clean b) \<and>
     (\<forall>i. map emit (got accept i ws) = handed i ws @ map emit (pool_content (b_pool (h_broker H)) i))"
  using assms
proof (induction rule: hs_reach.induct)
  case reach_refl
  then show ?case using broker_inv_init pool_all_empty [of fine s] by (simp add: hs_inv_init) (simp add: hs_init_def broker_inv_init)
next
  case (reach_step H ws a H' w)
  then have inv: "hs_inv c n H" and binv: "broker_inv (h_broker H)" by (auto simp: hs_inv_def)
  have quiet: ?case if "hs_inv c n H'" "pool_content (b_pool (h_broker H')) = pool_content (b_pool (h_broker H))"
      "pool_all fine (b_pool (h_broker H'))" "w = []"
    using that reach_step.IH by simp
  show ?case
  proof (cases a)
    case (Turn j r)
    then obtain B where B: "broker_frame e push_iter pull_iter j r (h_broker H) = Some (B, w)" "H' = H\<lparr>h_broker := B\<rparr>"
      and ok: "rx_ok r" and cl: "rx_clean clean r"
      using reach_step.hyps by (auto simp: hs_step_def bind_eq_Some_conv prompt_def clean_action_def)
    note st = frame_step [OF binv ok B(1)]
    have "pool_all fine (b_pool B)" using frame_total [OF binv _ ok cl, where e = e and j = j] B(1) reach_step.IH by auto
    moreover have "map emit (got accept i (ws @ w)) = handed i (ws @ w) @ map emit (pool_content (b_pool B) i)" for i
      using st(2) [of i] reach_step.IH by simp
    ultimately show ?thesis
      using reach_step.IH hs_inv_frame [OF inv st(1) frame_mild [OF binv ok B(1)]] frame_clean [OF B(1) cl] B(2) by auto
  next
    case (Start j qmem nmem)
    then have "thread_step e c n j qmem True H = Some H'" "w = []"
      using reach_step.hyps by (auto simp: hs_step_def bind_eq_Some_conv prompt_def)
    then show ?thesis using quiet thread_keeps [OF inv] thread_all reach_step.IH by blast
  qed (use reach_step.hyps reach_step.IH quiet request_keeps [OF inv, of e u p lfd a H'] in
      \<open>auto simp: hs_step_def bind_eq_Some_conv\<close>)
qed

lemma prompt_transparent:
  assumes "hs_reach (hs_step (request_step e u p lfd) (thread_step e c n) (broker_frame e push_iter pull_iter)) (\<lambda>a. prompt a \<and> clean_action clean a)
      (hs_init s) H ws"
  shows "taken accept i ws = handed i ws @ map emit (pool_content (b_pool (h_broker H)) i)" and "answers_ok c n H"
    and "rx_ok r \<Longrightarrow> rx_clean clean r \<Longrightarrow>
      \<exists>x. hs_step (request_step e u p lfd) (thread_step e c n) (broker_frame e push_iter pull_iter) (Turn j r) H = Some x"
proof -
  note r = prompt_reach [OF assms]
  then show "taken accept i ws = handed i ws @ map emit (pool_content (b_pool (h_broker H)) i)"
    using taken_got [of ws i] by simp
  show "answers_ok c n H" using r by (simp add: hs_inv_def)
  assume "rx_ok r" "rx_clean clean r"
  then show "\<exists>x. hs_step (request_step e u p lfd) (thread_step e c n) (broker_frame e push_iter pull_iter) (Turn j r) H = Some x"
    using frame_total [where B = "h_broker H" and r = r and j = j and e = e] r by (auto simp: hs_step_def hs_inv_def)
qed

end

subsection \<open>The brokers mt and mo\<close>

text \<open>
  C1: The promise of mt holds at the granularity of its threads: the starts of sessions, the
  request loop and the turns of all sessions interleave in any way, and as long as every session
  is ready before the wait for it ends, what a client was handed, followed by what is still
  queued for it, is what it pushed, byte for byte and in order; and no well-formed frame of a
  session can lead to undefined behaviour.
\<close>

theorem mt_threads_transparent:
  assumes "hs_reach (hs_step (mt_event_loop e unpack_req pack_resp lfd) (mt_session_start e c) (mt_session e unpack pack))
      (\<lambda>a. prompt a \<and> clean_action (mt_clean unpack pack) a) (hs_init s) H ws"
  shows "(\<forall>i. taken (mt_accept unpack) i ws = handed i ws @ map (mt_emit pack) (pool_content (b_pool (h_broker H)) i)) \<and>
     (\<forall>j r. rx_ok r \<longrightarrow> rx_clean (mt_clean unpack pack) r \<longrightarrow>
       (\<exists>x. hs_step (mt_event_loop e unpack_req pack_resp lfd) (mt_session_start e c) (mt_session e unpack pack) (Turn j r) H = Some x))"
  using mt.prompt_transparent [OF assms [unfolded mt_session_frame mt_session_start_def mt_event_loop_def]]
  unfolding mt_session_frame mt_session_start_def mt_event_loop_def by blast

text \<open>
  C23: The promise of mo, for status reports and messages from phones alike, at the granularity of
  its threads: as long as every session is ready before the wait for it ends, what a client was
  handed, followed by what is still queued for it, is what was pushed for it, byte for byte and in
  one common order; every answered request was answered with the address of a session opened for
  that very request (its client, its direction); and no well-formed frame of a session can lead to
  undefined behaviour.
\<close>

theorem mo_threads_transparent:
  assumes "hs_reach (hs_step (mo_event_loop e unpack_req pack_resp lfd) (mo_session_start e c) (mo_session e u))
      (\<lambda>a. prompt a \<and> clean_action (mo_clean u) a) (hs_init s) H ws"
  shows "(\<forall>i. taken (mo_accept u) i ws = handed i ws @ map (mo_emit u) (pool_content (b_pool (h_broker H)) i)) \<and>
     (\<forall>q r. (q, r) \<in> set (h_answers H) \<longrightarrow>
       (\<exists>j port. \<lparr>t_req = q, t_at = Serving j port\<rparr> \<in> set (h_threads H) \<and>
          r = \<lparr>resp_id = req_id q, resp_host = session_host c 64 port\<rparr> \<and> j < length (b_sess (h_broker H)) \<and>
          (\<forall>x. b_sess (h_broker H) ! j = Some x \<longrightarrow> s_client x = req_id q \<and> s_push x = is_push q))) \<and>
     (\<forall>j r. rx_ok r \<longrightarrow> rx_clean (mo_clean u) r \<longrightarrow>
       (\<exists>x. hs_step (mo_event_loop e unpack_req pack_resp lfd) (mo_session_start e c) (mo_session e u) (Turn j r) H = Some x))"
proof -
  note run = assms [unfolded mo_session_frame mo_session_start_def mo_event_loop_def]
  have "hs_inv c 64 H" using mo.prompt_reach [OF run] by blast
  then have "\<forall>t \<in> set (h_threads H). served (h_broker H) t" "answers_ok c 64 H" by (simp_all add: hs_inv_def)
  then have "\<exists>j port. \<lparr>t_req = q, t_at = Serving j port\<rparr> \<in> set (h_threads H) \<and>
      r = \<lparr>resp_id = req_id q, resp_host = session_host c 64 port\<rparr> \<and> j < length (b_sess (h_broker H)) \<and>
      (\<forall>x. b_sess (h_broker H) ! j = Some x \<longrightarrow> s_client x = req_id q \<and> s_push x = is_push q)"
    if "(q, r) \<in> set (h_answers H)" for q r
    using that by (fastforce simp: answers_ok_def served_def response_of_def)
  then show ?thesis using mo.prompt_transparent [OF run]
    unfolding mo_session_frame mo_session_start_def mo_event_loop_def by blast
qed

subsection \<open>Runs\<close>

primrec hs_run ::
  "(baction \<Rightarrow> 'm hs \<Rightarrow> ('m hs \<times> wire list) option) \<Rightarrow> baction list \<Rightarrow> 'm hs \<Rightarrow> ('m hs \<times> wire list) option" where
  "hs_run step [] H = Some (H, [])"
| "hs_run step (a # as) H = do {
     (H1, w) \<leftarrow> step a H;
     (H2, ws) \<leftarrow> hs_run step as H1;
     Some (H2, w @ ws) }"

lemma hs_run_reach:
  assumes "hs_run step as H1 = Some (H, ws)" and "list_all allowed as" and "hs_reach step allowed H0 H1 w1"
  shows "hs_reach step allowed H0 H (w1 @ ws)"
  using assms
proof (induction as arbitrary: H1 w1 ws)
  case Nil
  then show ?case by simp
next
  case (Cons a as)
  then obtain H2 w ws2 where "step a H1 = Some (H2, w)" "hs_run step as H2 = Some (H, ws2)" "ws = w @ ws2"
    by (auto simp: bind_eq_Some_conv)
  with Cons.IH [of H2 ws2 "w1 @ w"] Cons.prems show ?case by (auto intro: reach_step)
qed

subsection \<open>Sessions that are not ready in time\<close>

text \<open>Requests of two clients; the environment binds every port, and only a wait can fail.\<close>

definition run_requests :: "bytes \<Rightarrow> Request option" where
  "run_requests b = Some \<lparr>req_id = (if b = ''other'' then 2 else 1), req_type = (if b = ''pull'' then LAMB_PULL else LAMB_PUSH), req_addr = []\<rparr>"

definition run_take :: "string \<Rightarrow> baction" where
  "run_take b = Take (example_rx (htonl LAMB_REQUEST @ b))"

definition run_conf :: bconf where
  "run_conf = \<lparr>bc_listen = ''127.0.0.1'', bc_port = 6000, bc_timeout = 3\<rparr>"

definition run_submit :: "bytes \<Rightarrow> Submit option" where
  "run_submit b = (if length b \<le> 160 then Some (example_submit b) else None)"

abbreviation run_step :: "baction \<Rightarrow> lamb_submit_t hs \<Rightarrow> (lamb_submit_t hs \<times> wire list) option" where
  "run_step \<equiv> hs_step (mt_event_loop example_env run_requests resp_host 9) (mt_session_start example_env run_conf)
     (mt_session example_env run_submit sb_content)"

abbreviation run_start :: "'m hs" where
  "run_start \<equiv> hs_init \<lparr>ntick = 0, nsocks = [9], nopts = [], nsent = []\<rparr>"

lemma run_port:
  "lamb_child_server example_env h p proto s =
     Some (int (ntick s) + 3, p, s\<lparr>ntick := ntick s + 2, nsocks := (int (ntick s) + 3) # nsocks s\<rparr>)"
  by (subst lamb_child_server.simps)
    (simp add: lamb_nn_server_def nn_socket_def example_env_def tick_def Let_def)

lemmas run_defs = mt_event_loop_def mo_event_loop_def hs_step_def request_step_def thread_step_def the_answer_def startable_def run_take_def mt_session_start_def
  mo_session_start_def
  run_requests_def run_conf_def run_port hs_init_def broker_init_def empty_pool_def pool_find_def pool_create_def is_push_def
  nn_send_def nn_setsockopt_def tick_def Let_def

definition late_misdirect :: "baction list" where
  "late_misdirect = [run_take ''push'', Wait, Start 0 True True, Timeout, Answer True True,
     run_take ''other'', Wait, Start 0 True True, Start 0 True True, Start 0 True True, Start 0 True True, Answer True True,
     Turn 0 (example_rx (htonl LAMB_SUBMIT @ ''hello''))]"

lemma pull_push [simp]: "LAMB_PULL \<noteq> LAMB_PUSH" "LAMB_PUSH \<noteq> LAMB_PULL"
  by (simp_all add: LAMB_PULL_def LAMB_PUSH_def)

lemma run_send [simp]: "e_send example_env t fd b = int (length b)"
  by (simp add: example_env_def)

definition run_message :: lamb_submit_t where
  "run_message = the (submit_store (example_submit ''hello''))"

lemma run_message: "submit_store (example_submit ''hello'') = Some run_message" "submit_load run_message = Some (example_submit ''hello'')"
proof -
  have "submit_fits (example_submit ''hello'')" by (simp add: submit_fits_def example_submit_def)
  from submit_fits_round [OF this] show "submit_store (example_submit ''hello'') = Some run_message"
    "submit_load run_message = Some (example_submit ''hello'')" by (auto simp: run_message_def)
qed

lemma run_push: "mt_push_loop run_submit k (example_rx (htonl LAMB_SUBMIT @ ''hello'')) P = Some (pool_push True k run_message P, [], False)"
  by (simp add: mt_push_loop_def run_submit_def run_message example_rx_def)

lemma run_pull:
  "mt_pull_loop sb_content k (example_rx (htonl LAMB_REQ)) P =
     (case pool_pop k P of (None, P1) \<Rightarrow> Some (P1, [htonl LAMB_EMPTY], False)
      | (Some message, P1) \<Rightarrow> do { packet \<leftarrow> submit_load message; Some (P1, [htonl LAMB_SUBMIT @ sb_content packet], False) })"
  by (simp add: mt_pull_loop_def example_rx_def split: option.split prod.split)

lemma run_emit: "mt_emit sb_content run_message = htonl LAMB_SUBMIT @ ''hello''"
  by (simp add: mt_emit_def run_message example_submit_def)

lemma late_misdirect_run:
  "\<exists>H. hs_run run_step late_misdirect run_start = Some (H, [In 1 (htonl LAMB_SUBMIT @ ''hello'')]) \<and>
     (\<lparr>req_id = 2, req_type = LAMB_PUSH, req_addr = []\<rparr>, \<lparr>resp_id = 1, resp_host = session_host run_conf 64 6001\<rparr>) \<in> set (h_answers H) \<and>
     map (mt_emit sb_content) (pool_content (b_pool (h_broker H)) 1) = [htonl LAMB_SUBMIT @ ''hello'']"
  by (simp add: late_misdirect_def run_defs LAMB_REQUEST_def mt_session_def broker_frame_def run_push send_all_def
    pool_push_def run_emit pool_content_def)

definition late_split :: "baction list" where
  "late_split = [run_take ''push'', Wait, Start 0 True True, Timeout, Answer True True,
     run_take ''pull'', Wait, Start 1 True True, Start 1 True True, Start 1 True True, Start 1 True True, Start 1 True True,
     Answer True True, Start 0 True True, Start 0 True True, Start 0 True True, Start 0 True True,
     Turn 1 (example_rx (htonl LAMB_SUBMIT @ ''hello'')), Turn 0 (example_rx (htonl LAMB_REQ))]"

lemma late_split_run:
  "\<exists>H. hs_run run_step late_split run_start = Some (H, [In 1 (htonl LAMB_SUBMIT @ ''hello''), Out 1 (htonl LAMB_EMPTY)]) \<and>
     pool_content (b_pool (h_broker H)) 1 = []"
  by (simp add: late_split_def run_defs LAMB_REQUEST_def mt_session_def broker_frame_def run_push send_all_def
    pool_push_def run_pull pool_pop_def pool_content_def)

definition in_time :: "bytes \<Rightarrow> baction list" where
  "in_time frame = [run_take ''push'', Wait, Start 0 True True, Start 0 True True, Start 0 True True, Start 0 True True, Start 0 True True,
     Answer True True, run_take ''pull'', Start 1 True True, Wait, Start 1 True True,
     Turn 0 (example_rx frame), Start 1 True True, Start 1 True True, Answer True True,
     Turn 1 (example_rx (htonl LAMB_REQ))]"

lemma in_time_run:
  "\<exists>H. hs_run run_step (in_time (htonl LAMB_SUBMIT @ ''hello'')) run_start = Some (H, [In 1 (htonl LAMB_SUBMIT @ ''hello''), Out 1 (htonl LAMB_SUBMIT @ ''hello'')])"
  by (simp add: in_time_def run_defs LAMB_REQUEST_def mt_session_def broker_frame_def run_push send_all_def
    pool_push_def run_pull pool_pop_def run_message) (simp add: example_submit_def)

abbreviation mo_run_step :: "baction \<Rightarrow> upmsg hs \<Rightarrow> (upmsg hs \<times> wire list) option" where
  "mo_run_step \<equiv> hs_step (mo_event_loop example_env run_requests resp_host 9) (mo_session_start example_env run_conf)
     (mo_session example_env example_up)"

lemma mo_run_push: "mo_push_loop example_up k (example_rx (htonl LAMB_REPORT @ ''13800000000'')) P =
   Some (pool_push True k (UpReport (report_store (the (unpack_report example_up ''13800000000'')))) P, [], False)"
  by (simp add: mo_push_loop_def example_up_def example_rx_def)

lemma mo_run_pull:
  "mo_pull_loop example_up k (example_rx (htonl LAMB_REQ)) P =
     (case pool_pop k P of (None, P1) \<Rightarrow> Some (P1, [htonl LAMB_EMPTY], False)
      | (Some (UpReport r), P1) \<Rightarrow> Some (P1, [htonl LAMB_REPORT @ pack_report example_up (report_load r)], False)
      | (Some (UpDeliver d), P1) \<Rightarrow> do { p \<leftarrow> deliver_load d; Some (P1, [htonl LAMB_DELIVER @ pack_deliver example_up p], False) })"
  by (simp add: mo_pull_loop_def example_rx_def split: option.split prod.split upmsg.split)

lemma mo_in_time_run:
  "\<exists>H. hs_run mo_run_step (in_time (htonl LAMB_REPORT @ ''13800000000'')) run_start =
       Some (H, [In 1 (htonl LAMB_REPORT @ ''13800000000''), Out 1 (htonl LAMB_REPORT @ ''13800000000'')]) \<and>
     (\<lparr>req_id = 1, req_type = LAMB_PULL, req_addr = []\<rparr>, \<lparr>resp_id = 1, resp_host = session_host run_conf 64 6001\<rparr>) \<in> set (h_answers H)"
  by (simp add: in_time_def run_defs LAMB_REQUEST_def mo_session_def broker_frame_def mo_run_push send_all_def
    pool_push_def mo_run_pull pool_pop_def) (simp add: example_up_def report_load_def report_store_def strncpy_z_def)

lemma mo_in_time_allowed:
  "list_all (\<lambda>a. prompt a \<and> clean_action (mo_clean example_up) a) (in_time (htonl LAMB_REPORT @ ''13800000000''))"
  by (simp add: in_time_def prompt_def run_take_def clean_action_def rx_clean_def mo_clean_def example_up_def
    report_fits_def commands)

lemma in_time_allowed:
  "list_all (\<lambda>a. prompt a \<and> clean_action (mt_clean run_submit sb_content) a) (in_time (htonl LAMB_SUBMIT @ ''hello''))"
  by (simp add: in_time_def prompt_def run_take_def clean_action_def rx_clean_def mt_clean_def run_submit_def
    example_submit_def submit_fits_def LAMB_REQ_def LAMB_SUBMIT_def)

theorem mt_threads_transparent_witness:
  "\<exists>H ws. ws = [In 1 (htonl LAMB_SUBMIT @ ''hello''), Out 1 (htonl LAMB_SUBMIT @ ''hello'')] \<and>
     (\<forall>i. taken (mt_accept run_submit) i ws = handed i ws @ map (mt_emit sb_content) (pool_content (b_pool (h_broker H)) i)) \<and>
     (\<exists>x. run_step (Turn 0 (example_rx (htonl LAMB_BYE))) H = Some x)"
proof -
  obtain H where "hs_run run_step (in_time (htonl LAMB_SUBMIT @ ''hello'')) run_start = Some (H, [In 1 (htonl LAMB_SUBMIT @ ''hello''), Out 1 (htonl LAMB_SUBMIT @ ''hello'')])"
    using in_time_run by blast
  from hs_run_reach [OF this in_time_allowed reach_refl] have "hs_reach run_step
      (\<lambda>a. prompt a \<and> clean_action (mt_clean run_submit sb_content) a) run_start H
      [In 1 (htonl LAMB_SUBMIT @ ''hello''), Out 1 (htonl LAMB_SUBMIT @ ''hello'')]" by simp
  note t = mt_threads_transparent [OF this]
  have "rx_clean (mt_clean run_submit sb_content) (example_rx (htonl LAMB_BYE))"
    by (simp add: rx_clean_def mt_clean_def control_commands LAMB_SUBMIT_def)
  with t show ?thesis using rx_ok_example by blast
qed

theorem mo_threads_transparent_witness:
  "\<exists>H ws. ws = [In 1 (htonl LAMB_REPORT @ ''13800000000''), Out 1 (htonl LAMB_REPORT @ ''13800000000'')] \<and>
     taken (mo_accept example_up) 1 ws = handed 1 ws @ map (mo_emit example_up) (pool_content (b_pool (h_broker H)) 1) \<and>
     (\<exists>j port. \<lparr>t_req = \<lparr>req_id = 1, req_type = LAMB_PULL, req_addr = []\<rparr>, t_at = Serving j port\<rparr> \<in> set (h_threads H) \<and>
        session_host run_conf 64 6001 = session_host run_conf 64 port) \<and>
     (\<exists>x. mo_run_step (Turn 0 (example_rx (htonl LAMB_BYE))) H = Some x)"
proof -
  let ?ws = "[In 1 (htonl LAMB_REPORT @ ''13800000000''), Out 1 (htonl LAMB_REPORT @ ''13800000000'')]"
  obtain H where run: "hs_run mo_run_step (in_time (htonl LAMB_REPORT @ ''13800000000'')) run_start = Some (H, ?ws)"
    and a: "(\<lparr>req_id = 1, req_type = LAMB_PULL, req_addr = []\<rparr>, \<lparr>resp_id = 1, resp_host = session_host run_conf 64 6001\<rparr>) \<in> set (h_answers H)"
    using mo_in_time_run by blast
  from hs_run_reach [OF run mo_in_time_allowed reach_refl] have "hs_reach mo_run_step
      (\<lambda>a. prompt a \<and> clean_action (mo_clean example_up) a) run_start H ?ws" by simp
  note t = mo_threads_transparent [OF this]
  have "rx_clean (mo_clean example_up) (example_rx (htonl LAMB_BYE))"
    by (simp add: rx_clean_def mo_clean_def commands)
  then have turn: "\<exists>x. mo_run_step (Turn 0 (example_rx (htonl LAMB_BYE))) H = Some x"
    using conjunct2 [OF conjunct2 [OF t]] rx_ok_example by blast
  obtain j port where j: "\<lparr>t_req = \<lparr>req_id = 1, req_type = LAMB_PULL, req_addr = []\<rparr>, t_at = Serving j port\<rparr> \<in> set (h_threads H)"
    "session_host run_conf 64 6001 = session_host run_conf 64 port"
    using conjunct1 [OF conjunct2 [OF t], rule_format, OF a] by auto
  show ?thesis
    by (rule exI [of _ H], rule exI [of _ ?ws], intro conjI refl spec [OF conjunct1 [OF t]] turn exI [of _ j] exI [of _ port] j)
qed

text \<open>Memory suffices and no wait ends without a signal; a wait may be timed out.\<close>

definition only_late :: "baction \<Rightarrow> bool" where
  "only_late a = (case a of Spurious \<Rightarrow> False | Start j qmem nmem \<Rightarrow> qmem \<and> nmem | Turn j r \<Rightarrow> rx_ok r | _ \<Rightarrow> True)"

text \<open>
  C13: When a session is not ready in time, its signal ends the wait for the next one: there is a
  reachable state in which client 2 was answered with the address of the session of client 1
  (\<open>lamb_nn_request\<close> does not look at the id in the answer), and the submit it then sends there
  is queued, to be charged and delivered, for client 1.
\<close>

theorem late_session_misdirects:
  "\<exists>H r. hs_reach run_step only_late run_start H [In 1 (htonl LAMB_SUBMIT @ ''hello'')] \<and>
     (\<lparr>req_id = 2, req_type = LAMB_PUSH, req_addr = []\<rparr>, r) \<in> set (h_answers H) \<and>
     resp_id r = 1 \<and> resp_host r = session_host run_conf 64 6001 \<and>
     map (mt_emit sb_content) (pool_content (b_pool (h_broker H)) 1) = [htonl LAMB_SUBMIT @ ''hello'']"
proof -
  have ok: "list_all only_late late_misdirect" by (simp add: late_misdirect_def only_late_def run_take_def)
  obtain H where run: "hs_run run_step late_misdirect run_start = Some (H, [In 1 (htonl LAMB_SUBMIT @ ''hello'')])"
    and H: "(\<lparr>req_id = 2, req_type = LAMB_PUSH, req_addr = []\<rparr>, \<lparr>resp_id = 1, resp_host = session_host run_conf 64 6001\<rparr>) \<in> set (h_answers H)"
      "map (mt_emit sb_content) (pool_content (b_pool (h_broker H)) 1) = [htonl LAMB_SUBMIT @ ''hello'']"
    by (rule exE [OF late_misdirect_run], elim conjE, rule that)
  let ?r = "\<lparr>resp_id = 1, resp_host = session_host run_conf 64 6001\<rparr>"
  have "hs_reach run_step only_late run_start H [In 1 (htonl LAMB_SUBMIT @ ''hello'')]"
    using hs_run_reach [OF run ok reach_refl] by simp
  moreover have "resp_id ?r = 1" "resp_host ?r = session_host run_conf 64 6001" by simp_all
  ultimately show ?thesis using H by (intro exI conjI)
qed

text \<open>
  When a session is not ready in time, its thread can miss the client's queue that another
  thread is about to make, and make a second one: there is a reachable state in which client 1
  has pushed a submit, and its pull is answered that there is none, for its session has the
  other queue; no session opened later finds the message either.
\<close>

theorem late_session_splits_queue:
  "\<exists>H. hs_reach run_step only_late run_start H [In 1 (htonl LAMB_SUBMIT @ ''hello''), Out 1 (htonl LAMB_EMPTY)] \<and>
     pool_content (b_pool (h_broker H)) 1 = []"
proof -
  have ok: "list_all only_late late_split" by (simp add: late_split_def only_late_def run_take_def)
  from late_split_run obtain H where run: "hs_run run_step late_split run_start =
      Some (H, [In 1 (htonl LAMB_SUBMIT @ ''hello''), Out 1 (htonl LAMB_EMPTY)])"
    and H: "pool_content (b_pool (h_broker H)) 1 = []" by blast
  from hs_run_reach [OF run ok reach_refl] H show ?thesis by auto
qed

end
