(* ===== verification/Db.thy ===== *)
theory Db
  imports Prelude "HOL-Library.Monad_Syntax"
begin

text \<open>
  The loaders of the configuration kept in PostgreSQL (\<open>src/src/account.c\<close>, \<open>company.c\<close>,
  \<open>channel.c\<close>, \<open>routing.c\<close>, \<open>gateway.c\<close>, \<open>keyword.c\<close>, \<open>template.c\<close>).

  The database is the parameter \<open>pg\<close>: the rows a query returns, \<open>None\<close> when the status is
  not \<open>PGRES_TUPLES_OK\<close>; and, by row, whether the allocations for it succeed. A loader gives
  its return code and the objects it made.
\<close>

record pg =
  pg_exec :: "string \<Rightarrow> string list list option"
  pg_calloc :: "nat \<Rightarrow> bool"
  pg_node :: "nat \<Rightarrow> bool"

definition PQgetvalue :: "string list \<Rightarrow> nat \<Rightarrow> string" where
  "PQgetvalue row j = (if j < length row then row ! j else [])"

text \<open>\<open>up\<close> says for which connection strings the library gets a connection.\<close>

definition lamb_db_connect :: "(string \<Rightarrow> bool) \<Rightarrow> string \<Rightarrow> int \<Rightarrow> string \<Rightarrow> string \<Rightarrow> string \<Rightarrow> int" where
  "lamb_db_connect up host port user password dbname =
     (if up (snprintf_z 512 (''host='' @ host @ '' port='' @ show_int port @ '' user='' @ user
           @ '' password='' @ password @ '' dbname='' @ dbname @ '' connect_timeout=3''))
      then 0 else -1)"

subsection \<open>Lists of objects\<close>

text \<open>
  The loop that turns rows into list nodes: a row whose object or node cannot be allocated is
  left out.
\<close>

definition load_list :: "pg \<Rightarrow> (string list \<Rightarrow> 'a) \<Rightarrow> string list list \<Rightarrow> 'a list" where
  "load_list d mk rows =
     map (mk \<circ> snd) (filter (\<lambda>p. pg_calloc d (fst p) \<and> pg_node d (fst p)) (List.enumerate 0 rows))"

record lamb_channel_t =
  ch_id :: int
  ch_acc :: int
  ch_weight :: int
  ch_operator :: int

definition lamb_get_channels :: "pg \<Rightarrow> int \<Rightarrow> int \<times> lamb_channel_t list" where
  "lamb_get_channels d acc =
     (case pg_exec d (snprintf_z 256 (''SELECT id, acc, weight, operator FROM channels WHERE acc = ''
             @ show_int acc @ '' ORDER BY weight ASC'')) of
        None \<Rightarrow> (-1, [])
      | Some rows \<Rightarrow>
          (0, load_list d (\<lambda>r. \<lparr>ch_id = atoi (PQgetvalue r 0), ch_acc = atoi (PQgetvalue r 1),
                 ch_weight = atoi (PQgetvalue r 2), ch_operator = atoi (PQgetvalue r 3)\<rparr>) rows))"

record lamb_routing_t =
  rt_id :: int
  rt_rexp :: string
  rt_target :: int

definition lamb_get_routing :: "pg \<Rightarrow> int \<times> lamb_routing_t list" where
  "lamb_get_routing d =
     (case pg_exec d (snprintf_z 256 ''SELECT id, rexp, target FROM routing ORDER BY id ASC'') of
        None \<Rightarrow> (-1, [])
      | Some rows \<Rightarrow>
          (0, load_list d (\<lambda>r. \<lparr>rt_id = atoi (PQgetvalue r 0),
                 rt_rexp = strncpy_z 127 (PQgetvalue r 1), rt_target = atoi (PQgetvalue r 2)\<rparr>) rows))"

definition lamb_rexp_routing :: "pg \<Rightarrow> string \<Rightarrow> int" where
  "lamb_rexp_routing d rexp =
     (case pg_exec d (snprintf_z 256 (''SELECT target FROM routing WHERE rexp = '' @ [CHR 0x27] @ rexp
             @ [CHR 0x27] @ '' LIMIT 1'')) of
        None \<Rightarrow> -1
      | Some rows \<Rightarrow> (case rows of [] \<Rightarrow> 0 | r # _ \<Rightarrow> atoi (PQgetvalue r 0)))"

record lamb_keyword_t =
  kw_id :: int
  kw_val :: "string option"

text \<open>\<open>dup i\<close> says whether \<open>lamb_strdup\<close> got its memory for row \<open>i\<close>; its NULL is stored.\<close>

definition lamb_keyword_get_all :: "pg \<Rightarrow> (nat \<Rightarrow> bool) \<Rightarrow> int \<times> lamb_keyword_t list" where
  "lamb_keyword_get_all d dup =
     (case pg_exec d (snprintf_z 256 ''SELECT id, val FROM keyword ORDER BY id'') of
        None \<Rightarrow> (-1, [])
      | Some rows \<Rightarrow>
          (0, map (\<lambda>p. \<lparr>kw_id = atoi (PQgetvalue (snd p) 0),
                        kw_val = (if dup (fst p) then Some (PQgetvalue (snd p) 1) else None)\<rparr>)
                (filter (\<lambda>p. pg_calloc d (fst p) \<and> pg_node d (fst p)) (List.enumerate 0 rows))))"

record lamb_template_t =
  tp_id :: int
  tp_acc :: int
  tp_name :: string
  tp_content :: string

definition template_of_row :: "string list \<Rightarrow> lamb_template_t" where
  "template_of_row r =
     \<lparr>tp_id = atoi (PQgetvalue r 0), tp_acc = atoi (PQgetvalue r 1),
      tp_name = strncpy_z 63 (PQgetvalue r 2), tp_content = strncpy_z 511 (PQgetvalue r 3)\<rparr>"

definition lamb_get_templates :: "pg \<Rightarrow> int \<times> lamb_template_t list" where
  "lamb_get_templates d =
     (case pg_exec d (snprintf_z 256 ''SELECT id, acc, name, content FROM template ORDER BY id'') of
        None \<Rightarrow> (-1, [])
      | Some rows \<Rightarrow> (0, load_list d template_of_row rows))"

definition lamb_get_template :: "pg \<Rightarrow> int \<Rightarrow> int \<times> lamb_template_t list" where
  "lamb_get_template d acc =
     (case pg_exec d (snprintf_z 256 (''SELECT id, acc, name, content FROM template WHERE acc = ''
             @ show_int acc @ '' ORDER BY id'')) of
        None \<Rightarrow> (-1, [])
      | Some rows \<Rightarrow> (0, load_list d template_of_row rows))"

subsection \<open>Single objects\<close>

record lamb_account_t =
  ac_id :: int
  ac_username :: string
  ac_password :: string
  ac_spcode :: string
  ac_company :: int
  ac_address :: string
  ac_concurrent :: int
  ac_options :: int

definition no_account :: lamb_account_t where
  "no_account = \<lparr>ac_id = 0, ac_username = [], ac_password = [], ac_spcode = [], ac_company = 0,
     ac_address = [], ac_concurrent = 0, ac_options = 0\<rparr>"

text \<open>The return code 1 says that there is no such row; the password is not fetched.\<close>

definition lamb_account_fetch :: "pg \<Rightarrow> int \<Rightarrow> lamb_account_t \<Rightarrow> int \<times> lamb_account_t" where
  "lamb_account_fetch d i account =
     (case pg_exec d (snprintf_z 512 (''SELECT id, username, spcode, company, address, concurrent, options''
             @ '' FROM account WHERE id = '' @ show_int i)) of
        None \<Rightarrow> (-1, account)
      | Some [] \<Rightarrow> (1, account)
      | Some (r # _) \<Rightarrow>
          (0, account\<lparr>ac_id := atoi (PQgetvalue r 0), ac_username := strncpy_z 7 (PQgetvalue r 1),
                ac_spcode := strncpy_z 20 (PQgetvalue r 2), ac_company := atoi (PQgetvalue r 3),
                ac_address := strncpy_z 15 (PQgetvalue r 4), ac_concurrent := atoi (PQgetvalue r 5),
                ac_options := atoi (PQgetvalue r 6)\<rparr>))"

record lamb_company_t =
  co_id :: int
  co_money :: int
  co_status :: int

definition lamb_company_get :: "pg \<Rightarrow> int \<Rightarrow> lamb_company_t \<Rightarrow> int \<times> lamb_company_t" where
  "lamb_company_get d i company =
     (case pg_exec d (snprintf_z 256 (''SELECT id, money FROM company WHERE id = '' @ show_int i)) of
        None \<Rightarrow> (-1, company)
      | Some [] \<Rightarrow> (1, company)
      | Some (r # _) \<Rightarrow>
          (0, company\<lparr>co_id := atoi (PQgetvalue r 0), co_money := atoi (PQgetvalue r 1), co_status := 1\<rparr>))"

record lamb_gateway_t =
  gw_id :: int
  gw_type :: int
  gw_name :: string
  gw_host :: string
  gw_port :: int
  gw_username :: string
  gw_password :: string
  gw_spid :: string
  gw_spcode :: string
  gw_encoding :: int
  gw_extended :: bool
  gw_concurrent :: int

definition lamb_get_gateway :: "pg \<Rightarrow> int \<Rightarrow> lamb_gateway_t \<Rightarrow> int \<times> lamb_gateway_t" where
  "lamb_get_gateway d i gateway =
     (case pg_exec d (snprintf_z 256 (''SELECT id,type,host,port,username,password,spid,spcode,encoding,''
             @ ''extended,concurrent FROM gateway WHERE id = '' @ show_int i)) of
        None \<Rightarrow> (-1, gateway)
      | Some [] \<Rightarrow> (-1, gateway)
      | Some (r # _) \<Rightarrow>
          (0, gateway\<lparr>gw_id := atoi (PQgetvalue r 0), gw_type := atoi (PQgetvalue r 1),
                gw_host := strncpy_z 31 (PQgetvalue r 2), gw_port := atoi (PQgetvalue r 3),
                gw_username := strncpy_z 31 (PQgetvalue r 4), gw_password := strncpy_z 63 (PQgetvalue r 5),
                gw_spid := strncpy_z 7 (PQgetvalue r 6), gw_spcode := strncpy_z 20 (PQgetvalue r 7),
                gw_encoding := atoi (PQgetvalue r 8), gw_extended := (atoi (PQgetvalue r 9) \<noteq> 0),
                gw_concurrent := atoi (PQgetvalue r 10)\<rparr>))"

subsection \<open>Arrays of objects\<close>

text \<open>
  Two loaders write into position \<open>i\<close> of the caller's array and leave the positions of rows
  whose object could not be allocated as they were.
\<close>

definition load_slots :: "pg \<Rightarrow> (string list \<Rightarrow> 'a) \<Rightarrow> nat \<Rightarrow> string list list \<Rightarrow> (nat \<rightharpoonup> 'a) \<Rightarrow> nat \<rightharpoonup> 'a" where
  "load_slots d mk sz rows slots =
     (\<lambda>i. if i < length rows \<and> i < sz \<and> pg_calloc d i then Some (mk (rows ! i)) else slots i)"

definition lamb_get_accounts :: "pg \<Rightarrow> nat \<Rightarrow> (nat \<rightharpoonup> lamb_account_t) \<Rightarrow> int \<times> (nat \<rightharpoonup> lamb_account_t)" where
  "lamb_get_accounts d sz slots =
     (case pg_exec d (snprintf_z 512 (''SELECT id,username,password,spcode,company,address,concurrent,options''
             @ '' FROM account ORDER BY id'')) of
        None \<Rightarrow> (-1, slots)
      | Some rows \<Rightarrow>
          (int (length rows),
           load_slots d (\<lambda>r. \<lparr>ac_id = atoi (PQgetvalue r 0), ac_username = strncpy_z 7 (PQgetvalue r 1),
               ac_password = strncpy_z 63 (PQgetvalue r 2), ac_spcode = strncpy_z 20 (PQgetvalue r 3),
               ac_company = atoi (PQgetvalue r 4), ac_address = strncpy_z 15 (PQgetvalue r 5),
               ac_concurrent = atoi (PQgetvalue r 6), ac_options = atoi (PQgetvalue r 7)\<rparr>) sz rows slots))"

definition lamb_get_gateways :: "pg \<Rightarrow> nat \<Rightarrow> (nat \<rightharpoonup> lamb_gateway_t) \<Rightarrow> int \<times> (nat \<rightharpoonup> lamb_gateway_t)" where
  "lamb_get_gateways d sz slots =
     (case pg_exec d (snprintf_z 256 (''SELECT id,type,name,host,port,username,password,spid,spcode,encoding,''
             @ ''extended,concurrent FROM gateway ORDER BY id'')) of
        None \<Rightarrow> (-1, slots)
      | Some rows \<Rightarrow>
          (int (length rows),
           load_slots d (\<lambda>r. \<lparr>gw_id = atoi (PQgetvalue r 0), gw_type = atoi (PQgetvalue r 1),
               gw_name = strncpy_z 11 (PQgetvalue r 2), gw_host = strncpy_z 31 (PQgetvalue r 3),
               gw_port = atoi (PQgetvalue r 4), gw_username = strncpy_z 31 (PQgetvalue r 5),
               gw_password = strncpy_z 63 (PQgetvalue r 6), gw_spid = strncpy_z 7 (PQgetvalue r 7),
               gw_spcode = strncpy_z 20 (PQgetvalue r 8), gw_encoding = atoi (PQgetvalue r 9),
               gw_extended = (atoi (PQgetvalue r 10) \<noteq> 0), gw_concurrent = atoi (PQgetvalue r 11)\<rparr>)
             sz rows slots))"

text \<open>
  The other loaders keep a second index \<open>j\<close> for the array and step it back when an item
  fails, unless it is still 0. \<open>ok i\<close> says whether item \<open>i\<close> succeeds.
\<close>

primrec fill_loop ::
  "(nat \<Rightarrow> bool) \<Rightarrow> ('r \<Rightarrow> 'a) \<Rightarrow> nat \<Rightarrow> 'r list \<Rightarrow> nat \<Rightarrow> nat \<Rightarrow> (nat \<rightharpoonup> 'a) \<Rightarrow> nat \<Rightarrow> (nat \<rightharpoonup> 'a) \<times> nat" where
  "fill_loop ok mk sz [] i j slots len = (slots, len)"
| "fill_loop ok mk sz (r # rows) i j slots len =
     (if i < sz then
        (if ok i then fill_loop ok mk sz rows (i + 1) (j + 1) (slots(j \<mapsto> mk r)) (len + 1)
         else fill_loop ok mk sz rows (i + 1) ((if 0 < j then j - 1 else j) + 1) slots len)
      else (slots, len))"

definition lamb_account_get_all :: "pg \<Rightarrow> nat \<Rightarrow> (nat \<rightharpoonup> lamb_account_t) \<Rightarrow> int \<times> (nat \<rightharpoonup> lamb_account_t) \<times> nat" where
  "lamb_account_get_all d sz slots =
     (case pg_exec d (snprintf_z 512 (''SELECT id, username, spcode, company, address, concurrent, dbase,''
             @ '' template, keyword FROM account ORDER BY id'')) of
        None \<Rightarrow> (-1, slots, 0)
      | Some rows \<Rightarrow>
          (0, fill_loop (pg_calloc d) (\<lambda>r. no_account\<lparr>ac_id := atoi (PQgetvalue r 0),
                 ac_username := strncpy_z 7 (PQgetvalue r 1), ac_spcode := strncpy_z 20 (PQgetvalue r 2),
                 ac_company := atoi (PQgetvalue r 3), ac_address := strncpy_z 15 (PQgetvalue r 4),
                 ac_concurrent := atoi (PQgetvalue r 5), ac_options := atoi (PQgetvalue r 6)\<rparr>)
                sz rows 0 0 slots 0))"

definition lamb_company_get_all :: "pg \<Rightarrow> nat \<Rightarrow> (nat \<rightharpoonup> lamb_company_t) \<Rightarrow> int \<times> (nat \<rightharpoonup> lamb_company_t) \<times> nat" where
  "lamb_company_get_all d sz slots =
     (case pg_exec d ''SELECT id FROM company ORDER BY id'' of
        None \<Rightarrow> (-1, slots, 0)
      | Some rows \<Rightarrow>
          (0, fill_loop (pg_calloc d) (\<lambda>r. \<lparr>co_id = atoi (PQgetvalue r 0), co_money = 0, co_status = 0\<rparr>)
                sz rows 0 0 slots 0))"

subsection \<open>What the loaders give\<close>

lemma load_list_all:
  assumes "\<forall>i. pg_calloc d i \<and> pg_node d i"
  shows "load_list d mk rows = map mk rows"
proof -
  have "map snd (List.enumerate 0 rows) = rows" by simp
  then have "map (mk \<circ> snd) (List.enumerate 0 rows) = map mk rows" by (metis map_map)
  with assms show ?thesis by (simp add: load_list_def)
qed

lemma load_list_in: "x \<in> set (load_list d mk rows) \<Longrightarrow> \<exists>r \<in> set rows. x = mk r"
  by (auto simp: load_list_def in_set_enumerate_eq) (metis nth_mem)

text \<open>
  Once \<open>j\<close> is positive a failure leaves it where it is, so the filled slots are contiguous;
  they start at 1, not 0, when the very first item fails.
\<close>

lemma fill_loop_later:
  assumes "0 < j" and "fill_loop ok mk sz rows i j slots len = (slots', len')"
  shows "len \<le> len' \<and> dom slots' = dom slots \<union> {j..<j + (len' - len)}"
  using assms
proof (induction rows arbitrary: i j slots len)
  case Nil
  then show ?case by simp
next
  case (Cons r rows)
  show ?case
  proof (cases "i < sz")
    case False
    then show ?thesis using Cons.prems by simp
  next
    case True
    show ?thesis
    proof (cases "ok i")
      case False
      then show ?thesis using Cons.IH [of j "i + 1" slots len] Cons.prems True by simp
    next
      case ok: True
      then have run: "fill_loop ok mk sz rows (i + 1) (j + 1) (slots(j \<mapsto> mk r)) (len + 1) = (slots', len')"
        using Cons.prems True by simp
      from Cons.IH [OF _ run] have le: "len + 1 \<le> len'"
        and d: "dom slots' = insert j (dom slots) \<union> {j + 1..<j + 1 + (len' - (len + 1))}" by auto
      have "insert j {j + 1..<j + 1 + (len' - (len + 1))} = {j..<j + (len' - len)}" using le by auto
      with d le show ?thesis by auto
    qed
  qed
qed

lemma fill_loop_dom:
  assumes "fill_loop ok mk sz rows 0 0 Map.empty 0 = (slots, len)"
  shows "dom slots = (if rows \<noteq> [] \<and> 0 < sz \<and> \<not> ok 0 then {1..<1 + len} else {0..<len})"
proof (cases "rows = [] \<or> sz = 0")
  case True
  then show ?thesis using assms by (cases rows) auto
next
  case False
  then obtain r rs where rows: "rows = r # rs" by (cases rows) auto
  show ?thesis
  proof (cases "ok 0")
    case True
    then have "fill_loop ok mk sz rs 1 1 [0 \<mapsto> mk r] 1 = (slots, len)" using assms rows False by simp
    from fill_loop_later [OF _ this] True show ?thesis by auto
  next
    case no: False
    then have "fill_loop ok mk sz rs 1 1 Map.empty 0 = (slots, len)" using assms rows False by simp
    from fill_loop_later [OF _ this] no rows False show ?thesis by auto
  qed
qed

lemma fill_loop_full:
  assumes "fill_loop ok mk sz rows 0 0 Map.empty 0 = (slots, len)" and "rows = [] \<or> sz = 0 \<or> ok 0"
  shows "\<forall>k < len. slots k \<noteq> None"
  using fill_loop_dom [OF assms(1)] assms(2) by (auto split: if_splits)

end
