(* ===== verification/Scheduler.thy ===== *)
theory Scheduler
  imports Mt Db
begin

text \<open>
  The scheduler process (\<open>src/src/scheduler.c\<close>): it routes each submit of a client to the
  first of the client's channels that serves the phone's operator and whose gateway queue has
  room, and answers with the outcome; gateways pull their queues; a test session sends to a
  named channel.

  A turn here is a session left alone. The operations of several sessions in between each other,
  the test of a queue's length and the push being two, are in SchedThreads.
\<close>

subsection \<open>Operators\<close>

definition cmcc :: "string list" where
  "cmcc = [''134'', ''135'', ''136'', ''137'', ''138'', ''139'', ''147'', ''150'',
           ''151'', ''152'', ''157'', ''158'', ''159'', ''178'', ''182'', ''183'',
           ''184'', ''187'', ''188'', ''198'']"

definition ctcc :: "string list" where
  "ctcc = [''133'', ''149'', ''153'', ''173'', ''177'', ''180'', ''181'', ''189'', ''199'']"

definition cucc :: "string list" where
  "cucc = [''130'', ''131'', ''132'', ''155'', ''156'', ''145'', ''175'', ''176'', ''185'',
           ''186'', ''166'']"

definition LAMB_CMCC :: int where "LAMB_CMCC = 1"
definition LAMB_CTCC :: int where "LAMB_CTCC = 2"
definition LAMB_CUCC :: int where "LAMB_CUCC = 4"
definition LAMB_MVNO :: int where "LAMB_MVNO = 8"

definition lamb_check_operator :: "lamb_channel_t \<Rightarrow> string \<Rightarrow> bool" where
  "lamb_check_operator channel phone =
     (if (\<exists>p \<in> set cmcc. take 3 phone = p \<and> ch_operator channel AND LAMB_CMCC \<noteq> 0) then True
      else if (\<exists>p \<in> set ctcc. take 3 phone = p \<and> ch_operator channel AND LAMB_CTCC \<noteq> 0) then True
      else if (\<exists>p \<in> set cucc. take 3 phone = p \<and> ch_operator channel AND LAMB_CUCC \<noteq> 0) then True
      else ch_operator channel AND LAMB_MVNO \<noteq> 0)"

definition lamb_check_province :: "lamb_channel_t \<Rightarrow> string \<Rightarrow> bool" where
  "lamb_check_province channel phone = True"

subsection \<open>The message loops\<close>

record search =
  f_available :: bool
  f_operator :: bool
  f_province :: bool
  f_completed :: bool

definition no_search :: search where
  "no_search = \<lparr>f_available = False, f_operator = False, f_province = False, f_completed = False\<rparr>"

primrec channel_search ::
  "bool \<Rightarrow> lamb_submit_t \<Rightarrow> lamb_channel_t list \<Rightarrow> search \<Rightarrow> lamb_submit_t pool \<Rightarrow> search \<times> lamb_submit_t pool" where
  "channel_search mem m [] f P = (f, P)"
| "channel_search mem m (channel # chs) f P =
     (let f = f\<lparr>f_available := True\<rparr>
      in if lamb_check_operator channel (ls_phone m) then
           let f = f\<lparr>f_operator := True\<rparr>
           in if lamb_check_province channel (ls_phone m) then
                let f = f\<lparr>f_province := True\<rparr>
                in (case pool_find (ch_id channel) P of
                      Some k \<Rightarrow>
                        (if pool_len k P < 128 then (f\<lparr>f_completed := True\<rparr>, pool_push mem k m P)
                         else channel_search mem m chs f P)
                    | None \<Rightarrow> channel_search mem m chs f P)
              else channel_search mem m chs f P
         else channel_search mem m chs f P)"

definition search_answer :: "search \<Rightarrow> u32" where
  "search_answer f =
     (if f_completed f then LAMB_OK
      else if \<not> f_available f then LAMB_NOROUTE
      else if \<not> f_operator f \<or> \<not> f_province f then LAMB_REJECT
      else LAMB_BUSY)"

text \<open>The answer is sent whether or not there was memory for it; without, it is empty.\<close>

definition answer_frame :: "rx \<Rightarrow> u32 \<Rightarrow> bytes" where
  "answer_frame r cmd = (case lamb_pack_assembly (r_frame r) cmd None of None \<Rightarrow> [] | Some f \<Rightarrow> f)"

definition sched_push_loop ::
  "(bytes \<Rightarrow> Submit option) \<Rightarrow> lamb_channel_t list \<Rightarrow> rx \<Rightarrow> lamb_submit_t pool \<Rightarrow>
   (lamb_submit_t pool \<times> bytes list \<times> bool) option" where
  "sched_push_loop unpack channels r P =
     (case classify (r_buf r) of
        Short \<Rightarrow> Some (P, [], idle_stop r)
      | Frame c body \<Rightarrow>
          (if c = LAMB_SUBMIT then
             (case unpack body of
                None \<Rightarrow> Some (P, [], False)
              | Some submit \<Rightarrow>
                  (if r_calloc r then do {
                     message \<leftarrow> submit_store submit;
                     let (f, P1) = channel_search (r_node r) message channels no_search P;
                     Some (P1, [answer_frame r (search_answer f)], False) }
                   else Some (P, [], False)))
           else Some (P, [], c = LAMB_BYE)))"

definition message_store :: "Message \<Rightarrow> lamb_submit_t option" where
  "message_store g = do {
     content \<leftarrow> memcpy_z 160 (mg_content g);
     Some \<lparr>ls_id = mg_id g, ls_account = 0, ls_company = 0,
           ls_spid = strncpy_z 6 (mg_spid g), ls_spcode = strncpy_z 20 (mg_spcode g),
           ls_phone = strncpy_z 11 (mg_phone g), ls_msgfmt = mg_msgfmt g,
           ls_length = mg_length g, ls_content = content\<rparr> }"

definition sched_test_loop ::
  "(bytes \<Rightarrow> Message option) \<Rightarrow> rx \<Rightarrow> lamb_submit_t pool \<Rightarrow> (lamb_submit_t pool \<times> bytes list \<times> bool) option" where
  "sched_test_loop unpack r P =
     (case classify (r_buf r) of
        Short \<Rightarrow> Some (P, [], idle_stop r)
      | Frame c body \<Rightarrow>
          (if c = LAMB_MESSAGE then
             (case unpack body of
                None \<Rightarrow> Some (P, [], False)
              | Some msg \<Rightarrow>
                  (if r_calloc r then do {
                     message \<leftarrow> message_store msg;
                     Some (case pool_find (mg_channel msg) P of
                             Some k \<Rightarrow> (pool_push (r_node r) k message P, [answer_frame r LAMB_OK], False)
                           | None \<Rightarrow> (P, [answer_frame r LAMB_NOROUTE], False)) }
                   else Some (P, [], False)))
           else Some (P, [], c = LAMB_BYE)))"

definition sched_pull_loop :: "(Submit \<Rightarrow> bytes) \<Rightarrow> lamb_submit_t iter" where
  "sched_pull_loop pack k r P =
     (case classify (r_buf r) of
        Short \<Rightarrow> Some (P, [], idle_stop r)
      | Frame c body \<Rightarrow>
          (if c = LAMB_REQ then
             (case pool_pop k P of
                (None, P1) \<Rightarrow> Some (P1, [answer_frame r LAMB_EMPTY], False)
              | (Some message, P1) \<Rightarrow> do {
                  submit \<leftarrow> submit_load message;
                  Some (P1, (if r_pk r
                             then (case lamb_pack_assembly (r_frame r) LAMB_SUBMIT (Some (pack submit)) of
                                     None \<Rightarrow> [] | Some f \<Rightarrow> [f])
                             else []), False) })
           else Some (P, [], c = LAMB_BYE)))"

subsection \<open>Requests and the composition\<close>

datatype skind = Test_session | Push_session "lamb_channel_t list" | Pull_session nat

record ssession =
  ss_kind :: skind
  ss_client :: int
  ss_fd :: int

record sched =
  sc_pool :: "lamb_submit_t pool"
  sc_net :: nnet
  sc_resp :: Response
  sc_sess :: "ssession option list"

text \<open>
  The start of a session thread: its socket, the address for the answer, the limit for receiving.
  The thread of a test session has nothing else to set up, that of a push session gets the
  client's channels (an error of the query is ignored), that of a pull session its queue.

  A request is one turn, with the start of its thread before the answer. It does not say what a
  thread does that is started but not ready when the wait is timed out; Handshake does, for the
  brokers mt and mo, which wait in the same way.
\<close>

definition session_bind :: "nnenv \<Rightarrow> bconf \<Rightarrow> int \<Rightarrow> Request \<Rightarrow> skind \<Rightarrow> sched \<Rightarrow> bool \<times> sched" where
  "session_bind e c protocol req kind S =
     (case lamb_child_server e (bc_listen c) (word_of_int (bc_port c + 1)) protocol (sc_net S) of
        None \<Rightarrow> (False, S)
      | Some (fd, port, s) \<Rightarrow>
          (True, S\<lparr>sc_net := nn_setsockopt fd (bc_timeout c) s,
             sc_resp := \<lparr>resp_id = req_id req,
               resp_host = snprintf_z 128 (''tcp://'' @ bc_listen c @ '':'' @ show_nat (unat port))\<rparr>,
             sc_sess := sc_sess S @ [Some \<lparr>ss_kind = kind, ss_client = req_id req, ss_fd = fd\<rparr>]\<rparr>))"

definition sched_test_start :: "nnenv \<Rightarrow> bconf \<Rightarrow> Request \<Rightarrow> sched \<Rightarrow> bool \<times> sched" where
  "sched_test_start e c req S = session_bind e c NN_PAIR req Test_session S"

definition sched_push_start :: "nnenv \<Rightarrow> pg \<Rightarrow> bconf \<Rightarrow> Request \<Rightarrow> rx \<Rightarrow> sched \<Rightarrow> bool \<times> sched" where
  "sched_push_start e d c req r S =
     (if \<not> r_calloc r then (False, S)
      else session_bind e c NN_PAIR req (Push_session (snd (lamb_get_channels d (req_id req)))) S)"

definition sched_pull_start :: "nnenv \<Rightarrow> bconf \<Rightarrow> Request \<Rightarrow> rx \<Rightarrow> sched \<Rightarrow> bool \<times> sched" where
  "sched_pull_start e c req r S =
     (case client_queue (r_calloc r) (r_node r) (req_id req) (sc_pool S) of
        (None, P) \<Rightarrow> (False, S\<lparr>sc_pool := P\<rparr>)
      | (Some k, P) \<Rightarrow> session_bind e c NN_REP req (Pull_session k) (S\<lparr>sc_pool := P\<rparr>))"

definition sched_open :: "nnenv \<Rightarrow> pg \<Rightarrow> bconf \<Rightarrow> Request \<Rightarrow> rx \<Rightarrow> sched \<Rightarrow> bool \<times> sched" where
  "sched_open e d c req r S =
     (if req_type req = LAMB_TEST then sched_test_start e c req S
      else if req_type req = LAMB_PULL then sched_pull_start e c req r S
      else sched_push_start e d c req r S)"

definition sched_event_loop ::
  "nnenv \<Rightarrow> pg \<Rightarrow> (bytes \<Rightarrow> Request option) \<Rightarrow> (Response \<Rightarrow> bytes) \<Rightarrow> bconf \<Rightarrow> int \<Rightarrow> rx \<Rightarrow> sched \<Rightarrow> sched" where
  "sched_event_loop e d unpack pack c lfd r S =
     (case classify (r_buf r) of
        Short \<Rightarrow> S
      | Frame cmd body \<Rightarrow>
          (if cmd \<noteq> LAMB_REQUEST then S
           else case unpack body of
                  None \<Rightarrow> S
                | Some req \<Rightarrow>
                    (if req_id req < 1 then S
                     else if req_type req \<notin> {LAMB_TEST, LAMB_PULL, LAMB_PUSH} then S
                     else let (ok, S1) = sched_open e d c req r S
                          in if \<not> ok \<or> r_timedout r \<or> \<not> r_pk r then S1
                             else case lamb_pack_assembly (r_frame r) LAMB_RESPONSE (Some (pack (sc_resp S1))) of
                                    None \<Rightarrow> S1
                                  | Some buf \<Rightarrow> S1\<lparr>sc_net := snd (nn_send e lfd buf (sc_net S1))\<rparr>)))"

record scodec =
  sd_submit :: "bytes \<Rightarrow> Submit option"
  sd_message :: "bytes \<Rightarrow> Message option"
  sd_pack :: "Submit \<Rightarrow> bytes"

definition sched_turn ::
  "scodec \<Rightarrow> skind \<Rightarrow> rx \<Rightarrow> lamb_submit_t pool \<Rightarrow> (lamb_submit_t pool \<times> bytes list \<times> bool) option" where
  "sched_turn u kind r P =
     (case kind of
        Test_session \<Rightarrow> sched_test_loop (sd_message u) r P
      | Push_session channels \<Rightarrow> sched_push_loop (sd_submit u) channels r P
      | Pull_session k \<Rightarrow> sched_pull_loop (sd_pack u) k r P)"

definition sched_session :: "nnenv \<Rightarrow> scodec \<Rightarrow> nat \<Rightarrow> rx \<Rightarrow> sched \<Rightarrow> sched option" where
  "sched_session e u j r S =
     (if length (sc_sess S) \<le> j then Some S
      else case sc_sess S ! j of
             None \<Rightarrow> Some S
           | Some s \<Rightarrow> do {
               (P, out, stop) \<leftarrow> sched_turn u (ss_kind s) r (sc_pool S);
               let n = send_all e (ss_fd s) out (sc_net S);
               Some (S\<lparr>sc_pool := P, sc_net := (if stop then nn_close (ss_fd s) n else n),
                       sc_sess := (if stop then (sc_sess S)[j := None] else sc_sess S)\<rparr>) })"

text \<open>The statistics thread adds up the lengths for the debug log and changes nothing.\<close>

definition sched_stat_loop :: "'m pool \<Rightarrow> (int \<times> nat) list \<times> nat" where
  "sched_stat_loop P =
     (map (\<lambda>k. (bq_id (pqueues P ! k), pool_len k P)) (plist P),
      sum_list (map (\<lambda>k. pool_len k P) (plist P)))"

subsection \<open>The routing decision\<close>

definition serves :: "lamb_submit_t \<Rightarrow> lamb_channel_t \<Rightarrow> bool" where
  "serves m ch \<longleftrightarrow> lamb_check_operator ch (ls_phone m) \<and> lamb_check_province ch (ls_phone m)"

definition has_room :: "lamb_submit_t pool \<Rightarrow> lamb_channel_t \<Rightarrow> bool" where
  "has_room P ch = (case pool_find (ch_id ch) P of None \<Rightarrow> False | Some k \<Rightarrow> pool_len k P < 128)"

definition routing_answer :: "lamb_submit_t \<Rightarrow> lamb_channel_t list \<Rightarrow> lamb_submit_t pool \<Rightarrow> u32" where
  "routing_answer m chs P =
     (if \<exists>ch \<in> set chs. serves m ch \<and> has_room P ch then LAMB_OK
      else if chs = [] then LAMB_NOROUTE
      else if \<exists>ch \<in> set chs. serves m ch then LAMB_BUSY
      else LAMB_REJECT)"

lemma channel_search_hit:
  assumes "serves m c" and "has_room P c"
  shows "\<exists>f'. channel_search mem m (c # chs) f P = (f', pool_push mem (the (pool_find (ch_id c) P)) m P) \<and>
     f_completed f'"
  using assms by (cases "pool_find (ch_id c) P") (simp_all add: serves_def has_room_def Let_def)

lemma channel_search_miss:
  assumes "\<not> (serves m c \<and> has_room P c)"
  shows "\<exists>f1. channel_search mem m (c # chs) f P = channel_search mem m chs f1 P"
proof (cases "pool_find (ch_id c) P")
  case None
  then show ?thesis by (simp add: Let_def) blast
next
  case (Some k)
  with assms show ?thesis by (simp add: serves_def has_room_def Let_def) blast
qed

lemma channel_search_found:
  "find (\<lambda>ch. serves m ch \<and> has_room P ch) chs = Some ch \<Longrightarrow>
   \<exists>f'. channel_search mem m chs f P = (f', pool_push mem (the (pool_find (ch_id ch) P)) m P) \<and> f_completed f'"
proof (induction chs arbitrary: f)
  case (Cons c chs)
  show ?case
  proof (cases "serves m c \<and> has_room P c")
    case True
    then show ?thesis using Cons.prems channel_search_hit by simp
  next
    case False
    then have "find (\<lambda>ch. serves m ch \<and> has_room P ch) chs = Some ch" using Cons.prems by auto
    with channel_search_miss [OF False, of mem chs f] Cons.IH show ?thesis by metis
  qed
qed simp

lemma channel_search_none:
  "find (\<lambda>ch. serves m ch \<and> has_room P ch) chs = None \<Longrightarrow>
   channel_search mem m chs f P =
     (\<lparr>f_available = f_available f \<or> chs \<noteq> [],
       f_operator = f_operator f \<or> (\<exists>ch \<in> set chs. lamb_check_operator ch (ls_phone m)),
       f_province = f_province f \<or> (\<exists>ch \<in> set chs. serves m ch),
       f_completed = f_completed f\<rparr>, P)"
proof (induction chs arbitrary: f)
  case Nil
  then show ?case by simp
next
  case (Cons ch chs)
  then show ?case
    by (cases f; cases "pool_find (ch_id ch) P")
      (auto simp: serves_def has_room_def Let_def lamb_check_province_def split: if_splits)
qed

lemma channel_search_answer:
  "search_answer (fst (channel_search mem m chs no_search P)) = routing_answer m chs P"
proof (cases "find (\<lambda>ch. serves m ch \<and> has_room P ch) chs")
  case None
  then have "\<not> (\<exists>ch \<in> set chs. serves m ch \<and> has_room P ch)" by (auto simp: find_None_iff)
  with channel_search_none [OF None, of mem no_search] show ?thesis
    by (auto simp: search_answer_def routing_answer_def no_search_def serves_def lamb_check_province_def)
next
  case (Some ch)
  then have "\<exists>ch \<in> set chs. serves m ch \<and> has_room P ch" by (auto simp: find_Some_iff)
  with channel_search_found [OF Some, of mem no_search] show ?thesis
    by (auto simp: search_answer_def routing_answer_def)
qed

lemma channel_search_content:
  assumes inv: "pool_inv P"
  shows "pool_content (snd (channel_search True m chs no_search P)) =
    (case find (\<lambda>ch. serves m ch \<and> has_room P ch) chs of
       None \<Rightarrow> pool_content P
     | Some ch \<Rightarrow> (pool_content P)(ch_id ch := pool_content P (ch_id ch) @ [m]))"
proof (cases "find (\<lambda>ch. serves m ch \<and> has_room P ch) chs")
  case None
  then show ?thesis using channel_search_none [OF None, of True no_search] by simp
next
  case (Some ch)
  then have "has_room P ch" by (auto simp: find_Some_iff)
  then obtain k where k: "pool_find (ch_id ch) P = Some k" by (auto simp: has_room_def split: option.splits)
  from channel_search_found [OF Some, of True no_search] k
  have "snd (channel_search True m chs no_search P) = pool_push True k m P" by auto
  then show ?thesis using Some pool_push_content [OF inv k] by simp
qed

text \<open>
  C10: A submit is routed to the first of the client's channels, in weight order, that serves
  the phone and has fewer than 128 messages waiting; it goes to the end of that gateway's
  queue and the answer is OK. Otherwise no queue changes and the answer says why: NOROUTE
  without channels, REJECT when no channel serves the phone, BUSY when those that do are full
  or absent.
\<close>

theorem sched_routes_first_match:
  assumes "r_buf r = Some (htonl LAMB_SUBMIT @ body)" and "unpack body = Some submit"
    and "rx_ok r" and "submit_store submit = Some m" and "pool_inv P"
  shows "\<exists>P'. sched_push_loop unpack channels r P = Some (P', [htonl (routing_answer m channels P)], False) \<and>
     pool_content P' =
       (case find (\<lambda>ch. serves m ch \<and> has_room P ch) channels of
          None \<Rightarrow> pool_content P
        | Some ch \<Rightarrow> (pool_content P)(ch_id ch := pool_content P (ch_id ch) @ [m]))"
  using assms channel_search_answer [of True m channels P] channel_search_content [OF assms(5), of m channels]
  by (auto simp: sched_push_loop_def rx_ok_def answer_frame_def split: prod.split)

definition example_channel :: "int \<Rightarrow> int \<Rightarrow> lamb_channel_t" where
  "example_channel i op = \<lparr>ch_id = i, ch_acc = 1, ch_weight = 1, ch_operator = op\<rparr>"

definition example_pool :: "lamb_submit_t pool" where
  "example_pool = \<lparr>pqueues = [\<lparr>bq_id = 5, bq_items = []\<rparr>], plist = [0]\<rparr>"

lemma sched_routes_first_match_witness:
  "\<exists>m P'. submit_store (example_submit ''hi'') = Some m \<and>
     sched_push_loop (\<lambda>b. Some (example_submit b)) [example_channel 4 2, example_channel 5 1]
       (example_rx (htonl LAMB_SUBMIT @ ''hi'')) example_pool =
       Some (P', [htonl (routing_answer m [example_channel 4 2, example_channel 5 1] example_pool)], False)"
proof -
  obtain m where m: "submit_store (example_submit ''hi'') = Some m"
    using submit_store_Some_iff [of "example_submit ''hi''"] by (auto simp: example_submit_def)
  have "pool_inv example_pool" by (simp add: pool_inv_def example_pool_def)
  from sched_routes_first_match [of "example_rx (htonl LAMB_SUBMIT @ ''hi'')" "''hi''"
      "\<lambda>b. Some (example_submit b)", OF r_buf_example refl rx_ok_example m this] m
  show ?thesis by blast
qed

subsection \<open>Operators of phones\<close>

definition operator_bit :: "string \<Rightarrow> int" where
  "operator_bit phone =
     (if take 3 phone \<in> set cmcc then LAMB_CMCC
      else if take 3 phone \<in> set ctcc then LAMB_CTCC
      else if take 3 phone \<in> set cucc then LAMB_CUCC
      else 0)"

text \<open>
  C40: The prefix tables do not overlap, so every phone has at most one operator; a channel
  serves a phone exactly when its mask has the bit of that operator or the MVNO bit.
\<close>

theorem lamb_check_operator_mask:
  "distinct (cmcc @ ctcc @ cucc) \<and>
   lamb_check_operator channel phone = (ch_operator channel AND (operator_bit phone OR LAMB_MVNO) \<noteq> 0)"
proof
  show tables: "distinct (cmcc @ ctcc @ cucc)" by (simp add: cmcc_def ctcc_def cucc_def)
  then have "set cmcc \<inter> set ctcc = {}" "set cmcc \<inter> set cucc = {}" "set ctcc \<inter> set cucc = {}" by auto
  then have "lamb_check_operator channel phone =
     (ch_operator channel AND operator_bit phone \<noteq> 0 \<or> ch_operator channel AND LAMB_MVNO \<noteq> 0)"
    by (auto simp: lamb_check_operator_def operator_bit_def)
  then show "lamb_check_operator channel phone = (ch_operator channel AND (operator_bit phone OR LAMB_MVNO) \<noteq> 0)"
    by (simp add: bit.conj_disj_distrib or_eq_0_iff)
qed

end
