(* ===== verification/SchedThreads.thy ===== *)
theory SchedThreads
  imports Scheduler
begin

text \<open>
  The scheduler (\<open>src/src/scheduler.c\<close>) at the granularity of its threads: several push sessions
  route submits at once while gateways pull. A push session looks at one channel after the other,
  finds the queue of its gateway, reads the length of that queue, and pushes; these are operations
  of their own, with no lock around the test of the length and the push.

  Left alone the steps of a session are its turn in Scheduler. Together the sessions can fill a
  queue beyond the 128 messages the test allows, by one message for each session but the first.
\<close>

subsection \<open>The threads\<close>

text \<open>
  Where a push session is, with the client's channels: waiting for a frame, about to look at the
  next of the channels left, about to read the length of the queue found, about to push into it.
\<close>

datatype rthread =
    Unused
  | Listening "lamb_channel_t list"
  | Looking "lamb_channel_t list" lamb_submit_t "lamb_channel_t list" search
  | Checking "lamb_channel_t list" lamb_submit_t "lamb_channel_t list" search nat
  | Pushing "lamb_channel_t list" lamb_submit_t search nat

record rstate =
  rt_pool :: "lamb_submit_t pool"
  rt_threads :: "rthread list"
  rt_answers :: "(nat \<times> u32) list"

text \<open>
  What can happen: a push session starts with a client's channels; session \<open>j\<close> receives, or takes a
  step (with memory for a node or not); a gateway that has no queue yet gets one; a gateway takes a
  message from its queue; a test session, which does not look at the length, puts one in.
\<close>

datatype raction =
    Open nat "lamb_channel_t list"
  | Receive nat rx
  | Step nat bool
  | Join int bool bool
  | Hand nat
  | Test nat lamb_submit_t bool

definition push_receive ::
  "(bytes \<Rightarrow> Submit option) \<Rightarrow> lamb_channel_t list \<Rightarrow> rx \<Rightarrow> rthread option" where
  "push_receive unpack channels r =
     (case classify (r_buf r) of
        Short \<Rightarrow> Some (if idle_stop r then Unused else Listening channels)
      | Frame c body \<Rightarrow>
          (if c = LAMB_SUBMIT then
             (case unpack body of
                None \<Rightarrow> Some (Listening channels)
              | Some submit \<Rightarrow>
                  (if r_calloc r then map_option (\<lambda>message. Looking channels message channels no_search) (submit_store submit)
                   else Some (Listening channels)))
           else Some (if c = LAMB_BYE then Unused else Listening channels)))"

text \<open>The next operation of a session that routes a message: its state, the pool, the answer if it is done.\<close>

definition push_next :: "bool \<Rightarrow> rthread \<Rightarrow> lamb_submit_t pool \<Rightarrow> rthread \<times> lamb_submit_t pool \<times> u32 list" where
  "push_next mem t P =
     (case t of
        Looking all message [] f \<Rightarrow> (Listening all, P, [search_answer f])
      | Looking all message (channel # chs) f \<Rightarrow>
          (let f = f\<lparr>f_available := True\<rparr>
           in if lamb_check_operator channel (ls_phone message) then
                let f = f\<lparr>f_operator := True\<rparr>
                in if lamb_check_province channel (ls_phone message) then
                     let f = f\<lparr>f_province := True\<rparr>
                     in (case pool_find (ch_id channel) P of
                           Some k \<Rightarrow> (Checking all message chs f k, P, [])
                         | None \<Rightarrow> (Looking all message chs f, P, []))
                   else (Looking all message chs f, P, [])
              else (Looking all message chs f, P, []))
      | Checking all message chs f k \<Rightarrow>
          (if pool_len k P < 128 then (Pushing all message (f\<lparr>f_completed := True\<rparr>) k, P, [])
           else (Looking all message chs f, P, []))
      | Pushing all message f k \<Rightarrow> (Listening all, pool_push mem k message P, [search_answer f])
      | _ \<Rightarrow> (t, P, []))"

definition route_act :: "(bytes \<Rightarrow> Submit option) \<Rightarrow> raction \<Rightarrow> rstate \<Rightarrow> rstate option" where
  "route_act unpack a S =
     (case a of
        Open j channels \<Rightarrow>
          (if j < length (rt_threads S) \<and> rt_threads S ! j = Unused
           then Some (S\<lparr>rt_threads := (rt_threads S)[j := Listening channels]\<rparr>) else None)
      | Receive j r \<Rightarrow>
          (if j < length (rt_threads S)
           then (case rt_threads S ! j of
                   Listening channels \<Rightarrow>
                     map_option (\<lambda>t. S\<lparr>rt_threads := (rt_threads S)[j := t]\<rparr>) (push_receive unpack channels r)
                 | _ \<Rightarrow> None)
           else None)
      | Step j mem \<Rightarrow>
          (if j < length (rt_threads S)
           then (let (t, P, out) = push_next mem (rt_threads S ! j) (rt_pool S)
                 in Some (S\<lparr>rt_pool := P, rt_threads := (rt_threads S)[j := t],
                            rt_answers := rt_answers S @ map (Pair j) out\<rparr>))
           else None)
      | Join i qmem nmem \<Rightarrow> Some (S\<lparr>rt_pool := snd (pool_create qmem nmem i (rt_pool S))\<rparr>)
      | Hand k \<Rightarrow> (if k < length (pqueues (rt_pool S)) then Some (S\<lparr>rt_pool := snd (pool_pop k (rt_pool S))\<rparr>) else None)
      | Test k m mem \<Rightarrow> Some (S\<lparr>rt_pool := pool_push mem k m (rt_pool S)\<rparr>))"

primrec route_run :: "(bytes \<Rightarrow> Submit option) \<Rightarrow> raction list \<Rightarrow> rstate \<Rightarrow> rstate option" where
  "route_run unpack [] S = Some S"
| "route_run unpack (a # as) S = do { S1 \<leftarrow> route_act unpack a S; route_run unpack as S1 }"

text \<open>At the start there is no queue, and room for at most \<open>n\<close> push sessions at a time.\<close>

definition route_init :: "nat \<Rightarrow> rstate" where
  "route_init n = \<lparr>rt_pool = empty_pool, rt_threads = replicate n Unused, rt_answers = []\<rparr>"

lemma route_run_append: "route_run u (as @ bs) S = Option.bind (route_run u as S) (route_run u bs)"
  by (induction as arbitrary: S) simp_all

subsection \<open>A session left alone\<close>

text \<open>The steps of session \<open>j\<close> with nothing in between are the search of its turn.\<close>

lemma steps_search:
  assumes "j < length (rt_threads S)" and "rt_threads S ! j = Looking all m chs f"
    and "channel_search mem m chs f (rt_pool S) = (f', P')"
  shows "\<exists>n. route_run u (replicate n (Step j mem)) S =
     Some (S\<lparr>rt_pool := P', rt_threads := (rt_threads S)[j := Listening all], rt_answers := rt_answers S @ [(j, search_answer f')]\<rparr>)"
  using assms
proof (induction chs arbitrary: S f)
  case Nil
  then show ?case
    by (intro exI [of _ 1]) (simp add: route_act_def push_next_def)
next
  case (Cons c chs)
  have more: "\<exists>n. route_run u (replicate n (Step j mem)) S =
      Some (S\<lparr>rt_pool := P', rt_threads := (rt_threads S)[j := Listening all], rt_answers := rt_answers S @ [(j, search_answer f')]\<rparr>)"
    if run: "route_run u (replicate k (Step j mem)) S = Some (S\<lparr>rt_threads := (rt_threads S)[j := Looking all m chs g]\<rparr>)"
      and s: "channel_search mem m chs g (rt_pool S) = (f', P')" for k g
  proof -
    let ?S = "S\<lparr>rt_threads := (rt_threads S)[j := Looking all m chs g]\<rparr>"
    obtain n where "route_run u (replicate n (Step j mem)) ?S =
        Some (?S\<lparr>rt_pool := P', rt_threads := (rt_threads ?S)[j := Listening all], rt_answers := rt_answers ?S @ [(j, search_answer f')]\<rparr>)"
      using Cons.IH [of ?S g] s Cons.prems(1) by auto
    then show ?thesis using run by (intro exI [of _ "k + n"]) (simp add: replicate_add route_run_append)
  qed
  note def = route_act_def push_next_def Let_def
  let ?f1 = "f\<lparr>f_available := True\<rparr>" and ?ok = "lamb_check_operator c (ls_phone m)"
  have prov: "lamb_check_province c (ls_phone m)" by (simp add: lamb_check_province_def)
  show ?case
  proof (cases ?ok)
    case False
    show ?thesis by (rule more [of 1 ?f1]) (use Cons.prems False in \<open>simp_all add: def\<close>)
  next
    case op: True
    let ?f3 = "?f1\<lparr>f_operator := True, f_province := True\<rparr>"
    show ?thesis
    proof (cases "pool_find (ch_id c) (rt_pool S)")
      case None
      show ?thesis by (rule more [of 1 ?f3]) (use Cons.prems op prov None in \<open>simp_all add: def\<close>)
    next
      case (Some k)
      show ?thesis
      proof (cases "pool_len k (rt_pool S) < 128")
        case False
        show ?thesis
          by (rule more [of 2 ?f3]) (use Cons.prems op prov Some False in \<open>simp_all add: def numeral_2_eq_2\<close>)
      next
        case True
        then have "f' = ?f3\<lparr>f_completed := True\<rparr>" "P' = pool_push mem k m (rt_pool S)"
          using Cons.prems(3) op prov Some by (simp_all add: Let_def)
        then show ?thesis using Cons.prems(1,2) op prov Some True
          by (intro exI [of _ 3]) (simp add: def numeral_3_eq_3)
      qed
    qed
  qed
qed

text \<open>
  The turn of a push session of the scheduler is what its thread does when no other thread comes
  in between: receiving a frame and taking its steps, it ends with the same pool and the same
  answer, waits for the next frame or ends as the turn says.
\<close>

theorem sched_turn_steps:
  assumes "sched_push_loop unpack channels r (rt_pool S) = Some (P', out, stop)"
    and "j < length (rt_threads S)" and "rt_threads S ! j = Listening channels"
  shows "\<exists>n S'. route_run unpack (Receive j r # replicate n (Step j (r_node r))) S = Some S' \<and> rt_pool S' = P' \<and>
     rt_threads S' = (rt_threads S)[j := if stop then Unused else Listening channels] \<and>
     (\<exists>cs. rt_answers S' = rt_answers S @ map (Pair j) cs \<and> out = map (answer_frame r) cs)"
proof -
  have quiet: ?thesis if "push_receive unpack channels r = Some (if stop then Unused else Listening channels)"
      "P' = rt_pool S" "out = []"
    using that assms(2,3) by (intro exI [of _ 0] exI [of _ "S\<lparr>rt_threads := (rt_threads S)[j := if stop then Unused else Listening channels]\<rparr>"])
      (simp add: route_act_def)
  show ?thesis
  proof (cases "classify (r_buf r)")
    case Short
    then show ?thesis using assms(1) by (intro quiet) (auto simp: sched_push_loop_def push_receive_def)
  next
    case (Frame c body)
    consider "c \<noteq> LAMB_SUBMIT \<or> unpack body = None \<or> \<not> r_calloc r"
      | submit where "c = LAMB_SUBMIT" "unpack body = Some submit" "r_calloc r"
      by (cases "unpack body") auto
    then show ?thesis
    proof cases
      case 1
      then show ?thesis using assms(1) Frame
        by (intro quiet) (auto simp: sched_push_loop_def push_receive_def LAMB_SUBMIT_def LAMB_BYE_def split: if_splits option.splits)
    next
      case 2
      then obtain m where m: "submit_store submit = Some m"
        using assms(1) Frame by (auto simp: sched_push_loop_def bind_eq_Some_conv)
      obtain f' P1 where s: "channel_search (r_node r) m channels no_search (rt_pool S) = (f', P1)" by fastforce
      have turn: "P' = P1" "out = [answer_frame r (search_answer f')]" "\<not> stop"
        using assms(1) Frame 2 m s by (auto simp: sched_push_loop_def)
      let ?S = "S\<lparr>rt_threads := (rt_threads S)[j := Looking channels m channels no_search]\<rparr>"
      have "route_act unpack (Receive j r) S = Some ?S"
        using assms(2,3) Frame 2 m by (simp add: route_act_def push_receive_def)
      moreover obtain n where "route_run unpack (replicate n (Step j (r_node r))) ?S =
          Some (?S\<lparr>rt_pool := P1, rt_threads := (rt_threads ?S)[j := Listening channels],
            rt_answers := rt_answers ?S @ [(j, search_answer f')]\<rparr>)"
        using steps_search [of j ?S channels m channels no_search "r_node r" f' P1 unpack] assms(2) s by auto
      ultimately show ?thesis using turn
        by (intro exI [of _ n] exI [of _ "?S\<lparr>rt_pool := P1, rt_threads := (rt_threads ?S)[j := Listening channels],
            rt_answers := rt_answers ?S @ [(j, search_answer f')]\<rparr>"] conjI exI [of _ "[search_answer f']"]) simp_all
    qed
  qed
qed

subsection \<open>The bound of the queues\<close>

definition pushes_to :: "nat \<Rightarrow> rthread \<Rightarrow> bool" where
  "pushes_to k t = (case t of Pushing all m f i \<Rightarrow> i = k | _ \<Rightarrow> False)"

definition pushers :: "nat \<Rightarrow> rthread list \<Rightarrow> nat" where
  "pushers k ts = length (filter (pushes_to k) ts)"

text \<open>Messages in a queue and those that will be pushed into it whatever its length is by then.\<close>

definition route_inv :: "nat \<Rightarrow> rstate \<Rightarrow> bool" where
  "route_inv n S \<longleftrightarrow> length (rt_threads S) = n \<and>
     (\<forall>k < length (pqueues (rt_pool S)). pool_len k (rt_pool S) + pushers k (rt_threads S) \<le> 127 + n)"

lemma pushers_update:
  "j < length ts \<Longrightarrow>
   pushers k (ts[j := t]) + (if pushes_to k (ts ! j) then 1 else 0) = pushers k ts + (if pushes_to k t then 1 else 0)"
proof (induction ts arbitrary: j)
  case (Cons x ts)
  then show ?case using Cons.IH [of "j - 1"] by (cases j) (auto simp: pushers_def)
qed simp

lemma pushers_le: "pushers k ts \<le> length ts"
  by (simp add: pushers_def)

definition no_test :: "raction \<Rightarrow> bool" where
  "no_test a = (case a of Test k m mem \<Rightarrow> False | _ \<Rightarrow> True)"

lemma pool_len_push_eq:
  "k < length (pqueues P) \<Longrightarrow> pool_len k (pool_push mem i m P) = pool_len k P + (if mem \<and> i = k then 1 else 0)"
  by (auto simp: pool_len_def pool_push_def nth_list_update)

lemma route_inv_quiet:
  assumes inv: "route_inv n S" and j: "j < length (rt_threads S)" and t: "\<And>k. pushes_to k t \<Longrightarrow> pool_len k (rt_pool S) \<le> 127"
    and S': "rt_pool S' = rt_pool S" "rt_threads S' = (rt_threads S)[j := t]"
  shows "route_inv n S'"
proof -
  have "pool_len k (rt_pool S) + pushers k ((rt_threads S)[j := t]) \<le> 127 + n" if k: "k < length (pqueues (rt_pool S))" for k
  proof (cases "pushes_to k t")
    case True
    have "pushers k ((rt_threads S)[j := t]) \<le> n" using pushers_le [of k "(rt_threads S)[j := t]"] inv by (simp add: route_inv_def)
    then show ?thesis using t [OF True] by simp
  next
    case False
    then show ?thesis using pushers_update [OF j, of k t] inv k by (auto simp: route_inv_def split: if_splits)
  qed
  then show ?thesis using inv S' by (simp add: route_inv_def)
qed

lemma push_next_cases:
  assumes "push_next mem t P = (t', P', out)"
  shows "P' = P \<and> (\<forall>k. pushes_to k t' \<longrightarrow> pool_len k P \<le> 127 \<or> t' = t) \<or>
     (\<exists>all m f k. t = Pushing all m f k \<and> t' = Listening all \<and> P' = pool_push mem k m P)"
proof (cases t)
  case (Looking all m chs f)
  then show ?thesis using assms
    by (cases chs) (auto simp: push_next_def pushes_to_def Let_def split: if_splits option.splits)
qed (use assms in \<open>auto simp: push_next_def pushes_to_def Let_def split: if_splits\<close>)

lemma route_inv_step:
  assumes inv: "route_inv n S" and ok: "no_test a" and act: "route_act u a S = Some S'"
  shows "route_inv n S'"
proof (cases a)
  case (Open j channels)
  then have "S' = S\<lparr>rt_threads := (rt_threads S)[j := Listening channels]\<rparr>" "j < length (rt_threads S)"
    using act by (auto simp: route_act_def split: if_splits)
  then show ?thesis using route_inv_quiet [OF inv, of j "Listening channels" S'] by (simp add: pushes_to_def)
next
  case (Receive j r)
  then obtain channels t where "j < length (rt_threads S)" "push_receive u channels r = Some t"
      "S' = S\<lparr>rt_threads := (rt_threads S)[j := t]\<rparr>"
    using act by (auto simp: route_act_def split: if_splits rthread.splits)
  moreover from this have "\<not> pushes_to k t" for k
    by (auto simp: push_receive_def pushes_to_def split: frame.splits if_splits option.splits)
  ultimately show ?thesis using route_inv_quiet [OF inv, of j t S'] by simp
next
  case (Step j mem)
  obtain t P out where p: "push_next mem (rt_threads S ! j) (rt_pool S) = (t, P, out)" by (cases "push_next mem (rt_threads S ! j) (rt_pool S)")
  have j: "j < length (rt_threads S)"
    and S': "S' = S\<lparr>rt_pool := P, rt_threads := (rt_threads S)[j := t], rt_answers := rt_answers S @ map (Pair j) out\<rparr>"
    using act Step p by (auto simp: route_act_def split: if_splits)
  from push_next_cases [OF p] show ?thesis
  proof
    assume q: "P = rt_pool S \<and> (\<forall>k. pushes_to k t \<longrightarrow> pool_len k (rt_pool S) \<le> 127 \<or> t = rt_threads S ! j)"
    show ?thesis
    proof (cases "t = rt_threads S ! j")
      case True
      then show ?thesis using inv S' q by (simp add: route_inv_def)
    next
      case False
      then show ?thesis using route_inv_quiet [OF inv j, of t S'] q S' by auto
    qed
  next
    assume "\<exists>all m f k. rt_threads S ! j = Pushing all m f k \<and> t = Listening all \<and> P = pool_push mem k m (rt_pool S)"
    then obtain all m f i where q: "rt_threads S ! j = Pushing all m f i" "t = Listening all" "P = pool_push mem i m (rt_pool S)" by blast
    have "pool_len k P + pushers k ((rt_threads S)[j := t]) \<le> 127 + n" if k: "k < length (pqueues (rt_pool S))" for k
    proof -
      have "pool_len k (rt_pool S) + pushers k (rt_threads S) \<le> 127 + n" using inv k by (simp add: route_inv_def)
      then show ?thesis using pushers_update [OF j, of k t] pool_len_push_eq [OF k, of mem i m] q
        by (auto simp: pushes_to_def split: if_splits)
    qed
    then show ?thesis using inv S' q(3) by (simp add: route_inv_def)
  qed
next
  case (Join i qmem nmem)
  let ?P = "snd (pool_create qmem nmem i (rt_pool S))"
  have S': "S' = S\<lparr>rt_pool := ?P\<rparr>" using act Join by (simp add: route_act_def)
  have "pool_len k ?P + pushers k (rt_threads S) \<le> 127 + n" if "k < length (pqueues ?P)" for k
  proof (cases "k < length (pqueues (rt_pool S))")
    case True
    then have "pool_len k ?P = pool_len k (rt_pool S)" by (simp add: pool_create_def pool_len_def Let_def nth_append)
    then show ?thesis using inv True by (simp add: route_inv_def)
  next
    case False
    then have "pool_len k ?P = 0" using that by (auto simp: pool_create_def pool_len_def Let_def nth_append split: if_splits)
    then show ?thesis using pushers_le [of k "rt_threads S"] inv by (simp add: route_inv_def)
  qed
  then show ?thesis using inv S' by (simp add: route_inv_def)
next
  case (Hand i)
  let ?P = "snd (pool_pop i (rt_pool S))"
  have S': "S' = S\<lparr>rt_pool := ?P\<rparr>" "i < length (pqueues (rt_pool S))" using act Hand by (auto simp: route_act_def split: if_splits)
  have "length (pqueues ?P) = length (pqueues (rt_pool S))" "pool_len k ?P \<le> pool_len k (rt_pool S)" for k
    using S'(2) by (auto simp: pool_pop_def pool_len_def nth_list_update split: list.splits)
  then show ?thesis using inv S'(1) by (fastforce simp: route_inv_def intro: order_trans [OF add_right_mono])
next
  case (Test k m mem)
  then show ?thesis using ok by (simp add: no_test_def)
qed

lemma route_inv_run: "route_inv n S \<Longrightarrow> list_all no_test as \<Longrightarrow> route_run u as S = Some S' \<Longrightarrow> route_inv n S'"
  by (induction as arbitrary: S) (auto simp: bind_eq_Some_conv dest: route_inv_step)

text \<open>
  C29: However many push sessions route at once, and whatever the gateways pull meanwhile, a queue
  of the scheduler holds at most 127 messages plus one for each push session that can be open:
  the length is tested before the push and without a lock, so each session but the first can
  exceed the limit of 128 by one. Messages of test sessions, which do not look at the length, are
  left out.
\<close>

theorem sched_queues_bounded:
  assumes "route_run unpack as (route_init n) = Some S" and "list_all no_test as" and "k < length (pqueues (rt_pool S))"
  shows "pool_len k (rt_pool S) \<le> 127 + n"
proof -
  have "route_inv n (route_init n)" by (simp add: route_inv_def route_init_def empty_pool_def)
  from route_inv_run [OF this assms(2,1)] assms(3) show ?thesis by (auto simp: route_inv_def)
qed

subsection \<open>The bound is reached\<close>

text \<open>All sessions have the one channel 5, whose gateway pulls nothing.\<close>

definition crowd_channels :: "lamb_channel_t list" where
  "crowd_channels = [example_channel 5 1]"

definition crowd_message :: lamb_submit_t where
  "crowd_message = the (submit_store (example_submit ''hi''))"

definition crowd_push :: rthread where
  "crowd_push = Pushing crowd_channels crowd_message
     \<lparr>f_available = True, f_operator = True, f_province = True, f_completed = True\<rparr> 0"

definition crowd_unpack :: "bytes \<Rightarrow> Submit option" where
  "crowd_unpack b = (if length b \<le> 160 then Some (example_submit b) else None)"

definition crowd :: "nat \<Rightarrow> rthread list \<Rightarrow> (nat \<times> u32) list \<Rightarrow> rstate" where
  "crowd l ts out = \<lparr>rt_pool = \<lparr>pqueues = [\<lparr>bq_id = 5, bq_items = replicate l crowd_message\<rparr>], plist = [0]\<rparr>,
     rt_threads = ts, rt_answers = out\<rparr>"

definition crowded :: "nat \<Rightarrow> nat \<Rightarrow> rthread list \<Rightarrow> bool" where
  "crowded n l ts \<longleftrightarrow> (\<exists>as out. route_run crowd_unpack as (route_init n) = Some (crowd l ts out) \<and> list_all no_test as)"

lemma crowd_stored: "submit_store (example_submit ''hi'') = Some crowd_message" "ls_phone crowd_message = ''13800000000''"
proof -
  have "submit_fits (example_submit ''hi'')" by (simp add: submit_fits_def example_submit_def)
  from submit_fits_round [OF this] show m: "submit_store (example_submit ''hi'') = Some crowd_message"
    by (auto simp: crowd_message_def)
  then show "ls_phone crowd_message = ''13800000000''"
    by (auto simp: submit_store_def bind_eq_Some_conv example_submit_def strncpy_z_def cstr_def
        dest: arg_cong [of _ crowd_message ls_phone])
qed

lemma crowd_operator: "lamb_check_operator (example_channel 5 1) (ls_phone crowd_message)"
  by (simp add: lamb_check_operator_def crowd_stored(2) example_channel_def cmcc_def LAMB_CMCC_def)

lemma crowded_more:
  assumes "crowded n l ts" and "\<And>out. \<exists>out'. route_run crowd_unpack as (crowd l ts out) = Some (crowd l' ts' out')"
    and "list_all no_test as"
  shows "crowded n l' ts'"
proof -
  obtain bs out where b: "route_run crowd_unpack bs (route_init n) = Some (crowd l ts out)" "list_all no_test bs"
    using assms(1) by (auto simp: crowded_def)
  obtain out' where "route_run crowd_unpack as (crowd l ts out) = Some (crowd l' ts' out')" using assms(2) by blast
  then show ?thesis using b assms(3) unfolding crowded_def
    by (intro exI [of _ "bs @ as"] exI [of _ out']) (simp add: route_run_append)
qed

text \<open>A session that receives the submit is about to push it after two steps, if the queue has room.\<close>

definition crowd_come :: "nat \<Rightarrow> raction list" where
  "crowd_come j = [Receive j (example_rx (htonl LAMB_SUBMIT @ ''hi'')), Step j True, Step j True]"

lemma crowd_come:
  assumes "j < length ts" and "ts ! j = Listening crowd_channels" and "l < 128"
  shows "route_run crowd_unpack (crowd_come j) (crowd l ts out) = Some (crowd l (ts[j := crowd_push]) out)"
  using assms crowd_operator
  by (simp add: crowd_come_def route_act_def crowd_def push_receive_def example_rx_def crowd_unpack_def crowd_stored
      push_next_def crowd_channels_def crowd_push_def pool_find_def pool_len_def lamb_check_province_def no_search_def
      example_channel_def Let_def)

lemma crowd_go:
  assumes "j < length ts" and "ts ! j = crowd_push"
  shows "\<exists>out'. route_run crowd_unpack [Step j True] (crowd l ts out) = Some (crowd (Suc l) (ts[j := Listening crowd_channels]) out')"
  using assms
  by (simp add: route_act_def crowd_def push_next_def crowd_push_def pool_push_def replicate_append_same [symmetric])

lemma crowded_come:
  assumes "crowded n l ts" and "j < length ts" and "ts ! j = Listening crowd_channels" and "l < 128"
  shows "crowded n l (ts[j := crowd_push])"
  by (rule crowded_more [OF assms(1), of "crowd_come j"]) (use crowd_come [OF assms(2-4)] in \<open>auto simp: crowd_come_def no_test_def\<close>)

lemma crowded_go:
  assumes "crowded n l ts" and "j < length ts" and "ts ! j = crowd_push"
  shows "crowded n (Suc l) (ts[j := Listening crowd_channels])"
  by (rule crowded_more [OF assms(1) crowd_go [OF assms(2,3)]]) (simp add: no_test_def)

lemma crowded_open: "i \<le> n \<Longrightarrow> crowded n 0 (replicate i (Listening crowd_channels) @ replicate (n - i) Unused)"
proof (induction i)
  case 0
  have "route_run crowd_unpack [Join 5 True True] (route_init n) = Some (crowd 0 (replicate n Unused) [])"
    by (simp add: route_act_def route_init_def crowd_def pool_create_def empty_pool_def Let_def)
  then show ?case unfolding crowded_def by (intro exI [of _ "[Join 5 True True]"] exI [of _ "[]"]) (simp add: no_test_def)
next
  case (Suc i)
  then have n: "replicate (n - i) Unused = Unused # replicate (n - Suc i) Unused"
    by (simp add: Suc_diff_Suc [symmetric] del: Suc_diff_Suc)
  have "crowded n 0 (replicate i (Listening crowd_channels) @ replicate (n - i) Unused)" using Suc by simp
  from crowded_more [OF this, of "[Open i crowd_channels]"] show ?case
    by (simp add: n route_act_def crowd_def nth_append list_update_append no_test_def replicate_app_Cons_same)
qed

lemma crowded_fill:
  assumes "crowded n 0 (Listening crowd_channels # ts)"
  shows "l \<le> 127 \<Longrightarrow> crowded n l (Listening crowd_channels # ts)"
proof (induction l)
  case (Suc l)
  have "crowded n l (crowd_push # ts)" using crowded_come [of n l "Listening crowd_channels # ts" 0] Suc by simp
  from crowded_go [OF this, of 0] show ?case by simp
qed (use assms in simp)

lemma crowded_wait:
  "i \<le> n \<Longrightarrow> crowded n 127 (replicate n (Listening crowd_channels)) \<Longrightarrow>
   crowded n 127 (replicate i crowd_push @ replicate (n - i) (Listening crowd_channels))"
proof (induction i)
  case (Suc i)
  then have n: "replicate (n - i) (Listening crowd_channels) = Listening crowd_channels # replicate (n - Suc i) (Listening crowd_channels)"
    by (simp add: Suc_diff_Suc [symmetric] del: Suc_diff_Suc)
  have "crowded n 127 (replicate i crowd_push @ replicate (n - i) (Listening crowd_channels))" using Suc by simp
  from crowded_come [OF this, of i] show ?case
    by (simp add: n nth_append list_update_append replicate_app_Cons_same)
qed simp

lemma crowded_done:
  "i \<le> n \<Longrightarrow> crowded n 127 (replicate n crowd_push) \<Longrightarrow>
   crowded n (127 + i) (replicate i (Listening crowd_channels) @ replicate (n - i) crowd_push)"
proof (induction i)
  case (Suc i)
  then have n: "replicate (n - i) crowd_push = crowd_push # replicate (n - Suc i) crowd_push"
    by (simp add: Suc_diff_Suc [symmetric] del: Suc_diff_Suc)
  have "crowded n (127 + i) (replicate i (Listening crowd_channels) @ replicate (n - i) crowd_push)" using Suc by simp
  from crowded_go [OF this, of i] show ?case
    by (simp add: n nth_append list_update_append replicate_app_Cons_same)
qed simp

lemma crowded_end: "crowded (Suc n) (128 + n) (replicate (Suc n) (Listening crowd_channels))"
proof -
  have "crowded (Suc n) 127 (replicate (Suc n) (Listening crowd_channels))"
    using crowded_fill [of "Suc n" "replicate n (Listening crowd_channels)" 127] crowded_open [of "Suc n" "Suc n"] by simp
  from crowded_wait [OF le_refl this] have "crowded (Suc n) 127 (replicate (Suc n) crowd_push)" by simp
  from crowded_done [OF le_refl this] show ?thesis by simp
qed

text \<open>
  C30: The limit of 128 messages is not kept: with \<open>n\<close> push sessions beside the first there is a run
  that leaves \<open>128 + n\<close> messages in one queue, for all of them read a length of 127 before the first
  of them pushes.
\<close>

theorem sched_limit_exceeded:
  "\<exists>as S. route_run crowd_unpack as (route_init (Suc n)) = Some S \<and> list_all no_test as \<and>
     pool_find 5 (rt_pool S) = Some 0 \<and> pool_len 0 (rt_pool S) = 128 + n"
proof -
  obtain as out where r: "route_run crowd_unpack as (route_init (Suc n)) =
      Some (crowd (128 + n) (replicate (Suc n) (Listening crowd_channels)) out)" "list_all no_test as"
    using crowded_end [of n] by (auto simp: crowded_def)
  then show ?thesis
    by (intro exI [of _ as] exI [of _ "crowd (128 + n) (replicate (Suc n) (Listening crowd_channels)) out"])
      (simp add: crowd_def pool_find_def pool_len_def)
qed

theorem sched_queues_bounded_witness:
  "\<exists>as S. route_run crowd_unpack as (route_init 2) = Some S \<and> list_all no_test as \<and>
     pool_len 0 (rt_pool S) = 129 \<and> pool_len 0 (rt_pool S) \<le> 127 + 2"
proof -
  obtain as out where r: "route_run crowd_unpack as (route_init 2) =
      Some (crowd 129 (replicate 2 (Listening crowd_channels)) out)" "list_all no_test as"
    using crowded_end [of 1] by (auto simp: crowded_def numeral_2_eq_2)
  have "0 < length (pqueues (rt_pool (crowd 129 (replicate 2 (Listening crowd_channels)) out)))" by (simp add: crowd_def)
  note sched_queues_bounded [OF r this]
  moreover have "pool_len 0 (rt_pool (crowd 129 (replicate 2 (Listening crowd_channels)) out)) = 129"
    by (simp add: crowd_def pool_len_def)
  ultimately show ?thesis using r
    by (intro exI [of _ as] exI [of _ "crowd 129 (replicate 2 (Listening crowd_channels)) out"] conjI)
qed

theorem sched_turn_steps_witness:
  "\<exists>n S'. route_run crowd_unpack (Receive 1 (example_rx (htonl LAMB_SUBMIT @ ''hi'')) # replicate n (Step 1 True))
       (crowd 3 [crowd_push, Listening crowd_channels] []) = Some S' \<and>
     map bq_items (pqueues (rt_pool S')) = [replicate 4 crowd_message] \<and>
     rt_threads S' = [crowd_push, Listening crowd_channels] \<and> rt_answers S' = [(1, LAMB_OK)]"
proof -
  let ?S = "crowd 3 [crowd_push, Listening crowd_channels] []" and ?r = "example_rx (htonl LAMB_SUBMIT @ ''hi'')"
  let ?P = "\<lparr>pqueues = [\<lparr>bq_id = 5, bq_items = replicate 4 crowd_message\<rparr>], plist = [0]\<rparr>"
  have turn: "sched_push_loop crowd_unpack crowd_channels ?r (rt_pool ?S) = Some (?P, [htonl LAMB_OK], False)"
    using crowd_operator by (simp add: sched_push_loop_def crowd_def example_rx_def crowd_unpack_def crowd_stored
        crowd_channels_def pool_find_def pool_len_def pool_push_def lamb_check_province_def no_search_def
        example_channel_def Let_def search_answer_def answer_frame_def numeral_eq_Suc)
  have j: "1 < length (rt_threads ?S)" "rt_threads ?S ! 1 = Listening crowd_channels" by (simp_all add: crowd_def)
  obtain n S' cs where run: "route_run crowd_unpack (Receive 1 ?r # replicate n (Step 1 (r_node ?r))) ?S = Some S'"
    and S': "rt_pool S' = ?P" "rt_threads S' = (rt_threads ?S)[1 := Listening crowd_channels]"
      "rt_answers S' = rt_answers ?S @ map (Pair 1) cs" "[htonl LAMB_OK] = map (answer_frame ?r) cs"
    using sched_turn_steps [OF turn j, unfolded if_False] by (elim exE conjE) (rule that)
  have node: "r_node ?r = True" by (simp add: example_rx_def)
  from S'(4) obtain c where c: "cs = [c]" "htonl LAMB_OK = answer_frame ?r c" by (cases cs) auto
  then have "htonl c = htonl LAMB_OK" by (simp add: answer_frame_def example_rx_def)
  then have "c = LAMB_OK" by (metis ntohl_htonl)
  with run S' c(1) node show ?thesis
    by (intro exI [of _ n] exI [of _ S'] conjI) (simp_all add: crowd_def del: route_run.simps)
qed

end
