(* ===== verification/Common.thy ===== *)
theory Common
  imports Prelude "HOL-Library.Monad_Syntax"
begin

text \<open>
  The helpers of \<open>src/src/common.c\<close> that compute something: timeouts, the sequence number,
  string lengths, format checks, the host:port parser, the lock file. What only calls the
  operating system (signals, daemonising, CPU affinity, resource limits) is not modelled.
\<close>

text \<open>
  Two libraries are parameters of the programs. \<open>pcre pattern subject len\<close> is what
  \<open>lamb_pcre_regular\<close> answers; \<open>conv src from to size\<close> is what \<open>lamb_encoded_convert\<close> writes
  into a buffer of \<open>size\<close> bytes, \<open>None\<close> when it returns -1.
\<close>

type_synonym pcre = "string \<Rightarrow> string \<Rightarrow> nat \<Rightarrow> bool"

type_synonym iconv = "bytes \<Rightarrow> string \<Rightarrow> string \<Rightarrow> nat \<Rightarrow> bytes option"

text \<open>
  The wrapper \<open>lamb_encoded_convert\<close> over the two calls of the library: whether a descriptor opens,
  and what a conversion writes into a buffer of \<open>n\<close> bytes, with whether it took the whole text.
  The wrapper does not look at the latter.
\<close>

record iconv_lib =
  ic_open :: "string \<Rightarrow> string \<Rightarrow> bool"
  ic_run :: "string \<Rightarrow> string \<Rightarrow> bytes \<Rightarrow> nat \<Rightarrow> bytes \<times> bool"

definition lamb_encoded_convert :: "iconv_lib \<Rightarrow> iconv" where
  "lamb_encoded_convert lib src fromcode tocode dlen =
     (if ic_open lib tocode fromcode then Some (fst (ic_run lib tocode fromcode src dlen)) else None)"

text \<open>
  The wrapper \<open>lamb_pcre_regular\<close> over the two calls of PCRE: whether a pattern compiles, and the
  number \<open>pcre_exec\<close> returns, negative for no match.
\<close>

record pcre_lib =
  pc_compile :: "string \<Rightarrow> bool"
  pc_exec :: "string \<Rightarrow> string \<Rightarrow> nat \<Rightarrow> int"

definition lamb_pcre_regular :: "pcre_lib \<Rightarrow> pcre" where
  "lamb_pcre_regular lib pattern content len =
     (if \<not> pc_compile lib pattern then False else if pc_exec lib pattern content len < 0 then False else True)"

subsection \<open>Time\<close>

text \<open>A \<open>timeval\<close> or \<open>timespec\<close> is the pair of its fields.\<close>

definition lamb_sleep :: "u64 \<Rightarrow> u64 \<times> u64" where
  "lamb_sleep milliseconds = (milliseconds div 1000, milliseconds * 1000 mod 1000000)"

definition lamb_msleep :: "u64 \<Rightarrow> u64 \<times> u64" where
  "lamb_msleep microsecond = (microsecond div 1000000, microsecond mod 1000000)"

definition lamb_now_microsecond :: "int \<times> int \<Rightarrow> u64" where
  "lamb_now_microsecond tv = word_of_int (fst tv) * 1000000 + word_of_int (snd tv)"

text \<open>
  The absolute deadline \<open>lamb_wait_confirmation\<close> waits for, from the time of day in
  microseconds; the quotients are C's, for non-negative values.
\<close>

definition confirmation_deadline :: "int \<times> int \<Rightarrow> int \<Rightarrow> int \<times> int" where
  "confirmation_deadline now milliseconds =
     (let sec = fst now + milliseconds div 1000;
          nsec = snd now * 1000 + milliseconds mod 1000 * 1000 * 1000
      in (sec + nsec div (1000 * 1000 * 1000), nsec mod (1000 * 1000 * 1000)))"

lemma lamb_sleep_splits:
  assumes "unat ms * 1000 < 2 ^ 64"
  shows "unat (fst (lamb_sleep ms)) * 1000000 + unat (snd (lamb_sleep ms)) = unat ms * 1000"
    and "unat (snd (lamb_sleep ms)) < 1000000"
proof -
  have mul: "unat (ms * 1000) = unat ms * 1000"
    using assms by (subst unat_mult_lem [THEN iffD1]) simp_all
  have us: "unat (snd (lamb_sleep ms)) = unat ms * 1000 mod 1000000"
    by (simp add: lamb_sleep_def unat_mod mul)
  have sec: "unat (fst (lamb_sleep ms)) = unat ms * 1000 div 1000000"
    by (simp add: lamb_sleep_def unat_div)
  show "unat (fst (lamb_sleep ms)) * 1000000 + unat (snd (lamb_sleep ms)) = unat ms * 1000"
    unfolding us sec by (rule div_mult_mod_eq)
  show "unat (snd (lamb_sleep ms)) < 1000000" unfolding us by simp
qed

lemma confirmation_deadline_exact:
  assumes "0 \<le> usec" and "usec < 1000000" and "0 \<le> ms" and "confirmation_deadline (sec, usec) ms = (s, n)"
  shows "s * 1000000000 + n = sec * 1000000000 + usec * 1000 + ms * 1000000" and "0 \<le> n" and "n < 1000000000"
proof -
  let ?n = "usec * 1000 + 1000000 * (ms mod 1000)"
  have s: "s = sec + ms div 1000 + ?n div 1000000000" and n: "n = ?n mod 1000000000"
    using assms(4) by (simp_all add: confirmation_deadline_def Let_def)
  have 1: "ms div 1000 * 1000 + ms mod 1000 = ms" by simp
  have 2: "?n div 1000000000 * 1000000000 + ?n mod 1000000000 = ?n" by (rule div_mult_mod_eq)
  have "(sec + q1 + q2) * 1000000000 + r2 = sec * 1000000000 + usec * 1000 + ms * 1000000"
    if "q1 * 1000 + r1 = ms" "q2 * 1000000000 + r2 = usec * 1000 + 1000000 * r1" for q1 r1 q2 r2 :: int
  proof -
    have "r2 = usec * 1000 + 1000000 * r1 - q2 * 1000000000" using that(2) by simp
    then show ?thesis using that(1) by (auto simp: algebra_simps)
  qed
  from this [OF 1 2] show "s * 1000000000 + n = sec * 1000000000 + usec * 1000 + ms * 1000000"
    unfolding s n .
  show "0 \<le> n" "n < 1000000000" unfolding n by simp_all
qed

subsection \<open>The sequence number\<close>

text \<open>\<open>lamb_sequence\<close> with its static variable passed: the value returned and the next state.\<close>

definition lamb_sequence :: "u16 \<Rightarrow> u16 \<times> u16" where
  "lamb_sequence seq = (if seq < 0xffff then (seq, seq + 1) else (1, 1))"

primrec sequence_run :: "nat \<Rightarrow> u16 \<Rightarrow> u16 list" where
  "sequence_run 0 seq = []"
| "sequence_run (Suc n) seq = (let (v, seq1) = lamb_sequence seq in v # sequence_run n seq1)"

primrec sequence_state :: "nat \<Rightarrow> u16" where
  "sequence_state 0 = 1"
| "sequence_state (Suc n) = snd (lamb_sequence (sequence_state n))"

lemma sequence_state_value: "unat (sequence_state n) = n mod 65535 + 1"
proof (induction n)
  case 0
  then show ?case by simp
next
  case (Suc n)
  show ?case
  proof (cases "sequence_state n < 0xffff")
    case True
    then have lt: "unat (sequence_state n) < 65535" by (simp add: word_less_nat_alt)
    then have "unat (sequence_state n + 1) = unat (sequence_state n) + 1"
      by (simp add: unat_word_ariths)
    with True lt Suc show ?thesis by (simp add: lamb_sequence_def mod_Suc)
  next
    case False
    then have "\<not> unat (sequence_state n) < 65535" by (simp add: word_less_nat_alt)
    with Suc have "n mod 65535 = 65534" by (simp add: less_Suc_eq_le)
    with False show ?thesis by (simp add: lamb_sequence_def mod_Suc)
  qed
qed

text \<open>The value of call \<open>n\<close>, counting from 0: \<open>1, 2, \<dots>, 65534, 1, 1, 2, \<dots>\<close>\<close>

definition sequence_value :: "nat \<Rightarrow> u16" where
  "sequence_value n = fst (lamb_sequence (sequence_state n))"

lemma sequence_value_eq: "unat (sequence_value n) = (if n mod 65535 = 65534 then 1 else n mod 65535 + 1)"
proof -
  have lt: "n mod 65535 < 65535" by simp
  have "sequence_state n < 0xffff \<longleftrightarrow> n mod 65535 \<noteq> 65534"
    using sequence_state_value [of n] lt by (auto simp: word_less_nat_alt)
  then show ?thesis using sequence_state_value [of n]
    by (auto simp: sequence_value_def lamb_sequence_def)
qed

text \<open>
  The sequence number is never 0 and never 0xffff, and repeats itself at the wrap: two
  consecutive calls return the same value exactly when the first of them is the one that
  wraps, once in 65535 calls, and then both return 1.
\<close>

theorem lamb_sequence_wrap:
  "sequence_value n \<noteq> 0 \<and> sequence_value n \<noteq> 0xffff \<and>
   (sequence_value n = sequence_value (Suc n) \<longleftrightarrow> n mod 65535 = 65534)"
proof -
  have lt: "n mod 65535 < 65535" by simp
  have v: "unat (sequence_value n) = (if n mod 65535 = 65534 then 1 else n mod 65535 + 1)"
    and v1: "unat (sequence_value (Suc n)) = (if Suc n mod 65535 = 65534 then 1 else Suc n mod 65535 + 1)"
    by (rule sequence_value_eq)+
  have "unat (sequence_value n) \<noteq> 0" "unat (sequence_value n) \<noteq> 65535" using v lt by auto
  then have "sequence_value n \<noteq> 0" "sequence_value n \<noteq> 0xffff" by auto
  moreover have "sequence_value n = sequence_value (Suc n) \<longleftrightarrow> unat (sequence_value n) = unat (sequence_value (Suc n))"
    by (simp add: word_unat_eq_iff)
  moreover have "unat (sequence_value n) = unat (sequence_value (Suc n)) \<longleftrightarrow> n mod 65535 = 65534"
    unfolding v v1 using lt by (auto simp: mod_Suc)
  ultimately show ?thesis by blast
qed

subsection \<open>Strings\<close>

definition schar :: "char \<Rightarrow> int" where
  "schar c = (if (of_char c :: int) < 128 then of_char c else of_char c - 256)"

text \<open>
  The length of a UCS-2 string of at most 140 bytes: the loop stops at the first pair of bytes
  whose sum, as signed characters, is zero. Reading outside the buffer is \<open>None\<close>.
\<close>

function ucs2_loop :: "bytes \<Rightarrow> nat \<Rightarrow> nat option" where
  "ucs2_loop str i =
     (if i < 140 then
        (if length str \<le> i + 1 then None
         else if schar (str ! i) + schar (str ! (i + 1)) \<noteq> 0 then ucs2_loop str (i + 2) else Some i)
      else Some i)"
  by pat_completeness auto

termination by (relation "measure (\<lambda>(str, i). 140 - i)") auto

declare ucs2_loop.simps [simp del]

definition lamb_ucs2_strlen :: "bytes \<Rightarrow> nat option" where
  "lamb_ucs2_strlen str = ucs2_loop str 0"

definition pair_ends :: "bytes \<Rightarrow> nat \<Rightarrow> bool" where
  "pair_ends str j \<longleftrightarrow> schar (str ! (2 * j)) + schar (str ! (2 * j + 1)) = 0"

lemma ucs2_loop_stop:
  assumes "\<forall>j. k \<le> j \<and> j < n \<longrightarrow> \<not> pair_ends str j" and "k \<le> n" and "n \<le> 70" and "2 * n \<le> length str"
    and "n = 70 \<or> 2 * n + 1 < length str \<and> pair_ends str n"
  shows "ucs2_loop str (2 * k) = Some (2 * n)"
  using assms
proof (induction "n - k" arbitrary: k)
  case 0
  then have "k = n" by simp
  with 0 show ?case by (subst ucs2_loop.simps) (auto simp: pair_ends_def)
next
  case (Suc d)
  then have "k < n" by simp
  then have "\<not> pair_ends str k" "2 * k < 140" "2 * k + 1 < length str" using Suc.prems by auto
  moreover have "ucs2_loop str (2 * (k + 1)) = Some (2 * n)"
    by (rule Suc.hyps(1)) (use Suc.hyps(2) Suc.prems \<open>k < n\<close> in auto)
  ultimately show ?case by (subst ucs2_loop.simps) (simp add: pair_ends_def)
qed

lemma ucs2_loop_pair: "1 \<le> length rest \<Longrightarrow> schar a + schar b = 0 \<Longrightarrow> lamb_ucs2_strlen (a # b # rest) = Some 0"
  by (simp add: lamb_ucs2_strlen_def ucs2_loop.simps)

text \<open>A character such as U+4EB2 ends the string, as do all whose two bytes add up to 256.\<close>

lemma ucs2_not_a_terminator: "lamb_ucs2_strlen (CHR 0x4E # CHR 0xB2 # CHR 0x4E # zeroed 137) = Some 0"
  by (rule ucs2_loop_pair) (simp_all add: schar_def)

text \<open>The number of characters of a GBK string; a lead byte is negative as a \<open>char\<close>.\<close>

function gbk_loop :: "bytes \<Rightarrow> nat \<Rightarrow> nat \<Rightarrow> nat option" where
  "gbk_loop str ptr n =
     (if length str \<le> ptr then None
      else if str ! ptr = NUL then Some n
      else if schar (str ! ptr) < 0 \<and> length str \<le> ptr + 1 then None
      else if schar (str ! ptr) < 0 \<and> (schar (str ! (ptr + 1)) < 0 \<or> schar (str ! (ptr + 1)) > 63)
        then gbk_loop str (ptr + 2) (n + 1)
      else gbk_loop str (ptr + 1) (n + 1))"
  by pat_completeness auto

termination by (relation "measure (\<lambda>(str, ptr, n). length str - ptr)") auto

definition lamb_gbk_strlen :: "bytes \<Rightarrow> nat option" where
  "lamb_gbk_strlen str = gbk_loop str 0 0"

definition lamb_check_format :: "int \<Rightarrow> int list \<Rightarrow> bool" where
  "lamb_check_format coded xs = (\<exists>x \<in> set xs. x = coded)"

text \<open>
  \<open>strtok\<close> with the one delimiter: the non-empty runs between colons. \<open>lamb_hp_parse\<close> copies
  the first, at most 15 bytes and without a NUL, to the front of \<open>host\<close>; the second becomes
  the port.
\<close>

function strtok_colon :: "string \<Rightarrow> string list" where
  "strtok_colon s =
     (let t = dropWhile (\<lambda>c. c = CHR '':'') s
      in if t = [] then [] else takeWhile (\<lambda>c. c \<noteq> CHR '':'') t # strtok_colon (dropWhile (\<lambda>c. c \<noteq> CHR '':'') t))"
  by pat_completeness auto

termination
proof (relation "measure length", simp)
  fix s t :: string
  assume t: "t = dropWhile (\<lambda>c. c = CHR '':'') s" and ne: "t \<noteq> []"
  then have "hd t \<noteq> CHR '':''" using hd_dropWhile [of "\<lambda>c. c = CHR '':''" s] by simp
  then obtain c r where "t = c # r" "c \<noteq> CHR '':''" using ne by (cases t) auto
  then have "length (dropWhile (\<lambda>c. c \<noteq> CHR '':'') t) < length t"
    using length_dropWhile_le [of "\<lambda>c. c \<noteq> CHR '':''" r] by simp
  also have "length t \<le> length s" unfolding t by (rule length_dropWhile_le)
  finally show "(dropWhile (\<lambda>c. c \<noteq> CHR '':'') t, s) \<in> measure length" by simp
qed

declare strtok_colon.simps [simp del]
declare gbk_loop.simps [simp del]

definition overwrite :: "bytes \<Rightarrow> bytes \<Rightarrow> bytes" where
  "overwrite buf src = src @ drop (length src) buf"

definition lamb_hp_parse :: "string \<Rightarrow> bytes \<Rightarrow> int \<Rightarrow> bytes \<times> int" where
  "lamb_hp_parse str host port =
     (case strtok_colon str of
        [] \<Rightarrow> (host, port)
      | [h] \<Rightarrow> (overwrite host (take 15 h), port)
      | h # p # _ \<Rightarrow> (overwrite host (take 15 h), atoi p))"

subsection \<open>The lock file\<close>

record lamb_lock_t =
  lk_fd :: int
  lk_file :: "string option"

text \<open>
  The file system is the set of existing names with the contents written; \<open>fd\<close> is the
  descriptor \<open>open\<close> returns when it can create the file.
\<close>

definition lamb_lock_protection ::
  "int \<Rightarrow> string \<Rightarrow> lamb_lock_t \<Rightarrow> (string \<rightharpoonup> string) \<Rightarrow> int \<times> lamb_lock_t \<times> (string \<rightharpoonup> string)" where
  "lamb_lock_protection fd file lock fs =
     (if fs file \<noteq> None \<or> fd = -1 then (-1, lock\<lparr>lk_fd := -1\<rparr>, fs)
      else (0, lock\<lparr>lk_fd := fd, lk_file := Some file\<rparr>, fs(file \<mapsto> [])))"

definition lamb_lock_release :: "lamb_lock_t \<Rightarrow> (string \<rightharpoonup> string) \<Rightarrow> lamb_lock_t \<times> (string \<rightharpoonup> string)" where
  "lamb_lock_release lock fs =
     (if 0 \<le> lk_fd lock then
        (lock\<lparr>lk_fd := -1\<rparr>, (case lk_file lock of None \<Rightarrow> fs | Some f \<Rightarrow> fs(f := None)))
      else (lock, fs))"

definition lamb_pid_file :: "lamb_lock_t \<Rightarrow> int \<Rightarrow> (string \<rightharpoonup> string) \<Rightarrow> string \<rightharpoonup> string" where
  "lamb_pid_file lock pid fs =
     (case lk_file lock of
        Some f \<Rightarrow> (if fs f \<noteq> None then fs(f \<mapsto> the (fs f) @ snprintf_z 16 (show_int pid)) else fs)
      | None \<Rightarrow> fs)"

lemma lock_excludes:
  assumes "lamb_lock_protection fd file l fs = (0, l', fs')"
  shows "lamb_lock_protection fd' file l2 (lamb_pid_file l' pid fs') = (-1, l2\<lparr>lk_fd := -1\<rparr>, lamb_pid_file l' pid fs')"
    and "0 \<le> fd \<Longrightarrow> snd (lamb_lock_release l' fs') = fs"
  using assms by (auto simp: lamb_lock_protection_def lamb_lock_release_def lamb_pid_file_def fun_upd_idem
      split: if_splits)

end
