(* ===== verification/Cache.thy ===== *)
theory Cache
  imports Common Db
begin

text \<open>
  The redis clients (\<open>src/src/cache.c\<close>, \<open>account.c\<close>, \<open>company.c\<close>, \<open>security.c\<close>).

  The server is the parameter \<open>redis\<close>: what it replies to a command (\<open>None\<close> for the NULL of
  \<open>redisCommand\<close>) and whether a connection can be made. A handle that is NULL makes
  \<open>redisCommand\<close> dereference it: undefined behaviour, \<open>None\<close> of the definitions here.
\<close>

datatype reply =
    RStatus string
  | RInteger int
  | RString bytes
  | RArray "bytes list"
  | RNil
  | RError string

record redis =
  rd_connect :: "string \<Rightarrow> int \<Rightarrow> bool"
  rd_reply :: "string \<Rightarrow> reply option"

record lamb_cache_t =
  ca_handle :: bool

definition reply_str :: "reply \<Rightarrow> string option" where
  "reply_str r = (case r of RStatus s \<Rightarrow> Some s | RString s \<Rightarrow> Some s | RError s \<Rightarrow> Some s | _ \<Rightarrow> None)"

text \<open>The result is the return code; the handle stays set after a failed connection.\<close>

definition lamb_cache_connect :: "redis \<Rightarrow> string \<Rightarrow> int \<Rightarrow> string option \<Rightarrow> int \<Rightarrow> int \<times> string list" where
  "lamb_cache_connect rds host port password db =
     (if \<not> rd_connect rds host port then (1, [])
      else let auth = (case password of None \<Rightarrow> [] | Some p \<Rightarrow> [''AUTH '' @ p]);
               sel = ''SELECT '' @ show_int db
           in ((if rd_reply rds sel = Some (RStatus ''OK'') then 0 else 2), auth @ [sel]))"

definition lamb_cache_check_connect :: "redis \<Rightarrow> lamb_cache_t option \<Rightarrow> bool option" where
  "lamb_cache_check_connect rds cache =
     (case cache of
        None \<Rightarrow> Some False
      | Some c \<Rightarrow> (if ca_handle c then Some False else None))"

definition lamb_cache_has :: "redis \<Rightarrow> lamb_cache_t option \<Rightarrow> string \<Rightarrow> bool" where
  "lamb_cache_has rds cache key =
     (case cache of
        None \<Rightarrow> False
      | Some c \<Rightarrow>
          (if \<not> ca_handle c then False
           else case rd_reply rds (''EXISTS '' @ key) of
                  Some (RInteger i) \<Rightarrow> i = 1
                | _ \<Rightarrow> False))"

definition fetch_into :: "reply option \<Rightarrow> bytes \<Rightarrow> nat \<Rightarrow> bytes" where
  "fetch_into r buff len =
     (case r of
        Some (RString s) \<Rightarrow> overwrite buff (if len < length s then take (len - 1) s else s)
      | _ \<Rightarrow> buff)"

definition lamb_cache_get :: "redis \<Rightarrow> lamb_cache_t option \<Rightarrow> string option \<Rightarrow> bytes \<Rightarrow> nat \<Rightarrow> int \<times> bytes" where
  "lamb_cache_get rds cache key buff len =
     (case (cache, key) of
        (Some c, Some k) \<Rightarrow>
          (if \<not> ca_handle c then (-1, buff) else (0, fetch_into (rd_reply rds (''GET '' @ k)) buff len))
      | _ \<Rightarrow> (-1, buff))"

definition lamb_cache_hget ::
  "redis \<Rightarrow> lamb_cache_t option \<Rightarrow> string option \<Rightarrow> string \<Rightarrow> bytes \<Rightarrow> nat \<Rightarrow> int \<times> bytes" where
  "lamb_cache_hget rds cache key field buff len =
     (case (cache, key) of
        (Some c, Some k) \<Rightarrow>
          (if \<not> ca_handle c then (-1, buff)
           else (0, fetch_into (rd_reply rds (''HGET '' @ k @ '' '' @ field)) buff len))
      | _ \<Rightarrow> (-1, buff))"

text \<open>
  \<open>lamb_nodes_connect\<close>: the nodes up to the first empty one; node \<open>i\<close> connects when its
  object can be allocated (\<open>mem i\<close>) and the server accepts. The host buffer is cleared for
  each node, the port kept from the node before when an address has none.
\<close>

primrec nodes_loop ::
  "(nat \<Rightarrow> bool) \<Rightarrow> redis \<Rightarrow> nat \<Rightarrow> nat \<Rightarrow> int \<Rightarrow> string list \<Rightarrow> nat \<Rightarrow> nat \<Rightarrow> int \<Rightarrow>
   (nat \<rightharpoonup> string) \<Rightarrow> nat \<Rightarrow> (nat \<rightharpoonup> string) \<times> nat" where
  "nodes_loop mem rds len sz db [] i j port slots n = (slots, n)"
| "nodes_loop mem rds len sz db (node # nodes) i j port slots n =
     (if j < len \<and> i < sz \<and> node \<noteq> [] then
        let (host, port1) = lamb_hp_parse node (zeroed 16) port;
            ok = (mem i \<and> fst (lamb_cache_connect rds (cstr host) port1 None db) = 0)
        in if ok then nodes_loop mem rds len sz db nodes (i + 1) (j + 1) port1 (slots(j \<mapsto> node)) (n + 1)
           else nodes_loop mem rds len sz db nodes (i + 1) ((if 0 < j then j - 1 else j) + 1) port1 slots n
      else (slots, n))"

definition lamb_nodes_connect ::
  "(nat \<Rightarrow> bool) \<Rightarrow> redis \<Rightarrow> nat \<Rightarrow> string list \<Rightarrow> nat \<Rightarrow> int \<Rightarrow> (nat \<rightharpoonup> string) \<times> nat" where
  "lamb_nodes_connect mem rds len nodes sz db = nodes_loop mem rds len sz db nodes 0 0 0 Map.empty 0"

subsection \<open>Accounts, companies, the black list\<close>

text \<open>
  \<open>lamb_account_get\<close> overwrites the fields whose replies are not empty and keeps the others;
  the buffers are the account's character arrays.
\<close>

record account_bufs =
  ab_id :: int
  ab_username :: bytes
  ab_password :: bytes
  ab_spcode :: bytes
  ab_company :: int
  ab_address :: bytes
  ab_concurrent :: int
  ab_options :: int

definition keep_int :: "bytes \<Rightarrow> int \<Rightarrow> int" where
  "keep_int s old = (if 0 < length s then atoi (cstr s) else old)"

definition keep_buf :: "nat \<Rightarrow> bytes \<Rightarrow> bytes \<Rightarrow> bytes" where
  "keep_buf n s old = (if 0 < length s then overwrite old (if n < length s then take n s else s) else old)"

definition lamb_account_get :: "redis \<Rightarrow> string \<Rightarrow> account_bufs \<Rightarrow> int \<times> account_bufs" where
  "lamb_account_get rds username a =
     (case rd_reply rds (''HMGET account.'' @ username @
             '' id username password spcode company address concurrent options'') of
        Some (RArray xs) \<Rightarrow>
          (case xs of
             [i, u, p, s, c, ad, co, op] \<Rightarrow>
               (0, \<lparr>ab_id = keep_int i (ab_id a), ab_username = keep_buf 7 u (ab_username a),
                    ab_password = keep_buf 63 p (ab_password a), ab_spcode = keep_buf 20 s (ab_spcode a),
                    ab_company = keep_int c (ab_company a), ab_address = keep_buf 15 ad (ab_address a),
                    ab_concurrent = keep_int co (ab_concurrent a), ab_options = keep_int op (ab_options a)\<rparr>)
           | _ \<Rightarrow> (-1, a))
      | _ \<Rightarrow> (-1, a))"

definition lamb_company_billing :: "redis \<Rightarrow> int \<Rightarrow> int \<Rightarrow> int \<times> string" where
  "lamb_company_billing rds company money =
     (let cmd = ''HINCRBY company.'' @ show_int company @ '' money '' @ show_int money
      in (if rd_reply rds cmd \<noteq> None then 0 else -1, cmd))"

definition LAMB_BLACKLIST :: int where "LAMB_BLACKLIST = 1"
definition LAMB_WHITELIST :: int where "LAMB_WHITELIST = 2"

definition lamb_security_check :: "redis \<Rightarrow> int \<Rightarrow> string \<Rightarrow> bool" where
  "lamb_security_check rds type phone =
     (case rd_reply rds (snprintf_z 128 (''EXISTS '' @ (if type = LAMB_BLACKLIST then ''black.'' else ''white.'') @ phone)) of
        Some (RInteger i) \<Rightarrow> i = 1
      | _ \<Rightarrow> False)"

subsection \<open>What the clients do\<close>

text \<open>
  The liveness check of a connection never says that it is alive: for a handle in use it
  answers false without asking, and without one it is undefined.
\<close>

theorem lamb_cache_check_connect_never: "lamb_cache_check_connect rds cache \<noteq> Some True"
  by (simp add: lamb_cache_check_connect_def split: option.split)

text \<open>The slots of the connected nodes, as those of the loaders of Db.\<close>

lemma nodes_loop_later:
  assumes "0 < j" and "nodes_loop mem rds len sz db nodes i j port slots n = (slots', n')"
  shows "n \<le> n' \<and> dom slots' = dom slots \<union> {j..<j + (n' - n)}"
  using assms
proof (induction nodes arbitrary: i j port slots n)
  case Nil
  then show ?case by simp
next
  case (Cons node nodes)
  obtain host port1 where hp: "lamb_hp_parse node (zeroed 16) port = (host, port1)" by fastforce
  let ?ok = "mem i \<and> fst (lamb_cache_connect rds (cstr host) port1 None db) = 0"
  consider "\<not> (j < len \<and> i < sz \<and> node \<noteq> [])" | "j < len \<and> i < sz \<and> node \<noteq> []" "\<not> ?ok"
    | "j < len \<and> i < sz \<and> node \<noteq> []" "?ok" by blast
  then show ?case
  proof cases
    case 1
    then have "slots' = slots" "n' = n" using Cons.prems(2) by (auto split: if_splits)
    then show ?thesis by simp
  next
    case 2
    then show ?thesis using Cons.IH [of j "i + 1" port1 slots n] Cons.prems hp
      by (simp split: if_splits)
  next
    case 3
    then have run: "nodes_loop mem rds len sz db nodes (i + 1) (j + 1) port1 (slots(j \<mapsto> node)) (n + 1) = (slots', n')"
      using Cons.prems hp by simp
    from Cons.IH [OF _ run] have le: "n + 1 \<le> n'"
      and d: "dom slots' = insert j (dom slots) \<union> {j + 1..<j + 1 + (n' - (n + 1))}" by auto
    have "insert j {j + 1..<j + 1 + (n' - (n + 1))} = {j..<j + (n' - n)}" using le by auto
    with d le show ?thesis by auto
  qed
qed

definition node_ok :: "(nat \<Rightarrow> bool) \<Rightarrow> redis \<Rightarrow> int \<Rightarrow> string \<Rightarrow> bool" where
  "node_ok mem rds db node =
     (let (host, port) = lamb_hp_parse node (zeroed 16) 0
      in mem 0 \<and> fst (lamb_cache_connect rds (cstr host) port None db) = 0)"

lemma nodes_connect_dom:
  assumes "lamb_nodes_connect mem rds len nodes sz db = (slots, n)" and "nodes = node # rest"
    and "node \<noteq> []" and "0 < len" and "0 < sz"
  shows "dom slots = (if node_ok mem rds db node then {0..<n} else {1..<n + 1})"
proof -
  obtain host port where hp: "lamb_hp_parse node (zeroed 16) 0 = (host, port)" by fastforce
  show ?thesis
  proof (cases "node_ok mem rds db node")
    case True
    then have "nodes_loop mem rds len sz db rest 1 1 port [0 \<mapsto> node] 1 = (slots, n)"
      using assms hp by (simp add: lamb_nodes_connect_def node_ok_def)
    from nodes_loop_later [OF _ this] True show ?thesis by auto
  next
    case False
    then have "nodes_loop mem rds len sz db rest 1 1 port Map.empty 0 = (slots, n)"
      using assms hp by (auto simp: lamb_nodes_connect_def node_ok_def split: if_splits)
    from nodes_loop_later [OF _ this] False show ?thesis by auto
  qed
qed

lemma nodes_loop_count:
  "nodes_loop mem rds len sz db nodes i j port slots n = (slots', n') \<Longrightarrow> n' \<le> n + length nodes"
proof (induction nodes arbitrary: i j port slots n)
  case Nil
  then show ?case by simp
next
  case (Cons node nodes)
  obtain host port1 where hp: "lamb_hp_parse node (zeroed 16) port = (host, port1)" by fastforce
  show ?case
  proof (cases "j < len \<and> i < sz \<and> node \<noteq> []")
    case False
    then have "n' = n" using Cons.prems by (auto split: if_splits)
    then show ?thesis by simp
  next
    case True
    then obtain i' j' slots'' n'' where "nodes_loop mem rds len sz db nodes i' j' port1 slots'' n'' = (slots', n')"
      and "n'' \<le> n + 1"
      using Cons.prems hp
      by (cases "mem i \<and> fst (lamb_cache_connect rds (cstr host) port1 None db) = 0") auto
    with Cons.IH show ?thesis by fastforce
  qed
qed

text \<open>When as many nodes connected as were given, none failed and every slot is set.\<close>

lemma nodes_connect_all:
  assumes "lamb_nodes_connect mem rds len nodes sz db = (slots, n)" and "n = length nodes"
    and "nodes \<noteq> []" and "0 < len" and "0 < sz"
  shows "dom slots = {0..<n}"
proof -
  obtain node rest where nodes: "nodes = node # rest" using assms(3) by (cases nodes) auto
  obtain host port where hp: "lamb_hp_parse node (zeroed 16) 0 = (host, port)" by fastforce
  have "node \<noteq> []"
  proof
    assume "node = []"
    then have "n = 0" using assms(1) nodes by (simp add: lamb_nodes_connect_def)
    then show False using assms(2) nodes by simp
  qed
  moreover have "node_ok mem rds db node"
  proof (rule ccontr)
    assume no: "\<not> node_ok mem rds db node"
    then have "nodes_loop mem rds len sz db rest 1 1 port Map.empty 0 = (slots, n)"
      using assms nodes hp \<open>node \<noteq> []\<close> by (auto simp: lamb_nodes_connect_def node_ok_def split: if_splits)
    from nodes_loop_count [OF this] assms(2) nodes show False by simp
  qed
  ultimately show ?thesis using nodes_connect_dom [OF assms(1) nodes _ assms(4,5)] by simp
qed

text \<open>
  After connecting the nodes, the slots filled are the first \<open>len\<close> ones, unless the very
  first node failed: then slot 0 stays unset and the connected nodes sit in slots 1 to \<open>len\<close>,
  so that index 0, which the callers use modulo \<open>len\<close>, is not a node.
\<close>

theorem lamb_nodes_connect_slots:
  assumes "lamb_nodes_connect mem rds len nodes sz db = (slots, n)" and "nodes = node # rest"
    and "node \<noteq> []" and "0 < len" and "0 < sz"
  shows "dom slots = (if node_ok mem rds db node then {0..<n} else {1..<n + 1})"
  using assms by (rule nodes_connect_dom)

lemma lamb_nodes_connect_slots_witness:
  "\<exists>slots n. lamb_nodes_connect (\<lambda>i. i \<noteq> 0) \<lparr>rd_connect = (\<lambda>h p. True), rd_reply = (\<lambda>c. Some (RStatus ''OK''))\<rparr>
       16 [''a:1'', ''b:2''] 7 1 = (slots, n) \<and> dom slots = {1..<n + 1}"
proof -
  let ?rds = "\<lparr>rd_connect = (\<lambda>h p. True), rd_reply = (\<lambda>c. Some (RStatus ''OK''))\<rparr>"
  obtain slots n where r: "lamb_nodes_connect (\<lambda>i. i \<noteq> 0) ?rds 16 [''a:1'', ''b:2''] 7 1 = (slots, n)"
    by fastforce
  have "\<not> node_ok (\<lambda>i. i \<noteq> 0) ?rds 1 ''a:1''" by (simp add: node_ok_def split: prod.split)
  with lamb_nodes_connect_slots [OF r refl] r show ?thesis by simp
qed

end
