(* ===== verification/Delivery.thy ===== *)
theory Delivery
  imports Mo Cache
begin

text \<open>
  The delivery process (\<open>src/src/delivery.c\<close>): gateways push the status reports and the
  messages from phones; a report goes to the queue of its account, a message to the account
  its service number is routed to, or into storage and from there into the database.

  The regular expressions of PCRE and the conversions of iconv are parameters.

  A turn here is a session left alone. The operations of several sessions in between each other,
  looking for a queue and making it being two, are in DeliveryThreads.
\<close>

record lamb_delivery_t =
  dv_id :: int
  dv_rexp :: string
  dv_target :: int

record dstate =
  d_pool :: "upmsg pool"
  d_store :: "lamb_deliver_t list"
  d_routes :: "lamb_delivery_t list"
  d_sleeping :: bool

definition lamb_check_delivery :: "pcre \<Rightarrow> lamb_delivery_t \<Rightarrow> string \<Rightarrow> nat \<Rightarrow> bool" where
  "lamb_check_delivery pcre d spcode len = pcre (dv_rexp d) spcode len"

definition lamb_get_delivery :: "pg \<Rightarrow> int \<times> lamb_delivery_t list" where
  "lamb_get_delivery d =
     (case pg_exec d ''SELECT id, rexp, target FROM delivery'' of
        None \<Rightarrow> (-1, [])
      | Some [] \<Rightarrow> (-1, [])
      | Some rows \<Rightarrow>
          (0, load_list d (\<lambda>r. \<lparr>dv_id = atoi (PQgetvalue r 0),
                 dv_rexp = strncpy_z 127 (PQgetvalue r 1), dv_target = atoi (PQgetvalue r 2)\<rparr>) rows))"

subsection \<open>The message loops\<close>

text \<open>
  In the push loop \<open>r_pk\<close> and \<open>r_frame\<close> stand for the allocations of a new queue and of its
  node, \<open>r_calloc\<close> and \<open>r_node\<close> for those of the message. A message from a phone is kept with
  account 0; its company and service id are those of the zeroed struct.
\<close>

definition phone_message :: "Deliver \<Rightarrow> lamb_deliver_t option" where
  "phone_message d = do {
     content \<leftarrow> memcpy_z 160 (dl_content d);
     Some \<lparr>ld_id = dl_id d, ld_account = 0, ld_company = 0, ld_phone = strncpy_z 11 (dl_phone d),
           ld_spcode = strncpy_z 20 (dl_spcode d), ld_serviceid = [], ld_msgfmt = dl_msgfmt d,
           ld_length = dl_length d, ld_content = content\<rparr> }"

primrec route_search :: "pcre \<Rightarrow> string \<Rightarrow> nat \<Rightarrow> lamb_delivery_t list \<Rightarrow> int" where
  "route_search pcre spcode len [] = 0"
| "route_search pcre spcode len (dt # ds) =
     (if lamb_check_delivery pcre dt spcode len then dv_target dt else route_search pcre spcode len ds)"

definition push_to_client :: "rx \<Rightarrow> int \<Rightarrow> upmsg \<Rightarrow> upmsg pool \<Rightarrow> upmsg pool" where
  "push_to_client r account m P =
     (case client_queue (r_pk r) (r_frame r) account P of
        (None, P1) \<Rightarrow> P1
      | (Some k, P1) \<Rightarrow> pool_push (r_node r) k m P1)"

definition dl_push_loop :: "upcodec \<Rightarrow> pcre \<Rightarrow> rx \<Rightarrow> dstate \<Rightarrow> (dstate \<times> bool) option" where
  "dl_push_loop u pcre r S =
     (if d_sleeping S then Some (S, False)
      else case classify (r_buf r) of
        Short \<Rightarrow> Some (S, idle_stop r)
      | Frame c body \<Rightarrow>
          (if c = LAMB_REPORT then
             (case unpack_report u body of
                None \<Rightarrow> Some (S, False)
              | Some p \<Rightarrow>
                  Some (S\<lparr>d_pool :=
                     (if r_calloc r then push_to_client r (rp_account p) (UpReport (report_store p)) (d_pool S)
                      else snd (client_queue (r_pk r) (r_frame r) (rp_account p) (d_pool S)))\<rparr>, False))
           else if c = LAMB_DELIVER then
             (case unpack_deliver u body of
                None \<Rightarrow> Some (S, False)
              | Some d \<Rightarrow>
                  (if \<not> r_calloc r then Some (S, False)
                   else do {
                     deliver \<leftarrow> phone_message d;
                     let account = route_search pcre (ld_spcode deliver) (length (dl_spcode d)) (d_routes S);
                     Some (if 0 < account
                           then S\<lparr>d_pool := push_to_client r account (UpDeliver deliver) (d_pool S)\<rparr>
                           else if r_node r then S\<lparr>d_store := d_store S @ [deliver]\<rparr> else S, False) }))
           else Some (S, c = LAMB_BYE)))"

definition dl_pull_loop :: "upcodec \<Rightarrow> upmsg iter" where
  "dl_pull_loop u k r P =
     (case classify (r_buf r) of
        Short \<Rightarrow> Some (P, [], idle_stop r)
      | Frame c body \<Rightarrow>
          (if c = LAMB_REQ then
             (case pool_pop k P of
                (None, P1) \<Rightarrow>
                  Some (P1, (case lamb_pack_assembly (r_frame r) LAMB_EMPTY None of None \<Rightarrow> [] | Some f \<Rightarrow> [f]), False)
              | (Some (UpReport report), P1) \<Rightarrow>
                  Some (P1, (if r_pk r
                             then (case lamb_pack_assembly (r_frame r) LAMB_REPORT
                                           (Some (pack_report u (report_load report))) of
                                     None \<Rightarrow> [] | Some f \<Rightarrow> [f])
                             else []), False)
              | (Some (UpDeliver deliver), P1) \<Rightarrow> do {
                  dpack \<leftarrow> deliver_load deliver;
                  Some (P1, (if r_pk r
                             then (case lamb_pack_assembly (r_frame r) LAMB_DELIVER
                                           (Some (pack_deliver u dpack)) of
                                     None \<Rightarrow> [] | Some f \<Rightarrow> [f])
                             else []), False) })
           else Some (P, [], c = LAMB_BYE)))"

subsection \<open>The port search\<close>

text \<open>This process opens one socket and binds it to port after port, until the id of the
  endpoint is positive.\<close>

partial_function (option) dl_bind_loop ::
  "nnenv \<Rightarrow> string \<Rightarrow> int \<Rightarrow> u16 \<Rightarrow> nnet \<Rightarrow> (u16 \<times> nnet) option" where
  "dl_bind_loop e listen fd port s =
     (if 0 < e_bind e (ntick s) fd (server_addr listen port) then Some (port, tick s)
      else dl_bind_loop e listen fd (port + 1) (tick s))"

definition dl_child_server ::
  "nnenv \<Rightarrow> string \<Rightarrow> u16 \<Rightarrow> int \<Rightarrow> nnet \<Rightarrow> (int \<times> (int \<times> u16) option \<times> nnet) option" where
  "dl_child_server e listen port protocol s =
     (let (fd, s1) = nn_socket e protocol s
      in if fd < 0 then Some (-1, None, s1)
         else do {
           (p, s2) \<leftarrow> dl_bind_loop e listen fd port s1;
           Some (0, Some (fd, p), s2) })"

subsection \<open>Storage, signals and reloading\<close>

definition from_code :: "int \<Rightarrow> string option option" where
  "from_code msgfmt =
     (if msgfmt = 0 then Some (Some ''ASCII'')
      else if msgfmt = 8 then Some (Some ''UCS-2BE'')
      else if msgfmt = 11 then Some None
      else if msgfmt = 15 then Some (Some ''GBK'')
      else None)"

text \<open>
  The return code and the SQL sent, if any; \<open>exec\<close> says whether a command succeeds. A length
  outside the array, or printing an array without a NUL, is undefined.
\<close>

definition delivery_sql :: "lamb_deliver_t \<Rightarrow> string \<Rightarrow> string" where
  "delivery_sql m content =
     snprintf_z 512 (''INSERT INTO delivery(id, spcode, phone, content, account, company) VALUES(''
       @ show_int (sint (ld_id m)) @ '', '' @ quoted (ld_spcode m) @ '', '' @ quoted (ld_phone m) @ '', ''
       @ quoted content @ '', '' @ show_int (ld_account m) @ '', '' @ show_int (ld_company m) @ '')'')"

definition lamb_write_deliver ::
  "iconv \<Rightarrow> (string \<Rightarrow> bool) \<Rightarrow> lamb_deliver_t option \<Rightarrow> (int \<times> string list) option" where
  "lamb_write_deliver conv exec message =
     (case message of
        None \<Rightarrow> Some (-1, [])
      | Some m \<Rightarrow>
          (case from_code (ld_msgfmt m) of
             None \<Rightarrow> Some (-1, [])
           | Some None \<Rightarrow>
               (if terminated (ld_content m) then
                  (let sql = delivery_sql m (cstr (ld_content m)) in Some (if exec sql then 0 else -1, [sql]))
                else None)
           | Some (Some code) \<Rightarrow> do {
               src \<leftarrow> content_bytes (ld_length m) (ld_content m);
               (case conv src code ''UTF-8'' 512 of
                  None \<Rightarrow> Some (-1, [])
                | Some out \<Rightarrow>
                    (if length out < 1 then Some (-1, [])
                     else if 512 \<le> length out then None
                     else let sql = delivery_sql m (cstr out) in Some (if exec sql then 0 else -1, [sql]))) }))"

text \<open>One turn of the storage thread: the rest of the storage list and the SQL sent.\<close>

definition dl_store_loop ::
  "iconv \<Rightarrow> (string \<Rightarrow> bool) \<Rightarrow> lamb_deliver_t list \<Rightarrow> (lamb_deliver_t list \<times> string list) option" where
  "dl_store_loop conv exec store =
     (case store of
        [] \<Rightarrow> Some ([], [])
      | m # rest \<Rightarrow> do {
          (rc, sql) \<leftarrow> lamb_write_deliver conv exec (Some m);
          Some (rest, sql) })"

text \<open>Emptying the table is the loop of HeapList; whatever the query gives is appended.\<close>

definition dl_reload :: "pg \<Rightarrow> dstate \<Rightarrow> dstate" where
  "dl_reload d S = S\<lparr>d_routes := snd (lamb_get_delivery d), d_sleeping := False\<rparr>"

definition dl_check_signal :: "redis \<Rightarrow> int \<Rightarrow> int \<times> string list" where
  "dl_check_signal rds i =
     (let get = ''HGET delivery.'' @ show_int i @ '' signal'';
          signal = (case rd_reply rds get of
                      Some (RString s) \<Rightarrow> (if 0 < length s then atoi (cstr s) else 0)
                    | _ \<Rightarrow> 0)
      in (signal, [get, ''HSET delivery.'' @ show_int i @ '' signal 0'']))"

definition dl_stat_loop :: "redis \<Rightarrow> pg \<Rightarrow> int \<Rightarrow> dstate \<Rightarrow> dstate" where
  "dl_stat_loop rds d i S =
     (if \<not> d_sleeping S \<and> fst (dl_check_signal rds i) = 1 then dl_reload d S else S)"

text \<open>The process at its start, with its routing table.\<close>

definition d_init :: "lamb_delivery_t list \<Rightarrow> dstate" where
  "d_init routes = \<lparr>d_pool = empty_pool, d_store = [], d_routes = routes, d_sleeping = False\<rparr>"

subsection \<open>Where a message goes\<close>

datatype dest = Nowhere | To_client int upmsg | To_storage lamb_deliver_t

definition destination :: "upcodec \<Rightarrow> pcre \<Rightarrow> lamb_delivery_t list \<Rightarrow> bytes option \<Rightarrow> dest" where
  "destination u pcre routes buf =
     (case classify buf of
        Short \<Rightarrow> Nowhere
      | Frame c body \<Rightarrow>
          (if c = LAMB_REPORT then
             (case unpack_report u body of
                None \<Rightarrow> Nowhere
              | Some p \<Rightarrow> To_client (rp_account p) (UpReport (report_store p)))
           else if c = LAMB_DELIVER then
             (case unpack_deliver u body of
                None \<Rightarrow> Nowhere
              | Some d \<Rightarrow>
                  (case phone_message d of
                     None \<Rightarrow> Nowhere
                   | Some m \<Rightarrow>
                       (let account = route_search pcre (ld_spcode m) (length (dl_spcode d)) routes
                        in if 0 < account then To_client account (UpDeliver m) else To_storage m)))
           else Nowhere))"

definition for_client :: "int \<Rightarrow> dest \<Rightarrow> upmsg list" where
  "for_client i d = (case d of To_client j m \<Rightarrow> (if j = i then [m] else []) | _ \<Rightarrow> [])"

definition for_storage :: "dest \<Rightarrow> lamb_deliver_t list" where
  "for_storage d = (case d of To_storage m \<Rightarrow> [m] | _ \<Rightarrow> [])"

lemma push_to_client_content:
  assumes "pool_inv P" and "rx_ok r"
  shows "pool_inv (push_to_client r i m P)"
    and "pool_content (push_to_client r i m P) = (pool_content P)(i := pool_content P i @ [m])"
    and "pool_find j P = Some k \<Longrightarrow> pool_find j (push_to_client r i m P) = Some k"
proof -
  have ok: "r_pk r" "r_frame r" "r_node r" using assms(2) by (simp_all add: rx_ok_def)
  obtain q P1 where q: "client_queue (r_pk r) (r_frame r) i P = (q, P1)" by fastforce
  note found = client_queue_found [OF assms(1) q]
  obtain k0 where k0: "q = Some k0" using client_queue_total q ok(1) by fastforce
  have push: "push_to_client r i m P = pool_push True k0 m P1"
    using q k0 ok by (simp add: push_to_client_def)
  show "pool_inv (push_to_client r i m P)" using found(1) by (simp add: push pool_inv_push)
  show "pool_content (push_to_client r i m P) = (pool_content P)(i := pool_content P i @ [m])"
    using pool_push_content [OF found(1,4)] ok k0 found(2) by (simp add: push)
  show "pool_find j P = Some k \<Longrightarrow> pool_find j (push_to_client r i m P) = Some k"
    using found(3) by (simp add: push)
qed

text \<open>
  One push turn: the message goes to its destination, at the end, and nothing else changes.
\<close>

lemma dl_push_turn:
  assumes "dl_push_loop u pcre r S = Some (S', stop)" and "rx_ok r" and "pool_inv (d_pool S)" and "\<not> d_sleeping S"
  shows "pool_inv (d_pool S')"
    and "pool_content (d_pool S') i = pool_content (d_pool S) i @ for_client i (destination u pcre (d_routes S) (r_buf r))"
    and "d_store S' = d_store S @ for_storage (destination u pcre (d_routes S) (r_buf r))"
    and "d_routes S' = d_routes S" and "\<not> d_sleeping S'"
    and "pool_find j (d_pool S) = Some k \<Longrightarrow> pool_find j (d_pool S') = Some k"
proof -
  have ok: "r_calloc r" "r_node r" using assms(2) by (simp_all add: rx_ok_def)
  note push = push_to_client_content [OF assms(3,2)]
  let ?P = "\<lambda>S' i j k. pool_inv (d_pool S') \<and>
     pool_content (d_pool S') i = pool_content (d_pool S) i @ for_client i (destination u pcre (d_routes S) (r_buf r)) \<and>
     d_store S' = d_store S @ for_storage (destination u pcre (d_routes S) (r_buf r)) \<and>
     d_routes S' = d_routes S \<and> \<not> d_sleeping S' \<and>
     (pool_find j (d_pool S) = Some k \<longrightarrow> pool_find j (d_pool S') = Some k)"
  have "?P S' i j k" for i j k
  proof (cases "classify (r_buf r)")
    case Short
    then show ?thesis using assms
      by (auto simp: dl_push_loop_def destination_def for_client_def for_storage_def)
  next
    case (Frame c body)
    consider "c = LAMB_REPORT" | "c = LAMB_DELIVER" | "c \<noteq> LAMB_REPORT" "c \<noteq> LAMB_DELIVER" by blast
    then show ?thesis
    proof cases
      case 1
      then show ?thesis using assms Frame ok push
        by (cases "unpack_report u body")
          (auto simp: dl_push_loop_def destination_def for_client_def for_storage_def)
    next
      case 2
      show ?thesis
      proof (cases "unpack_deliver u body")
        case None
        then show ?thesis using assms Frame 2
          by (auto simp: dl_push_loop_def destination_def for_client_def for_storage_def)
      next
        case (Some d)
        then obtain m where "phone_message d = Some m"
          using assms Frame 2 ok by (auto simp: dl_push_loop_def bind_eq_Some_conv)
        then show ?thesis using assms Frame 2 ok push Some
          by (auto simp: dl_push_loop_def destination_def for_client_def for_storage_def Let_def)
      qed
    next
      case 3
      then show ?thesis using assms Frame
        by (auto simp: dl_push_loop_def destination_def for_client_def for_storage_def)
    qed
  qed
  then show "pool_inv (d_pool S')"
    and "pool_content (d_pool S') i = pool_content (d_pool S) i @ for_client i (destination u pcre (d_routes S) (r_buf r))"
    and "d_store S' = d_store S @ for_storage (destination u pcre (d_routes S) (r_buf r))"
    and "d_routes S' = d_routes S" and "\<not> d_sleeping S'"
    and "pool_find j (d_pool S) = Some k \<Longrightarrow> pool_find j (d_pool S') = Some k" by blast+
qed

lemma dl_pull_mo: "rx_ok r \<Longrightarrow> dl_pull_loop u k r P = mo_pull_loop u k r P"
  by (auto simp: dl_pull_loop_def mo_pull_loop_def rx_ok_def split: frame.split option.split prod.split upmsg.split)

lemma dl_pull_turn:
  assumes "dl_pull_loop u k r P = Some (P', out, stop)" and "rx_ok r" and "pool_inv P" and "pool_find i P = Some k"
  shows "pool_inv P'" and "pool_find j P' = pool_find j P"
    and "map (mo_emit u) (pool_content P c) = handed c (map (Out i) out) @ map (mo_emit u) (pool_content P' c)"
proof -
  have "mo_pull_loop u k r P = Some (P', out, stop)" using assms(1) dl_pull_mo [OF assms(2)] by simp
  from mo.pull_law [OF this assms(2)]
  have "pool_inv P' \<and> pool_find j P' = pool_find j P \<and>
    map (mo_emit u) (pool_content P c) = handed c (map (Out i) out) @ map (mo_emit u) (pool_content P' c)"
  proof
    assume "P' = P \<and> (\<forall>f \<in> set out. CHECK_COMMAND f = LAMB_EMPTY)"
    then show ?thesis using assms(3) mo.handed_empty by auto
  next
    assume "\<exists>m. pool_pop k P = (Some m, P') \<and> out = [mo_emit u m]"
    then obtain m where m: "pool_pop k P = (Some m, P')" "out = [mo_emit u m]" by blast
    have "pool_content P i = m # pool_content P' i" "\<And>j. j \<noteq> i \<Longrightarrow> pool_content P' j = pool_content P j"
      using pool_pop_content [OF assms(3,4)] m(1) by (auto split: list.splits)
    moreover have "pool_inv P'" "pool_find j P' = pool_find j P"
      using pool_inv_pop [OF assms(3), of k] pool_find_pop [of j k P] m(1) by auto
    ultimately show ?thesis using m(2) mo.emit_law by auto
  qed
  then show "pool_inv P'" and "pool_find j P' = pool_find j P"
    and "map (mo_emit u) (pool_content P c) = handed c (map (Out i) out) @ map (mo_emit u) (pool_content P' c)"
    by blast+
qed

definition example_gate :: upcodec where
  "example_gate = example_up\<lparr>unpack_deliver := (\<lambda>b. if length b \<le> 160 then Some \<lparr>dl_id = 9, dl_account = 3, dl_company = 4,
     dl_phone = ''13800000000'', dl_spcode = ''10690001'', dl_serviceid = ''svc'', dl_msgfmt = 11,
     dl_length = int (length b), dl_content = b\<rparr> else None)\<rparr>"

definition example_route :: "int \<Rightarrow> lamb_delivery_t" where
  "example_route t = \<lparr>dv_id = 1, dv_rexp = ''^1069'', dv_target = t\<rparr>"

text \<open>
  A message from a phone reaches its client or storage without the account it was routed
  to and without its company and service id: the queued copy has account 0, company 0 and an
  empty service id whatever the gateway sent.
\<close>

theorem phone_message_loses_routing:
  assumes "dl_push_loop u pcre r S = Some (S', stop)" and "rx_ok r" and "pool_inv (d_pool S)" and "\<not> d_sleeping S"
    and "r_buf r = Some (htonl LAMB_DELIVER @ body)" and "unpack_deliver u body = Some d"
  shows "\<exists>m. ld_account m = 0 \<and> ld_company m = 0 \<and> ld_serviceid m = [] \<and> ld_id m = dl_id d \<and>
     (d_store S' = d_store S @ [m] \<or>
      (\<exists>i. pool_content (d_pool S') i = pool_content (d_pool S) i @ [UpDeliver m]))"
proof -
  have "r_calloc r" using assms(2) by (simp add: rx_ok_def)
  then obtain m where m: "phone_message d = Some m"
    using assms(1,4-6) by (auto simp: dl_push_loop_def bind_eq_Some_conv)
  then have fields: "ld_account m = 0" "ld_company m = 0" "ld_serviceid m = []" "ld_id m = dl_id d"
    by (auto simp: phone_message_def bind_eq_Some_conv)
  let ?a = "route_search pcre (ld_spcode m) (length (dl_spcode d)) (d_routes S)"
  have "destination u pcre (d_routes S) (r_buf r) = (if 0 < ?a then To_client ?a (UpDeliver m) else To_storage m)"
    using assms(5,6) m by (simp add: destination_def Let_def)
  with dl_push_turn(2,3) [OF assms(1-4)] fields show ?thesis
    by (cases "0 < ?a") (auto simp: for_client_def for_storage_def)
qed

lemma phone_message_loses_routing_witness:
  "\<exists>S'. dl_push_loop example_gate (\<lambda>p s n. False) (example_rx (htonl LAMB_DELIVER @ ''hi'')) (d_init [example_route 7])
      = Some (S', False) \<and>
     (\<exists>m. ld_serviceid m = [] \<and> (d_store S' = [m] \<or> (\<exists>i. pool_content (d_pool S') i = [UpDeliver m])))"
proof -
  let ?r = "example_rx (htonl LAMB_DELIVER @ ''hi'')" and ?S = "d_init [example_route 7]"
  obtain S' where s: "dl_push_loop example_gate (\<lambda>p s n. False) ?r ?S = Some (S', False)"
    by (simp add: dl_push_loop_def d_init_def example_gate_def phone_message_def memcpy_z_def Let_def example_rx_def)
  have "pool_inv (d_pool ?S)" "\<not> d_sleeping ?S" by (simp_all add: d_init_def pool_inv_empty)
  note t = phone_message_loses_routing [OF s rx_ok_example this r_buf_example]
  have "unpack_deliver example_gate ''hi'' = Some \<lparr>dl_id = 9, dl_account = 3, dl_company = 4,
     dl_phone = ''13800000000'', dl_spcode = ''10690001'', dl_serviceid = ''svc'', dl_msgfmt = 11,
     dl_length = 2, dl_content = ''hi''\<rparr>" by (simp add: example_gate_def)
  from t [OF this] s show ?thesis by (auto simp: d_init_def pool_inv_empty)
qed

subsection \<open>The port search ends\<close>

lemma dl_bind_loop_search:
  assumes "\<forall>t p. 0 < e_bind e t fd (server_addr listen p) \<longleftrightarrow> free p"
    and "free (p + of_nat n)" and "\<forall>k < n. \<not> free (p + of_nat k)"
  shows "\<exists>s'. dl_bind_loop e listen fd p s = Some (p + of_nat n, s') \<and> nsocks s' = nsocks s"
  using assms(2,3)
proof (induction n arbitrary: p s)
  case 0
  then show ?case using assms(1) by (subst dl_bind_loop.simps) simp
next
  case (Suc n)
  have "\<not> free p" using Suc.prems(2) [rule_format, of 0] by simp
  moreover have "free (p + 1 + of_nat n)" "\<forall>k < n. \<not> free (p + 1 + of_nat k)"
    using Suc.prems(1) Suc.prems(2) [rule_format, of "Suc k" for k] by (auto simp: ac_simps)
  ultimately show ?case using Suc.IH [of "p + 1" "tick s"] assms(1)
    by (subst dl_bind_loop.simps) (simp add: ac_simps)
qed

text \<open>
  Both searches for a child port return when some port is free, with the first free one in
  cyclic order from the start, and with exactly one more socket open; when no port is free the
  search of the brokers never returns.
\<close>

theorem child_server_first_free:
  assumes "answers_ports e host proto free"
    and "\<forall>t fd p. 0 \<le> e_bind e t fd (server_addr host p) \<longleftrightarrow> 0 < e_bind e t fd (server_addr host p)"
  shows "if \<exists>p. free p
     then \<exists>n. free (port + of_nat n) \<and> (\<forall>k < n. \<not> free (port + of_nat k)) \<and>
       (\<exists>fd s'. lamb_child_server e host port proto s = Some (fd, port + of_nat n, s') \<and> nsocks s' = fd # nsocks s) \<and>
       (\<exists>fd s'. dl_child_server e host port proto s = Some (0, Some (fd, port + of_nat n), s') \<and> nsocks s' = fd # nsocks s)
     else lamb_child_server e host port proto s = None"
proof (cases "\<exists>p. free p")
  let ?n = "LEAST n. free (port + of_nat n)"
  case True
  then obtain p where "free p" by blast
  moreover have "port + of_nat (unat (p - port)) = p" by simp
  ultimately have "\<exists>n. free (port + of_nat n)" by metis
  then have n: "free (port + of_nat ?n)" "\<forall>k < ?n. \<not> free (port + of_nat k)"
    using LeastI_ex [of "\<lambda>n. free (port + of_nat n)"] not_less_Least [of _ "\<lambda>n. free (port + of_nat n)"]
    by blast+
  obtain fd where fd: "nn_socket e proto s = (fd, (tick s)\<lparr>nsocks := fd # nsocks s\<rparr>)" "0 \<le> fd"
    using assms(1) by (auto simp: answers_ports_def nn_socket_def Let_def not_less)
  have "\<forall>t p. 0 < e_bind e t fd (server_addr host p) \<longleftrightarrow> free p"
    using assms by (auto simp: answers_ports_def)
  from dl_bind_loop_search [OF this n, of "(tick s)\<lparr>nsocks := fd # nsocks s\<rparr>"] fd
  have "\<exists>fd s'. dl_child_server e host port proto s = Some (0, Some (fd, port + of_nat ?n), s') \<and> nsocks s' = fd # nsocks s"
    by (auto simp: dl_child_server_def)
  with lamb_child_server_search [OF assms(1) n] n True show ?thesis by auto
next
  case False
  then have "lamb_child_server e host port proto s = None"
    using lamb_child_server_none [OF assms(1)] by blast
  with False show ?thesis by simp
qed

definition ports_env :: nnenv where
  "ports_env = example_env\<lparr>e_socket := (\<lambda>t p. 4),
     e_bind := (\<lambda>t fd a. if a = server_addr ''127.0.0.1'' 6003 then 1 else -1)\<rparr>"

lemma child_server_first_free_witness:
  "\<exists>n fd s'. dl_child_server ports_env ''127.0.0.1'' 6001 NN_REP \<lparr>ntick = 0, nsocks = [], nopts = [], nsent = []\<rparr>
     = Some (0, Some (fd, 6001 + of_nat n), s') \<and> nsocks s' = [fd]"
proof -
  let ?free = "\<lambda>p. server_addr ''127.0.0.1'' p = server_addr ''127.0.0.1'' 6003"
  have "answers_ports ports_env ''127.0.0.1'' NN_REP ?free"
    by (simp add: answers_ports_def ports_env_def)
  moreover have "\<forall>t fd p. 0 \<le> e_bind ports_env t fd (server_addr ''127.0.0.1'' p) \<longleftrightarrow>
      0 < e_bind ports_env t fd (server_addr ''127.0.0.1'' p)"
    by (simp add: ports_env_def)
  ultimately show ?thesis
    using child_server_first_free [of ports_env "''127.0.0.1''" NN_REP ?free 6001
        "\<lparr>ntick = 0, nsocks = [], nopts = [], nsent = []\<rparr>"] by (auto split: if_splits)
qed

subsection \<open>Requests\<close>

record dserver =
  ds_state :: dstate
  ds_net :: nnet
  ds_resp :: Response
  ds_pulls :: "(int \<times> nat) list"

text \<open>
  The start of a session thread: its socket, the address for the answer, the limit for receiving.
  That of a pull session finds or makes its queue first (in two operations, which DeliveryThreads
  takes apart); a push session has none.
\<close>

definition dl_bind :: "nnenv \<Rightarrow> bconf \<Rightarrow> int \<Rightarrow> Request \<Rightarrow> nat option \<Rightarrow> dserver \<Rightarrow> bool \<times> dserver" where
  "dl_bind e c protocol req q D =
     (case dl_child_server e (bc_listen c) (word_of_int (bc_port c + 1)) protocol (ds_net D) of
        Some (rc, Some (fd, port), s) \<Rightarrow>
          (True, D\<lparr>ds_net := nn_setsockopt fd (bc_timeout c) s,
             ds_resp := \<lparr>resp_id = req_id req,
               resp_host = snprintf_z 128 (''tcp://'' @ bc_listen c @ '':'' @ show_nat (unat port))\<rparr>,
             ds_pulls := (case q of None \<Rightarrow> ds_pulls D | Some k \<Rightarrow> ds_pulls D @ [(req_id req, k)])\<rparr>)
      | Some (rc, None, s) \<Rightarrow> (True, D\<lparr>ds_net := s\<rparr>)
      | None \<Rightarrow> (False, D))"

definition dl_push_start :: "nnenv \<Rightarrow> bconf \<Rightarrow> Request \<Rightarrow> dserver \<Rightarrow> bool \<times> dserver" where
  "dl_push_start e c req D = dl_bind e c NN_PAIR req None D"

definition dl_pull_start :: "nnenv \<Rightarrow> bconf \<Rightarrow> Request \<Rightarrow> rx \<Rightarrow> dserver \<Rightarrow> bool \<times> dserver" where
  "dl_pull_start e c req r D =
     (let (q, P) = client_queue (r_calloc r) (r_node r) (req_id req) (d_pool (ds_state D));
          D1 = D\<lparr>ds_state := (ds_state D)\<lparr>d_pool := P\<rparr>\<rparr>
      in if q = None then (False, D1) else dl_bind e c NN_REP req q D1)"

definition dl_open :: "nnenv \<Rightarrow> bconf \<Rightarrow> Request \<Rightarrow> rx \<Rightarrow> dserver \<Rightarrow> bool \<times> dserver" where
  "dl_open e c req r D =
     (if req_type req = LAMB_PULL then dl_pull_start e c req r D else dl_push_start e c req D)"

text \<open>
  As in Scheduler a request is one turn. A session that cannot open its socket signals all the
  same, so that the request is answered with the response of the session before.
\<close>

definition dl_event_loop ::
  "nnenv \<Rightarrow> (bytes \<Rightarrow> Request option) \<Rightarrow> (Response \<Rightarrow> bytes) \<Rightarrow> bconf \<Rightarrow> int \<Rightarrow> rx \<Rightarrow> dserver \<Rightarrow> dserver" where
  "dl_event_loop e unpack pack c lfd r D =
     (case classify (r_buf r) of
        Short \<Rightarrow> D
      | Frame cmd body \<Rightarrow>
          (if cmd \<noteq> LAMB_REQUEST then D
           else case unpack body of
                  None \<Rightarrow> D
                | Some req \<Rightarrow>
                    (if req_id req < 1 then D
                     else if req_type req \<noteq> LAMB_PULL \<and> req_type req \<noteq> LAMB_PUSH then D
                     else let (signalled, D1) = dl_open e c req r D
                          in if \<not> signalled \<or> r_timedout r \<or> \<not> r_pk r then D1
                             else case lamb_pack_assembly (r_frame r) LAMB_RESPONSE (Some (pack (ds_resp D1))) of
                                    None \<Rightarrow> D1
                                  | Some buf \<Rightarrow> D1\<lparr>ds_net := snd (nn_send e lfd buf (ds_net D1))\<rparr>)))"

end
