(* ===== verification/DeliveryThreads.thy ===== *)
theory DeliveryThreads
  imports Delivery
begin

text \<open>
  The delivery process (\<open>src/src/delivery.c\<close>) at the granularity of its threads. A gateway's
  session looks for the queue of an account, makes it if there is none, and pushes; a client's
  session looks for its queue and makes it in the same way when it starts. Each operation on a list
  is one step, for the list has a lock, but looking for a queue and adding a new one are two.

  The process loses nothing as long as no two threads make a queue for the same account at once;
  when two do, a message in the later queue reaches no client.
\<close>

subsection \<open>The threads\<close>

text \<open>
  Where the session of a gateway is: waiting for a frame, about to look for the queue of an account
  (with the message for it), about to make one, about to push into the queue it has, about to
  append to storage. Where that of a client is: about to look for its queue, about to make it,
  serving it.
\<close>

datatype dthread =
    Resting
  | Seeking int upmsg
  | Adding int upmsg
  | Putting int nat upmsg
  | Storing lamb_deliver_t
  | Joining int
  | Creating int
  | Drawing int nat
  | Gone

record dthreads =
  dt_main :: dstate
  dt_threads :: "dthread list"

definition dl_receive :: "upcodec \<Rightarrow> pcre \<Rightarrow> rx \<Rightarrow> dstate \<Rightarrow> dthread option" where
  "dl_receive u pcre r S =
     (case classify (r_buf r) of
        Short \<Rightarrow> Some (if idle_stop r then Gone else Resting)
      | Frame c body \<Rightarrow>
          (if c = LAMB_REPORT then
             (case unpack_report u body of
                None \<Rightarrow> Some Resting
              | Some p \<Rightarrow> Some (Seeking (rp_account p) (UpReport (report_store p))))
           else if c = LAMB_DELIVER then
             (case unpack_deliver u body of
                None \<Rightarrow> Some Resting
              | Some d \<Rightarrow>
                  (if \<not> r_calloc r then Some Resting
                   else do {
                     deliver \<leftarrow> phone_message d;
                     let account = route_search pcre (ld_spcode deliver) (length (dl_spcode d)) (d_routes S);
                     Some (if 0 < account then Seeking account (UpDeliver deliver) else Storing deliver) }))
           else Some (if c = LAMB_BYE then Gone else Resting)))"

text \<open>
  The next operation of a thread, with what memory it gets for a queue, its node, and the message
  and its node: the thread after it, the state, and what was queued or stored.
\<close>

definition dl_next :: "bool \<Rightarrow> bool \<Rightarrow> bool \<Rightarrow> dthread \<Rightarrow> dstate \<Rightarrow> dthread \<times> dstate \<times> dest list" where
  "dl_next qmem nmem mem t S =
     (case t of
        Seeking a m \<Rightarrow> (case pool_find a (d_pool S) of None \<Rightarrow> Adding a m | Some k \<Rightarrow> Putting a k m, S, [])
      | Adding a m \<Rightarrow>
          (let (q, P) = pool_create qmem nmem a (d_pool S)
           in (case q of None \<Rightarrow> Resting | Some k \<Rightarrow> Putting a k m, S\<lparr>d_pool := P\<rparr>, []))
      | Putting a k m \<Rightarrow> (Resting, S\<lparr>d_pool := pool_push mem k m (d_pool S)\<rparr>, if mem then [To_client a m] else [])
      | Storing m \<Rightarrow>
          (Resting, if mem then S\<lparr>d_store := d_store S @ [m]\<rparr> else S, if mem then [To_storage m] else [])
      | Joining i \<Rightarrow> (case pool_find i (d_pool S) of None \<Rightarrow> Creating i | Some k \<Rightarrow> Drawing i k, S, [])
      | Creating i \<Rightarrow>
          (let (q, P) = pool_create qmem nmem i (d_pool S)
           in (case q of None \<Rightarrow> Gone | Some k \<Rightarrow> Drawing i k, S\<lparr>d_pool := P\<rparr>, []))
      | _ \<Rightarrow> (t, S, []))"

text \<open>
  What can happen: a session for a gateway or for a client starts; session \<open>j\<close> receives a frame from
  its gateway, goes on by an operation, or makes a turn for its client. What is observed of it: the
  frames from the gateways, what is queued or stored and by which session, the frames to the clients.
\<close>

datatype daction = Gate | Client int | Get nat rx | Go nat bool bool bool | Ask nat rx

datatype dnote = Arrived nat "bytes option" | Queued nat dest | Given int bytes

definition dl_act :: "upcodec \<Rightarrow> pcre \<Rightarrow> daction \<Rightarrow> dthreads \<Rightarrow> (dthreads \<times> dnote list) option" where
  "dl_act u pcre a S =
     (case a of
        Gate \<Rightarrow> Some (S\<lparr>dt_threads := dt_threads S @ [Resting]\<rparr>, [])
      | Client i \<Rightarrow> Some (S\<lparr>dt_threads := dt_threads S @ [Joining i]\<rparr>, [])
      | Get j r \<Rightarrow>
          (if j < length (dt_threads S) \<and> dt_threads S ! j = Resting \<and> \<not> d_sleeping (dt_main S)
           then do {
             t \<leftarrow> dl_receive u pcre r (dt_main S);
             Some (S\<lparr>dt_threads := (dt_threads S)[j := t]\<rparr>, [Arrived j (r_buf r)]) }
           else None)
      | Go j qmem nmem mem \<Rightarrow>
          (if j < length (dt_threads S)
           then (let (t, D, out) = dl_next qmem nmem mem (dt_threads S ! j) (dt_main S)
                 in Some (\<lparr>dt_main = D, dt_threads = (dt_threads S)[j := t]\<rparr>, map (Queued j) out))
           else None)
      | Ask j r \<Rightarrow>
          (if j < length (dt_threads S)
           then (case dt_threads S ! j of
                   Drawing i k \<Rightarrow> do {
                     (P, out, stop) \<leftarrow> dl_pull_loop u k r (d_pool (dt_main S));
                     Some (\<lparr>dt_main = (dt_main S)\<lparr>d_pool := P\<rparr>,
                            dt_threads = (dt_threads S)[j := (if stop then Gone else Drawing i k)]\<rparr>, map (Given i) out) }
                 | _ \<Rightarrow> None)
           else None))"

text \<open>A run in which every state is in \<open>good\<close>.\<close>

primrec dl_steps ::
  "upcodec \<Rightarrow> pcre \<Rightarrow> (dthreads \<Rightarrow> bool) \<Rightarrow> daction list \<Rightarrow> dthreads \<Rightarrow> (dthreads \<times> dnote list) option" where
  "dl_steps u pcre good [] S = Some (S, [])"
| "dl_steps u pcre good (a # as) S = do {
     (S1, x) \<leftarrow> dl_act u pcre a S;
     if good S1 then do { (S2, y) \<leftarrow> dl_steps u pcre good as S1; Some (S2, x @ y) } else None }"

definition dt_init :: "lamb_delivery_t list \<Rightarrow> dthreads" where
  "dt_init routes = \<lparr>dt_main = d_init routes, dt_threads = []\<rparr>"

subsection \<open>A session left alone\<close>

lemma dl_steps_append:
  "dl_steps u pcre good as S = Some (S1, x) \<Longrightarrow> dl_steps u pcre good bs S1 = Some (S2, y) \<Longrightarrow>
   dl_steps u pcre good (as @ bs) S = Some (S2, x @ y)"
  by (induction as arbitrary: S x) (auto simp: bind_eq_Some_conv split: if_splits)

lemma seek_steps:
  assumes "j < length (dt_threads S)" and "dt_threads S ! j = Seeking a m"
  shows "\<exists>n tr. dl_steps u pcre (\<lambda>S. True) (replicate n (Go j qmem nmem mem)) S =
     Some (\<lparr>dt_main = (dt_main S)\<lparr>d_pool := (case client_queue qmem nmem a (d_pool (dt_main S)) of
         (None, P) \<Rightarrow> P | (Some k, P) \<Rightarrow> pool_push mem k m P)\<rparr>, dt_threads = (dt_threads S)[j := Resting]\<rparr>, tr)"
proof (cases "pool_find a (d_pool (dt_main S))")
  case (Some k)
  then show ?thesis using assms
    by (intro exI [of _ 2]) (auto simp: numeral_2_eq_2 dl_act_def dl_next_def client_queue_def)
next
  case None
  obtain q P where c: "pool_create qmem nmem a (d_pool (dt_main S)) = (q, P)" by fastforce
  show ?thesis
  proof (cases q)
    case None
    then show ?thesis using assms \<open>pool_find a _ = None\<close> c
      by (intro exI [of _ 2]) (auto simp: numeral_2_eq_2 dl_act_def dl_next_def client_queue_def)
  next
    case (Some k)
    then show ?thesis using assms \<open>pool_find a _ = None\<close> c
      by (intro exI [of _ 3]) (auto simp: numeral_3_eq_3 dl_act_def dl_next_def client_queue_def)
  qed
qed

text \<open>
  The turn of a gateway's session (\<open>dl_push_loop\<close> of Delivery) is what its thread does when no other
  comes in between: it receives, and goes on until it waits again or has ended.
\<close>

theorem dl_turn_steps:
  assumes turn: "dl_push_loop u pcre r (dt_main S) = Some (D, stop)" and "\<not> d_sleeping (dt_main S)"
    and j: "j < length (dt_threads S)" "dt_threads S ! j = Resting"
  shows "\<exists>n mem tr. dl_steps u pcre (\<lambda>S. True) (Get j r # replicate n (Go j (r_pk r) (r_frame r) mem)) S =
     Some (\<lparr>dt_main = D, dt_threads = (dt_threads S)[j := if stop then Gone else Resting]\<rparr>, tr)"
proof -
  have quiet: ?thesis if "dl_receive u pcre r (dt_main S) = Some (if stop then Gone else Resting)" "D = dt_main S"
    using that assms(2-4) by (intro exI [of _ 0]) (auto simp: dl_act_def)
  have seek: ?thesis if get: "dl_receive u pcre r (dt_main S) = Some (Seeking a m)" "\<not> stop"
      and D: "D = (dt_main S)\<lparr>d_pool := (case client_queue (r_pk r) (r_frame r) a (d_pool (dt_main S)) of
         (None, P) \<Rightarrow> P | (Some k, P) \<Rightarrow> pool_push mem k m P)\<rparr>" for a m mem
  proof -
    let ?S = "S\<lparr>dt_threads := (dt_threads S)[j := Seeking a m]\<rparr>"
    obtain n tr where "dl_steps u pcre (\<lambda>S. True) (replicate n (Go j (r_pk r) (r_frame r) mem)) ?S =
        Some (\<lparr>dt_main = D, dt_threads = (dt_threads S)[j := Resting]\<rparr>, tr)"
      using seek_steps [of j ?S a m u pcre "r_pk r" "r_frame r" mem] j D by auto
    then show ?thesis using get assms(2) j by (intro exI [of _ n] exI [of _ mem]) (simp add: dl_act_def)
  qed
  show ?thesis
  proof (cases "classify (r_buf r)")
    case Short
    then show ?thesis using turn assms(2) by (intro quiet) (auto simp: dl_push_loop_def dl_receive_def)
  next
    case (Frame c body)
    consider (report) p where "c = LAMB_REPORT" "unpack_report u body = Some p"
      | (phone) d where "c = LAMB_DELIVER" "unpack_deliver u body = Some d" "r_calloc r"
      | (other) "c = LAMB_REPORT \<and> unpack_report u body = None \<or>
          c = LAMB_DELIVER \<and> (unpack_deliver u body = None \<or> \<not> r_calloc r) \<or> c \<noteq> LAMB_REPORT \<and> c \<noteq> LAMB_DELIVER"
      by (cases "unpack_report u body"; cases "unpack_deliver u body") auto
    then show ?thesis
    proof cases
      case report
      then show ?thesis using turn assms(2) Frame
        by (intro seek [of "rp_account p" "UpReport (report_store p)" "r_calloc r \<and> r_node r"])
          (auto simp: dl_push_loop_def dl_receive_def push_to_client_def pool_push_def split: prod.split option.split)
    next
      case phone
      then obtain m where m: "phone_message d = Some m"
        using turn assms(2) Frame by (auto simp: dl_push_loop_def bind_eq_Some_conv)
      let ?a = "route_search pcre (ld_spcode m) (length (dl_spcode d)) (d_routes (dt_main S))"
      show ?thesis
      proof (cases "0 < ?a")
        case True
        then show ?thesis using turn assms(2) Frame phone m
          by (intro seek [of ?a "UpDeliver m" "r_node r"])
            (auto simp: dl_push_loop_def dl_receive_def push_to_client_def split: prod.split option.split)
      next
        case False
        then show ?thesis using turn assms(2) Frame phone m j
          by (intro exI [of _ 1] exI [of _ "r_node r"])
            (auto simp: dl_push_loop_def dl_receive_def dl_act_def dl_next_def)
      qed
    next
      case other
      then show ?thesis using turn assms(2) Frame
        by (intro quiet) (auto simp: dl_push_loop_def dl_receive_def commands split: option.splits)
    qed
  qed
qed

subsection \<open>What was queued, handed over, and is on its way\<close>

definition queued :: "dnote list \<Rightarrow> dest list" where
  "queued tr = concat (map (\<lambda>x. case x of Queued j d \<Rightarrow> [d] | _ \<Rightarrow> []) tr)"

definition queued_by :: "nat \<Rightarrow> dnote list \<Rightarrow> dest list" where
  "queued_by i tr = concat (map (\<lambda>x. case x of Queued j d \<Rightarrow> (if j = i then [d] else []) | _ \<Rightarrow> []) tr)"

definition given :: "dnote list \<Rightarrow> wire list" where
  "given tr = concat (map (\<lambda>x. case x of Given i f \<Rightarrow> [Out i f] | _ \<Rightarrow> []) tr)"

definition bound_for :: "dest \<Rightarrow> dest list" where
  "bound_for d = (if d = Nowhere then [] else [d])"

text \<open>Where the frames of gateway session \<open>i\<close> belong, in the order they arrived.\<close>

definition arrivals :: "upcodec \<Rightarrow> pcre \<Rightarrow> lamb_delivery_t list \<Rightarrow> nat \<Rightarrow> dnote list \<Rightarrow> dest list" where
  "arrivals u pcre routes i tr =
     concat (map (\<lambda>x. case x of Arrived j b \<Rightarrow> (if j = i then bound_for (destination u pcre routes b) else []) | _ \<Rightarrow> []) tr)"

definition in_flight :: "dthread \<Rightarrow> dest list" where
  "in_flight t = (case t of Seeking a m \<Rightarrow> [To_client a m] | Adding a m \<Rightarrow> [To_client a m]
     | Putting a k m \<Rightarrow> [To_client a m] | Storing m \<Rightarrow> [To_storage m] | _ \<Rightarrow> [])"

definition flight :: "dthreads \<Rightarrow> nat \<Rightarrow> dest list" where
  "flight S j = (if j < length (dt_threads S) then in_flight (dt_threads S ! j) else [])"

lemma note_simps [simp]:
  "queued [] = []" "queued_by i [] = []" "given [] = []" "arrivals u pcre routes i [] = []"
  "queued (x @ y) = queued x @ queued y" "queued_by i (x @ y) = queued_by i x @ queued_by i y"
  "given (x @ y) = given x @ given y"
  "arrivals u pcre routes i (x @ y) = arrivals u pcre routes i x @ arrivals u pcre routes i y"
  by (simp_all add: queued_def queued_by_def given_def arrivals_def)

lemma note_maps [simp]:
  "queued (map (Queued j) ds) = ds" "queued_by i (map (Queued j) ds) = (if j = i then ds else [])"
  "given (map (Queued j) ds) = []" "arrivals u pcre routes i (map (Queued j) ds) = []"
  "queued (map (Given c) out) = []" "queued_by i (map (Given c) out) = []"
  "given (map (Given c) out) = map (Out c) out" "arrivals u pcre routes i (map (Given c) out) = []"
  by (induction ds, simp_all add: queued_def queued_by_def given_def arrivals_def)
     (induction out, simp_all)+

subsection \<open>No two threads make the queue of one account\<close>

definition making :: "dthread \<Rightarrow> int option" where
  "making t = (case t of Adding a m \<Rightarrow> Some a | Creating a \<Rightarrow> Some a | _ \<Rightarrow> None)"

definition apart :: "dthreads \<Rightarrow> bool" where
  "apart S \<longleftrightarrow> (let ts = dt_threads S in
     \<forall>j < length ts. \<forall>k < length ts. j \<noteq> k \<and> making (ts ! j) \<noteq> None \<longrightarrow> making (ts ! j) \<noteq> making (ts ! k))"

text \<open>Memory suffices.\<close>

definition plenty :: "daction \<Rightarrow> bool" where
  "plenty a = (case a of Get j r \<Rightarrow> rx_ok r | Go j qmem nmem mem \<Rightarrow> qmem \<and> nmem \<and> mem | Ask j r \<Rightarrow> rx_ok r | _ \<Rightarrow> True)"

definition thread_ok :: "upmsg pool \<Rightarrow> dthread \<Rightarrow> bool" where
  "thread_ok P t = (case t of Adding a m \<Rightarrow> pool_find a P = None | Creating a \<Rightarrow> pool_find a P = None
     | Putting a k m \<Rightarrow> pool_find a P = Some k | Drawing i k \<Rightarrow> pool_find i P = Some k | _ \<Rightarrow> True)"

definition dt_inv :: "lamb_delivery_t list \<Rightarrow> dthreads \<Rightarrow> bool" where
  "dt_inv routes S \<longleftrightarrow> pool_inv (d_pool (dt_main S)) \<and> d_routes (dt_main S) = routes \<and> apart S \<and>
     list_all (thread_ok (d_pool (dt_main S))) (dt_threads S)"

lemma dl_next_pool:
  assumes "dl_next True True True t D = (t', D', out)" and "thread_ok (d_pool D) t" and "pool_inv (d_pool D)"
  shows "pool_inv (d_pool D') \<and> thread_ok (d_pool D') t' \<and>
    pool_find a (d_pool D') = (if pool_find a (d_pool D) = None \<and> making t = Some a then pool_find a (d_pool D') else pool_find a (d_pool D))"
proof -
  have make: "pool_inv P \<and> pool_find b P = Some k \<and>
      pool_find a P = (if pool_find a (d_pool D) = None \<and> a = b then pool_find a P else pool_find a (d_pool D))"
    if "pool_find b (d_pool D) = None" "pool_create True True b (d_pool D) = (Some k, P)" for b k P
    using pool_find_create [OF assms(3) that] that(1) by auto
  show ?thesis
  proof (cases t)
    case (Adding b m)
    then obtain k P where c: "pool_create True True b (d_pool D) = (Some k, P)" by (auto simp: pool_create_def Let_def)
    with make [OF _ c] assms(1,2) Adding show ?thesis by (auto simp: dl_next_def thread_ok_def making_def)
  next
    case (Creating b)
    then obtain k P where c: "pool_create True True b (d_pool D) = (Some k, P)" by (auto simp: pool_create_def Let_def)
    with make [OF _ c] assms(1,2) Creating show ?thesis by (auto simp: dl_next_def thread_ok_def making_def)
  qed (use assms in \<open>auto simp: dl_next_def thread_ok_def making_def pool_inv_push split: option.splits\<close>)
qed

lemma dl_next_content:
  assumes "dl_next True True True t D = (t', D', out)" and "thread_ok (d_pool D) t" and "pool_inv (d_pool D)"
  shows "pool_content (d_pool D') c = pool_content (d_pool D) c @ concat (map (for_client c) out) \<and>
    d_store D' = d_store D @ concat (map for_storage out) \<and> d_routes D' = d_routes D \<and> in_flight t = out @ in_flight t'"
proof (cases t)
  case (Adding b m)
  then obtain k P where k: "pool_create True True b (d_pool D) = (Some k, P)" by (auto simp: pool_create_def Let_def)
  then have "pool_content P = pool_content (d_pool D)"
    using pool_find_create(3) [OF assms(3) _ k] assms(2) Adding by (simp add: thread_ok_def)
  then show ?thesis using assms(1) Adding k by (auto simp: dl_next_def in_flight_def)
next
  case (Creating b)
  then obtain k P where k: "pool_create True True b (d_pool D) = (Some k, P)" by (auto simp: pool_create_def Let_def)
  then have "pool_content P = pool_content (d_pool D)"
    using pool_find_create(3) [OF assms(3) _ k] assms(2) Creating by (simp add: thread_ok_def)
  then show ?thesis using assms(1) Creating k by (auto simp: dl_next_def in_flight_def)
next
  case (Putting b k m)
  then have "pool_content (pool_push True k m (d_pool D)) = (pool_content (d_pool D))(b := pool_content (d_pool D) b @ [m])"
    using pool_push_content [OF assms(3)] assms(2) by (simp add: thread_ok_def)
  then show ?thesis using assms(1) Putting by (auto simp: dl_next_def in_flight_def for_client_def for_storage_def)
qed (use assms(1) in \<open>auto simp: dl_next_def in_flight_def for_client_def for_storage_def split: option.splits\<close>)

lemma dl_receive_law:
  assumes "dl_receive u pcre r D = Some t" and "rx_ok r"
  shows "in_flight t = bound_for (destination u pcre (d_routes D) (r_buf r)) \<and> thread_ok P t"
proof -
  have "r_calloc r" using assms(2) by (simp add: rx_ok_def)
  then show ?thesis using assms(1)
    by (auto simp: dl_receive_def destination_def in_flight_def bound_for_def thread_ok_def bind_eq_Some_conv Let_def
      split: frame.splits if_splits option.splits)
qed

lemma threads_keep:
  assumes "list_all (thread_ok P) (dt_threads S)" and "apart S" and j: "j < length (dt_threads S)"
    and new: "\<And>a. pool_find a P' =
      (if pool_find a P = None \<and> making (dt_threads S ! j) = Some a then pool_find a P' else pool_find a P)"
    and t: "thread_ok P' t"
  shows "list_all (thread_ok P') ((dt_threads S)[j := t])"
proof -
  have "thread_ok P' (dt_threads S ! k)" if k: "k < length (dt_threads S)" "k \<noteq> j" for k
  proof -
    have ok: "thread_ok P (dt_threads S ! k)" using assms(1) k(1) by (simp add: list_all_length)
    have "making (dt_threads S ! j) \<noteq> making (dt_threads S ! k)" if "making (dt_threads S ! j) \<noteq> None"
      using assms(2) j k that unfolding apart_def Let_def by metis
    then have other: "pool_find a P' = pool_find a P" if "making (dt_threads S ! k) = Some a" for a
      using new [of a] that by (auto split: if_splits)
    have found: "pool_find a P' = Some i" if "pool_find a P = Some i" for a i
      using new [of a] that by simp
    show ?thesis using ok other found
      by (cases "dt_threads S ! k") (auto simp: thread_ok_def making_def)
  qed
  then show ?thesis using t unfolding list_all_length by (metis length_list_update nth_list_update_eq nth_list_update_neq)
qed

lemma dt_go:
  assumes inv: "dt_inv routes S" and j: "j < length (dt_threads S)"
    and step: "dl_next True True True (dt_threads S ! j) (dt_main S) = (t, D, out)"
    and apart: "apart \<lparr>dt_main = D, dt_threads = (dt_threads S)[j := t]\<rparr>"
  shows "dt_inv routes \<lparr>dt_main = D, dt_threads = (dt_threads S)[j := t]\<rparr> \<and>
    pool_content (d_pool D) c = pool_content (d_pool (dt_main S)) c @ concat (map (for_client c) out) \<and>
    d_store D = d_store (dt_main S) @ concat (map for_storage out) \<and> in_flight (dt_threads S ! j) = out @ in_flight t"
proof -
  have ok: "thread_ok (d_pool (dt_main S)) (dt_threads S ! j)" "pool_inv (d_pool (dt_main S))"
    using inv j by (simp_all add: dt_inv_def list_all_length)
  note p = dl_next_pool [OF step ok] and q = dl_next_content [OF step ok, of c]
  have "list_all (thread_ok (d_pool D)) ((dt_threads S)[j := t])"
  proof (rule threads_keep [OF _ _ j])
    show "list_all (thread_ok (d_pool (dt_main S))) (dt_threads S)" "apart S" using inv by (simp_all add: dt_inv_def)
    show "thread_ok (d_pool D) t" using p by blast
    show "pool_find a (d_pool D) = (if pool_find a (d_pool (dt_main S)) = None \<and> making (dt_threads S ! j) = Some a
        then pool_find a (d_pool D) else pool_find a (d_pool (dt_main S)))" for a using p [of a] by blast
  qed
  then show ?thesis using inv apart p q by (simp add: dt_inv_def)
qed

text \<open>
  One step: what is in a client's queue and what was handed to it grow by what was queued for it,
  storage by what was stored, and what a session has on its way by what it received.
\<close>

definition accounts ::
  "upcodec \<Rightarrow> pcre \<Rightarrow> lamb_delivery_t list \<Rightarrow> dthreads \<Rightarrow> dnote list \<Rightarrow> dthreads \<Rightarrow> bool" where
  "accounts u pcre routes S x S' \<longleftrightarrow>
     (\<forall>i. map (mo_emit u) (pool_content (d_pool (dt_main S)) i @ concat (map (for_client i) (queued x))) =
        handed i (given x) @ map (mo_emit u) (pool_content (d_pool (dt_main S')) i)) \<and>
     d_store (dt_main S') = d_store (dt_main S) @ concat (map for_storage (queued x)) \<and>
     (\<forall>j. flight S j @ arrivals u pcre routes j x = queued_by j x @ flight S' j)"

lemma accounts_step:
  assumes inv: "dt_inv routes S" and ok: "plenty a" and act: "dl_act u pcre a S = Some (S', x)" and apart: "apart S'"
  shows "dt_inv routes S' \<and> accounts u pcre routes S x S'"
proof (cases a)
  case Gate
  then have "S' = S\<lparr>dt_threads := dt_threads S @ [Resting]\<rparr>" "x = []" using act by (simp_all add: dl_act_def)
  then show ?thesis using inv apart
    by (auto simp: dt_inv_def accounts_def thread_ok_def flight_def in_flight_def nth_append)
next
  case (Client i)
  then have "S' = S\<lparr>dt_threads := dt_threads S @ [Joining i]\<rparr>" "x = []" using act by (simp_all add: dl_act_def)
  then show ?thesis using inv apart
    by (auto simp: dt_inv_def accounts_def thread_ok_def flight_def in_flight_def nth_append)
next
  case (Get j r)
  then obtain t where t: "dl_receive u pcre r (dt_main S) = Some t" and j: "j < length (dt_threads S)" "dt_threads S ! j = Resting"
    and S': "S' = S\<lparr>dt_threads := (dt_threads S)[j := t]\<rparr>" "x = [Arrived j (r_buf r)]"
    using act by (auto simp: dl_act_def bind_eq_Some_conv split: if_splits)
  have "rx_ok r" using ok Get by (simp add: plenty_def)
  note law = dl_receive_law [OF t this]
  have "list_all (thread_ok (d_pool (dt_main S))) ((dt_threads S)[j := t])"
    using inv law j by (auto simp: dt_inv_def list_all_length nth_list_update)
  moreover have "queued x = []" "given x = []" "queued_by i x = []" for i
    by (simp_all add: S'(2) queued_def given_def queued_by_def)
  moreover have "flight S i @ arrivals u pcre routes i x = flight S' i" for i
    using law j inv by (cases "i = j") (simp_all add: S' arrivals_def flight_def dt_inv_def in_flight_def [of Resting])
  ultimately show ?thesis using inv apart S'(1) by (simp add: dt_inv_def accounts_def)
next
  case (Go j qmem nmem mem)
  then have mem: "qmem" "nmem" "mem" using ok by (simp_all add: plenty_def)
  obtain t D out where n: "dl_next True True True (dt_threads S ! j) (dt_main S) = (t, D, out)"
    by (cases "dl_next True True True (dt_threads S ! j) (dt_main S)")
  have j: "j < length (dt_threads S)" and S': "S' = \<lparr>dt_main = D, dt_threads = (dt_threads S)[j := t]\<rparr>" "x = map (Queued j) out"
    using act Go mem n by (auto simp: dl_act_def split: if_splits)
  note law = dt_go [OF inv j n apart [unfolded S'(1)]]
  have "flight S i @ arrivals u pcre routes i x = queued_by i x @ flight S' i" for i
    using law j by (cases "i = j") (simp_all add: S' flight_def)
  then show ?thesis using law by (simp add: S' accounts_def)
next
  case (Ask j r)
  then obtain i k P out stop where d: "dt_threads S ! j = Drawing i k" "dl_pull_loop u k r (d_pool (dt_main S)) = Some (P, out, stop)"
    and j: "j < length (dt_threads S)"
    and S': "S' = \<lparr>dt_main = (dt_main S)\<lparr>d_pool := P\<rparr>, dt_threads = (dt_threads S)[j := (if stop then Gone else Drawing i k)]\<rparr>"
      "x = map (Given i) out"
    using act by (auto simp: dl_act_def bind_eq_Some_conv split: if_splits dthread.splits)
  have "rx_ok r" using ok Ask by (simp add: plenty_def)
  moreover have "pool_inv (d_pool (dt_main S))" using inv by (simp add: dt_inv_def)
  moreover have find: "pool_find i (d_pool (dt_main S)) = Some k"
    using inv j d(1) by (auto simp: dt_inv_def list_all_length thread_ok_def)
  ultimately have law: "pool_inv P" "\<And>c. pool_find c P = pool_find c (d_pool (dt_main S))"
    "\<And>c. map (mo_emit u) (pool_content (d_pool (dt_main S)) c) = handed c (map (Out i) out) @ map (mo_emit u) (pool_content P c)"
    using dl_pull_turn [OF d(2)] by blast+
  have "thread_ok P t = thread_ok (d_pool (dt_main S)) t" for t
    by (simp add: thread_ok_def law(2) split: dthread.split)
  then have "list_all (thread_ok P) ((dt_threads S)[j := (if stop then Gone else Drawing i k)])"
    using inv j find by (auto simp: dt_inv_def list_all_length nth_list_update thread_ok_def [of _ Gone] thread_ok_def [of _ "Drawing i k"])
  moreover have "flight S c = flight S' c" for c
    using j d(1) by (cases "c = j") (simp_all add: S' flight_def in_flight_def)
  ultimately show ?thesis using inv apart law S' by (simp add: dt_inv_def accounts_def)
qed

lemma append_chain: "a @ b = c @ d \<Longrightarrow> d @ e = f @ g \<Longrightarrow> a @ (b @ e) = (c @ f) @ g"
  by (metis append_assoc)

lemma accounts_trans:
  assumes x: "accounts u pcre routes S x S1" and y: "accounts u pcre routes S1 y S2"
  shows "accounts u pcre routes S (x @ y) S2"
proof -
  let ?C = "\<lambda>S i. map (mo_emit u) (pool_content (d_pool (dt_main S)) i)" and ?Q = "\<lambda>i x. map (mo_emit u) (concat (map (for_client i) (queued x)))"
  have "?C S i @ ?Q i (x @ y) = handed i (given (x @ y)) @ ?C S2 i" for i
  proof -
    have "?C S i @ ?Q i x = handed i (given x) @ ?C S1 i" "?C S1 i @ ?Q i y = handed i (given y) @ ?C S2 i"
      using x y by (simp_all add: accounts_def)
    from append_chain [OF this] show ?thesis by simp
  qed
  moreover have "flight S j @ arrivals u pcre routes j (x @ y) = queued_by j (x @ y) @ flight S2 j" for j
  proof -
    have "flight S j @ arrivals u pcre routes j x = queued_by j x @ flight S1 j"
      "flight S1 j @ arrivals u pcre routes j y = queued_by j y @ flight S2 j"
      using x y by (simp_all add: accounts_def)
    from append_chain [OF this] show ?thesis by simp
  qed
  ultimately show ?thesis using x y by (simp add: accounts_def)
qed

lemma accounts_run:
  "dt_inv routes S \<Longrightarrow> list_all plenty as \<Longrightarrow> dl_steps u pcre apart as S = Some (S', tr) \<Longrightarrow>
   accounts u pcre routes S tr S'"
proof (induction as arbitrary: S tr)
  case Nil
  then show ?case by (simp add: accounts_def)
next
  case (Cons a as)
  then obtain S1 x y where a: "dl_act u pcre a S = Some (S1, x)" "apart S1" "dl_steps u pcre apart as S1 = Some (S', y)" "tr = x @ y"
    by (auto simp: bind_eq_Some_conv split: if_splits)
  with accounts_step [OF Cons.prems(1) _ a(1,2)] Cons.prems(2)
  have "dt_inv routes S1" "accounts u pcre routes S x S1" by simp_all
  with Cons.IH [OF _ _ a(3)] Cons.prems(2) a(4) show ?case by (auto intro: accounts_trans)
qed

text \<open>
  C11: The delivery process loses nothing and keeps the order, for any interleaving of the operations
  of its threads in which no two threads are making a queue for the same account at once (with
  memory, and no reload of the routes): what each client was handed, followed by what waits in
  its queue, is what was pushed for it, in the order of the pushes; storage holds what no route (or
  only one without an account) matched; and what a gateway's session pushed or stored, with the one
  message it may have on its way, is what it received, each frame at the destination its account
  or the routes give it.
\<close>

theorem delivery_conserves:
  assumes "dl_steps u pcre apart as (dt_init routes) = Some (S, tr)" and "list_all plenty as"
  shows "map (mo_emit u) (concat (map (for_client i) (queued tr))) =
       handed i (given tr) @ map (mo_emit u) (pool_content (d_pool (dt_main S)) i) \<and>
     d_store (dt_main S) = concat (map for_storage (queued tr)) \<and>
     arrivals u pcre routes j tr = queued_by j tr @ flight S j \<and> length (flight S j) \<le> 1"
proof -
  have "dt_inv routes (dt_init routes)"
    by (simp add: dt_inv_def dt_init_def d_init_def pool_inv_empty apart_def)
  from accounts_run [OF this assms(2,1)]
  have "accounts u pcre routes (dt_init routes) tr S" .
  moreover have "length (flight S j) \<le> 1" by (simp add: flight_def in_flight_def split: dthread.split)
  ultimately show ?thesis by (simp add: accounts_def dt_init_def d_init_def pool_inv_empty flight_def)
qed

subsection \<open>Runs of two gateways and a client\<close>

definition report_frame :: rx where
  "report_frame = example_rx (htonl LAMB_REPORT @ ''13800000000'')"

definition pull_frame :: rx where
  "pull_frame = example_rx (htonl LAMB_REQ)"

definition the_report :: upmsg where
  "the_report = UpReport (report_store (the (unpack_report example_up ''13800000000'')))"

lemma report_received: "dl_receive example_up pcre report_frame D = Some (Seeking 1 the_report)"
  by (simp add: dl_receive_def report_frame_def example_rx_def example_up_def the_report_def)

lemma report_emitted: "mo_emit example_up the_report = htonl LAMB_REPORT @ ''13800000000''"
  by (simp add: mo_emit_def the_report_def example_up_def report_load_def report_store_def strncpy_z_def)

lemma report_pulled:
  "dl_pull_loop example_up k pull_frame P =
     (case pool_pop k P of (None, P1) \<Rightarrow> Some (P1, [htonl LAMB_EMPTY], False)
      | (Some (UpReport r), P1) \<Rightarrow> Some (P1, [htonl LAMB_REPORT @ pack_report example_up (report_load r)], False)
      | (Some (UpDeliver d), P1) \<Rightarrow> do { p \<leftarrow> deliver_load d; Some (P1, [htonl LAMB_DELIVER @ pack_deliver example_up p], False) })"
  by (simp add: dl_pull_loop_def pull_frame_def example_rx_def split: option.split prod.split upmsg.split)

abbreviation go :: "nat \<Rightarrow> daction" where
  "go j \<equiv> Go j True True True"

text \<open>Both gateways have a report of account 1; the second looks for the queue once it is there.\<close>

definition apart_actions :: "daction list" where
  "apart_actions = [Gate, Gate, Client 1, Get 0 report_frame, Get 1 report_frame, go 0, go 0, go 1, go 2, go 1, go 0,
     Ask 2 pull_frame, Get 0 report_frame, go 0]"

lemmas dl_run_defs = dl_act_def dl_next_def report_received dt_init_def d_init_def empty_pool_def pool_find_def
  pool_create_def pool_push_def pool_pop_def report_pulled Let_def

lemma apart_run:
  "\<exists>S tr. dl_steps example_up pcre apart apart_actions (dt_init []) = Some (S, tr) \<and>
     queued tr = [To_client 1 the_report, To_client 1 the_report] \<and> queued_by 0 tr = [To_client 1 the_report] \<and>
     given tr = [Out 1 (htonl LAMB_REPORT @ ''13800000000'')] \<and> flight S 0 = [To_client 1 the_report]"
  by (simp add: apart_actions_def dl_run_defs apart_def making_def All_less_Suc the_report_def)
     (simp add: queued_def queued_by_def given_def flight_def in_flight_def example_up_def report_load_def report_store_def strncpy_z_def)

lemma plenty_frames [simp]: "rx_ok report_frame" "rx_ok pull_frame"
  by (simp_all add: report_frame_def pull_frame_def)

theorem delivery_conserves_witness:
  "\<exists>S tr. given tr = [Out 1 (htonl LAMB_REPORT @ ''13800000000'')] \<and> flight S 0 = [To_client 1 the_report] \<and>
     map (mo_emit example_up) (concat (map (for_client 1) (queued tr))) =
       handed 1 (given tr) @ map (mo_emit example_up) (pool_content (d_pool (dt_main S)) 1) \<and>
     length (pool_content (d_pool (dt_main S)) 1) = 1 \<and>
     arrivals example_up (\<lambda>p s n. False) [] 0 tr = [To_client 1 the_report, To_client 1 the_report]"
proof -
  obtain S tr where r: "dl_steps example_up (\<lambda>p s n. False) apart apart_actions (dt_init []) = Some (S, tr)"
    and q: "queued tr = [To_client 1 the_report, To_client 1 the_report]" "queued_by 0 tr = [To_client 1 the_report]"
    and g: "given tr = [Out 1 (htonl LAMB_REPORT @ ''13800000000'')]" and f: "flight S 0 = [To_client 1 the_report]"
    using apart_run by blast
  have "list_all plenty apart_actions" by (simp add: apart_actions_def plenty_def)
  note t = delivery_conserves [OF r this, of 1 0]
  have "handed 1 (given tr) = [htonl LAMB_REPORT @ ''13800000000'']"
    using g by (simp add: LAMB_REPORT_def LAMB_EMPTY_def)
  then have "length (pool_content (d_pool (dt_main S)) 1) = 1"
    using arg_cong [OF conjunct1 [OF t], of length] q(1) by (simp add: for_client_def)
  with t g f q(2) show ?thesis by (intro exI [of _ S] exI [of _ tr]) simp
qed

text \<open>Both gateways have a report of account 1, and look for its queue before either has made it.\<close>

definition split_actions :: "daction list" where
  "split_actions = [Gate, Gate, Get 0 report_frame, Get 1 report_frame, go 0, go 1, go 0, go 1, go 0, go 1,
     Client 1, go 2, Ask 2 pull_frame, Ask 2 pull_frame]"

lemma split_run:
  "\<exists>S tr. dl_steps example_up pcre (\<lambda>S. True) split_actions (dt_init []) = Some (S, tr) \<and>
     queued tr = [To_client 1 the_report, To_client 1 the_report] \<and>
     given tr = [Out 1 (htonl LAMB_REPORT @ ''13800000000''), Out 1 (htonl LAMB_EMPTY)] \<and>
     pool_content (d_pool (dt_main S)) 1 = []"
  by (simp add: split_actions_def dl_run_defs the_report_def)
     (simp add: queued_def given_def pool_content_def pool_find_def example_up_def report_load_def report_store_def strncpy_z_def)

text \<open>
  The condition of the theorem above is needed: when two gateways bring the first reports of an
  account at once, both sessions miss its queue and make one. There is a run, with memory for all,
  in which both reports are pushed, the client is handed one and then told there is none, and the
  queue every later session finds is empty: the second report is lost.
\<close>

theorem gateways_split_queue:
  "\<exists>as S tr. dl_steps example_up pcre (\<lambda>S. True) as (dt_init []) = Some (S, tr) \<and> list_all plenty as \<and>
     queued tr = [To_client 1 the_report, To_client 1 the_report] \<and>
     given tr = [Out 1 (htonl LAMB_REPORT @ ''13800000000''), Out 1 (htonl LAMB_EMPTY)] \<and>
     pool_content (d_pool (dt_main S)) 1 = []"
proof -
  have "list_all plenty split_actions" by (simp add: split_actions_def plenty_def)
  with split_run [of pcre] show ?thesis by (intro exI [of _ split_actions]) auto
qed

end
