(* ===== verification/ServerChecks.thy ===== *)
theory ServerChecks
  imports Mo Cache
begin

text \<open>
  The checks of the server process (\<open>src/src/server.c\<close>): templates, keywords, unsubscribe
  words, and the black list, unsubscribe list and frequency counters sharded by phone number
  over several redis nodes. Commands to a node are typed by their verb (\<open>rcmd\<close>); a node is
  what it replies to a command.
\<close>

datatype rcmd =
    EXISTS string
  | INCRBY string int
  | EXPIRE string int
  | SET string string
  | HMSET string "(string \<times> string) list"
  | HMGET string "string list"
  | DEL string

record lamb_caches_t =
  cs_len :: nat
  cs_nodes :: "nat \<Rightarrow> rcmd \<Rightarrow> reply option"

subsection \<open>Content\<close>

text \<open>The bytes of the two brackets around the signature of a template, in UTF-8.\<close>

definition left_bracket :: string where "left_bracket = [CHR 0xE3, CHR 0x80, CHR 0x90]"
definition right_bracket :: string where "right_bracket = [CHR 0xE3, CHR 0x80, CHR 0x91]"

definition lamb_check_content :: "pcre \<Rightarrow> lamb_template_t \<Rightarrow> string \<Rightarrow> nat \<Rightarrow> bool" where
  "lamb_check_content pcre template content len =
     pcre (snprintf_z 512 (''^'' @ left_bracket @ tp_name template @ right_bracket @ tp_content template @ ''$''))
       content len"

text \<open>A keyword whose copy failed is a NULL needle: \<open>None\<close>.\<close>

definition lamb_check_keyword :: "lamb_keyword_t \<Rightarrow> string \<Rightarrow> bool option" where
  "lamb_check_keyword key content = map_option (\<lambda>v. strstr content v) (kw_val key)"

definition tui :: string where "tui = [CHR 0xE9, CHR 0x80, CHR 0x80]"
definition tuiding :: string where "tuiding = tui @ [CHR 0xE8, CHR 0xAE, CHR 0xA2]"

definition lamb_check_unsubval :: "string \<Rightarrow> nat \<Rightarrow> bool" where
  "lamb_check_unsubval content len =
     (if strstr content ''t'' then True
      else if strstr content ''T'' then True
      else if strstr content ''td'' then True
      else if strstr content ''TD'' then True
      else if strstr content tui then True
      else if strstr content tuiding then True
      else False)"

subsection \<open>Phones\<close>

definition atol :: "string \<Rightarrow> u64" where
  "atol s = word_of_int (max (- (2 ^ 63)) (min (2 ^ 63 - 1) (atoi s)))"

text \<open>The node a phone belongs to. With no nodes the remainder divides by zero: \<open>None\<close>.\<close>

definition shard :: "lamb_caches_t \<Rightarrow> u64 \<Rightarrow> nat option" where
  "shard c phone = (if cs_len c = 0 then None else Some (unat phone mod cs_len c))"

definition phone_key :: "int \<Rightarrow> u64 \<Rightarrow> string" where
  "phone_key i phone = show_int i @ ''.'' @ show_nat (unat phone)"

definition exists_one :: "reply option \<Rightarrow> bool" where
  "exists_one r = (case r of Some (RInteger n) \<Rightarrow> n = 1 | _ \<Rightarrow> False)"

definition lamb_check_blacklist :: "lamb_caches_t \<Rightarrow> string \<Rightarrow> bool option" where
  "lamb_check_blacklist cache number =
     (let phone = atol number
      in if phone = 0 then Some False
         else do { i \<leftarrow> shard cache phone; Some (exists_one (cs_nodes cache i (EXISTS (show_nat (unat phone))))) })"

definition lamb_check_unsubscribe :: "lamb_caches_t \<Rightarrow> int \<Rightarrow> string \<Rightarrow> bool option" where
  "lamb_check_unsubscribe cache aid number =
     (let phone = atol number
      in if phone = 0 then Some False
         else do { i \<leftarrow> shard cache phone; Some (exists_one (cs_nodes cache i (EXISTS (phone_key aid phone)))) })"

definition MAX_LIFETIME :: int where "MAX_LIFETIME = 60"
definition LAMB_LIMIT :: int where "LAMB_LIMIT = 3"

text \<open>The result and the commands sent, with their node.\<close>

definition lamb_check_frequency :: "lamb_caches_t \<Rightarrow> int \<Rightarrow> string \<Rightarrow> (bool \<times> (nat \<times> rcmd) list) option" where
  "lamb_check_frequency cache aid number =
     (let phone = atol number
      in if phone = 0 then Some (False, [])
         else do {
           i \<leftarrow> shard cache phone;
           let key = phone_key aid phone;
           Some (case cs_nodes cache i (INCRBY key 1) of
                   Some (RInteger n) \<Rightarrow>
                     (if n = 1 then (False, [(i, INCRBY key 1), (i, EXPIRE key MAX_LIFETIME)])
                      else (n > LAMB_LIMIT, [(i, INCRBY key 1)]))
                 | _ \<Rightarrow> (False, [(i, INCRBY key 1)])) })"

text \<open>One turn of the unsubscribe thread: the entry (NULL when its copy failed) and the command.\<close>

definition unsubscribe_turn :: "lamb_caches_t \<Rightarrow> int \<Rightarrow> string option \<Rightarrow> (nat \<times> rcmd) list option" where
  "unsubscribe_turn cache aid val =
     (case val of
        None \<Rightarrow> Some []
      | Some v \<Rightarrow>
          (let phone = atol v
           in if phone = 0 then Some []
              else do { i \<leftarrow> shard cache phone; Some [(i, SET (phone_key aid phone) ''1'')] }))"

subsection \<open>Unsubscribe words\<close>

text \<open>
  The unsubscribe check comes down to three characters: a message unsubscribes its sender
  exactly when it contains a letter t, small or capital, or the word of one character; the
  longer words the code tests for change nothing.
\<close>

theorem lamb_check_unsubval_letters:
  "lamb_check_unsubval content len \<longleftrightarrow> CHR ''t'' \<in> set content \<or> CHR ''T'' \<in> set content \<or> strstr content tui"
proof -
  have "strstr content ''td'' \<Longrightarrow> strstr content ''t''" "strstr content ''TD'' \<Longrightarrow> strstr content ''T''"
    using strstr_prefix_pat [of content "''t''" "''d''"] strstr_prefix_pat [of content "''T''" "''D''"] by simp_all
  moreover have "strstr content tuiding \<Longrightarrow> strstr content tui"
    unfolding tuiding_def by (rule strstr_prefix_pat)
  ultimately show ?thesis
    by (auto simp: lamb_check_unsubval_def strstr_singleton [symmetric])
qed

subsection \<open>The unsubscribe list over its nodes\<close>

text \<open>Nodes that keep sets of keys, and what a list of commands does to them.\<close>

definition key_nodes :: "nat \<Rightarrow> (nat \<Rightarrow> string set) \<Rightarrow> lamb_caches_t" where
  "key_nodes n K = \<lparr>cs_len = n, cs_nodes = (\<lambda>i c. case c of
      EXISTS k \<Rightarrow> Some (RInteger (if k \<in> K i then 1 else 0))
    | _ \<Rightarrow> Some (RStatus ''OK''))\<rparr>"

definition run_cmds :: "(nat \<times> rcmd) list \<Rightarrow> (nat \<Rightarrow> string set) \<Rightarrow> nat \<Rightarrow> string set" where
  "run_cmds cmds K = fold (\<lambda>(i, c) K. case c of SET k v \<Rightarrow> K(i := insert k (K i)) | _ \<Rightarrow> K) cmds K"

lemma show_nat_append_inject:
  assumes "show_nat m @ CHR ''.'' # s = show_nat n @ CHR ''.'' # t"
  shows "m = n \<and> s = t"
proof -
  have "\<not> is_digit CHR ''.''" by (simp add: is_digit_def)
  note tw = takeWhile_show_nat_append [OF this]
  have "takeWhile is_digit (show_nat m @ CHR ''.'' # s) = takeWhile is_digit (show_nat n @ CHR ''.'' # t)"
    using assms by simp
  then have "m = n" unfolding tw by simp
  with assms show ?thesis by simp
qed

lemma phone_key_inject: "phone_key i p = phone_key j q \<longleftrightarrow> i = j \<and> p = q"
proof
  assume eq: "phone_key i p = phone_key j q"
  have neg: "hd (show_nat n) \<noteq> CHR ''-''" for n using show_nat_hd digit_not_special by blast
  have mixed: False if "0 \<le> a" "b < 0" "phone_key a x = phone_key b y" for a b x y
  proof -
    have "hd (phone_key a x) = hd (show_nat (nat a))" using that(1) by (simp add: phone_key_def show_int_def)
    moreover have "hd (phone_key b y) = CHR ''-''" using that(2) by (simp add: phone_key_def show_int_def)
    ultimately show False using that(3) neg by metis
  qed
  show "i = j \<and> p = q"
  proof (cases "(i < 0) = (j < 0)")
    case True
    then show ?thesis using eq
      by (cases "i < 0") (auto simp: phone_key_def show_int_def word_unat_eq_iff
          dest!: show_nat_append_inject)
  next
    case False
    then show ?thesis using mixed [of i j p q] mixed [of j i q p] eq by (metis not_less)
  qed
qed simp

lemma unsubscribe_turn_check:
  assumes "0 < n" and "unsubscribe_turn (key_nodes n K) aid (Some v) = Some cmds"
  shows "lamb_check_unsubscribe (key_nodes n (run_cmds cmds K)) aid' w =
     (if atol v \<noteq> 0 \<and> atol w = atol v \<and> aid' = aid then Some True
      else lamb_check_unsubscribe (key_nodes n K) aid' w)"
proof (cases "atol v = 0")
  case True
  then have "cmds = []" using assms(2) by (simp add: unsubscribe_turn_def)
  then show ?thesis using True by (simp add: run_cmds_def)
next
  case False
  let ?i = "unat (atol v) mod n"
  have "run_cmds cmds K = K(?i := insert (phone_key aid (atol v)) (K ?i))"
    using assms False by (auto simp: unsubscribe_turn_def shard_def key_nodes_def run_cmds_def Let_def)
  then show ?thesis using False assms(1)
    by (auto simp: lamb_check_unsubscribe_def key_nodes_def shard_def exists_one_def phone_key_inject Let_def)
qed

text \<open>
  Unsubscribing holds. After the unsubscribe thread has stored a sender, the check refuses
  exactly that number, however it is written, for that account, whatever node it falls on, and
  answers for every other number and account as before.
\<close>

theorem unsubscribe_then_check:
  assumes "0 < n" and "unsubscribe_turn (key_nodes n K) aid (Some v) = Some cmds"
  shows "lamb_check_unsubscribe (key_nodes n (run_cmds cmds K)) aid' w =
     (if atol v \<noteq> 0 \<and> atol w = atol v \<and> aid' = aid then Some True
      else lamb_check_unsubscribe (key_nodes n K) aid' w)"
  using assms by (rule unsubscribe_turn_check)

lemma unsubscribe_then_check_witness:
  "lamb_check_unsubscribe (key_nodes 7 (run_cmds [(unat (atol ''13800000000'') mod 7,
     SET (phone_key 5 (atol ''13800000000'')) ''1'')] (\<lambda>i. {}))) 5 ''13800000000'' = Some True"
proof -
  have "atoi ''13800000000'' = 13800000000"
    by (simp add: atoi_def is_blank_def is_digit_def digits_val_def digit_val_def)
  then have nz: "atol ''13800000000'' \<noteq> 0" by (simp add: atol_def)
  then have "unsubscribe_turn (key_nodes 7 (\<lambda>i. {})) 5 (Some ''13800000000'') =
     Some [(unat (atol ''13800000000'') mod 7, SET (phone_key 5 (atol ''13800000000'')) ''1'')]"
    by (simp add: unsubscribe_turn_def shard_def key_nodes_def Let_def)
  from unsubscribe_then_check [OF _ this, of 5 "''13800000000''"] nz show ?thesis by simp
qed

subsection \<open>The frequency limit\<close>

text \<open>Nodes that count: the reply to \<open>INCRBY\<close> is the new value of the counter.\<close>

definition count_nodes :: "nat \<Rightarrow> (string \<Rightarrow> int) \<Rightarrow> lamb_caches_t" where
  "count_nodes n C = \<lparr>cs_len = n, cs_nodes = (\<lambda>i c. case c of
      INCRBY k m \<Rightarrow> Some (RInteger (C k + m))
    | _ \<Rightarrow> Some (RInteger 1))\<rparr>"

definition count_cmds :: "(nat \<times> rcmd) list \<Rightarrow> (string \<Rightarrow> int) \<Rightarrow> string \<Rightarrow> int" where
  "count_cmds cmds C = fold (\<lambda>(i, c) C. case c of INCRBY k m \<Rightarrow> C(k := C k + m) | _ \<Rightarrow> C) cmds C"

primrec frequency_run :: "nat \<Rightarrow> int \<Rightarrow> (string \<Rightarrow> int) \<Rightarrow> string list \<Rightarrow> bool list option" where
  "frequency_run n aid C [] = Some []"
| "frequency_run n aid C (w # ws) = do {
     (limited, cmds) \<leftarrow> lamb_check_frequency (count_nodes n C) aid w;
     rs \<leftarrow> frequency_run n aid (count_cmds cmds C) ws;
     Some (limited # rs) }"

lemma frequency_step:
  assumes "0 < n" and "0 \<le> C (phone_key aid (atol w))"
  shows "\<exists>cmds. lamb_check_frequency (count_nodes n C) aid w =
      Some (atol w \<noteq> 0 \<and> C (phone_key aid (atol w)) \<ge> LAMB_LIMIT, cmds) \<and>
    count_cmds cmds C = (if atol w = 0 then C else C(phone_key aid (atol w) := C (phone_key aid (atol w)) + 1))"
  using assms
  by (auto simp: lamb_check_frequency_def count_nodes_def shard_def count_cmds_def LAMB_LIMIT_def Let_def)

text \<open>
  Within one lifetime of the counters, of the messages to one number the first three pass
  and every later one is limited, in any interleaving with messages to other numbers.
\<close>

theorem frequency_limits_after_three:
  assumes "0 < n"
  shows "frequency_run n aid (\<lambda>k. 0) ws =
    Some (map (\<lambda>j. atol (ws ! j) \<noteq> 0 \<and> 3 \<le> card {i. i < j \<and> atol (ws ! i) = atol (ws ! j)}) [0..<length ws])"
proof -
  have gen: "frequency_run n aid C ws =
      Some (map (\<lambda>j. atol (ws ! j) \<noteq> 0 \<and>
        3 \<le> C (phone_key aid (atol (ws ! j))) + int (card {i. i < j \<and> atol (ws ! i) = atol (ws ! j)})) [0..<length ws])"
    if "\<forall>k. 0 \<le> C k" for C
    using that
  proof (induction ws arbitrary: C)
    case Nil
    then show ?case by simp
  next
    case (Cons w ws)
    let ?k = "phone_key aid (atol w)"
    let ?C = "if atol w = 0 then C else C(?k := C ?k + 1)"
    obtain cmds where step: "lamb_check_frequency (count_nodes n C) aid w =
        Some (atol w \<noteq> 0 \<and> C ?k \<ge> LAMB_LIMIT, cmds)" "count_cmds cmds C = ?C"
      using frequency_step [OF assms, of C aid w] Cons.prems by auto
    have "\<forall>k. 0 \<le> ?C k" using Cons.prems by (auto simp: add_nonneg_nonneg)
    note ih = Cons.IH [OF this]
    have card: "int (card {i. i < Suc j \<and> atol ((w # ws) ! i) = x}) =
        (if atol w = x then 1 else 0) + int (card {i. i < j \<and> atol (ws ! i) = x})" for j x
    proof -
      have "{i. i < Suc j \<and> atol ((w # ws) ! i) = x} =
          (if atol w = x then {0} else {}) \<union> Suc ` {i. i < j \<and> atol (ws ! i) = x}"
        by (auto simp: less_Suc_eq_0_disj image_iff)
      then show ?thesis by (auto simp: card_image card_insert_if)
    qed
    have "[0..<length (w # ws)] = 0 # map Suc [0..<length ws]"
      by (simp add: map_Suc_upt upt_conv_Cons del: upt_Suc)
    then show ?case using step ih
      by (auto simp: card LAMB_LIMIT_def phone_key_inject o_def)
  qed
  have "(3 \<le> (0 :: int) + int m) = (3 \<le> m)" for m by simp
  with gen [of "\<lambda>k. 0"] show ?thesis by simp
qed

lemma frequency_limits_after_three_witness:
  "frequency_run 7 5 (\<lambda>k. 0) [''1'', ''1'', ''1'', ''1''] = Some [False, False, False, True]"
proof -
  have one: "atol ''1'' = 1"
    by (simp add: atol_def atoi_def is_blank_def is_digit_def digits_val_def digit_val_def)
  define ws where "ws = replicate 4 ''1''"
  let ?m = "map (\<lambda>j. atol (ws ! j) \<noteq> 0 \<and> 3 \<le> card {i. i < j \<and> atol (ws ! i) = atol (ws ! j)}) [0..<length ws]"
  have run: "frequency_run 7 5 (\<lambda>k. 0) ws = Some ?m"
    by (rule frequency_limits_after_three) simp
  have "{i. i < j \<and> atol (ws ! i) = atol (ws ! j)} = {..<j}" if "j < 4" for j
    using that by (auto simp: ws_def)
  then have "?m = map (\<lambda>j. 3 \<le> j) [0..<4]"
    using one by (auto simp: ws_def intro!: map_cong)
  also have "\<dots> = [False, False, False, True]" by (simp add: upt_rec)
  finally have "frequency_run 7 5 (\<lambda>k. 0) ws = Some [False, False, False, True]" using run by simp
  then show ?thesis by (simp add: ws_def numeral_eq_Suc)
qed

end
