(* ===== verification/Server.thy ===== *)
theory Server
  imports Delivery ServerChecks
begin

text \<open>
  The server process of an account (\<open>src/src/server.c\<close>), first its work loop: a submit pulled
  from the mt process is checked, converted to UTF-8 and offered to the scheduler until that
  decides; it is then billed and stored, or refused with a report to the mo process.

  The state is \<open>server\<close>: the counters \<open>status\<close>, the fields of \<open>global\<close> and the two flags the
  threads read. Its lists are abstract queues (the fifo contract of Queue). \<open>wturn\<close> is one
  turn of the loop: whether the request went out, what came back, the replies of the redis
  nodes, which allocations succeed, and what the scheduler answers to each attempt.
\<close>

subsection \<open>State\<close>

record lamb_status_t =
  st_toal :: u64
  st_sub :: u64
  st_rep :: u64
  st_delv :: u64
  st_fmt :: u64
  st_blk :: u64
  st_usb :: u64
  st_limt :: u64
  st_rejt :: u64
  st_tmp :: u64
  st_key :: u64

record lamb_bill_t =
  bl_id :: int
  bl_money :: int

datatype stored = St_submit lamb_submit_t | St_report lamb_report_t | St_deliver lamb_deliver_t

record server =
  sv_status :: lamb_status_t
  sv_storage :: "stored list"
  sv_billing :: "lamb_bill_t list"
  sv_unsubscribe :: "string option list"
  sv_account :: lamb_account_t
  sv_company :: lamb_company_t
  sv_templates :: "lamb_template_t list"
  sv_keywords :: "lamb_keyword_t list"
  sv_sleeping :: bool
  sv_arrears :: bool

record server_env =
  se_aid :: int
  se_conv :: iconv
  se_pcre :: pcre
  se_unpack :: "bytes \<Rightarrow> Submit option"
  se_pack :: "Submit \<Rightarrow> bytes"
  se_up :: upcodec

record wturn =
  w_sent :: bool
  w_buf :: "bytes option"
  w_blacklist :: lamb_caches_t
  w_unsubscribe :: lamb_caches_t
  w_frequency :: lamb_caches_t
  w_answers :: "bytes option option list"
  w_tail :: bytes
  w_content :: bool
  w_pk :: bool
  w_packet :: bool
  w_rpk :: bool
  w_rframe :: bool
  w_bill :: bool
  w_bnode :: bool
  w_storage :: bool
  w_snode :: bool

definition w_ok :: "wturn \<Rightarrow> bool" where
  "w_ok w \<longleftrightarrow> w_content w \<and> w_pk w \<and> w_packet w \<and> w_rpk w \<and> w_rframe w \<and> w_bill w \<and> w_bnode w \<and>
     w_storage w \<and> w_snode w"

subsection \<open>The checks\<close>

text \<open>The encoding to convert from: \<open>None\<close> for a format that is refused.\<close>

definition work_fromcode :: "int \<Rightarrow> string option option" where
  "work_fromcode msgfmt =
     (if msgfmt = 0 then Some (Some ''ASCII'')
      else if msgfmt = 8 then Some (Some ''UCS-2BE'')
      else if msgfmt = 11 then Some None
      else if msgfmt = 15 then Some (Some ''GBK'')
      else None)"

text \<open>
  Black list, unsubscribe list and frequency, each when the account has the option. The
  result: the counters, the commands that count, whether the message is refused.
\<close>

definition work_lists ::
  "server_env \<Rightarrow> wturn \<Rightarrow> server \<Rightarrow> Submit \<Rightarrow> lamb_status_t \<Rightarrow>
   (lamb_status_t \<times> (nat \<times> rcmd) list \<times> bool) option" where
  "work_lists e w S m st =
     (let opts = ac_options (sv_account S)
      in do {
        black \<leftarrow> (if bit opts 4 then lamb_check_blacklist (w_blacklist w) (sb_phone m) else Some False);
        if black then Some (st\<lparr>st_blk := st_blk st + 1\<rparr>, [], True)
        else do {
          unsub \<leftarrow> (if bit opts 3 then lamb_check_unsubscribe (w_unsubscribe w) (se_aid e) (sb_phone m)
                    else Some False);
          if unsub then Some (st\<lparr>st_usb := st_usb st + 1\<rparr>, [], True)
          else do {
            (limited, cmds) \<leftarrow> (if bit opts 2 then lamb_check_frequency (w_frequency w) (se_aid e) (sb_phone m)
                               else Some (False, []));
            Some (if limited then st\<lparr>st_limt := st_limt st + 1\<rparr> else st, cmds, limited) } } })"

text \<open>
  The conversion into a buffer of 512 bytes. \<open>Inl counted\<close> is a failure, answered with cause 4
  and counted when it is the conversion's. Reading \<open>length\<close> bytes of a shorter content is
  undefined.
\<close>

definition work_convert :: "iconv \<Rightarrow> bool \<Rightarrow> string option \<Rightarrow> Submit \<Rightarrow> (bool + Submit) option" where
  "work_convert conv mem fromcode m =
     (case fromcode of
        None \<Rightarrow> Some (Inr m)
      | Some code \<Rightarrow>
          (if \<not> mem then Some (Inl False)
           else if sb_length m < 0 \<or> int (length (sb_content m)) < sb_length m then None
           else Some (case conv (take (nat (sb_length m)) (sb_content m)) code ''UTF-8'' 512 of
                        None \<Rightarrow> Inl True
                      | Some out \<Rightarrow>
                          (if length out < 1 then Inl True
                           else Inr (m\<lparr>sb_length := int (length out), sb_msgfmt := 11, sb_content := out\<rparr>)))))"

text \<open>
  Templates and keywords. The keyword search reads the content as a C string although nothing
  terminates it: it goes on into whatever follows in memory, \<open>w_tail\<close>. An empty content is a
  NULL pointer, undefined for \<open>strstr\<close>.
\<close>

primrec keyword_search :: "string \<Rightarrow> lamb_keyword_t list \<Rightarrow> bool option" where
  "keyword_search text [] = Some False"
| "keyword_search text (k # ks) = do {
     hit \<leftarrow> lamb_check_keyword k text;
     if hit then Some True else keyword_search text ks }"

definition work_content ::
  "server_env \<Rightarrow> wturn \<Rightarrow> server \<Rightarrow> Submit \<Rightarrow> lamb_status_t \<Rightarrow> (lamb_status_t \<times> bool) option" where
  "work_content e w S m st =
     (let opts = ac_options (sv_account S)
      in if bit opts 0 \<and>
           \<not> list_ex (\<lambda>t. lamb_check_content (se_pcre e) t (sb_content m) (length (sb_content m))) (sv_templates S)
         then Some (st\<lparr>st_tmp := st_tmp st + 1\<rparr>, True)
         else if bit opts 1 then do {
           hit \<leftarrow> (if sb_content m = [] \<and> sv_keywords S \<noteq> [] then None
                  else keyword_search (cstr (sb_content m @ w_tail w)) (sv_keywords S));
           Some (if hit then st\<lparr>st_key := st_key st + 1\<rparr> else st, hit) }
         else Some (st, False))"

text \<open>All checks in the code's order: the cause of a refusal or the message to schedule.\<close>

definition work_filter ::
  "server_env \<Rightarrow> wturn \<Rightarrow> server \<Rightarrow> Submit \<Rightarrow> lamb_status_t \<Rightarrow>
   (lamb_status_t \<times> (nat \<times> rcmd) list \<times> (int + Submit)) option" where
  "work_filter e w S m st =
     (case work_fromcode (sb_msgfmt m) of
        None \<Rightarrow> Some (st\<lparr>st_fmt := st_fmt st + 1\<rparr>, [], Inl 7)
      | Some fromcode \<Rightarrow> do {
          (st1, cmds, hit) \<leftarrow> work_lists e w S m st;
          if hit then Some (st1, cmds, Inl 7)
          else do {
            c \<leftarrow> work_convert (se_conv e) (w_content w) fromcode m;
            (case c of
               Inl counted \<Rightarrow> Some (if counted then st1\<lparr>st_fmt := st_fmt st1 + 1\<rparr> else st1, cmds, Inl 4)
             | Inr m1 \<Rightarrow> do {
                 (st2, hit2) \<leftarrow> work_content e w S m1 st1;
                 Some (st2, cmds, if hit2 then Inl 7 else Inr m1) }) } })"

subsection \<open>Answering, scheduling, recording\<close>

text \<open>\<open>resp\<close> keeps its account and company from the start of the loop.\<close>

definition lamb_direct_response ::
  "server_env \<Rightarrow> wturn \<Rightarrow> Report \<Rightarrow> Submit \<Rightarrow> int \<Rightarrow> bytes list" where
  "lamb_direct_response e w resp message cause =
     (let r = resp\<lparr>rp_id := sb_id message, rp_phone := sb_phone message, rp_spcode := sb_spcode message,
               rp_status := cause, rp_submittime := [], rp_donetime := []\<rparr>
      in if \<not> w_rpk w then []
         else case lamb_pack_assembly (w_rframe w) LAMB_REPORT (Some (pack_report (se_up e) r)) of
                None \<Rightarrow> []
              | Some buf \<Rightarrow> [buf])"

text \<open>
  The scheduling loop over the attempts: \<open>None\<close> of an attempt is an incomplete send, \<open>Some r\<close>
  what was received. It ends with the first of the three answers that decide.
\<close>

primrec work_schedule :: "bytes option option list \<Rightarrow> u32 option" where
  "work_schedule [] = None"
| "work_schedule (a # as) =
     (case a of
        None \<Rightarrow> work_schedule as
      | Some r \<Rightarrow>
          (case classify r of
             Short \<Rightarrow> work_schedule as
           | Frame c body \<Rightarrow>
               (if c = LAMB_OK \<or> c = LAMB_NOROUTE \<or> c = LAMB_REJECT then Some c else work_schedule as)))"

definition storage_submit :: "server \<Rightarrow> Submit \<Rightarrow> lamb_submit_t option" where
  "storage_submit S m =
     submit_store (m\<lparr>sb_account := ac_id (sv_account S), sb_company := co_id (sv_company S)\<rparr>)"

definition work_record :: "wturn \<Rightarrow> server \<Rightarrow> Submit \<Rightarrow> server option" where
  "work_record w S m =
     (let S1 = (if w_bill w \<and> w_bnode w
                then S\<lparr>sv_billing := sv_billing S @ [\<lparr>bl_id = co_id (sv_company S), bl_money = -1\<rparr>]\<rparr> else S)
      in if w_storage w then do {
           x \<leftarrow> storage_submit S1 m;
           Some (if w_snode w then S1\<lparr>sv_storage := sv_storage S1 @ [St_submit x]\<rparr> else S1) }
         else Some S1)"

datatype work_end = Idle | Refused int Submit | Accepted Submit | Waiting Submit

record wout =
  wo_end :: work_end
  wo_mo :: "bytes list"
  wo_packet :: "bytes option"
  wo_cmds :: "(nat \<times> rcmd) list"

definition idle_turn :: wout where
  "idle_turn = \<lparr>wo_end = Idle, wo_mo = [], wo_packet = None, wo_cmds = []\<rparr>"

definition refuse_turn ::
  "server_env \<Rightarrow> wturn \<Rightarrow> Report \<Rightarrow> Submit \<Rightarrow> int \<Rightarrow> bytes option \<Rightarrow> (nat \<times> rcmd) list \<Rightarrow> wout" where
  "refuse_turn e w resp m cause packet cmds =
     \<lparr>wo_end = Refused cause m, wo_mo = lamb_direct_response e w resp m cause, wo_packet = packet, wo_cmds = cmds\<rparr>"

definition work_submit :: "server_env \<Rightarrow> Report \<Rightarrow> wturn \<Rightarrow> server \<Rightarrow> Submit \<Rightarrow> (server \<times> wout) option" where
  "work_submit e resp w S m = do {
     (st, cmds, v) \<leftarrow> work_filter e w S m ((sv_status S)\<lparr>st_toal := st_toal (sv_status S) + 1\<rparr>);
     let S1 = S\<lparr>sv_status := st\<rparr>;
     (case v of
        Inl cause \<Rightarrow> Some (S1, refuse_turn e w resp m cause None cmds)
      | Inr m1 \<Rightarrow>
          (case (if w_pk w then lamb_pack_assembly (w_packet w) LAMB_SUBMIT (Some (se_pack e m1)) else None) of
             None \<Rightarrow> Some (S1, refuse_turn e w resp m1 4 None cmds)
           | Some packet \<Rightarrow>
               (case work_schedule (w_answers w) of
                  None \<Rightarrow> Some (S1, \<lparr>wo_end = Waiting m1, wo_mo = [], wo_packet = Some packet, wo_cmds = cmds\<rparr>)
                | Some c \<Rightarrow>
                    (if c = LAMB_OK then do {
                       S2 \<leftarrow> work_record w (S1\<lparr>sv_status := st\<lparr>st_sub := st_sub st + 1\<rparr>\<rparr>) m1;
                       Some (S2, \<lparr>wo_end = Accepted m1, wo_mo = [], wo_packet = Some packet, wo_cmds = cmds\<rparr>) }
                     else if c = LAMB_NOROUTE then Some (S1, refuse_turn e w resp m1 4 (Some packet) cmds)
                     else Some (S1\<lparr>sv_status := st\<lparr>st_rejt := st_rejt st + 1\<rparr>\<rparr>,
                                refuse_turn e w resp m1 7 (Some packet) cmds))))) }"

definition lamb_work_loop :: "server_env \<Rightarrow> Report \<Rightarrow> wturn \<Rightarrow> server \<Rightarrow> (server \<times> wout) option" where
  "lamb_work_loop e resp w S =
     (if sv_sleeping S \<or> sv_arrears S \<or> \<not> w_sent w then Some (S, idle_turn)
      else case classify (w_buf w) of
        Short \<Rightarrow> Some (S, idle_turn)
      | Frame c body \<Rightarrow>
          (if c \<noteq> LAMB_SUBMIT then Some (S, idle_turn)
           else case se_unpack e body of
                  None \<Rightarrow> Some (S, idle_turn)
                | Some m \<Rightarrow> work_submit e resp w S m))"

primrec work_run :: "server_env \<Rightarrow> Report \<Rightarrow> wturn list \<Rightarrow> server \<Rightarrow> (server \<times> wout list) option" where
  "work_run e resp [] S = Some (S, [])"
| "work_run e resp (w # ws) S = do {
     (S1, out) \<leftarrow> lamb_work_loop e resp w S;
     (S2, outs) \<leftarrow> work_run e resp ws S1;
     Some (S2, out # outs) }"

subsection \<open>What reaches the scheduler\<close>

text \<open>
  \<open>checked m m1\<close>: the submit \<open>m\<close> may be sent to the scheduler in the form \<open>m1\<close>. Every check
  the account has enabled passed, the content is in UTF-8, and nothing but the content, its
  length and its format differs.
\<close>

definition checked :: "server_env \<Rightarrow> wturn \<Rightarrow> server \<Rightarrow> Submit \<Rightarrow> Submit \<Rightarrow> bool" where
  "checked e w S m m1 \<longleftrightarrow>
     (let opts = ac_options (sv_account S)
      in (bit opts 4 \<longrightarrow> lamb_check_blacklist (w_blacklist w) (sb_phone m) = Some False) \<and>
         (bit opts 3 \<longrightarrow> lamb_check_unsubscribe (w_unsubscribe w) (se_aid e) (sb_phone m) = Some False) \<and>
         (bit opts 2 \<longrightarrow> map_option fst (lamb_check_frequency (w_frequency w) (se_aid e) (sb_phone m)) = Some False) \<and>
         (bit opts 0 \<longrightarrow> (\<exists>t \<in> set (sv_templates S).
            lamb_check_content (se_pcre e) t (sb_content m1) (length (sb_content m1)))) \<and>
         (bit opts 1 \<longrightarrow> (\<forall>k \<in> set (sv_keywords S). \<exists>v. kw_val k = Some v \<and>
            \<not> strstr (cstr (sb_content m1 @ w_tail w)) v))) \<and>
     sb_msgfmt m1 = 11 \<and>
     m1 = m\<lparr>sb_length := sb_length m1, sb_msgfmt := 11, sb_content := sb_content m1\<rparr> \<and>
     (if sb_msgfmt m = 11 then m1 = m
      else sb_length m1 = int (length (sb_content m1)) \<and> 0 < sb_length m1 \<and>
        (\<exists>code. work_fromcode (sb_msgfmt m) = Some (Some code) \<and>
           se_conv e (take (nat (sb_length m)) (sb_content m)) code ''UTF-8'' 512 = Some (sb_content m1)))"

lemma keyword_search_False:
  "keyword_search text ks = Some False \<Longrightarrow> \<forall>k \<in> set ks. \<exists>v. kw_val k = Some v \<and> \<not> strstr text v"
  by (induction ks) (auto simp: lamb_check_keyword_def bind_eq_Some_conv split: if_splits)

lemma work_lists_pass:
  assumes "work_lists e w S m st = Some (st', cmds, False)"
  shows "st' = st"
    and "bit (ac_options (sv_account S)) 4 \<longrightarrow> lamb_check_blacklist (w_blacklist w) (sb_phone m) = Some False"
    and "bit (ac_options (sv_account S)) 3 \<longrightarrow>
      lamb_check_unsubscribe (w_unsubscribe w) (se_aid e) (sb_phone m) = Some False"
    and "bit (ac_options (sv_account S)) 2 \<longrightarrow>
      map_option fst (lamb_check_frequency (w_frequency w) (se_aid e) (sb_phone m)) = Some False"
  using assms by (auto simp: work_lists_def Let_def bind_eq_Some_conv split: if_splits)

lemma work_content_pass:
  assumes "work_content e w S m st = Some (st', False)"
  shows "st' = st"
    and "bit (ac_options (sv_account S)) 0 \<longrightarrow> (\<exists>t \<in> set (sv_templates S).
            lamb_check_content (se_pcre e) t (sb_content m) (length (sb_content m)))"
    and "bit (ac_options (sv_account S)) 1 \<longrightarrow> (\<forall>k \<in> set (sv_keywords S). \<exists>v. kw_val k = Some v \<and>
            \<not> strstr (cstr (sb_content m @ w_tail w)) v)"
proof -
  show "st' = st" using assms by (auto simp: work_content_def Let_def bind_eq_Some_conv split: if_splits)
  show "bit (ac_options (sv_account S)) 0 \<longrightarrow> (\<exists>t \<in> set (sv_templates S).
            lamb_check_content (se_pcre e) t (sb_content m) (length (sb_content m)))"
    using assms by (auto simp: work_content_def Let_def list_ex_iff split: if_splits)
  have "keyword_search (cstr (sb_content m @ w_tail w)) (sv_keywords S) = Some False"
    if "bit (ac_options (sv_account S)) 1"
    using assms that by (auto simp: work_content_def Let_def bind_eq_Some_conv split: if_splits)
  then show "bit (ac_options (sv_account S)) 1 \<longrightarrow> (\<forall>k \<in> set (sv_keywords S). \<exists>v. kw_val k = Some v \<and>
            \<not> strstr (cstr (sb_content m @ w_tail w)) v)"
    using keyword_search_False by blast
qed

lemma work_convert_pass:
  assumes "work_convert conv mem code m = Some (Inr m1)" and "work_fromcode (sb_msgfmt m) = Some code"
  shows "sb_msgfmt m1 = 11 \<and> m1 = m\<lparr>sb_length := sb_length m1, sb_msgfmt := 11, sb_content := sb_content m1\<rparr> \<and>
     (if sb_msgfmt m = 11 then m1 = m
      else sb_length m1 = int (length (sb_content m1)) \<and> 0 < sb_length m1 \<and>
        (\<exists>code. work_fromcode (sb_msgfmt m) = Some (Some code) \<and>
           conv (take (nat (sb_length m)) (sb_content m)) code ''UTF-8'' 512 = Some (sb_content m1)))"
  using assms by (auto simp: work_convert_def work_fromcode_def split: option.splits if_splits)

lemma work_filter_pass:
  assumes "work_filter e w S m st = Some (st', cmds, Inr m1)"
  shows "checked e w S m m1" and "st' = st"
proof -
  obtain code where code: "work_fromcode (sb_msgfmt m) = Some code"
    using assms by (cases "work_fromcode (sb_msgfmt m)") (auto simp: work_filter_def)
  then obtain st1 cmds1 hit where l: "work_lists e w S m st = Some (st1, cmds1, hit)"
    using assms by (auto simp: work_filter_def bind_eq_Some_conv)
  have hit: "\<not> hit" using assms code l by (auto simp: work_filter_def)
  then obtain c where c: "work_convert (se_conv e) (w_content w) code m = Some c"
    using assms code l by (auto simp: work_filter_def bind_eq_Some_conv)
  obtain m2 where m2: "c = Inr m2" using assms code l hit c by (cases c) (auto simp: work_filter_def)
  have lists: "work_lists e w S m st = Some (st1, cmds1, False)" using l hit by simp
  have conv: "work_convert (se_conv e) (w_content w) code m = Some (Inr m1)"
    and cont: "work_content e w S m1 st1 = Some (st', False)"
    using assms code l hit c m2 by (auto simp: work_filter_def bind_eq_Some_conv split: if_splits)
  note facts = work_lists_pass [OF lists] work_content_pass [OF cont] work_convert_pass [OF conv code]
  show "st' = st" using facts by simp
  show "checked e w S m m1" unfolding checked_def Let_def using facts by blast
qed

lemma work_submit_packet:
  assumes "work_submit e resp w S m = Some (S', out)" and "wo_packet out = Some packet"
  shows "\<exists>m1. checked e w S m m1 \<and> packet = htonl LAMB_SUBMIT @ se_pack e m1"
proof -
  obtain st cmds v where f: "work_filter e w S m ((sv_status S)\<lparr>st_toal := st_toal (sv_status S) + 1\<rparr>) = Some (st, cmds, v)"
    using assms(1) by (auto simp: work_submit_def bind_eq_Some_conv)
  with assms obtain m1 where v: "v = Inr m1"
    by (cases v) (auto simp: work_submit_def refuse_turn_def)
  have "packet = htonl LAMB_SUBMIT @ se_pack e m1"
    using assms f v
    by (auto simp: work_submit_def refuse_turn_def Let_def lamb_pack_assembly_def bind_eq_Some_conv
        split: if_splits option.splits)
  with work_filter_pass [OF f [unfolded v]] show ?thesis by blast
qed

lemma work_loop_cases:
  assumes "lamb_work_loop e resp w S = Some (S', out)"
  obtains "S' = S" "out = idle_turn"
  | body m where "\<not> sv_sleeping S" "\<not> sv_arrears S" "classify (w_buf w) = Frame LAMB_SUBMIT body"
      "se_unpack e body = Some m" "work_submit e resp w S m = Some (S', out)"
proof (cases "classify (w_buf w)")
  case Short
  with assms that(1) show ?thesis by (simp add: lamb_work_loop_def split: if_splits)
next
  case (Frame c body)
  with assms that show ?thesis
    by (cases "se_unpack e body") (auto simp: lamb_work_loop_def split: if_splits)
qed

text \<open>
  C8: Nothing reaches the scheduler unchecked. Whatever frame the work loop sends to it is a
  submit pulled from the mt process that passed every check its account has enabled: not on
  the black list, not unsubscribed, within the frequency limit, matching a template, free of
  keywords; it goes out in UTF-8, with only its content, length and format changed, and only
  while the account is neither reloading nor in arrears.
\<close>

theorem scheduled_is_checked:
  assumes "lamb_work_loop e resp w S = Some (S', out)" and "wo_packet out = Some packet"
  shows "\<not> sv_sleeping S \<and> \<not> sv_arrears S \<and>
     (\<exists>body m m1. classify (w_buf w) = Frame LAMB_SUBMIT body \<and> se_unpack e body = Some m \<and>
        checked e w S m m1 \<and> packet = htonl LAMB_SUBMIT @ se_pack e m1)"
proof (rule work_loop_cases [OF assms(1)])
  assume "S' = S" "out = idle_turn"
  then show ?thesis using assms(2) by (simp add: idle_turn_def)
next
  fix body m
  assume 1: "\<not> sv_sleeping S" "\<not> sv_arrears S" "classify (w_buf w) = Frame LAMB_SUBMIT body"
      "se_unpack e body = Some m" and "work_submit e resp w S m = Some (S', out)"
  from work_submit_packet [OF this(5) assms(2)] 1 show ?thesis by blast
qed

text \<open>An account with templates off and the keyword check on; its scheduler is first busy.\<close>

definition example_account :: lamb_account_t where
  "example_account = no_account\<lparr>ac_id := 7, ac_spcode := ''1069'', ac_company := 3, ac_options := 2\<rparr>"

definition no_status :: lamb_status_t where
  "no_status = \<lparr>st_toal = 0, st_sub = 0, st_rep = 0, st_delv = 0, st_fmt = 0, st_blk = 0, st_usb = 0,
     st_limt = 0, st_rejt = 0, st_tmp = 0, st_key = 0\<rparr>"

definition example_server :: server where
  "example_server = \<lparr>sv_status = no_status, sv_storage = [], sv_billing = [], sv_unsubscribe = [],
     sv_account = example_account, sv_company = \<lparr>co_id = 3, co_money = 10, co_status = 1\<rparr>,
     sv_templates = [], sv_keywords = [\<lparr>kw_id = 1, kw_val = Some ''win''\<rparr>],
     sv_sleeping = False, sv_arrears = False\<rparr>"

definition example_report :: Report where
  "example_report = \<lparr>rp_id = 0, rp_account = 7, rp_company = 3, rp_spcode = [], rp_phone = [],
     rp_status = 0, rp_submittime = [], rp_donetime = []\<rparr>"

definition example_upcodec :: upcodec where
  "example_upcodec = \<lparr>unpack_report = (\<lambda>b. Some (example_report\<lparr>rp_spcode := b\<rparr>)), unpack_deliver = (\<lambda>b. None),
     pack_report = rp_spcode, pack_deliver = dl_content\<rparr>"

definition example_server_env :: server_env where
  "example_server_env = \<lparr>se_aid = 7, se_conv = (\<lambda>s f t n. Some s), se_pcre = (\<lambda>p s n. True),
     se_unpack = (\<lambda>b. Some (example_submit b)), se_pack = sb_content, se_up = example_upcodec\<rparr>"

definition example_wturn :: "bytes \<Rightarrow> u32 list \<Rightarrow> wturn" where
  "example_wturn body answers =
     \<lparr>w_sent = True, w_buf = Some (htonl LAMB_SUBMIT @ body), w_blacklist = key_nodes 7 (\<lambda>i. {}),
      w_unsubscribe = key_nodes 7 (\<lambda>i. {}), w_frequency = count_nodes 7 (\<lambda>k. 0),
      w_answers = map (\<lambda>c. Some (Some (htonl c))) answers, w_tail = [NUL], w_content = True, w_pk = True,
      w_packet = True, w_rpk = True, w_rframe = True, w_bill = True, w_bnode = True,
      w_storage = True, w_snode = True\<rparr>"

lemma example_fromcode: "work_fromcode (sb_msgfmt (example_submit b)) = Some None"
  by (simp add: work_fromcode_def example_submit_def)

lemma example_content:
  "work_content example_server_env (example_wturn b ans) example_server (example_submit ''hello'') st = Some (st, False)"
  by (simp add: work_content_def example_server_def example_account_def example_wturn_def example_submit_def
      lamb_check_keyword_def cstr_def bit_iff_odd)

lemma example_lists: "work_lists example_server_env w example_server m st = Some (st, [], False)"
  by (simp add: work_lists_def example_server_def example_account_def bit_iff_odd)

lemma example_filter:
  "work_filter example_server_env (example_wturn b ans) example_server (example_submit ''hello'') st =
     Some (st, [], Inr (example_submit ''hello''))"
  by (simp add: work_filter_def example_lists work_convert_def example_content example_fromcode)

lemma example_work:
  "\<exists>S'. lamb_work_loop example_server_env example_report
       (example_wturn ''hello'' [LAMB_BUSY, LAMB_OK]) example_server =
     Some (S', \<lparr>wo_end = Accepted (example_submit ''hello''), wo_mo = [],
       wo_packet = Some (htonl LAMB_SUBMIT @ ''hello''), wo_cmds = []\<rparr>)"
proof -
  let ?w = "example_wturn ''hello'' [LAMB_BUSY, LAMB_OK]"
  have "work_schedule (w_answers ?w) = Some LAMB_OK"
    by (simp add: example_wturn_def commands)
  moreover have "\<exists>S'. work_record ?w S (example_submit ''hello'') = Some S'" for S
    by (auto simp: work_record_def storage_submit_def submit_store_def memcpy_z_def example_wturn_def
        example_submit_def Let_def)
  moreover have "w_sent ?w" "w_buf ?w = Some (htonl LAMB_SUBMIT @ ''hello'')" "w_pk ?w" "w_packet ?w"
    by (simp_all add: example_wturn_def)
  moreover have "\<not> sv_sleeping example_server" "\<not> sv_arrears example_server"
    "se_unpack example_server_env b = Some (example_submit b)" "se_pack example_server_env = sb_content" for b
    by (simp_all add: example_server_def example_server_env_def)
  ultimately show ?thesis
    by (auto simp: lamb_work_loop_def work_submit_def example_filter bind_eq_Some_conv)
      (simp_all add: example_submit_def)
qed

lemma scheduled_is_checked_witness:
  "\<exists>m m1. checked example_server_env (example_wturn ''hello'' [LAMB_BUSY, LAMB_OK]) example_server m m1 \<and>
     htonl LAMB_SUBMIT @ ''hello'' = htonl LAMB_SUBMIT @ se_pack example_server_env m1"
proof -
  obtain S' where "lamb_work_loop example_server_env example_report
       (example_wturn ''hello'' [LAMB_BUSY, LAMB_OK]) example_server =
     Some (S', \<lparr>wo_end = Accepted (example_submit ''hello''), wo_mo = [],
       wo_packet = Some (htonl LAMB_SUBMIT @ ''hello''), wo_cmds = []\<rparr>)"
    using example_work by blast
  from scheduled_is_checked [OF this] show ?thesis by auto
qed

end
