(* ===== verification/ServerWork.thy ===== *)
theory ServerWork
  imports Server
begin

text \<open>
  What the work loop of the server does over time (\<open>lamb_work_loop\<close> of
  \<open>src/src/server.c\<close>): every submit ends in exactly one way, the counters add up, an accepted
  submit is billed and stored once and in order, a refused one is answered once.
\<close>

subsection \<open>How a turn ends\<close>

definition accounted :: "lamb_status_t \<Rightarrow> u64" where
  "accounted st = st_sub st + st_fmt st + st_blk st + st_usb st + st_limt st + st_rejt st + st_tmp st + st_key st"

text \<open>The two ends no counter records: still waiting for the scheduler, and no route.\<close>

definition uncounted :: "wout \<Rightarrow> bool" where
  "uncounted out =
     (case wo_end out of
        Waiting m \<Rightarrow> True
      | Refused c m \<Rightarrow> c = 4 \<and> wo_packet out \<noteq> None
      | _ \<Rightarrow> False)"

definition took :: "wout \<Rightarrow> bool" where
  "took out \<longleftrightarrow> wo_end out \<noteq> Idle"

definition accepts :: "wout \<Rightarrow> Submit list" where
  "accepts out = (case wo_end out of Accepted m \<Rightarrow> [m] | _ \<Rightarrow> [])"

definition refusals :: "wout \<Rightarrow> (int \<times> Submit) list" where
  "refusals out = (case wo_end out of Refused c m \<Rightarrow> [(c, m)] | _ \<Rightarrow> [])"

definition refusal_report :: "server_env \<Rightarrow> Report \<Rightarrow> int \<times> Submit \<Rightarrow> bytes" where
  "refusal_report e resp r =
     htonl LAMB_REPORT @ pack_report (se_up e) (resp\<lparr>rp_id := sb_id (snd r), rp_phone := sb_phone (snd r),
        rp_spcode := sb_spcode (snd r), rp_status := fst r, rp_submittime := [], rp_donetime := []\<rparr>)"

definition bill_of :: "server \<Rightarrow> Submit \<Rightarrow> lamb_bill_t" where
  "bill_of S m = \<lparr>bl_id = co_id (sv_company S), bl_money = -1\<rparr>"

definition stored_of :: "server \<Rightarrow> Submit \<Rightarrow> stored" where
  "stored_of S m = St_submit (the (storage_submit S m))"

text \<open>What a turn leaves behind, for a turn whose allocations succeed.\<close>

definition turn_effect :: "server_env \<Rightarrow> Report \<Rightarrow> server \<Rightarrow> server \<Rightarrow> wout \<Rightarrow> bool" where
  "turn_effect e resp S S' out \<longleftrightarrow>
     sv_billing S' = sv_billing S @ map (bill_of S) (accepts out) \<and>
     sv_storage S' = sv_storage S @ map (stored_of S) (accepts out) \<and>
     wo_mo out = map (refusal_report e resp) (refusals out) \<and>
     st_toal (sv_status S') = st_toal (sv_status S) + (if took out then 1 else 0) \<and>
     accounted (sv_status S') = accounted (sv_status S) + (if took out \<and> \<not> uncounted out then 1 else 0) \<and>
     sv_account S' = sv_account S \<and> sv_company S' = sv_company S"

lemma accounted_update [simp]:
  "accounted (st\<lparr>st_toal := t\<rparr>) = accounted st"
  "accounted (st\<lparr>st_rep := t\<rparr>) = accounted st"
  "accounted (st\<lparr>st_delv := t\<rparr>) = accounted st"
  "accounted (st\<lparr>st_sub := st_sub st + 1\<rparr>) = accounted st + 1"
  "accounted (st\<lparr>st_fmt := st_fmt st + 1\<rparr>) = accounted st + 1"
  "accounted (st\<lparr>st_blk := st_blk st + 1\<rparr>) = accounted st + 1"
  "accounted (st\<lparr>st_usb := st_usb st + 1\<rparr>) = accounted st + 1"
  "accounted (st\<lparr>st_limt := st_limt st + 1\<rparr>) = accounted st + 1"
  "accounted (st\<lparr>st_rejt := st_rejt st + 1\<rparr>) = accounted st + 1"
  "accounted (st\<lparr>st_tmp := st_tmp st + 1\<rparr>) = accounted st + 1"
  "accounted (st\<lparr>st_key := st_key st + 1\<rparr>) = accounted st + 1"
  by (simp_all add: accounted_def)

lemma work_lists_status:
  assumes "work_lists e w S m st = Some (st', cmds, hit)"
  shows "st_toal st' = st_toal st" and "accounted st' = accounted st + (if hit then 1 else 0)"
  using assms by (auto simp: work_lists_def Let_def bind_eq_Some_conv split: if_splits)

lemma work_content_status:
  assumes "work_content e w S m st = Some (st', hit)"
  shows "st_toal st' = st_toal st" and "accounted st' = accounted st + (if hit then 1 else 0)"
  using assms by (auto simp: work_content_def Let_def bind_eq_Some_conv split: if_splits)

lemma work_convert_counted:
  "work_convert conv True code m = Some (Inl counted) \<Longrightarrow> counted"
  by (auto simp: work_convert_def split: option.splits if_splits)

lemma work_filter_status:
  assumes "work_filter e w S m st = Some (st', cmds, v)" and "w_content w"
  shows "st_toal st' = st_toal st" and "accounted st' = accounted st + (if isl v then 1 else 0)"
proof -
  have "st_toal st' = st_toal st \<and> accounted st' = accounted st + (if isl v then 1 else 0)"
  proof (cases "work_fromcode (sb_msgfmt m)")
    case None
    with assms show ?thesis by (auto simp: work_filter_def)
  next
    case (Some code)
    then obtain st1 cmds1 hit where l: "work_lists e w S m st = Some (st1, cmds1, hit)"
      using assms by (auto simp: work_filter_def bind_eq_Some_conv)
    note st1 = work_lists_status [OF l]
    show ?thesis
    proof (cases hit)
      case True
      with assms Some l st1 show ?thesis by (auto simp: work_filter_def)
    next
      case no_hit: False
      then obtain c where c: "work_convert (se_conv e) True code m = Some c"
        using assms Some l by (auto simp: work_filter_def bind_eq_Some_conv)
      show ?thesis
      proof (cases c)
        case (Inl counted)
        then have counted using c work_convert_counted by blast
        with assms Some l no_hit c Inl st1 show ?thesis
          by (auto simp: work_filter_def)
      next
        case (Inr m1)
        then obtain st2 hit2 where "work_content e w S m1 st1 = Some (st2, hit2)"
          using assms Some l no_hit c by (auto simp: work_filter_def bind_eq_Some_conv)
        from work_content_status [OF this] assms Some l no_hit c Inr st1 this show ?thesis
          by (auto simp: work_filter_def)
      qed
    qed
  qed
  then show "st_toal st' = st_toal st" and "accounted st' = accounted st + (if isl v then 1 else 0)" by blast+
qed

lemma refuse_turn_simps:
  "wo_end (refuse_turn e w resp m c p cmds) = Refused c m"
  "wo_packet (refuse_turn e w resp m c p cmds) = p"
  "w_ok w \<Longrightarrow> wo_mo (refuse_turn e w resp m c p cmds) = [refusal_report e resp (c, m)]"
  by (simp_all add: refuse_turn_def lamb_direct_response_def refusal_report_def w_ok_def Let_def)

lemmas turn_effect_simps = turn_effect_def refuse_turn_simps accepts_def refusals_def took_def uncounted_def

lemma work_record_ok:
  assumes "work_record w S m = Some S'" and "w_ok w"
  shows "sv_billing S' = sv_billing S @ [bill_of S m]" and "sv_storage S' = sv_storage S @ [stored_of S m]"
    and "sv_status S' = sv_status S" and "sv_account S' = sv_account S" and "sv_company S' = sv_company S"
  using assms by (auto simp: work_record_def w_ok_def bill_of_def stored_of_def storage_submit_def Let_def bind_eq_Some_conv)

lemma work_schedule_answer: "work_schedule as = Some c \<Longrightarrow> c = LAMB_OK \<or> c = LAMB_NOROUTE \<or> c = LAMB_REJECT"
  by (induction as) (auto split: option.splits frame.splits if_splits)

lemma answers_differ [simp]: "LAMB_OK \<noteq> LAMB_NOROUTE" "LAMB_OK \<noteq> LAMB_REJECT" "LAMB_NOROUTE \<noteq> LAMB_REJECT"
  "LAMB_NOROUTE \<noteq> LAMB_OK" "LAMB_REJECT \<noteq> LAMB_OK" "LAMB_REJECT \<noteq> LAMB_NOROUTE"
  by (simp_all add: commands)

lemma work_submit_effect:
  assumes "work_submit e resp w S m = Some (S', out)" and ok: "w_ok w"
  shows "turn_effect e resp S S' out \<and> took out"
proof -
  let ?st0 = "(sv_status S)\<lparr>st_toal := st_toal (sv_status S) + 1\<rparr>"
  have mem: "w_content w" "w_pk w" "w_packet w" using ok by (simp_all add: w_ok_def)
  obtain st cmds v where f: "work_filter e w S m ?st0 = Some (st, cmds, v)"
    using assms(1) by (auto simp: work_submit_def bind_eq_Some_conv)
  have toal: "st_toal st = st_toal (sv_status S) + 1"
    and acc: "accounted st = accounted (sv_status S) + (if isl v then 1 else 0)"
    using work_filter_status [OF f mem(1)] by simp_all
  show ?thesis
  proof (cases v)
    case (Inl c)
    then have "S' = S\<lparr>sv_status := st\<rparr>" "out = refuse_turn e w resp m c None cmds"
      using assms(1) f by (simp_all add: work_submit_def)
    then show ?thesis using toal acc Inl ok by (simp add: turn_effect_simps)
  next
    case (Inr m1)
    let ?S1 = "S\<lparr>sv_status := st\<rparr>" and ?p = "htonl LAMB_SUBMIT @ se_pack e m1"
    consider "work_schedule (w_answers w) = None" | "work_schedule (w_answers w) = Some LAMB_OK"
      | "work_schedule (w_answers w) = Some LAMB_NOROUTE" | "work_schedule (w_answers w) = Some LAMB_REJECT"
      by (cases "work_schedule (w_answers w)") (auto dest: work_schedule_answer)
    then show ?thesis
    proof cases
      case 1
      then have "S' = ?S1" "wo_end out = Waiting m1" "wo_mo out = []"
        using assms(1) f Inr mem by (auto simp: work_submit_def)
      then show ?thesis using toal acc Inr by (simp add: turn_effect_simps)
    next
      case 2
      let ?S2 = "?S1\<lparr>sv_status := st\<lparr>st_sub := st_sub st + 1\<rparr>\<rparr>"
      have r: "work_record w ?S2 m1 = Some S'" and out: "wo_end out = Accepted m1" "wo_mo out = []"
        using assms(1) f Inr mem 2 by (auto simp: work_submit_def bind_eq_Some_conv)
      show ?thesis using work_record_ok [OF r ok] out toal acc Inr
        by (simp add: turn_effect_simps bill_of_def stored_of_def storage_submit_def)
    next
      case 3
      then have "S' = ?S1" "out = refuse_turn e w resp m1 4 (Some ?p) cmds"
        using assms(1) f Inr mem by (simp_all add: work_submit_def)
      then show ?thesis using toal acc Inr ok by (simp add: turn_effect_simps)
    next
      case 4
      then have "S' = ?S1\<lparr>sv_status := st\<lparr>st_rejt := st_rejt st + 1\<rparr>\<rparr>" "out = refuse_turn e w resp m1 7 (Some ?p) cmds"
        using assms(1) f Inr mem by (simp_all add: work_submit_def)
      then show ?thesis using toal acc Inr ok by (simp add: turn_effect_simps)
    qed
  qed
qed

text \<open>What a turn of the work loop leaves alone: all its checks depend on.\<close>

definition same_rules :: "server \<Rightarrow> server \<Rightarrow> bool" where
  "same_rules V V' \<longleftrightarrow> sv_account V' = sv_account V \<and> sv_templates V' = sv_templates V \<and> sv_keywords V' = sv_keywords V \<and>
     sv_sleeping V' = sv_sleeping V \<and> sv_arrears V' = sv_arrears V"

lemma same_rules_refl [simp]: "same_rules V V" by (simp add: same_rules_def)

lemma same_rules_trans: "same_rules V V1 \<Longrightarrow> same_rules V1 V2 \<Longrightarrow> same_rules V V2"
  by (simp add: same_rules_def)

lemma work_record_rules: "work_record w V m = Some V' \<Longrightarrow> same_rules V V'"
  by (auto simp: work_record_def same_rules_def Let_def bind_eq_Some_conv split: if_splits)

lemma work_submit_rules:
  assumes "work_submit e resp w V m = Some (V', r)"
  shows "same_rules V V'"
proof -
  obtain st cmds v where f: "work_filter e w V m ((sv_status V)\<lparr>st_toal := st_toal (sv_status V) + 1\<rparr>) = Some (st, cmds, v)"
    using assms by (auto simp: work_submit_def bind_eq_Some_conv)
  have st: "same_rules V (V\<lparr>sv_status := x\<rparr>)" for x by (simp add: same_rules_def)
  have "same_rules V V1" if "work_record w (V\<lparr>sv_status := x\<rparr>) m1 = Some V1" for x m1 V1
    using same_rules_trans [OF st work_record_rules [OF that]] .
  with assms f st show ?thesis
    by (cases v) (auto simp: work_submit_def bind_eq_Some_conv Let_def split: option.splits if_splits)
qed

lemma work_loop_rules: "lamb_work_loop e resp w S = Some (S', out) \<Longrightarrow> same_rules S S'"
  by (erule work_loop_cases) (auto dest: work_submit_rules)

lemma work_loop_effect:
  assumes "lamb_work_loop e resp w S = Some (S', out)" and "w_ok w"
  shows "turn_effect e resp S S' out"
proof (rule work_loop_cases [OF assms(1)])
  assume "S' = S" "out = idle_turn"
  then show ?thesis by (simp add: turn_effect_simps idle_turn_def)
next
  fix body m
  assume "work_submit e resp w S m = Some (S', out)"
  from work_submit_effect [OF this assms(2)] show ?thesis by blast
qed

subsection \<open>Runs\<close>

lemma work_run_status:
  assumes "work_run e resp ws S = Some (S', outs)" and "list_all w_ok ws"
  shows "st_toal (sv_status S') = st_toal (sv_status S) + of_nat (length (filter took outs))"
    and "accounted (sv_status S') =
      accounted (sv_status S) + of_nat (length (filter (\<lambda>out. took out \<and> \<not> uncounted out) outs))"
proof -
  have "st_toal (sv_status S') = st_toal (sv_status S) + of_nat (length (filter took outs)) \<and>
     accounted (sv_status S') =
      accounted (sv_status S) + of_nat (length (filter (\<lambda>out. took out \<and> \<not> uncounted out) outs))"
    using assms
  proof (induction ws arbitrary: S outs)
    case Nil
    then show ?case by simp
  next
    case (Cons w ws)
    then obtain S1 out outs1 where l: "lamb_work_loop e resp w S = Some (S1, out)"
      and r: "work_run e resp ws S1 = Some (S', outs1)" and outs: "outs = out # outs1"
      by (auto simp: bind_eq_Some_conv)
    have "turn_effect e resp S S1 out" using work_loop_effect [OF l] Cons.prems(2) by simp
    with Cons.IH [OF r] Cons.prems(2) outs show ?case by (simp add: turn_effect_def)
  qed
  then show "st_toal (sv_status S') = st_toal (sv_status S) + of_nat (length (filter took outs))"
    and "accounted (sv_status S') =
      accounted (sv_status S) + of_nat (length (filter (\<lambda>out. took out \<and> \<not> uncounted out) outs))" by blast+
qed

lemma uncounted_took: "uncounted out \<Longrightarrow> took out"
  by (cases "wo_end out") (simp_all add: uncounted_def took_def)

lemma length_filter_split:
  assumes "\<And>x. Q x \<Longrightarrow> P x"
  shows "length (filter P xs) = length (filter (\<lambda>x. P x \<and> \<not> Q x) xs) + length (filter Q xs)"
  using assms by (induction xs) auto

text \<open>
  C24: The counters of the server balance. Over any run of the work loop with enough memory,
  every submit it took is in exactly one of the counters for passed on, refused format, black
  list, unsubscribed, limited, rejected, template and keyword, except for those the scheduler
  had no route for and the one it is still waiting on, which no counter records; all modulo
  2 to the 64.
\<close>

theorem server_counters_balance:
  assumes "work_run e resp ws S = Some (S', outs)" and "list_all w_ok ws"
  shows "st_toal (sv_status S') + accounted (sv_status S) =
     st_toal (sv_status S) + accounted (sv_status S') + of_nat (length (filter uncounted outs))"
proof -
  have "(of_nat (length (filter took outs)) :: u64) =
      of_nat (length (filter (\<lambda>out. took out \<and> \<not> uncounted out) outs)) + of_nat (length (filter uncounted outs))"
    using length_filter_split [of uncounted took outs] uncounted_took by simp
  with work_run_status [OF assms] show ?thesis by simp
qed

lemma work_run_effect:
  assumes "work_run e resp ws S = Some (S', outs)" and "list_all w_ok ws"
  shows "sv_billing S' = sv_billing S @ map (bill_of S) (concat (map accepts outs)) \<and>
     sv_storage S' = sv_storage S @ map (stored_of S) (concat (map accepts outs)) \<and>
     concat (map wo_mo outs) = map (refusal_report e resp) (concat (map refusals outs)) \<and>
     sv_account S' = sv_account S \<and> sv_company S' = sv_company S"
  using assms
proof (induction ws arbitrary: S outs)
  case Nil
  then show ?case by simp
next
  case (Cons w ws)
  then obtain S1 out outs1 where l: "lamb_work_loop e resp w S = Some (S1, out)"
    and r: "work_run e resp ws S1 = Some (S', outs1)" and outs: "outs = out # outs1"
    by (auto simp: bind_eq_Some_conv)
  have eff: "turn_effect e resp S S1 out" using work_loop_effect [OF l] Cons.prems(2) by simp
  then have "bill_of S1 = bill_of S" "stored_of S1 = stored_of S"
    by (auto simp: turn_effect_def bill_of_def stored_of_def storage_submit_def)
  with Cons.IH [OF r] Cons.prems(2) outs eff show ?case by (simp add: turn_effect_def)
qed

text \<open>
  The ledger of the work loop. Over any run with enough memory the billing list grows by
  one charge for each submit the scheduler accepted, the storage list by that submit with the
  account and company of the server, both in the order of acceptance, and the mo process gets
  exactly one report, with the cause, for each submit refused; nothing else is billed, stored
  or reported.
\<close>

theorem server_work_ledger:
  assumes "work_run e resp ws S = Some (S', outs)" and "list_all w_ok ws"
  shows "sv_billing S' = sv_billing S @ map (bill_of S) (concat (map accepts outs)) \<and>
     sv_storage S' = sv_storage S @ map (stored_of S) (concat (map accepts outs)) \<and>
     concat (map wo_mo outs) = map (refusal_report e resp) (concat (map refusals outs))"
  using work_run_effect [OF assms] by blast

lemma example_run:
  "\<exists>S'. work_run example_server_env example_report [example_wturn ''hello'' [LAMB_BUSY, LAMB_OK]] example_server =
     Some (S', [\<lparr>wo_end = Accepted (example_submit ''hello''), wo_mo = [],
       wo_packet = Some (htonl LAMB_SUBMIT @ ''hello''), wo_cmds = []\<rparr>])"
  using example_work by auto

lemma example_w_ok: "w_ok (example_wturn b ans)"
  by (simp add: w_ok_def example_wturn_def)

lemma server_counters_balance_witness:
  "\<exists>S' outs. work_run example_server_env example_report [example_wturn ''hello'' [LAMB_BUSY, LAMB_OK]] example_server =
       Some (S', outs) \<and> st_toal (sv_status S') = accounted (sv_status S')"
proof -
  obtain S' where r: "work_run example_server_env example_report [example_wturn ''hello'' [LAMB_BUSY, LAMB_OK]] example_server =
     Some (S', [\<lparr>wo_end = Accepted (example_submit ''hello''), wo_mo = [],
       wo_packet = Some (htonl LAMB_SUBMIT @ ''hello''), wo_cmds = []\<rparr>])"
    using example_run by blast
  have "st_toal (sv_status S') = accounted (sv_status S')"
    using server_counters_balance [OF r] example_w_ok
    by (simp add: uncounted_def example_server_def no_status_def accounted_def)
  with r show ?thesis by blast
qed

lemma server_work_ledger_witness:
  "\<exists>S'. work_run example_server_env example_report [example_wturn ''hello'' [LAMB_BUSY, LAMB_OK]] example_server =
       Some (S', [\<lparr>wo_end = Accepted (example_submit ''hello''), wo_mo = [],
         wo_packet = Some (htonl LAMB_SUBMIT @ ''hello''), wo_cmds = []\<rparr>]) \<and>
     sv_billing S' = [\<lparr>bl_id = 3, bl_money = -1\<rparr>] \<and> length (sv_storage S') = 1"
proof -
  obtain S' where r: "work_run example_server_env example_report [example_wturn ''hello'' [LAMB_BUSY, LAMB_OK]] example_server =
     Some (S', [\<lparr>wo_end = Accepted (example_submit ''hello''), wo_mo = [],
       wo_packet = Some (htonl LAMB_SUBMIT @ ''hello''), wo_cmds = []\<rparr>])"
    using example_run by blast
  from server_work_ledger [OF r] example_w_ok r show ?thesis
    by (auto simp: accepts_def bill_of_def example_server_def)
qed

subsection \<open>A long message overflows\<close>

lemma work_filter_plain:
  assumes "ac_options (sv_account S) = 0" and "work_fromcode (sb_msgfmt m) = Some (Some code)" and "w_content w"
    and "sb_length m = int (length (sb_content m))"
    and "se_conv e (sb_content m) code ''UTF-8'' 512 = Some out" and "out \<noteq> []"
  shows "work_filter e w S m st =
    Some (st, [], Inr (m\<lparr>sb_length := int (length out), sb_msgfmt := 11, sb_content := out\<rparr>))"
  using assms by (simp add: work_filter_def work_lists_def work_convert_def work_content_def)

text \<open>
  C25: A converted message longer than the storage field overflows it. For an account without
  options, a submit in one of the converted formats that the scheduler accepts is recorded
  without undefined behaviour exactly when its text is at most 160 bytes of UTF-8; the
  conversion buffer holds 512, and 54 Chinese characters already take 162.
\<close>

theorem server_storage_overflow:
  assumes "\<not> sv_sleeping S" and "\<not> sv_arrears S" and "w_sent w" and "w_ok w"
    and "w_buf w = Some (htonl LAMB_SUBMIT @ body)" and "se_unpack e body = Some m"
    and "ac_options (sv_account S) = 0" and "work_fromcode (sb_msgfmt m) = Some (Some code)"
    and "sb_length m = int (length (sb_content m))"
    and "se_conv e (sb_content m) code ''UTF-8'' 512 = Some out" and "out \<noteq> []"
    and "work_schedule (w_answers w) = Some LAMB_OK"
  shows "lamb_work_loop e resp w S \<noteq> None \<longleftrightarrow> length out \<le> 160"
proof -
  have mem: "w_content w" "w_pk w" "w_packet w" "w_storage w" using assms(4) by (simp_all add: w_ok_def)
  let ?m = "m\<lparr>sb_length := int (length out), sb_msgfmt := 11, sb_content := out\<rparr>"
  note f = work_filter_plain [OF assms(7,8) mem(1) assms(9-11)]
  have rec: "(work_record w S0 ?m = None) \<longleftrightarrow> 160 < length out" for S0
    using mem(4) by (auto simp: work_record_def storage_submit_def submit_store_def memcpy_z_def Let_def)
  have loop: "lamb_work_loop e resp w S = work_submit e resp w S m"
    using assms by (simp add: lamb_work_loop_def)
  let ?st = "(sv_status S)\<lparr>st_toal := st_toal (sv_status S) + 1\<rparr>"
  let ?S0 = "S\<lparr>sv_status := ?st\<lparr>st_sub := st_sub ?st + 1\<rparr>\<rparr>"
  let ?out = "\<lparr>wo_end = Accepted ?m, wo_mo = [], wo_packet = Some (htonl LAMB_SUBMIT @ se_pack e ?m), wo_cmds = []\<rparr>"
  have "work_submit e resp w S m = Option.bind (work_record w ?S0 ?m) (\<lambda>S2. Some (S2, ?out))"
    using assms(12) mem by (simp add: work_submit_def f)
  then show ?thesis unfolding loop by (simp add: bind_eq_None_conv rec not_less del: not_None_eq)
qed

definition long_env :: server_env where
  "long_env = example_server_env\<lparr>se_conv := (\<lambda>s f t n. Some (concat (replicate 54 tui))),
     se_unpack := (\<lambda>b. Some ((example_submit (replicate 108 CHR ''x''))\<lparr>sb_msgfmt := 8\<rparr>))\<rparr>"

lemma server_storage_overflow_witness:
  "lamb_work_loop long_env example_report (example_wturn [] [LAMB_OK])
     (example_server\<lparr>sv_account := no_account\<rparr>) = None"
proof -
  have "length (concat (replicate 54 tui)) = 162" by (simp add: length_concat tui_def sum_list_replicate)
  moreover have "lamb_work_loop long_env example_report (example_wturn [] [LAMB_OK])
     (example_server\<lparr>sv_account := no_account\<rparr>) \<noteq> None \<longleftrightarrow> length (concat (replicate 54 tui)) \<le> 160"
    by (rule server_storage_overflow [where body = "[]" and code = "''UCS-2BE''"
          and m = "(example_submit (replicate 108 CHR ''x''))\<lparr>sb_msgfmt := 8\<rparr>"])
      (simp_all add: long_env_def example_wturn_def example_server_def w_ok_def no_account_def work_fromcode_def
        example_submit_def tui_def)
  ultimately show ?thesis by linarith
qed

end
