(* ===== verification/Config.thy ===== *)
theory Config
  imports Prelude "HOL-Library.Monad_Syntax"
begin

text \<open>
  Configuration files (\<open>src/src/config.c\<close> and the \<open>lamb_read_config\<close> of each program).

  The libconfig library is the parameter \<open>cfgfile\<close>: whether the file can be read and what a
  typed lookup finds. The struct \<open>lamb_config_t\<close> of a program is its fields by name: character
  arrays, integers, booleans and the strings of \<open>nodes\<close>. A \<open>lamb_read_config\<close> is the list of
  its statements, in order (\<open>cstep\<close>), each with the message it prints when it fails; all but
  the ones marked optional then leave through the label \<open>error\<close>.
\<close>

record cfgfile =
  cf_readable :: bool
  cf_string :: "string \<Rightarrow> string option"
  cf_int :: "string \<Rightarrow> int option"
  cf_int64 :: "string \<Rightarrow> int option"
  cf_bool :: "string \<Rightarrow> int option"

subsection \<open>The getters\<close>

definition lamb_read_file :: "cfgfile option \<Rightarrow> int" where
  "lamb_read_file cfg = (case cfg of None \<Rightarrow> -1 | Some c \<Rightarrow> if cf_readable c then 0 else -1)"

definition lamb_get_string :: "cfgfile \<Rightarrow> string \<Rightarrow> bytes \<Rightarrow> nat \<Rightarrow> int \<times> bytes" where
  "lamb_get_string cfg key val len =
     (case cf_string cfg key of None \<Rightarrow> (-1, val) | Some buff \<Rightarrow> (0, strncpy_buf val buff len))"

definition lamb_get_int :: "cfgfile \<Rightarrow> string \<Rightarrow> int \<Rightarrow> int \<times> int" where
  "lamb_get_int cfg key val = (case cf_int cfg key of None \<Rightarrow> (-1, val) | Some v \<Rightarrow> (0, v))"

definition lamb_get_int64 :: "cfgfile \<Rightarrow> string \<Rightarrow> int \<Rightarrow> int \<times> int" where
  "lamb_get_int64 cfg key val = (case cf_int64 cfg key of None \<Rightarrow> (-1, val) | Some v \<Rightarrow> (0, v))"

definition lamb_get_bool :: "cfgfile \<Rightarrow> string \<Rightarrow> bool \<Rightarrow> int \<times> bool" where
  "lamb_get_bool cfg key val = (case cf_bool cfg key of None \<Rightarrow> (-1, val) | Some v \<Rightarrow> (0, v \<noteq> 0))"

definition lamb_config_destroy :: "cfgfile option \<Rightarrow> int" where
  "lamb_config_destroy cfg = (if cfg \<noteq> None then 0 else -1)"

subsection \<open>The statements of \<open>lamb_read_config\<close>\<close>

record lamb_config_t =
  c_buf :: "string \<Rightarrow> bytes"
  c_int :: "string \<Rightarrow> int"
  c_bool :: "string \<Rightarrow> bool"
  c_nodes :: "nat \<Rightarrow> string option"

text \<open>
  \<open>GetIntLong\<close> reads an \<open>int\<close> into a \<open>long\<close> through a cast pointer: the low four bytes.
  \<open>GetNode\<close> reads into the 32-byte local \<open>node\<close> and keeps a copy of the string in it.
\<close>

datatype cstep =
    GetInt string string string
  | GetIntLong string string string
  | GetInt64 string string string
  | GetBool string string string
  | GetString string string nat string bool
  | GetNode string nat string
  | CheckPort string string

record rstate =
  rs_conf :: lamb_config_t
  rs_node :: bytes
  rs_log :: "string list"

definition logged :: "string \<Rightarrow> rstate \<Rightarrow> rstate" where
  "logged msg st = st\<lparr>rs_log := rs_log st @ [msg]\<rparr>"

text \<open>
  One statement: the state after it and whether it jumps to \<open>error\<close>. \<open>None\<close> is undefined
  behaviour, copying a \<open>node\<close> without a NUL. \<open>dup i\<close> says whether \<open>lamb_strdup\<close> gets memory.
\<close>

definition config_step :: "(nat \<Rightarrow> bool) \<Rightarrow> cfgfile \<Rightarrow> cstep \<Rightarrow> rstate \<Rightarrow> (rstate \<times> bool) option" where
  "config_step dup cfg s st =
     (let conf = rs_conf st
      in case s of
           GetInt key f msg \<Rightarrow>
             (let (rc, v) = lamb_get_int cfg key (c_int conf f)
              in Some (if rc \<noteq> 0 then (logged msg st, True)
                       else (st\<lparr>rs_conf := conf\<lparr>c_int := (c_int conf)(f := v)\<rparr>\<rparr>, False)))
         | GetIntLong key f msg \<Rightarrow>
             (let old = c_int conf f; (rc, v) = lamb_get_int cfg key 0
              in Some (if rc \<noteq> 0 then (logged msg st, True)
                       else (st\<lparr>rs_conf := conf\<lparr>c_int := (c_int conf)(f := old div 2 ^ 32 * 2 ^ 32 + v mod 2 ^ 32)\<rparr>\<rparr>, False)))
         | GetInt64 key f msg \<Rightarrow>
             (let (rc, v) = lamb_get_int64 cfg key (c_int conf f)
              in Some (if rc \<noteq> 0 then (logged msg st, True)
                       else (st\<lparr>rs_conf := conf\<lparr>c_int := (c_int conf)(f := v)\<rparr>\<rparr>, False)))
         | GetBool key f msg \<Rightarrow>
             (let (rc, v) = lamb_get_bool cfg key (c_bool conf f)
              in Some (if rc \<noteq> 0 then (logged msg st, True)
                       else (st\<lparr>rs_conf := conf\<lparr>c_bool := (c_bool conf)(f := v)\<rparr>\<rparr>, False)))
         | GetString key f len msg fatal \<Rightarrow>
             (let (rc, v) = lamb_get_string cfg key (c_buf conf f) len
              in Some (if rc \<noteq> 0 then (logged msg st, fatal)
                       else (st\<lparr>rs_conf := conf\<lparr>c_buf := (c_buf conf)(f := v)\<rparr>\<rparr>, False)))
         | GetNode key i msg \<Rightarrow>
             (let (rc, v) = lamb_get_string cfg key (rs_node st) 32
              in if rc \<noteq> 0 then Some (logged msg st, True)
                 else if \<not> terminated v then None
                 else Some (st\<lparr>rs_node := v,
                              rs_conf := conf\<lparr>c_nodes := (c_nodes conf)(i := (if dup i then Some (cstr v) else None))\<rparr>\<rparr>,
                            False))
         | CheckPort f msg \<Rightarrow>
             Some (if c_int conf f < 1 \<or> c_int conf f > 65535 then (logged msg st, True) else (st, False)))"

primrec config_steps :: "(nat \<Rightarrow> bool) \<Rightarrow> cfgfile \<Rightarrow> cstep list \<Rightarrow> rstate \<Rightarrow> (rstate \<times> bool) option" where
  "config_steps dup cfg [] st = Some (st, False)"
| "config_steps dup cfg (s # ss) st = do {
     (st1, err) \<leftarrow> config_step dup cfg s st;
     (if err then Some (st1, True) else config_steps dup cfg ss st1) }"

text \<open>
  The frame all programs share; \<open>opening\<close> is the message when the file cannot be read. The
  values are the return code, the struct (filled as far as the code came) and what was
  printed. A NULL struct is refused at once.
\<close>

definition lamb_read_config ::
  "(string \<Rightarrow> string) \<Rightarrow> cstep list \<Rightarrow> (nat \<Rightarrow> bool) \<Rightarrow> cfgfile \<Rightarrow> string \<Rightarrow> lamb_config_t option \<Rightarrow>
   (int \<times> lamb_config_t option \<times> string list) option" where
  "lamb_read_config opening steps dup cfg file conf =
     (case conf of
        None \<Rightarrow> Some (-1, None, [])
      | Some cf \<Rightarrow>
          (if lamb_read_file (Some cfg) \<noteq> 0 then Some (-1, conf, [opening file])
           else do {
             (st, err) \<leftarrow> config_steps dup cfg steps \<lparr>rs_conf = cf, rs_node = zeroed 32, rs_log = []\<rparr>;
             Some (if err then -1 else 0, Some (rs_conf st), rs_log st) }))"

definition cannot_open :: "string \<Rightarrow> string" where
  "cannot_open file = ''Can'' @ [CHR 0x27] @ ''t open the '' @ file @ '' configuration file''"

definition daemon_cannot_open :: "string \<Rightarrow> string" where
  "daemon_cannot_open file = ''Can'' @ [CHR 0x27] @ ''t open '' @ file @ '' configuration file''"

definition cant_read :: "string \<Rightarrow> string" where
  "cant_read key = ''Can'' @ [CHR 0x27] @ ''t read config '' @ quoted key @ '' parameter''"

subsection \<open>The programs\<close>

definition mt_config :: "cstep list" where
  "mt_config =
     [GetInt ''Id'' ''id'' (cant_read ''Id''),
      GetBool ''Debug'' ''debug'' (cant_read ''Debug''),
      GetString ''Listen'' ''listen'' 16 ''Invalid Listen IP address'' True,
      GetInt ''Port'' ''port'' (cant_read ''Port''),
      GetInt64 ''Timeout'' ''timeout'' (cant_read ''Timeout''),
      GetString ''Ac'' ''ac'' 128 (cant_read ''Ac'') True,
      GetString ''RedisHost'' ''redis_host'' 16 (cant_read ''RedisHost'') True,
      GetInt ''RedisPort'' ''redis_port'' (cant_read ''RedisPort''),
      CheckPort ''redis_port'' ''Invalid redis port number'',
      GetString ''RedisPassword'' ''redis_password'' 64 (cant_read ''RedisPassword'') True,
      GetInt ''RedisDb'' ''redis_db'' (cant_read ''RedisDb''),
      GetString ''LogFile'' ''logfile'' 128 (cant_read ''LogFile'') True]"

definition mo_config :: "cstep list" where
  "mo_config =
     [GetInt ''Id'' ''id'' (cant_read ''Id''),
      GetBool ''Debug'' ''debug'' (cant_read ''Debug''),
      GetString ''Listen'' ''listen'' 16 ''Invalid Listen IP address'' True,
      GetInt ''Port'' ''port'' (cant_read ''Port''),
      GetInt64 ''Timeout'' ''timeout'' (cant_read ''Timeout''),
      GetString ''LogFile'' ''logfile'' 128 (cant_read ''LogFile'') True,
      GetString ''RedisHost'' ''redis_host'' 16 (cant_read ''RedisHost'') True,
      GetInt ''RedisPort'' ''redis_port'' (cant_read ''RedisPort''),
      CheckPort ''redis_port'' ''Invalid redis port number'',
      GetString ''RedisPassword'' ''redis_password'' 64 (cant_read ''RedisPassword'') True,
      GetInt ''RedisDb'' ''redis_db'' (cant_read ''RedisDb''),
      GetString ''Ac'' ''ac'' 128 (cant_read ''Ac'') False]"

definition scheduler_config :: "cstep list" where
  "scheduler_config =
     [GetInt ''Id'' ''id'' (cant_read ''Id''),
      GetBool ''Debug'' ''debug'' (cant_read ''Debug''),
      GetString ''Listen'' ''listen'' 16 ''Invalid Listen IP address'' True,
      GetInt ''Port'' ''port'' (cant_read ''Port''),
      GetInt64 ''Timeout'' ''timeout'' (cant_read ''Timeout''),
      GetString ''Ac'' ''ac'' 128 (cant_read ''Ac'') False,
      GetString ''DbHost'' ''db_host'' 16 (cant_read ''DbHost'') True,
      GetInt ''DbPort'' ''db_port'' (cant_read ''DbPort''),
      CheckPort ''db_port'' ''Invalid database port number'',
      GetString ''DbUser'' ''db_user'' 64 (cant_read ''DbUser'') True,
      GetString ''DbPassword'' ''db_password'' 64 (cant_read ''DbPassword'') True,
      GetString ''DbName'' ''db_name'' 64 (cant_read ''DbName'') True,
      GetString ''LogFile'' ''logfile'' 128 (cant_read ''LogFile'') True]"

definition delivery_config :: "cstep list" where
  "delivery_config =
     [GetInt ''Id'' ''id'' (cant_read ''Id''),
      GetBool ''Debug'' ''debug'' (cant_read ''Debug''),
      GetString ''Listen'' ''listen'' 16 ''Invalid Listen IP address'' True,
      GetInt ''Port'' ''port'' (cant_read ''Port''),
      GetInt64 ''Timeout'' ''timeout'' (cant_read ''Timeout''),
      GetString ''Ac'' ''ac'' 128 (cant_read ''Ac'') False,
      GetString ''RedisHost'' ''redis_host'' 16 (cant_read ''RedisHost'') True,
      GetInt ''RedisPort'' ''redis_port'' (cant_read ''RedisPort''),
      CheckPort ''redis_port'' ''Invalid redis port number'',
      GetString ''RedisPassword'' ''redis_password'' 64 (cant_read ''RedisPassword'') True,
      GetInt ''RedisDb'' ''redis_db'' (cant_read ''RedisDb''),
      GetString ''DbHost'' ''db_host'' 16 (cant_read ''DbHost'') True,
      GetInt ''DbPort'' ''db_port'' (cant_read ''DbPort''),
      CheckPort ''db_port'' ''Invalid database port number'',
      GetString ''DbUser'' ''db_user'' 64 (cant_read ''DbUser'') True,
      GetString ''DbPassword'' ''db_password'' 64 (cant_read ''DbPassword'') True,
      GetString ''DbName'' ''db_name'' 64 (cant_read ''DbName'') True,
      GetString ''MsgHost'' ''msg_host'' 16 (cant_read ''MsgHost'') True,
      GetInt ''MsgPort'' ''msg_port'' (cant_read ''MsgPort''),
      CheckPort ''msg_port'' (''Invalid '' @ quoted ''MsgPort'' @ '' port number''),
      GetString ''MsgUser'' ''msg_user'' 64 (cant_read ''MsgUser'') True,
      GetString ''MsgPassword'' ''msg_password'' 64 (cant_read ''MsgPassword'') True,
      GetString ''MsgName'' ''msg_name'' 64 (cant_read ''MsgName'') True,
      GetString ''LogFile'' ''logfile'' 128 (cant_read ''LogFile'') True]"

definition server_config :: "cstep list" where
  "server_config =
     [GetInt ''Id'' ''id'' (cant_read ''Id''),
      GetBool ''Debug'' ''debug'' (cant_read ''Debug''),
      GetInt64 ''Timeout'' ''timeout'' (cant_read ''Timeout''),
      GetInt ''WorkThreads'' ''work_threads'' (cant_read ''WorkThreads''),
      GetString ''LogFile'' ''logfile'' 128 (cant_read ''LogFile'') True,
      GetString ''RedisHost'' ''redis_host'' 16 (cant_read ''RedisHost'') True,
      GetInt ''RedisPort'' ''redis_port'' (cant_read ''RedisPort''),
      CheckPort ''redis_port'' ''Invalid redis port number'',
      GetString ''RedisPassword'' ''redis_password'' 64 (cant_read ''RedisPassword'') True,
      GetInt ''RedisDb'' ''redis_db'' (cant_read ''RedisDb''),
      GetString ''Ac'' ''ac'' 128 ''Invalid AC server address'' True,
      GetString ''Mt'' ''mt'' 128 ''Invalid read MT server address'' True,
      GetString ''Mo'' ''mo'' 128 ''Invalid MO server address'' True,
      GetString ''Scheduler'' ''scheduler'' 128 ''Invalid scheduler server address'' True,
      GetString ''Deliver'' ''deliver'' 128 ''Invalid deliver server address'' True,
      GetString ''DbHost'' ''db_host'' 16 (cant_read ''DbHost'') True,
      GetInt ''DbPort'' ''db_port'' (cant_read ''DbPort''),
      CheckPort ''db_port'' ''Invalid database port number'',
      GetString ''DbUser'' ''db_user'' 64 (cant_read ''DbUser'') True,
      GetString ''DbPassword'' ''db_password'' 64 (cant_read ''DbPassword'') True,
      GetString ''DbName'' ''db_name'' 64 (cant_read ''DbName'') True,
      GetString ''MsgHost'' ''msg_host'' 16 (cant_read ''MsgHost'') True,
      GetInt ''MsgPort'' ''msg_port'' (cant_read ''MsgPort''),
      CheckPort ''msg_port'' (''Invalid '' @ quoted ''MsgPort'' @ '' port number''),
      GetString ''MsgUser'' ''msg_user'' 64 (cant_read ''MsgUser'') True,
      GetString ''MsgPassword'' ''msg_password'' 64 (cant_read ''MsgPassword'') True,
      GetString ''MsgName'' ''msg_name'' 64 (cant_read ''MsgName'') True,
      GetNode ''node1'' 0 (cant_read ''node1''),
      GetNode ''node2'' 1 (cant_read ''node2''),
      GetNode ''node3'' 2 (cant_read ''node3''),
      GetNode ''node4'' 3 (cant_read ''node4''),
      GetNode ''node5'' 4 (cant_read ''node5''),
      GetNode ''node6'' 5 (cant_read ''node1''),
      GetNode ''node7'' 6 (cant_read ''node7'')]"

definition sp_config :: "cstep list" where
  "sp_config =
     [GetInt ''Id'' ''id'' (cant_read ''Id''),
      GetBool ''Debug'' ''debug'' (cant_read ''Debug''),
      GetIntLong ''Timeout'' ''timeout'' (cant_read ''Timeout''),
      GetInt ''Retry'' ''retry'' (cant_read ''Retry''),
      GetInt ''Interval'' ''interval'' (cant_read ''Interval''),
      GetIntLong ''SendTimeout'' ''send_timeout'' (cant_read ''SendTimeout''),
      GetIntLong ''RecvTimeout'' ''recv_timeout'' (cant_read ''RecvTimeout''),
      GetIntLong ''AcknowledgeTimeout'' ''acknowledge_timeout'' (cant_read ''AcknowledgeTimeout''),
      GetString ''RedisHost'' ''redis_host'' 16 (cant_read ''RedisHost'') True,
      GetInt ''RedisPort'' ''redis_port'' (cant_read ''RedisPort''),
      CheckPort ''redis_port'' ''Invalid redis port number'',
      GetString ''RedisPassword'' ''redis_password'' 64 (cant_read ''RedisPassword'') True,
      GetInt ''RedisDb'' ''redis_db'' (cant_read ''RedisDb''),
      GetString ''LogFile'' ''logfile'' 128 (cant_read ''LogFile'') True,
      GetString ''Ac'' ''ac'' 128 (cant_read ''Ac'') False,
      GetString ''Scheduler'' ''scheduler'' 128 ''Invalid Scheduler server address'' True,
      GetString ''Delivery'' ''delivery'' 128 ''Invalid Delivery server address'' True,
      GetString ''DbHost'' ''db_host'' 16 (cant_read ''DbHost'') True,
      GetInt ''DbPort'' ''db_port'' (cant_read ''DbPort''),
      CheckPort ''db_port'' ''Invalid database port number'',
      GetString ''DbUser'' ''db_user'' 64 (cant_read ''DbUser'') True,
      GetString ''DbPassword'' ''db_password'' 64 (cant_read ''DbPassword'') True,
      GetString ''DbName'' ''db_name'' 64 (cant_read ''DbName'') True,
      GetNode ''node1'' 0 (cant_read ''node1''),
      GetNode ''node2'' 1 (cant_read ''node2''),
      GetNode ''node3'' 2 (cant_read ''node3''),
      GetNode ''node4'' 3 (cant_read ''node4''),
      GetNode ''node5'' 4 (cant_read ''node5''),
      GetNode ''node6'' 5 (cant_read ''node1''),
      GetNode ''node7'' 6 (cant_read ''node7'')]"

definition ismg_config :: "cstep list" where
  "ismg_config =
     [GetInt ''Id'' ''id'' (cant_read ''Id''),
      GetBool ''Debug'' ''debug'' (cant_read ''Debug''),
      GetString ''Listen'' ''listen'' 16 ''Invalid Listen IP address'' True,
      GetInt ''Port'' ''port'' (cant_read ''Port''),
      CheckPort ''port'' ''Invalid listen port number'',
      GetInt ''Connections'' ''connections'' (cant_read ''Connections''),
      GetIntLong ''Timeout'' ''timeout'' (cant_read ''Timeout''),
      GetIntLong ''RecvTimeout'' ''recv_timeout'' (cant_read ''RecvTimeout''),
      GetIntLong ''SendTimeout'' ''send_timeout'' (cant_read ''SendTimeout''),
      GetIntLong ''AcknowledgeTimeout'' ''acknowledge_timeout'' (cant_read ''AcknowledgeTimeout''),
      GetString ''Ac'' ''ac'' 128 (cant_read ''Ac'') False,
      GetString ''Mt'' ''mt'' 128 ''Invalid MT server address'' True,
      GetString ''Mo'' ''mo'' 128 ''Invalid MO server address'' True,
      GetString ''LogFile'' ''logfile'' 128 (cant_read ''LogFile'') True]"

definition daemon_config :: "cstep list" where
  "daemon_config =
     [GetInt ''Id'' ''id'' (cant_read ''Id''),
      GetInt64 ''Timeout'' ''timeout'' (cant_read ''Timeout''),
      GetString ''LogFile'' ''logfile'' 128 (cant_read ''LogFile'') True,
      GetString ''DbHost'' ''db_host'' 16 (cant_read ''DbHost'') True,
      GetInt ''DbPort'' ''db_port'' (cant_read ''DbPort''),
      CheckPort ''db_port'' ''Invalid DB port number'',
      GetString ''DbUser'' ''db_user'' 64 (cant_read ''DbUser'') True,
      GetString ''DbPassword'' ''db_password'' 64 (cant_read ''DbPassword'') True,
      GetString ''DbName'' ''db_name'' 64 (cant_read ''DbName'') True,
      GetString ''Module'' ''module'' 254 (cant_read ''Module'') True,
      GetString ''Config'' ''config'' 254 (''ERROR: '' @ cant_read ''Config'') True]"

definition test_config :: "cstep list" where
  "test_config =
     [GetInt ''Id'' ''id'' (cant_read ''Id''),
      GetInt64 ''Timeout'' ''timeout'' (cant_read ''Timeout''),
      GetString ''LogFile'' ''logfile'' 128 (cant_read ''LogFile'') True,
      GetString ''Scheduler'' ''scheduler'' 128 ''Invalid scheduler server address'' True,
      GetString ''DbHost'' ''db_host'' 16 (cant_read ''DbHost'') True,
      GetInt ''DbPort'' ''db_port'' (cant_read ''DbPort''),
      CheckPort ''db_port'' ''Invalid database port number'',
      GetString ''DbUser'' ''db_user'' 64 (cant_read ''DbUser'') True,
      GetString ''DbPassword'' ''db_password'' 64 (cant_read ''DbPassword'') True,
      GetString ''DbName'' ''db_name'' 64 (cant_read ''DbName'') True]"


definition all_configs :: "cstep list list" where
  "all_configs = [mt_config, mo_config, scheduler_config, delivery_config, server_config, sp_config,
     ismg_config, daemon_config, test_config]"

lemmas config_tables = mt_config_def mo_config_def scheduler_config_def delivery_config_def
  server_config_def sp_config_def ismg_config_def daemon_config_def test_config_def

subsection \<open>When a configuration is accepted\<close>

text \<open>
  What a file must provide: every key but the optional ones, with its type; ports in range;
  nodes that fit. A port check looks at the integer read just before it (\<open>prev\<close>).
\<close>

definition last_int :: "cfgfile \<Rightarrow> cstep \<Rightarrow> (string \<times> int) option" where
  "last_int cfg s = (case s of GetInt k f m \<Rightarrow> map_option (\<lambda>v. (f, v)) (cf_int cfg k) | _ \<Rightarrow> None)"

definition step_needs :: "cfgfile \<Rightarrow> (string \<times> int) option \<Rightarrow> cstep \<Rightarrow> bool" where
  "step_needs cfg prev s \<longleftrightarrow>
     (case s of
        GetInt k f m \<Rightarrow> cf_int cfg k \<noteq> None
      | GetIntLong k f m \<Rightarrow> cf_int cfg k \<noteq> None
      | GetInt64 k f m \<Rightarrow> cf_int64 cfg k \<noteq> None
      | GetBool k f m \<Rightarrow> cf_bool cfg k \<noteq> None
      | GetString k f n m fatal \<Rightarrow> \<not> fatal \<or> cf_string cfg k \<noteq> None
      | GetNode k i m \<Rightarrow> (case cf_string cfg k of None \<Rightarrow> False | Some v \<Rightarrow> length v < 32)
      | CheckPort g m \<Rightarrow> (case prev of None \<Rightarrow> False | Some (f, v) \<Rightarrow> f = g \<and> 1 \<le> v \<and> v \<le> 65535))"

primrec config_needs :: "cfgfile \<Rightarrow> (string \<times> int) option \<Rightarrow> cstep list \<Rightarrow> bool" where
  "config_needs cfg prev [] = True"
| "config_needs cfg prev (s # ss) \<longleftrightarrow> step_needs cfg prev s \<and> config_needs cfg (last_int cfg s) ss"

text \<open>Each port check follows the read of its own field.\<close>

primrec paired :: "string option \<Rightarrow> cstep list \<Rightarrow> bool" where
  "paired prev [] = True"
| "paired prev (s # ss) \<longleftrightarrow> (case s of CheckPort g m \<Rightarrow> prev = Some g | _ \<Rightarrow> True) \<and>
     paired (case s of GetInt k f m \<Rightarrow> Some f | _ \<Rightarrow> None) ss"

definition string_fields :: "cstep list \<Rightarrow> string list" where
  "string_fields ss = concat (map (\<lambda>s. case s of GetString k f n m fatal \<Rightarrow> [f] | _ \<Rightarrow> []) ss)"

lemma string_fields_simps [simp]:
  "string_fields [] = []"
  "string_fields (GetString k f n m fatal # ss) = f # string_fields ss"
  "string_fields (GetInt k f m # ss) = string_fields ss"
  "string_fields (GetIntLong k f m # ss) = string_fields ss"
  "string_fields (GetInt64 k f m # ss) = string_fields ss"
  "string_fields (GetBool k f m # ss) = string_fields ss"
  "string_fields (GetNode k i m # ss) = string_fields ss"
  "string_fields (CheckPort f m # ss) = string_fields ss"
  by (simp_all add: string_fields_def)

lemma all_configs_paired: "p \<in> set all_configs \<Longrightarrow> paired None p"
  by (auto simp: all_configs_def config_tables)

lemma all_configs_fields: "p \<in> set all_configs \<Longrightarrow> distinct (string_fields p)"
  by (auto simp: all_configs_def config_tables)

definition c_strings :: "cfgfile \<Rightarrow> bool" where
  "c_strings cfg \<longleftrightarrow> (\<forall>k v. cf_string cfg k = Some v \<longrightarrow> c_string v)"

lemmas getters = lamb_get_int_def lamb_get_int64_def lamb_get_bool_def lamb_get_string_def

lemma length_strncpy_buf: "length (strncpy_buf dst s n) = max n (length dst)"
  by (auto simp: strncpy_buf_def)

lemma config_step_accept:
  assumes "c_strings cfg" and "length (rs_node st) = 32"
    and "case s of CheckPort g m \<Rightarrow> (\<exists>v. prev = Some (g, v) \<and> c_int (rs_conf st) g = v) | _ \<Rightarrow> True"
  shows "if step_needs cfg prev s
     then \<exists>st1. config_step dup cfg s st = Some (st1, False) \<and> length (rs_node st1) = 32 \<and>
        (\<forall>f v. last_int cfg s = Some (f, v) \<longrightarrow> c_int (rs_conf st1) f = v)
     else \<forall>st1. config_step dup cfg s st \<noteq> Some (st1, False)"
proof (cases s)
  case (GetNode k i m)
  show ?thesis
  proof (cases "cf_string cfg k")
    case None
    then show ?thesis using GetNode by (simp add: config_step_def getters step_needs_def Let_def)
  next
    case (Some v)
    then have "c_string v" using assms(1) by (auto simp: c_strings_def)
    from strncpy_full_terminated [OF this assms(2)] assms(2) Some GetNode show ?thesis
      by (simp add: config_step_def getters length_strncpy_buf Let_def step_needs_def last_int_def)
  qed
qed (use assms in \<open>auto simp: config_step_def getters Let_def step_needs_def last_int_def logged_def split: option.splits\<close>)

lemma config_steps_accept:
  assumes "paired (map_option fst prev) ss" and "c_strings cfg" and "length (rs_node st) = 32"
    and "\<forall>f v. prev = Some (f, v) \<longrightarrow> c_int (rs_conf st) f = v"
  shows "(\<exists>st'. config_steps dup cfg ss st = Some (st', False)) \<longleftrightarrow> config_needs cfg prev ss"
  using assms
proof (induction ss arbitrary: st prev)
  case Nil
  then show ?case by simp
next
  case (Cons s ss)
  have "case s of CheckPort g m \<Rightarrow> (\<exists>v. prev = Some (g, v) \<and> c_int (rs_conf st) g = v) | _ \<Rightarrow> True"
    using Cons.prems(1,4) by (cases s) auto
  note step = config_step_accept [OF Cons.prems(2,3) this, of dup]
  show ?case
  proof (cases "step_needs cfg prev s")
    case True
    then obtain st1 where s: "config_step dup cfg s st = Some (st1, False)" "length (rs_node st1) = 32"
      "\<forall>f v. last_int cfg s = Some (f, v) \<longrightarrow> c_int (rs_conf st1) f = v" using step by auto
    have "paired (map_option fst (last_int cfg s)) ss"
      using Cons.prems(1) True by (cases s) (auto simp: last_int_def step_needs_def)
    from Cons.IH [OF this Cons.prems(2) s(2,3)] s(1) True show ?thesis by simp
  next
    case False
    then have no: "config_step dup cfg s st \<noteq> Some (st1, False)" for st1 using step by auto
    have "config_steps dup cfg (s # ss) st \<noteq> Some (st', False)" for st'
    proof (cases "config_step dup cfg s st")
      case (Some r)
      then show ?thesis using no by (cases r) auto
    qed simp
    with False show ?thesis by simp
  qed
qed

text \<open>The struct keeps, for each string field, the copy that its one statement made.\<close>

lemma config_step_buf:
  assumes "config_step dup cfg s st = Some (st', False)" and "f \<notin> set (string_fields [s])"
  shows "c_buf (rs_conf st') f = c_buf (rs_conf st) f"
  using assms by (cases s) (auto simp: config_step_def Let_def logged_def split: prod.splits if_splits)

lemma config_steps_buf:
  assumes "config_steps dup cfg ss st = Some (st', False)" and "f \<notin> set (string_fields ss)"
  shows "c_buf (rs_conf st') f = c_buf (rs_conf st) f"
  using assms
proof (induction ss arbitrary: st)
  case Nil
  then show ?case by simp
next
  case (Cons s ss)
  then obtain st1 where s: "config_step dup cfg s st = Some (st1, False)"
    and ss: "config_steps dup cfg ss st1 = Some (st', False)"
    by (auto simp: bind_eq_Some_conv split: if_splits)
  have "f \<notin> set (string_fields [s])" "f \<notin> set (string_fields ss)"
    using Cons.prems(2) by (cases s; simp)+
  with config_step_buf [OF s] Cons.IH [OF ss] show ?case by simp
qed

lemma config_steps_field:
  assumes "config_steps dup cfg ss st = Some (st', False)" and "distinct (string_fields ss)"
    and "GetString k f n m fatal \<in> set ss" and "cf_string cfg k = Some v"
  shows "c_buf (rs_conf st') f = strncpy_buf (c_buf (rs_conf st) f) v n"
  using assms
proof (induction ss arbitrary: st)
  case Nil
  then show ?case by simp
next
  case (Cons s ss)
  then obtain st1 where s: "config_step dup cfg s st = Some (st1, False)"
    and ss: "config_steps dup cfg ss st1 = Some (st', False)"
    by (auto simp: bind_eq_Some_conv split: if_splits)
  show ?case
  proof (cases "s = GetString k f n m fatal")
    case True
    then have "f \<notin> set (string_fields ss)" using Cons.prems(2) by simp
    then have "c_buf (rs_conf st') f = c_buf (rs_conf st1) f" by (rule config_steps_buf [OF ss])
    also have "\<dots> = strncpy_buf (c_buf (rs_conf st) f) v n"
      using s True Cons.prems(4) by (auto simp: config_step_def getters Let_def)
    finally show ?thesis .
  next
    case False
    then have "GetString k f n m fatal \<in> set ss" using Cons.prems(3) by simp
    note mem = this
    have "f \<in> set (string_fields ss)" using mem by (induction ss) (auto simp: string_fields_def)
    moreover have "distinct (string_fields [s] @ string_fields ss)"
      using Cons.prems(2) by (simp add: string_fields_def)
    ultimately have f: "f \<notin> set (string_fields [s])" and d: "distinct (string_fields ss)" by auto
    show ?thesis using Cons.IH [OF ss d mem Cons.prems(4)] config_step_buf [OF s f] by simp
  qed
qed

text \<open>
  Each of the nine programs accepts a configuration file exactly when it can be read and
  provides every mandatory key with its type, ports between 1 and 65535 and node addresses of
  at most 31 characters.
\<close>

theorem read_config_accepts:
  assumes "p \<in> set all_configs" and "c_strings cfg"
  shows "(\<exists>conf' log. lamb_read_config opening p dup cfg file (Some conf) = Some (0, conf', log)) \<longleftrightarrow>
     cf_readable cfg \<and> config_needs cfg None p"
proof (cases "cf_readable cfg")
  case True
  let ?st = "\<lparr>rs_conf = conf, rs_node = zeroed 32, rs_log = []\<rparr>"
  have "(\<exists>st'. config_steps dup cfg p ?st = Some (st', False)) \<longleftrightarrow> config_needs cfg None p"
    using config_steps_accept [of None p, OF _ assms(2), of ?st dup] all_configs_paired [OF assms(1)]
    by (simp add: zeroed_def)
  with True show ?thesis
    by (cases "config_steps dup cfg p ?st") (auto simp: lamb_read_config_def lamb_read_file_def split: prod.splits)
qed (simp add: lamb_read_config_def lamb_read_file_def)

definition example_cfg :: cfgfile where
  "example_cfg = \<lparr>cf_readable = True, cf_string = (\<lambda>k. Some ''192.168.100.100''), cf_int = (\<lambda>k. Some 6379),
     cf_int64 = (\<lambda>k. Some 5000), cf_bool = (\<lambda>k. Some 1)\<rparr>"

definition blank_config :: lamb_config_t where
  "blank_config = \<lparr>c_buf = (\<lambda>f. zeroed 16), c_int = (\<lambda>f. 0), c_bool = (\<lambda>f. False), c_nodes = (\<lambda>i. None)\<rparr>"

lemma c_strings_example: "c_strings example_cfg"
  by (simp add: c_strings_def example_cfg_def c_string_def)

lemma read_config_accepts_witness:
  "\<exists>conf' log. lamb_read_config cannot_open server_config (\<lambda>i. True) example_cfg ''server.conf'' (Some blank_config)
     = Some (0, conf', log)"
proof -
  have "server_config \<in> set all_configs" by (simp add: all_configs_def)
  moreover have "config_needs example_cfg None server_config"
    by (simp add: server_config_def example_cfg_def step_needs_def last_int_def)
  moreover have "cf_readable example_cfg" by (simp add: example_cfg_def)
  ultimately show ?thesis using read_config_accepts [OF _ c_strings_example] by blast
qed

text \<open>
  A program that reads a string into a field of exactly the given size leaves the field
  without a terminating NUL when, and only when, the value fills it.
\<close>

theorem read_config_unterminated:
  assumes "p \<in> set all_configs" and "c_strings cfg"
    and "lamb_read_config opening p dup cfg file (Some conf) = Some (0, Some conf', log)"
    and "GetString k f n m fatal \<in> set p" and "cf_string cfg k = Some v" and "length (c_buf conf f) = n"
  shows "terminated (c_buf conf' f) \<longleftrightarrow> length v < n"
proof -
  obtain st' where "config_steps dup cfg p \<lparr>rs_conf = conf, rs_node = zeroed 32, rs_log = []\<rparr> = Some (st', False)"
      and "conf' = rs_conf st'"
    using assms(3) by (auto simp: lamb_read_config_def bind_eq_Some_conv split: if_splits)
  from config_steps_field [OF this(1) all_configs_fields [OF assms(1)] assms(4,5)] this(2)
  have "c_buf conf' f = strncpy_buf (c_buf conf f) v n" by simp
  moreover have "c_string v" using assms(2,5) by (auto simp: c_strings_def)
  ultimately show ?thesis using strncpy_full_terminated assms(6) by simp
qed

lemma read_config_unterminated_witness:
  "\<exists>conf' log. lamb_read_config cannot_open test_config (\<lambda>i. True) example_cfg ''test.conf'' (Some blank_config)
     = Some (0, Some conf', log) \<and> terminated (c_buf conf' ''db_host'')"
proof -
  let ?r = "lamb_read_config cannot_open test_config (\<lambda>i. True) example_cfg ''test.conf'' (Some blank_config)"
  have mem: "test_config \<in> set all_configs" by (simp add: all_configs_def)
  obtain conf' log where r: "?r = Some (0, Some conf', log)"
    by (simp add: lamb_read_config_def lamb_read_file_def example_cfg_def test_config_def config_step_def getters)
  have "terminated (c_buf conf' ''db_host'') \<longleftrightarrow> length (''192.168.100.100'' :: string) < 16"
    by (rule read_config_unterminated [OF mem c_strings_example r, where k = "''DbHost''" and fatal = True
          and m = "cant_read ''DbHost''"])
      (simp_all add: test_config_def example_cfg_def blank_config_def zeroed_def)
  with r show ?thesis by simp
qed

subsection \<open>What is printed\<close>

definition step_msg :: "cstep \<Rightarrow> string" where
  "step_msg s = (case s of GetInt k f m \<Rightarrow> m | GetIntLong k f m \<Rightarrow> m | GetInt64 k f m \<Rightarrow> m | GetBool k f m \<Rightarrow> m
     | GetString k f n m fatal \<Rightarrow> m | GetNode k i m \<Rightarrow> m | CheckPort f m \<Rightarrow> m)"

definition warning :: "cfgfile \<Rightarrow> cstep \<Rightarrow> string list" where
  "warning cfg s = (case s of
     GetString k f n m fatal \<Rightarrow> (if \<not> fatal \<and> cf_string cfg k = None then [m] else []) | _ \<Rightarrow> [])"

definition warnings :: "cfgfile \<Rightarrow> cstep list \<Rightarrow> string list" where
  "warnings cfg ss = concat (map (warning cfg) ss)"

lemma warnings_simps [simp]:
  "warnings cfg [] = []"
  "warnings cfg (s # ss) = warning cfg s @ warnings cfg ss"
  by (simp_all add: warnings_def)

lemma config_step_log:
  assumes "config_step dup cfg s st = Some (st', err)"
  shows "rs_log st' = rs_log st @ (if err then [step_msg s] else warning cfg s)"
  using assms
  by (cases s) (auto simp: config_step_def getters logged_def step_msg_def warning_def Let_def
      split: option.splits if_splits)

lemma config_steps_log:
  assumes "config_steps dup cfg ss st = Some (st', err)"
  shows "if err then \<exists>pre s post. ss = pre @ s # post \<and> rs_log st' = rs_log st @ warnings cfg pre @ [step_msg s]
     else rs_log st' = rs_log st @ warnings cfg ss"
  using assms
proof (induction ss arbitrary: st)
  case Nil
  then show ?case by simp
next
  case (Cons s ss)
  then obtain st1 e1 where s: "config_step dup cfg s st = Some (st1, e1)"
    by (auto simp: bind_eq_Some_conv)
  note log = config_step_log [OF s]
  show ?case
  proof (cases e1)
    case True
    then have "err" "st' = st1" using Cons.prems s by auto
    moreover have "s # ss = [] @ s # ss" by simp
    ultimately show ?thesis using log True by (metis append_Nil warnings_simps(1))
  next
    case False
    then have "config_steps dup cfg ss st1 = Some (st', err)" using Cons.prems s by simp
    note ih = Cons.IH [OF this]
    show ?thesis
    proof (cases err)
      case True
      then obtain pre t post where "ss = pre @ t # post"
          "rs_log st' = rs_log st1 @ warnings cfg pre @ [step_msg t]" using ih by auto
      then have "s # ss = (s # pre) @ t # post"
          "rs_log st' = rs_log st @ warnings cfg (s # pre) @ [step_msg t]" using log False by auto
      with True show ?thesis by metis
    qed (use ih log False in auto)
  qed
qed

text \<open>
  A rejected configuration prints exactly one fatal message, that of the statement that
  stopped the program, after the warnings of the optional keys passed before it; an accepted
  one prints the warnings only.
\<close>

theorem read_config_reports:
  assumes "cf_readable cfg" and "lamb_read_config opening p dup cfg file (Some conf) = Some (rc, conf', log)"
  shows "rc = 0 \<and> log = warnings cfg p \<or>
     rc = -1 \<and> (\<exists>pre s post. p = pre @ s # post \<and> log = warnings cfg pre @ [step_msg s])"
proof -
  obtain st err where st: "config_steps dup cfg p \<lparr>rs_conf = conf, rs_node = zeroed 32, rs_log = []\<rparr> = Some (st, err)"
    and r: "rc = (if err then -1 else 0)" "log = rs_log st"
    using assms by (auto simp: lamb_read_config_def lamb_read_file_def bind_eq_Some_conv)
  from config_steps_log [OF st] r show ?thesis by (cases err) auto
qed

lemma read_config_reports_witness:
  "\<exists>pre s post. mt_config = pre @ s # post \<and> [cant_read ''Id''] = warnings
     (example_cfg\<lparr>cf_int := (\<lambda>k. None)\<rparr>) pre @ [step_msg s]"
proof -
  let ?cfg = "example_cfg\<lparr>cf_int := (\<lambda>k. None)\<rparr>"
  have "cf_readable ?cfg" by (simp add: example_cfg_def)
  moreover have "lamb_read_config cannot_open mt_config (\<lambda>i. True) ?cfg ''mt.conf'' (Some blank_config) =
      Some (-1, Some blank_config, [cant_read ''Id''])"
    by (simp add: lamb_read_config_def lamb_read_file_def example_cfg_def mt_config_def config_step_def getters logged_def)
  ultimately have "(-1 :: int) = 0 \<and> [cant_read ''Id''] = warnings ?cfg mt_config \<or>
     (-1 :: int) = -1 \<and> (\<exists>pre s post. mt_config = pre @ s # post \<and> [cant_read ''Id''] = warnings ?cfg pre @ [step_msg s])"
    by (rule read_config_reports)
  then show ?thesis by simp
qed

end
