(* ===== verification/ServerLoops.thy ===== *)
theory ServerLoops
  imports ServerWork Scheduler Config
begin

text \<open>
  The other threads of the server (\<open>src/src/server.c\<close>): reports and messages from phones pulled
  from the delivery process, storage, billing, unsubscribing, the status thread with arrears
  and signals, reloading, the start.
\<close>

subsection \<open>Reports and messages from phones\<close>

record dturn =
  d_sent :: bool
  d_buf :: "bytes option"
  d_bill :: bool
  d_bnode :: bool
  d_pk :: bool
  d_frame :: bool
  d_calloc :: bool
  d_node :: bool

definition d_ok :: "dturn \<Rightarrow> bool" where
  "d_ok d \<longleftrightarrow> d_bill d \<and> d_bnode d \<and> d_pk d \<and> d_frame d \<and> d_calloc d \<and> d_node d"

definition forward_up :: "dturn \<Rightarrow> u32 \<Rightarrow> bytes \<Rightarrow> bytes list" where
  "forward_up d c pk =
     (if \<not> d_pk d then []
      else case lamb_pack_assembly (d_frame d) c (Some pk) of None \<Rightarrow> [] | Some buf \<Rightarrow> [buf])"

definition deliver_report :: "server_env \<Rightarrow> dturn \<Rightarrow> server \<Rightarrow> Report \<Rightarrow> server \<times> bytes list" where
  "deliver_report e d S p =
     (let S1 = (if rp_status p \<noteq> 1 \<and> d_bill d \<and> d_bnode d
                then S\<lparr>sv_billing := sv_billing S @ [\<lparr>bl_id = co_id (sv_company S), bl_money = 1\<rparr>]\<rparr> else S);
          S2 = (if d_calloc d \<and> d_node d
                then S1\<lparr>sv_storage := sv_storage S1 @ [St_report (report_store p)]\<rparr> else S1)
      in (S2, forward_up d LAMB_REPORT (pack_report (se_up e) p)))"

text \<open>
  A message from a phone goes on under the account's own number: the account's code and the
  service id, cut to 20 characters. The copies have no service id.
\<close>

definition deliver_copy :: "server \<Rightarrow> Deliver \<Rightarrow> Deliver" where
  "deliver_copy S p =
     p\<lparr>dl_account := ac_id (sv_account S), dl_company := co_id (sv_company S),
       dl_spcode := snprintf_z 21 (ac_spcode (sv_account S) @ dl_serviceid p), dl_serviceid := []\<rparr>"

definition deliver_phone :: "server_env \<Rightarrow> dturn \<Rightarrow> server \<Rightarrow> Deliver \<Rightarrow> (server \<times> bytes list) option" where
  "deliver_phone e d S p =
     (let q = deliver_copy S p;
          out = forward_up d LAMB_DELIVER (pack_deliver (se_up e) q)
      in if d_calloc d then do {
           x \<leftarrow> deliver_store q;
           Some (if d_node d then S\<lparr>sv_storage := sv_storage S @ [St_deliver x]\<rparr> else S, out) }
         else Some (S, out))"

definition lamb_deliver_loop :: "server_env \<Rightarrow> dturn \<Rightarrow> server \<Rightarrow> (server \<times> bytes list) option" where
  "lamb_deliver_loop e d S =
     (if sv_sleeping S \<or> \<not> d_sent d then Some (S, [])
      else case classify (d_buf d) of
        Short \<Rightarrow> Some (S, [])
      | Frame c body \<Rightarrow>
          (if c = LAMB_REPORT then
             (let S1 = S\<lparr>sv_status := (sv_status S)\<lparr>st_rep := st_rep (sv_status S) + 1\<rparr>\<rparr>
              in case unpack_report (se_up e) body of
                   None \<Rightarrow> Some (S1, [])
                 | Some p \<Rightarrow> Some (deliver_report e d S1 p))
           else if c = LAMB_DELIVER then
             (let S1 = S\<lparr>sv_status := (sv_status S)\<lparr>st_delv := st_delv (sv_status S) + 1\<rparr>\<rparr>
              in case unpack_deliver (se_up e) body of
                   None \<Rightarrow> Some (S1, [])
                 | Some p \<Rightarrow> deliver_phone e d S1 p)
           else Some (S, [])))"

subsection \<open>Storage\<close>

text \<open>The result of a write is the return code and the SQL; \<open>exec\<close> says whether it succeeds.\<close>

definition report_sql :: "lamb_report_t \<Rightarrow> string" where
  "report_sql m = snprintf_z 512 (''UPDATE message SET status = '' @ show_int (lr_status m) @ '' WHERE id = ''
     @ show_int (sint (lr_id m)))"

definition lamb_write_report :: "(string \<Rightarrow> bool) \<Rightarrow> lamb_report_t option \<Rightarrow> int \<times> string list" where
  "lamb_write_report exec message =
     (case message of
        None \<Rightarrow> (-1, [])
      | Some m \<Rightarrow> (if exec (report_sql m) then 0 else -1, [report_sql m]))"

definition message_sql :: "lamb_submit_t \<Rightarrow> string" where
  "message_sql m =
     snprintf_z 512 (''INSERT INTO message(id, spid, spcode, phone, content, status, account, company) VALUES(''
       @ show_int (sint (ls_id m)) @ '', '' @ quoted (ls_spid m) @ '', '' @ quoted (ls_spcode m) @ '', ''
       @ quoted (ls_phone m) @ '', '' @ quoted (cstr (ls_content m)) @ '', '' @ show_int 0 @ '', ''
       @ show_int (ls_account m) @ '', '' @ show_int (ls_company m) @ '')'')"

text \<open>Printing a content without a NUL reads past the struct: undefined.\<close>

definition lamb_write_message :: "(string \<Rightarrow> bool) \<Rightarrow> lamb_submit_t option \<Rightarrow> (int \<times> string list) option" where
  "lamb_write_message exec message =
     (case message of
        None \<Rightarrow> Some (-1, [])
      | Some m \<Rightarrow>
          (if terminated (ls_content m) then Some (if exec (message_sql m) then 0 else -1, [message_sql m])
           else None))"

definition server_write_deliver :: "(string \<Rightarrow> bool) \<Rightarrow> lamb_deliver_t option \<Rightarrow> (int \<times> string list) option" where
  "server_write_deliver exec message =
     (case message of
        None \<Rightarrow> Some (-1, [])
      | Some m \<Rightarrow>
          (if terminated (ld_content m)
           then (let sql = delivery_sql m (cstr (ld_content m)) in Some (if exec sql then 0 else -1, [sql]))
           else None))"

definition store_fromcode :: "int \<Rightarrow> string option" where
  "store_fromcode msgfmt =
     (if msgfmt = 0 then Some ''ASCII''
      else if msgfmt = 8 then Some ''UCS-2BE''
      else if msgfmt = 11 then Some ''UTF-8''
      else if msgfmt = 15 then Some ''GBK''
      else None)"

text \<open>
  The content of a message from a phone before it is written: the inner \<open>None\<close> skips it (an
  unknown format or a failed conversion), the outer one is undefined behaviour, such as copying
  more than the 160 bytes of the field.
\<close>

definition store_content :: "iconv \<Rightarrow> lamb_deliver_t \<Rightarrow> lamb_deliver_t option option" where
  "store_content conv m =
     (case store_fromcode (ld_msgfmt m) of
        None \<Rightarrow> Some None
      | Some code \<Rightarrow>
          (if ld_msgfmt m = 11 then Some (Some m)
           else do {
             src \<leftarrow> content_bytes (ld_length m) (ld_content m);
             (case conv src code ''UTF-8'' 512 of
                None \<Rightarrow> Some None
              | Some out \<Rightarrow>
                  (if length out < 1 then Some None
                   else do {
                     content \<leftarrow> memcpy_z 160 out;
                     Some (Some (m\<lparr>ld_length := int (length out), ld_content := content\<rparr>)) })) }))"

text \<open>\<open>dup\<close> and \<open>node\<close>: whether the copy of the number and its list node get memory.\<close>

definition store_unsubscribe :: "bool \<Rightarrow> bool \<Rightarrow> server \<Rightarrow> lamb_deliver_t \<Rightarrow> server option" where
  "store_unsubscribe dup node S m =
     (if \<not> bit (ac_options (sv_account S)) 3 then Some S
      else if \<not> terminated (ld_content m) then None
      else Some (if lamb_check_unsubval (cstr (ld_content m)) (nat (ld_length m)) \<and> node
                 then S\<lparr>sv_unsubscribe := sv_unsubscribe S @ [if dup then Some (ld_phone m) else None]\<rparr>
                 else S))"

definition store_deliver ::
  "iconv \<Rightarrow> (string \<Rightarrow> bool) \<Rightarrow> bool \<Rightarrow> bool \<Rightarrow> server \<Rightarrow> lamb_deliver_t \<Rightarrow> (server \<times> string list) option" where
  "store_deliver conv exec dup node S m = do {
     c \<leftarrow> store_content conv m;
     (case c of
        None \<Rightarrow> Some (S, [])
      | Some m1 \<Rightarrow> do {
          S1 \<leftarrow> store_unsubscribe dup node S m1;
          (rc, sql) \<leftarrow> server_write_deliver exec (Some m1);
          Some (S1, sql) }) }"

definition lamb_store_loop ::
  "iconv \<Rightarrow> (string \<Rightarrow> bool) \<Rightarrow> bool \<Rightarrow> bool \<Rightarrow> server \<Rightarrow> (server \<times> string list) option" where
  "lamb_store_loop conv exec dup node S =
     (case sv_storage S of
        [] \<Rightarrow> Some (S, [])
      | x # rest \<Rightarrow>
          (let S1 = S\<lparr>sv_storage := rest\<rparr>
           in case x of
                St_submit m \<Rightarrow> do { (rc, sql) \<leftarrow> lamb_write_message exec (Some m); Some (S1, sql) }
              | St_report m \<Rightarrow> Some (S1, snd (lamb_write_report exec (Some m)))
              | St_deliver m \<Rightarrow> store_deliver conv exec dup node S1 m))"

subsection \<open>Billing, unsubscribing, arrears, signals\<close>

text \<open>
  One turn of the billing thread: the command it sends to redis and the error it gets. The bill is
  freed in either case; an error is only logged.
\<close>

definition lamb_billing_loop :: "redis \<Rightarrow> server \<Rightarrow> server \<times> (string \<times> int) option" where
  "lamb_billing_loop rds S =
     (case sv_billing S of
        [] \<Rightarrow> (S, None)
      | b # rest \<Rightarrow>
          (let (err, cmd) = lamb_company_billing rds (bl_id b) (bl_money b)
           in (S\<lparr>sv_billing := rest\<rparr>, Some (cmd, err))))"

definition lamb_unsubscribe_loop :: "lamb_caches_t \<Rightarrow> int \<Rightarrow> server \<Rightarrow> (server \<times> (nat \<times> rcmd) list) option" where
  "lamb_unsubscribe_loop cache aid S =
     (case sv_unsubscribe S of
        [] \<Rightarrow> Some (S, [])
      | v # rest \<Rightarrow> do { cmds \<leftarrow> unsubscribe_turn cache aid v; Some (S\<lparr>sv_unsubscribe := rest\<rparr>, cmds) })"

definition lamb_check_arrears :: "redis \<Rightarrow> int \<Rightarrow> bool" where
  "lamb_check_arrears rds company =
     (case rd_reply rds (''HGET company.'' @ show_int company @ '' money'') of
        Some (RString s) \<Rightarrow> \<not> (0 < length s \<and> 0 < atoi (cstr s))
      | _ \<Rightarrow> True)"

definition lamb_clear_signal :: "int \<Rightarrow> string list" where
  "lamb_clear_signal i = [''HSET server.'' @ show_int i @ '' signal 0'']"

definition lamb_check_signal :: "redis \<Rightarrow> int \<Rightarrow> int \<times> string list" where
  "lamb_check_signal rds i =
     (let get = ''HGET server.'' @ show_int i @ '' signal'';
          signal = (case rd_reply rds get of
                      Some (RString s) \<Rightarrow> (if 0 < length s then atoi (cstr s) else 0)
                    | _ \<Rightarrow> 0)
      in (signal, get # lamb_clear_signal i))"

text \<open>The counters are printed with \<open>%lld\<close>, as signed numbers.\<close>

definition lamb_sync_status :: "int \<Rightarrow> lamb_status_t \<Rightarrow> nat \<Rightarrow> nat \<Rightarrow> string" where
  "lamb_sync_status i st store bill =
     ''HMSET server.'' @ show_int i @ '' store '' @ show_nat store @ '' bill '' @ show_nat bill
       @ '' blk '' @ show_int (sint (st_blk st)) @ '' usb '' @ show_int (sint (st_usb st))
       @ '' limt '' @ show_int (sint (st_limt st)) @ '' rejt '' @ show_int (sint (st_rejt st))
       @ '' tmp '' @ show_int (sint (st_tmp st)) @ '' key '' @ show_int (sint (st_key st))"

subsection \<open>Reloading and the status thread\<close>

record links =
  lk_mt :: int
  lk_mo :: int
  lk_scheduler :: int
  lk_deliverd :: int
  lk_net :: nnet

text \<open>A character array of the configuration, as the string in it.\<close>

definition conf_str :: "lamb_config_t \<Rightarrow> string \<Rightarrow> string" where
  "conf_str cfg f = cstr (c_buf cfg f)"

text \<open>The loop that connects to the scheduler again; it may never end.\<close>

partial_function (option) reconnect_loop ::
  "nnenv \<Rightarrow> codec \<Rightarrow> string \<Rightarrow> int \<Rightarrow> int \<Rightarrow> nnet \<Rightarrow> (int \<times> nnet) option" where
  "reconnect_loop n c host aid timeout s =
     (case lamb_nn_pair n c host aid timeout s of
        (fd, s1) \<Rightarrow> (if fd < 0 then reconnect_loop n c host aid timeout s1 else Some (fd, s1)))"

text \<open>The data a reload fetches; what cannot be fetched keeps its value or, for lists, is empty.\<close>

definition reload_data :: "pg \<Rightarrow> (nat \<Rightarrow> bool) \<Rightarrow> int \<Rightarrow> server \<Rightarrow> server" where
  "reload_data d dup aid S =
     (let account = snd (lamb_account_fetch d aid (sv_account S));
          company = snd (lamb_company_get d (ac_company account) (sv_company S))
      in S\<lparr>sv_account := account, sv_company := company,
           sv_templates := (if bit (ac_options account) 0 then snd (lamb_get_template d aid) else sv_templates S),
           sv_keywords := (if bit (ac_options account) 1 then snd (lamb_keyword_get_all d dup) else sv_keywords S)\<rparr>)"

definition lamb_reload ::
  "nnenv \<Rightarrow> codec \<Rightarrow> pg \<Rightarrow> (nat \<Rightarrow> bool) \<Rightarrow> lamb_config_t \<Rightarrow> int \<Rightarrow> bool \<Rightarrow> server \<Rightarrow> links \<Rightarrow>
   (server \<times> links) option" where
  "lamb_reload n c d dup cfg aid mem S L =
     (let S1 = (reload_data d dup aid (S\<lparr>sv_sleeping := True\<rparr>))\<lparr>sv_sleeping := False\<rparr>
      in case lamb_pack_assembly mem LAMB_BYE None of
           None \<Rightarrow> Some (S1, L)
         | Some bye \<Rightarrow> do {
             (fd, s) \<leftarrow> reconnect_loop n c (conf_str cfg ''scheduler'') aid (c_int cfg ''timeout'')
                         (nn_close (lk_scheduler L) (snd (nn_send n (lk_scheduler L) bye (lk_net L))));
             Some (S1, L\<lparr>lk_scheduler := fd, lk_net := s\<rparr>) })"

definition lamb_exit_cleanup :: "nnenv \<Rightarrow> links \<Rightarrow> nnet" where
  "lamb_exit_cleanup n L =
     fold (lamb_nn_close n) [lk_mt L, lk_mo L, lk_scheduler L, lk_deliverd L] (lk_net L)"

text \<open>
  One turn of the status thread: the state, the commands to redis, and whether the process
  exits. A reload that does not come back leaves the thread in it: \<open>None\<close>.
\<close>

definition lamb_stat_loop ::
  "nnenv \<Rightarrow> codec \<Rightarrow> pg \<Rightarrow> (nat \<Rightarrow> bool) \<Rightarrow> lamb_config_t \<Rightarrow> redis \<Rightarrow> int \<Rightarrow> bool \<Rightarrow> server \<Rightarrow> links \<Rightarrow>
   (server \<times> links \<times> string list \<times> bool) option" where
  "lamb_stat_loop n c d dup cfg rds aid mem S L =
     (let S1 = S\<lparr>sv_arrears := lamb_check_arrears rds (ac_company (sv_account S))\<rparr>;
          sync = lamb_sync_status aid (sv_status S1) (length (sv_storage S1)) (length (sv_billing S1));
          (sig, cmds) = lamb_check_signal rds aid
      in if sv_sleeping S1 then Some (S1, L, sync # cmds, False)
         else if sig = 1 then do {
           (S2, L2) \<leftarrow> lamb_reload n c d dup cfg aid mem S1 L;
           Some (S2, L2, sync # cmds, False) }
         else if sig = 9 then Some (S1, L\<lparr>lk_net := lamb_exit_cleanup n L\<rparr>, sync # cmds, True)
         else Some (S1, L, sync # cmds, False))"

subsection \<open>The start\<close>

text \<open>
  What the start depends on besides the configuration: \<open>in_structs\<close> and \<open>in_list k\<close> are the
  allocations of the five structs and of the \<open>k\<close>-th list, \<open>in_node db i\<close> that of node \<open>i\<close> of the
  redis database \<open>db\<close>.
\<close>

record init_env =
  in_structs :: bool
  in_list :: "nat \<Rightarrow> bool"
  in_node :: "int \<Rightarrow> nat \<Rightarrow> bool"
  in_redis :: redis
  in_up :: "string \<Rightarrow> bool"
  in_pg :: pg
  in_dup :: "nat \<Rightarrow> bool"
  in_nn :: nnenv
  in_codec :: codec

record started =
  sd_server :: server
  sd_links :: links
  sd_blacklist :: "nat \<rightharpoonup> string"
  sd_unsubscribe :: "nat \<rightharpoonup> string"
  sd_frequency :: "nat \<rightharpoonup> string"

definition LAMB_MAX_CACHE :: nat where "LAMB_MAX_CACHE = 16"

definition conf_nodes :: "lamb_config_t \<Rightarrow> string list" where
  "conf_nodes cfg = map (\<lambda>i. case c_nodes cfg i of None \<Rightarrow> [] | Some n \<Rightarrow> n) [0..<7]"

definition init_nodes :: "init_env \<Rightarrow> lamb_config_t \<Rightarrow> int \<Rightarrow> (nat \<rightharpoonup> string) option" where
  "init_nodes n cfg db =
     (let (slots, len) = lamb_nodes_connect (in_node n db) (in_redis n) LAMB_MAX_CACHE (conf_nodes cfg) 7 db
      in if len \<noteq> 7 then None else Some slots)"

text \<open>The parts of the start in the code's order: the caches and databases, the account, the
  four connections, the company and the lists. \<open>None\<close> is the return value -1.\<close>

definition init_stores ::
  "init_env \<Rightarrow> lamb_config_t \<Rightarrow> ((nat \<rightharpoonup> string) \<times> (nat \<rightharpoonup> string) \<times> (nat \<rightharpoonup> string)) option" where
  "init_stores n cfg =
     (if \<not> in_structs n then None
      else if \<not> in_list n 0 \<or> \<not> in_list n 1 \<or> \<not> in_list n 2 then None
      else if fst (lamb_cache_connect (in_redis n) (conf_str cfg ''redis_host'') (c_int cfg ''redis_port'')
                     None (c_int cfg ''redis_db'')) \<noteq> 0 then None
      else do {
        black \<leftarrow> init_nodes n cfg 1;
        unsub \<leftarrow> init_nodes n cfg 2;
        freq \<leftarrow> init_nodes n cfg 3;
        if lamb_db_connect (in_up n) (conf_str cfg ''db_host'') (c_int cfg ''db_port'') (conf_str cfg ''db_user'')
             (conf_str cfg ''db_password'') (conf_str cfg ''db_name'') \<noteq> 0 then None
        else if lamb_db_connect (in_up n) (conf_str cfg ''msg_host'') (c_int cfg ''msg_port'') (conf_str cfg ''msg_user'')
             (conf_str cfg ''msg_password'') (conf_str cfg ''msg_name'') \<noteq> 0 then None
        else Some (black, unsub, freq) })"

definition init_links :: "init_env \<Rightarrow> lamb_config_t \<Rightarrow> int \<Rightarrow> nnet \<Rightarrow> links option \<times> nnet" where
  "init_links n cfg aid s =
     (let t = c_int cfg ''timeout'';
          (mt, s1) = lamb_nn_reqrep (in_nn n) (in_codec n) (conf_str cfg ''mt'') aid t s
      in if mt < 0 then (None, s1)
         else let (mo, s2) = lamb_nn_pair (in_nn n) (in_codec n) (conf_str cfg ''mo'') aid t s1
      in if mo < 0 then (None, s2)
         else let (sch, s3) = lamb_nn_pair (in_nn n) (in_codec n) (conf_str cfg ''scheduler'') aid t s2
      in if sch < 0 then (None, s3)
         else let (del, s4) = lamb_nn_reqrep (in_nn n) (in_codec n) (conf_str cfg ''deliver'') aid t s3
      in if del < 0 then (None, s4)
         else (Some \<lparr>lk_mt = mt, lk_mo = mo, lk_scheduler = sch, lk_deliverd = del, lk_net = s4\<rparr>, s4))"

definition init_lists ::
  "init_env \<Rightarrow> int \<Rightarrow> int \<Rightarrow> (lamb_template_t list \<times> lamb_keyword_t list) option" where
  "init_lists n aid options =
     (if \<not> in_list n 3 then None
      else let (e1, ts) = (if bit options 0 then lamb_get_template (in_pg n) aid else (0, []))
      in if e1 \<noteq> 0 then None
         else if \<not> in_list n 4 then None
         else let (e2, ks) = (if bit options 1 then lamb_keyword_get_all (in_pg n) (in_dup n) else (0, []))
      in if e2 \<noteq> 0 then None else Some (ts, ks))"

definition lamb_component_initialization ::
  "init_env \<Rightarrow> lamb_config_t option \<Rightarrow> int \<Rightarrow> nnet \<Rightarrow> int \<times> started option \<times> nnet" where
  "lamb_component_initialization n config aid s =
     (case config of
        None \<Rightarrow> (-1, None, s)
      | Some cfg \<Rightarrow>
          (case init_stores n cfg of
             None \<Rightarrow> (-1, None, s)
           | Some (black, unsub, freq) \<Rightarrow>
               (let (e1, account) = lamb_account_fetch (in_pg n) aid no_account
                in if e1 \<noteq> 0 then (-1, None, s)
                   else case init_links n cfg aid s of
                     (None, s1) \<Rightarrow> (-1, None, s1)
                   | (Some L, s1) \<Rightarrow>
                       (let (e2, company) = lamb_company_get (in_pg n) (ac_company account)
                                              \<lparr>co_id = 0, co_money = 0, co_status = 0\<rparr>
                        in if e2 \<noteq> 0 then (-1, None, s1)
                           else case init_lists n aid (ac_options account) of
                             None \<Rightarrow> (-1, None, s1)
                           | Some (ts, ks) \<Rightarrow>
                               (0, Some \<lparr>sd_server = \<lparr>sv_status = no_status, sv_storage = [], sv_billing = [],
                                     sv_unsubscribe = [], sv_account = account, sv_company = company,
                                     sv_templates = ts, sv_keywords = ks, sv_sleeping = False, sv_arrears = False\<rparr>,
                                   sd_links = L, sd_blacklist = black, sd_unsubscribe = unsub, sd_frequency = freq\<rparr>,
                                s1)))))"

end
