(* ===== verification/Cmpp.thy ===== *)
theory Cmpp
  imports Prelude
begin

text \<open>
  Packets of the CMPP library, as \<open>src/src/sp.c\<close> and \<open>src/src/ismg.c\<close> read them. The library and
  its header are not in the repository: the constants of the header are constructors of the
  same names, and a received packet is the functions that read its fields.
\<close>

datatype cmpp_command =
    CMPP_CONNECT
  | CMPP_CONNECT_RESP
  | CMPP_TERMINATE
  | CMPP_SUBMIT
  | CMPP_SUBMIT_RESP
  | CMPP_DELIVER
  | CMPP_DELIVER_RESP
  | CMPP_ACTIVE_TEST
  | CMPP_ACTIVE_TEST_RESP
  | CMPP_other nat

datatype cmpp_field =
    cmpp_connect_version
  | cmpp_connect_source_addr
  | cmpp_connect_resp_status
  | cmpp_submit_dest_terminal_id
  | cmpp_submit_src_id
  | cmpp_submit_msg_fmt
  | cmpp_submit_msg_length
  | cmpp_submit_msg_content
  | cmpp_submit_resp_msg_id
  | cmpp_submit_resp_result
  | cmpp_deliver_msg_id
  | cmpp_deliver_dest_id
  | cmpp_deliver_service_id
  | cmpp_deliver_msg_fmt
  | cmpp_deliver_src_terminal_id
  | cmpp_deliver_registered_delivery
  | cmpp_deliver_msg_length
  | cmpp_deliver_msg_content
  | cmpp_deliver_msg_content_msg_id
  | cmpp_deliver_msg_content_stat
  | cmpp_deliver_msg_content_submit_time
  | cmpp_deliver_msg_content_done_time
  | cmpp_deliver_resp_result
  | cmpp_deliver_resp_msg_id

text \<open>
  \<open>pk_integer f n\<close> is the integer of \<open>n\<close> bytes in field \<open>f\<close>; \<open>pk_string f size len\<close> the bytes
  \<open>cmpp_pack_get_string\<close> writes into a buffer of \<open>size\<close> bytes when asked for \<open>len\<close>.
\<close>

record cmpp_pack_t =
  pk_commandId :: cmpp_command
  pk_sequenceId :: u32
  pk_integer :: "cmpp_field \<Rightarrow> nat \<Rightarrow> u64"
  pk_string :: "cmpp_field \<Rightarrow> nat \<Rightarrow> nat \<Rightarrow> bytes"

definition pack_byte :: "cmpp_pack_t \<Rightarrow> cmpp_field \<Rightarrow> int" where
  "pack_byte p f = uint (take_bit 8 (pk_integer p f 1))"

definition pack_string :: "cmpp_pack_t \<Rightarrow> cmpp_field \<Rightarrow> nat \<Rightarrow> nat \<Rightarrow> string option" where
  "pack_string p f sz len = map_option cstr (memcpy_z sz (pk_string p f sz len))"

lemma pack_byte_range: "0 \<le> pack_byte p f" "pack_byte p f < 256"
proof -
  show "0 \<le> pack_byte p f" by (simp add: pack_byte_def)
  have "take_bit 8 (uint (pk_integer p f 1)) < 2 ^ 8" by (rule take_bit_int_less_exp)
  then show "pack_byte p f < 256" by (simp add: pack_byte_def unsigned_take_bit_eq)
qed

end
