(* ===== verification/Sp.thy ===== *)
theory Sp
  imports ServerLoops Cmpp
begin

text \<open>
  The client of a gateway (\<open>src/src/sp.c\<close>): one thread pulls submits from the scheduler and
  sends them to the operator over CMPP, one receives acknowledgements, reports and messages
  from phones, one passes those on to the delivery process, one keeps the connection alive,
  one writes statistics.

  The calls of the CMPP library answer what the turn says (\<open>cmpp_sequence\<close>, the errors).
\<close>

subsection \<open>State\<close>

record sp_status_t =
  sx_sub :: u64
  sx_ack :: u64
  sx_rep :: u64
  sx_delv :: u64
  sx_timeo :: u64
  sx_err :: u64

record lamb_statistical_t =
  sk_gid :: int
  sk_submit :: u64
  sk_delivrd :: u64
  sk_expired :: u64
  sk_deleted :: u64
  sk_undeliv :: u64
  sk_acceptd :: u64
  sk_unknown :: u64
  sk_rejectd :: u64

record lamb_confirmed_t =
  cn_account :: int
  cn_company :: int
  cn_spcode :: string
  cn_sequenceId :: u32
  cn_id :: u64

record lamb_heartbeat_t =
  hb_count :: int
  hb_sequenceId :: u32

record sp =
  sp_confirmed :: lamb_confirmed_t
  sp_status :: sp_status_t
  sp_total :: u64
  sp_statistical :: lamb_statistical_t
  sp_heartbeat :: lamb_heartbeat_t
  sp_storage :: "upmsg list"
  sp_ok :: bool

record sp_env =
  pe_gid :: int
  pe_gateway :: lamb_gateway_t
  pe_conv :: iconv
  pe_unpack :: "bytes \<Rightarrow> Submit option"
  pe_up :: upcodec
  pe_retry :: int

subsection \<open>The cache of message ids\<close>

definition strtoull :: "bytes \<Rightarrow> u64" where
  "strtoull s = (let v = atoi s in if v \<ge> 2 ^ 64 \<or> v \<le> - (2 ^ 64) then -1 else word_of_int v)"

text \<open>The return code and the command sent, with its node.\<close>

definition lamb_set_cache ::
  "lamb_caches_t \<Rightarrow> u64 \<Rightarrow> u64 \<Rightarrow> int \<Rightarrow> int \<Rightarrow> string \<Rightarrow> (int \<times> nat \<times> rcmd) option" where
  "lamb_set_cache caches msgId i account company spcode = do {
     k \<leftarrow> shard caches msgId;
     let cmd = HMSET (show_nat (unat msgId))
           [(''id'', show_nat (unat i)), (''account'', show_int account), (''company'', show_int company),
            (''spcode'', spcode)];
     Some (if cs_nodes caches k cmd \<noteq> None then 0 else -1, k, cmd) }"

record cached =
  cd_msgId :: u64
  cd_account :: int
  cd_company :: int
  cd_spcode :: bytes

definition cached_number :: "bytes \<Rightarrow> int" where
  "cached_number s = (if 0 < length s then atoi (cstr s) else 0)"

definition lamb_get_cache :: "lamb_caches_t \<Rightarrow> u64 \<Rightarrow> cached \<Rightarrow> nat \<Rightarrow> (int \<times> cached) option" where
  "lamb_get_cache caches i old sz = do {
     k \<leftarrow> shard caches i;
     Some (case cs_nodes caches k (HMGET (show_nat (unat i)) [''id'', ''account'', ''company'', ''spcode'']) of
             None \<Rightarrow> (-1, old)
           | Some (RArray [a, b, c, d]) \<Rightarrow>
               (0, \<lparr>cd_msgId = (if 0 < length a then strtoull (cstr a) else 0),
                    cd_account = cached_number b, cd_company = cached_number c,
                    cd_spcode = overwrite (cd_spcode old) (if sz \<le> length d then take (sz - 1) d else d)\<rparr>)
           | _ \<Rightarrow> (0, old)) }"

definition lamb_del_cache :: "lamb_caches_t \<Rightarrow> u64 \<Rightarrow> (int \<times> nat \<times> rcmd) option" where
  "lamb_del_cache caches msgId = do {
     k \<leftarrow> shard caches msgId;
     let cmd = DEL (show_nat (unat msgId));
     Some (if cs_nodes caches k cmd \<noteq> None then 0 else -1, k, cmd) }"

subsection \<open>Sending\<close>

record cmpp_submit_t =
  sm_sequenceId :: u32
  sm_spid :: string
  sm_spcode :: string
  sm_phone :: string
  sm_content :: bytes
  sm_length :: nat
  sm_msgFmt :: int

text \<open>
  One turn of the sender: whether the request went out, what came back, the sequence number
  drawn, whether \<open>cmpp_submit\<close> fails, whether the wait times out.
\<close>

record sturn =
  x_sent :: bool
  x_buf :: "bytes option"
  x_sequence :: u32
  x_error :: bool
  x_timedout :: bool

definition sp_coding :: "int \<Rightarrow> int \<times> string" where
  "sp_coding encoding =
     (if encoding = 0 then (0, ''ASCII'')
      else if encoding = 8 then (8, ''UCS-2BE'')
      else if encoding = 11 then (11, ''UTF-8'')
      else (15, ''GBK''))"

definition sp_caching :: "Submit \<Rightarrow> sp \<Rightarrow> sp" where
  "sp_caching m S =
     S\<lparr>sp_confirmed := (sp_confirmed S)\<lparr>cn_id := sb_id m, cn_spcode := strncpy_z 20 (sb_spcode m),
         cn_account := sb_account m, cn_company := sb_company m\<rparr>\<rparr>"

definition sp_code :: "lamb_gateway_t \<Rightarrow> Submit \<Rightarrow> string" where
  "sp_code g m = (if gw_extended g then snprintf_z 21 (gw_spcode g @ sb_spcode m) else gw_spcode g)"

text \<open>The converted text, the inner \<open>None\<close> for a failed or empty conversion.\<close>

definition sp_convert :: "sp_env \<Rightarrow> Submit \<Rightarrow> bytes option option" where
  "sp_convert e m =
     (if sb_length m < 0 \<or> int (length (sb_content m)) < sb_length m then None
      else Some (case pe_conv e (take (nat (sb_length m)) (sb_content m)) ''UTF-8''
                        (snd (sp_coding (gw_encoding (pe_gateway e)))) 256 of
                   None \<Rightarrow> None
                 | Some out \<Rightarrow> (if length out = 0 then None else Some out)))"

definition sp_packet :: "sp_env \<Rightarrow> u32 \<Rightarrow> Submit \<Rightarrow> bytes \<Rightarrow> cmpp_submit_t" where
  "sp_packet e sequenceId m out =
     \<lparr>sm_sequenceId = sequenceId, sm_spid = gw_spid (pe_gateway e), sm_spcode = sp_code (pe_gateway e) m,
      sm_phone = sb_phone m, sm_content = out, sm_length = length out,
      sm_msgFmt = fst (sp_coding (gw_encoding (pe_gateway e)))\<rparr>"

definition sp_submitted :: "u32 \<Rightarrow> sp \<Rightarrow> sp" where
  "sp_submitted sequenceId S =
     S\<lparr>sp_confirmed := (sp_confirmed S)\<lparr>cn_sequenceId := sequenceId\<rparr>,
       sp_total := sp_total S + 1,
       sp_status := (sp_status S)\<lparr>sx_sub := sx_sub (sp_status S) + 1\<rparr>,
       sp_statistical := (sp_statistical S)\<lparr>sk_submit := sk_submit (sp_statistical S) + 1\<rparr>\<rparr>"

definition sp_count_err :: "sp \<Rightarrow> sp" where
  "sp_count_err S = S\<lparr>sp_status := (sp_status S)\<lparr>sx_err := sx_err (sp_status S) + 1\<rparr>\<rparr>"

definition sp_count_timeo :: "sp \<Rightarrow> sp" where
  "sp_count_timeo S = S\<lparr>sp_status := (sp_status S)\<lparr>sx_timeo := sx_timeo (sp_status S) + 1\<rparr>\<rparr>"

text \<open>
  The pause after a message, the argument of \<open>lamb_msleep\<close>, which takes microseconds. With a
  concurrency of 0 the division traps: \<open>None\<close>; a negative one gives a huge unsigned number.
\<close>

definition sp_delay :: "int \<Rightarrow> u64 option" where
  "sp_delay concurrent =
     (if concurrent > 1000 then Some 1000
      else if concurrent = 0 then None
      else Some (word_of_int (if 0 < concurrent then 1000 div concurrent else - (1000 div (- concurrent)))))"

definition sp_sender_loop ::
  "sp_env \<Rightarrow> sturn \<Rightarrow> sp \<Rightarrow> (sp \<times> cmpp_submit_t option \<times> u64 option) option" where
  "sp_sender_loop e x S =
     (if \<not> sp_ok S \<or> \<not> x_sent x then Some (S, None, None)
      else case classify (x_buf x) of
        Short \<Rightarrow> Some (S, None, None)
      | Frame c body \<Rightarrow>
          (if c \<noteq> LAMB_SUBMIT then Some (S, None, None)
           else case pe_unpack e body of
                  None \<Rightarrow> Some (S, None, None)
                | Some m \<Rightarrow> do {
                    v \<leftarrow> sp_convert e m;
                    (case v of
                       None \<Rightarrow> Some (sp_caching m S, None, None)
                     | Some out \<Rightarrow>
                         (let S2 = sp_submitted (x_sequence x) (sp_caching m S);
                              p = sp_packet e (x_sequence x) m out
                          in if x_error x then Some (sp_count_err S2, Some p, None)
                             else do {
                               delay \<leftarrow> sp_delay (gw_concurrent (pe_gateway e));
                               Some (if x_timedout x then sp_count_timeo S2 else S2, Some p, Some delay) })) }))"

subsection \<open>Receiving\<close>

text \<open>
  One turn of the receiving thread: what arrived, which allocations succeed, the nodes. The
  results are the answers to the gateway and the commands to the nodes. A report or message
  that cannot be allocated is answered through a NULL pointer: \<open>None\<close>.
\<close>

record yturn =
  y_pack :: "cmpp_pack_t option"
  y_calloc :: bool
  y_node :: bool
  y_caches :: lamb_caches_t

text \<open>The check of an acknowledgement: the counters, and whether it is accepted.\<close>

definition sp_ack_check :: "cmpp_pack_t \<Rightarrow> sp \<Rightarrow> sp \<times> bool" where
  "sp_ack_check p S =
     (let S1 = S\<lparr>sp_status := (sp_status S)\<lparr>sx_ack := sx_ack (sp_status S) + 1\<rparr>\<rparr>
      in if cn_sequenceId (sp_confirmed S1) \<noteq> pk_sequenceId p then (sp_count_err S1, False)
         else if pack_byte p cmpp_submit_resp_result \<noteq> 0 then (sp_count_err S1, False)
         else (S1, True))"

definition sp_ack_store :: "lamb_caches_t \<Rightarrow> u64 \<Rightarrow> sp \<Rightarrow> (nat \<times> rcmd) option" where
  "sp_ack_store caches msgId S =
     map_option snd (lamb_set_cache caches msgId (cn_id (sp_confirmed S)) (cn_account (sp_confirmed S))
       (cn_company (sp_confirmed S)) (cn_spcode (sp_confirmed S)))"

definition lower :: "char \<Rightarrow> char" where
  "lower c = (if 65 \<le> (of_char c :: nat) \<and> (of_char c :: nat) \<le> 90 then char_of ((of_char c :: nat) + 32) else c)"

definition strncasecmp_eq :: "string \<Rightarrow> string \<Rightarrow> nat \<Rightarrow> bool" where
  "strncasecmp_eq a b n \<longleftrightarrow> map lower (take n a) = map lower (take n b)"

definition report_stat :: "string \<Rightarrow> int" where
  "report_stat stat =
     (if strncasecmp_eq stat ''DELIVRD'' 7 then 1
      else if strncasecmp_eq stat ''EXPIRED'' 7 then 2
      else if strncasecmp_eq stat ''DELETED'' 7 then 3
      else if strncasecmp_eq stat ''UNDELIV'' 7 then 4
      else if strncasecmp_eq stat ''ACCEPTD'' 7 then 5
      else if strncasecmp_eq stat ''UNKNOWN'' 7 then 6
      else if strncasecmp_eq stat ''REJECTD'' 7 then 7
      else 6)"

definition sp_report :: "cmpp_pack_t \<Rightarrow> lamb_report_t option" where
  "sp_report p = do {
     phone \<leftarrow> pack_string p cmpp_deliver_src_terminal_id 21 20;
     stat \<leftarrow> pack_string p cmpp_deliver_msg_content_stat 8 7;
     submittime \<leftarrow> pack_string p cmpp_deliver_msg_content_submit_time 11 10;
     donetime \<leftarrow> pack_string p cmpp_deliver_msg_content_done_time 11 10;
     Some \<lparr>lr_id = pk_integer p cmpp_deliver_msg_content_msg_id 8, lr_account = 0, lr_company = 0,
           lr_spcode = [], lr_phone = phone, lr_status = report_stat stat, lr_submittime = submittime,
           lr_donetime = donetime\<rparr> }"

definition sp_phone_message :: "cmpp_pack_t \<Rightarrow> lamb_deliver_t option" where
  "sp_phone_message p = do {
     phone \<leftarrow> pack_string p cmpp_deliver_src_terminal_id 21 20;
     spcode \<leftarrow> pack_string p cmpp_deliver_dest_id 21 20;
     serviceid \<leftarrow> pack_string p cmpp_deliver_service_id 11 10;
     let len = pack_byte p cmpp_deliver_msg_length;
     content \<leftarrow> memcpy_z 160 (pk_string p cmpp_deliver_msg_content 160 (nat len));
     Some \<lparr>ld_id = pk_integer p cmpp_deliver_msg_id 8, ld_account = 0, ld_company = 0, ld_phone = phone,
           ld_spcode = spcode, ld_serviceid = serviceid, ld_msgfmt = pack_byte p cmpp_deliver_msg_fmt,
           ld_length = len, ld_content = content\<rparr> }"

definition sp_push :: "bool \<Rightarrow> upmsg \<Rightarrow> sp \<Rightarrow> sp" where
  "sp_push node v S = (if node then S\<lparr>sp_storage := sp_storage S @ [v]\<rparr> else S)"

definition sp_deliver_loop ::
  "yturn \<Rightarrow> sp \<Rightarrow> (sp \<times> (u32 \<times> u64 \<times> int) list \<times> (nat \<times> rcmd) list) option" where
  "sp_deliver_loop y S =
     (if \<not> sp_ok S then Some (S, [], [])
      else case y_pack y of
        None \<Rightarrow> Some (S, [], [])
      | Some p \<Rightarrow>
          (case pk_commandId p of
             CMPP_SUBMIT_RESP \<Rightarrow>
               (let (S1, accepted) = sp_ack_check p S
                in if accepted then do {
                     cmd \<leftarrow> sp_ack_store (y_caches y) (pk_integer p cmpp_submit_resp_msg_id 8) S1;
                     Some (S1, [], [cmd]) }
                   else Some (S1, [], []))
           | CMPP_DELIVER \<Rightarrow>
               (if pack_byte p cmpp_deliver_registered_delivery = 1 then
                  (let S1 = S\<lparr>sp_status := (sp_status S)\<lparr>sx_rep := sx_rep (sp_status S) + 1\<rparr>\<rparr>
                   in if \<not> y_calloc y then None
                      else do {
                        r \<leftarrow> sp_report p;
                        Some (sp_push (y_node y) (UpReport r) S1, [(pk_sequenceId p, lr_id r, 0)], []) })
                else
                  (let S1 = S\<lparr>sp_status := (sp_status S)\<lparr>sx_delv := sx_delv (sp_status S) + 1\<rparr>\<rparr>
                   in if \<not> y_calloc y then None
                      else do {
                        d \<leftarrow> sp_phone_message p;
                        Some (sp_push (y_node y) (UpDeliver d) S1, [(pk_sequenceId p, ld_id d, 0)], []) }))
           | CMPP_ACTIVE_TEST_RESP \<Rightarrow>
               Some (if hb_sequenceId (sp_heartbeat S) = pk_sequenceId p
                     then S\<lparr>sp_heartbeat := (sp_heartbeat S)\<lparr>hb_count := 0\<rparr>\<rparr> else S, [], [])
           | _ \<Rightarrow> Some (S, [], [])))"

subsection \<open>Passing on\<close>

record tturn =
  t_caches :: lamb_caches_t
  t_pk :: bool
  t_frame :: bool

definition lamb_check_statistical :: "int \<Rightarrow> lamb_statistical_t \<Rightarrow> lamb_statistical_t" where
  "lamb_check_statistical status k =
     (if status = 1 then k\<lparr>sk_delivrd := sk_delivrd k + 1\<rparr>
      else if status = 2 then k\<lparr>sk_expired := sk_expired k + 1\<rparr>
      else if status = 3 then k\<lparr>sk_deleted := sk_deleted k + 1\<rparr>
      else if status = 4 then k\<lparr>sk_undeliv := sk_undeliv k + 1\<rparr>
      else if status = 5 then k\<lparr>sk_acceptd := sk_acceptd k + 1\<rparr>
      else if status = 6 then k\<lparr>sk_unknown := sk_unknown k + 1\<rparr>
      else if status = 7 then k\<lparr>sk_rejectd := sk_rejectd k + 1\<rparr>
      else k)"

definition sp_forward :: "tturn \<Rightarrow> u32 \<Rightarrow> bytes \<Rightarrow> bytes list" where
  "sp_forward t c pk =
     (if \<not> t_pk t then []
      else case lamb_pack_assembly (t_frame t) c (Some pk) of None \<Rightarrow> [] | Some buf \<Rightarrow> [buf])"

definition no_cached :: cached where
  "no_cached = \<lparr>cd_msgId = 0, cd_account = 0, cd_company = 0, cd_spcode = zeroed 21\<rparr>"

definition cached_report :: "cached \<Rightarrow> lamb_report_t \<Rightarrow> Report" where
  "cached_report c r =
     \<lparr>rp_id = cd_msgId c, rp_account = cd_account c, rp_company = cd_company c, rp_spcode = cstr (cd_spcode c),
      rp_phone = lr_phone r, rp_status = lr_status r, rp_submittime = lr_submittime r,
      rp_donetime = lr_donetime r\<rparr>"

definition sp_work_report ::
  "sp_env \<Rightarrow> tturn \<Rightarrow> lamb_report_t \<Rightarrow> sp \<Rightarrow> (sp \<times> (nat \<times> rcmd) list \<times> bytes list) option" where
  "sp_work_report e t r S = do {
     (rc, c) \<leftarrow> lamb_get_cache (t_caches t) (lr_id r) no_cached 21;
     if 0 < cd_msgId c \<and> 0 < cd_account c \<and> 0 < cd_company c then do {
       (rc, cmd) \<leftarrow> lamb_del_cache (t_caches t) (cd_msgId c);
       Some (S\<lparr>sp_statistical := lamb_check_statistical (lr_status r) (sp_statistical S)\<rparr>, [cmd],
             sp_forward t LAMB_REPORT (pack_report (pe_up e) (cached_report c r))) }
     else Some (S, [], []) }"

definition sp_service :: "lamb_gateway_t \<Rightarrow> string \<Rightarrow> string" where
  "sp_service g spcode = (if length spcode > length (gw_spcode g) then drop (length (gw_spcode g)) spcode else [])"

definition sp_work_deliver ::
  "sp_env \<Rightarrow> tturn \<Rightarrow> lamb_deliver_t \<Rightarrow> sp \<Rightarrow> (sp \<times> (nat \<times> rcmd) list \<times> bytes list) option" where
  "sp_work_deliver e t d S =
     (if \<not> t_pk t then Some (S, [], [])
      else do {
        content \<leftarrow> content_bytes (ld_length d) (ld_content d);
        Some (S, [], sp_forward t LAMB_DELIVER (pack_deliver (pe_up e)
               \<lparr>dl_id = ld_id d, dl_account = 0, dl_company = 0, dl_phone = ld_phone d, dl_spcode = ld_spcode d,
                dl_serviceid = sp_service (pe_gateway e) (ld_spcode d), dl_msgfmt = ld_msgfmt d,
                dl_length = ld_length d, dl_content = content\<rparr>)) })"

definition sp_work_loop ::
  "sp_env \<Rightarrow> tturn \<Rightarrow> sp \<Rightarrow> (sp \<times> (nat \<times> rcmd) list \<times> bytes list) option" where
  "sp_work_loop e t S =
     (case sp_storage S of
        [] \<Rightarrow> Some (S, [], [])
      | UpReport r # rest \<Rightarrow> sp_work_report e t r (S\<lparr>sp_storage := rest\<rparr>)
      | UpDeliver d # rest \<Rightarrow> sp_work_deliver e t d (S\<lparr>sp_storage := rest\<rparr>))"

subsection \<open>The connection\<close>

text \<open>
  One attempt to connect and log in: the errors of the library, what \<open>cmpp_init_sp\<close> leaves in
  \<open>cmpp.ok\<close>, the sequence number, the answer, if one comes in time.
\<close>

record attempt =
  at_init :: bool
  at_ok :: bool
  at_sequence :: u32
  at_connect :: bool
  at_recv :: "cmpp_pack_t option"

definition lamb_cmpp_init :: "attempt \<Rightarrow> int \<times> bool" where
  "lamb_cmpp_init a =
     (if at_init a then (1, at_ok a)
      else if at_connect a then (2, at_ok a)
      else case at_recv a of
        None \<Rightarrow> (3, at_ok a)
      | Some p \<Rightarrow>
          (if pk_commandId p = CMPP_CONNECT_RESP \<and> at_sequence a = pk_sequenceId p then
             (if pack_byte p cmpp_connect_resp_status = 0 then (0, True) else (4, at_ok a))
           else (5, at_ok a)))"

text \<open>The loop that connects again, from attempt \<open>k\<close>: the next attempt and the flag.\<close>

partial_function (option) lamb_cmpp_reconnect :: "(nat \<Rightarrow> attempt) \<Rightarrow> nat \<Rightarrow> (nat \<times> bool) option" where
  "lamb_cmpp_reconnect A k =
     (case lamb_cmpp_init (A k) of
        (rc, ok) \<Rightarrow> (if rc \<noteq> 0 then lamb_cmpp_reconnect A (Suc k) else Some (Suc k, ok)))"

definition lamb_cmpp_keepalive ::
  "sp_env \<Rightarrow> (nat \<Rightarrow> attempt) \<Rightarrow> nat \<Rightarrow> u32 \<Rightarrow> sp \<Rightarrow> (sp \<times> nat) option" where
  "lamb_cmpp_keepalive e A k sequenceId S =
     (let S1 = S\<lparr>sp_heartbeat := \<lparr>hb_count = hb_count (sp_heartbeat S) + 1, hb_sequenceId = sequenceId\<rparr>\<rparr>
      in if hb_count (sp_heartbeat S1) \<ge> pe_retry e then do {
           (k1, ok) \<leftarrow> lamb_cmpp_reconnect A k;
           Some (S1\<lparr>sp_ok := ok, sp_heartbeat := (sp_heartbeat S1)\<lparr>hb_count := 0\<rparr>\<rparr>, k1) }
         else Some (S1, k))"

subsection \<open>Statistics and signals\<close>

definition lamb_clean_statistical :: "lamb_statistical_t option \<Rightarrow> lamb_statistical_t option" where
  "lamb_clean_statistical stat =
     map_option (\<lambda>k. \<lparr>sk_gid = sk_gid k, sk_submit = 0, sk_delivrd = 0, sk_expired = 0, sk_deleted = 0,
        sk_undeliv = 0, sk_acceptd = 0, sk_unknown = 0, sk_rejectd = 0\<rparr>) stat"

definition statistical_sql :: "lamb_statistical_t \<Rightarrow> string" where
  "statistical_sql k =
     snprintf_z 512 (''INSERT INTO statistical VALUES('' @ show_int (sk_gid k)
       @ '', '' @ show_int (sint (sk_submit k)) @ '', '' @ show_int (sint (sk_delivrd k))
       @ '', '' @ show_int (sint (sk_expired k)) @ '', '' @ show_int (sint (sk_deleted k))
       @ '', '' @ show_int (sint (sk_undeliv k)) @ '', '' @ show_int (sint (sk_acceptd k))
       @ '', '' @ show_int (sint (sk_unknown k)) @ '', '' @ show_int (sint (sk_rejectd k))
       @ '', current_date)'')"

definition lamb_write_statistical ::
  "(string \<Rightarrow> bool) \<Rightarrow> bool \<Rightarrow> lamb_statistical_t option \<Rightarrow> int \<times> string list" where
  "lamb_write_statistical exec db stat =
     (case stat of
        None \<Rightarrow> (-1, [])
      | Some k \<Rightarrow>
          (if \<not> db then (-1, [])
           else (if exec (statistical_sql k) then 0 else -1, [statistical_sql k])))"

definition statistical_busy :: "lamb_statistical_t \<Rightarrow> bool" where
  "statistical_busy k \<longleftrightarrow>
     0 < sk_submit k \<or> 0 < sk_delivrd k \<or> 0 < sk_expired k \<or> 0 < sk_deleted k \<or>
     0 < sk_undeliv k \<or> 0 < sk_acceptd k \<or> sk_unknown k \<noteq> 0 \<or> 0 < sk_rejectd k"

definition sp_clear_signal :: "int \<Rightarrow> string list" where
  "sp_clear_signal i = [''HSET gateway.'' @ show_int i @ '' signal 0'']"

definition sp_check_signal :: "redis \<Rightarrow> int \<Rightarrow> int \<times> string list" where
  "sp_check_signal rds i =
     (let get = ''HGET gateway.'' @ show_int i @ '' signal'';
          signal = (case rd_reply rds get of
                      Some (RString s) \<Rightarrow> (if 0 < length s then atoi (cstr s) else 0)
                    | _ \<Rightarrow> 0)
      in (signal, get # sp_clear_signal i))"

definition sp_status_cmd :: "int \<Rightarrow> u32 \<Rightarrow> bool \<Rightarrow> u64 \<Rightarrow> u64 \<Rightarrow> string" where
  "sp_status_cmd i pid ok speed error =
     ''HMSET gateway.'' @ show_int i @ '' pid '' @ show_nat (unat pid) @ '' status '' @ (if ok then ''1'' else ''0'')
       @ '' speed '' @ show_nat (unat speed) @ '' error '' @ show_nat (unat error)"

text \<open>
  One turn of the status thread: the seconds since the last one, the process id, the reply of
  the database and redis. \<open>speed\<close> keeps its value when no second passed; in the first turn
  that is whatever was on the stack. The results are the state, the speed, the redis commands,
  the row taken from the counters with the SQL sent for it, and whether the process exits.
\<close>

record vturn =
  v_interval :: int
  v_pid :: u32
  v_exec :: "string \<Rightarrow> bool"
  v_redis :: redis

record vout =
  vo_speed :: u64
  vo_cmds :: "string list"
  vo_row :: lamb_statistical_t
  vo_rc :: int
  vo_sql :: "string list"
  vo_exit :: bool

definition sp_stat_loop :: "sp_env \<Rightarrow> vturn \<Rightarrow> u64 \<Rightarrow> sp \<Rightarrow> sp \<times> vout" where
  "sp_stat_loop e v speed S =
     (let speed1 = (if v_interval v > 0 then sp_total S div word_of_int (v_interval v) else speed);
          error = sx_err (sp_status S) + sx_timeo (sp_status S);
          row = sp_statistical S;
          (rc, sql) = (if statistical_busy row then lamb_write_statistical (v_exec v) True (Some row) else (0, []));
          (sig, cmds) = sp_check_signal (v_redis v) (pe_gid e)
      in (S\<lparr>sp_total := 0, sp_statistical := the (lamb_clean_statistical (Some row))\<rparr>,
          \<lparr>vo_speed = speed1, vo_cmds = sp_status_cmd (pe_gid e) (v_pid v) (sp_ok S) speed1 error # cmds,
           vo_row = row, vo_rc = rc, vo_sql = sql, vo_exit = (sig = 9)\<rparr>))"

subsection \<open>Start and exit\<close>

definition sp_exit_cleanup :: "nnenv \<Rightarrow> int \<Rightarrow> int \<Rightarrow> nnet \<Rightarrow> nnet" where
  "sp_exit_cleanup n scheduler delivery s = lamb_nn_close n delivery (lamb_nn_close n scheduler s)"

definition no_gateway :: lamb_gateway_t where
  "no_gateway = \<lparr>gw_id = 0, gw_type = 0, gw_name = [], gw_host = [], gw_port = 0, gw_username = [],
     gw_password = [], gw_spid = [], gw_spcode = [], gw_encoding = 0, gw_extended = False, gw_concurrent = 0\<rparr>"

definition sp_initial :: "int \<Rightarrow> bool \<Rightarrow> sp" where
  "sp_initial gid ok =
     \<lparr>sp_confirmed = \<lparr>cn_account = 0, cn_company = 0, cn_spcode = [], cn_sequenceId = 0, cn_id = 0\<rparr>,
      sp_status = \<lparr>sx_sub = 0, sx_ack = 0, sx_rep = 0, sx_delv = 0, sx_timeo = 0, sx_err = 0\<rparr>,
      sp_total = 0,
      sp_statistical = \<lparr>sk_gid = gid, sk_submit = 0, sk_delivrd = 0, sk_expired = 0, sk_deleted = 0,
        sk_undeliv = 0, sk_acceptd = 0, sk_unknown = 0, sk_rejectd = 0\<rparr>,
      sp_heartbeat = \<lparr>hb_count = 0, hb_sequenceId = 0\<rparr>, sp_storage = [], sp_ok = ok\<rparr>"

record sp_started =
  sg_sp :: sp
  sg_gateway :: lamb_gateway_t
  sg_cache :: "nat \<rightharpoonup> string"
  sg_scheduler :: int
  sg_delivery :: int

definition sp_component_initialization ::
  "init_env \<Rightarrow> lamb_config_t option \<Rightarrow> int \<Rightarrow> attempt \<Rightarrow> nnet \<Rightarrow> int \<times> sp_started option \<times> nnet" where
  "sp_component_initialization n config gid a s =
     (case config of
        None \<Rightarrow> (-1, None, s)
      | Some cfg \<Rightarrow>
          (if \<not> in_list n 0 \<or> \<not> in_structs n then (-1, None, s)
           else if fst (lamb_cache_connect (in_redis n) (conf_str cfg ''redis_host'') (c_int cfg ''redis_port'')
                          None (c_int cfg ''redis_db'')) \<noteq> 0 then (-1, None, s)
           else if lamb_db_connect (in_up n) (conf_str cfg ''db_host'') (c_int cfg ''db_port'')
                     (conf_str cfg ''db_user'') (conf_str cfg ''db_password'') (conf_str cfg ''db_name'') \<noteq> 0
             then (-1, None, s)
           else let (e1, gateway) = lamb_get_gateway (in_pg n) gid no_gateway
           in if e1 \<noteq> 0 then (-1, None, s)
              else case init_nodes n cfg 4 of
                None \<Rightarrow> (-1, None, s)
              | Some slots \<Rightarrow>
                  (let (scheduler, s1) = lamb_nn_reqrep (in_nn n) (in_codec n) (conf_str cfg ''scheduler'') gid
                                           (c_int cfg ''timeout'') s
                   in if scheduler < 0 then (-1, None, s1)
                      else let (delivery, s2) = lamb_nn_pair (in_nn n) (in_codec n) (conf_str cfg ''delivery'') gid
                                                  (c_int cfg ''timeout'') s1
                   in if delivery < 0 then (-1, None, s2)
                      else let (rc, ok) = lamb_cmpp_init a
                   in if rc \<noteq> 0 then (-1, None, s2)
                      else (0, Some \<lparr>sg_sp = sp_initial gid ok, sg_gateway = gateway, sg_cache = slots,
                              sg_scheduler = scheduler, sg_delivery = delivery\<rparr>, s2))))"

end
