(* ===== verification/SpCache.thy ===== *)
theory SpCache
  imports Sp
begin

text \<open>
  What the gateway client keeps about a message until its report comes: the cache of message
  ids over nodes that keep hashes, the threads of sender and receiver at the granularity of
  their accesses to the shared \<open>confirmed\<close>, and what becomes of a report.
\<close>

subsection \<open>Nodes that keep hashes\<close>

type_synonym hashes = "nat \<Rightarrow> string \<Rightarrow> string \<rightharpoonup> string"

definition hash_nodes :: "nat \<Rightarrow> hashes \<Rightarrow> lamb_caches_t" where
  "hash_nodes n H = \<lparr>cs_len = n, cs_nodes = (\<lambda>i c. case c of
      HMGET k fs \<Rightarrow> Some (RArray (map (\<lambda>f. case H i k f of Some v \<Rightarrow> v | None \<Rightarrow> []) fs))
    | _ \<Rightarrow> Some (RStatus ''OK''))\<rparr>"

definition hash_cmd :: "nat \<times> rcmd \<Rightarrow> hashes \<Rightarrow> hashes" where
  "hash_cmd ic H =
     (case ic of (i, c) \<Rightarrow>
       (case c of
          HMSET k fvs \<Rightarrow> H(i := (H i)(k := foldl (\<lambda>h fv. h(fst fv \<mapsto> snd fv)) (H i k) fvs))
        | DEL k \<Rightarrow> H(i := (H i)(k := Map.empty))
        | _ \<Rightarrow> H))"

lemma hash_nodes_simps [simp]:
  "cs_len (hash_nodes n H) = n"
  "cs_nodes (hash_nodes n H) i (HMGET k fs) = Some (RArray (map (\<lambda>f. case H i k f of Some v \<Rightarrow> v | None \<Rightarrow> []) fs))"
  "cs_nodes (hash_nodes n H) i (HMSET k fvs) = Some (RStatus ''OK'')"
  "cs_nodes (hash_nodes n H) i (DEL k) = Some (RStatus ''OK'')"
  by (simp_all add: hash_nodes_def)

lemma shard_Some: "0 < cs_len c \<Longrightarrow> shard c x = Some (unat x mod cs_len c)"
  by (simp add: shard_def)

lemma strtoull_show [simp]: "strtoull (show_nat (unat (x :: u64))) = x"
proof -
  have "0 \<le> uint x" "uint x < 2 ^ 64" using unsigned_less [of x] unsigned_greater_eq [of x] by simp_all
  then have "\<not> uint x \<ge> 2 ^ 64" "\<not> uint x \<le> - (2 ^ 64)" by linarith+
  then show ?thesis by (simp add: strtoull_def)
qed

lemma cached_number_show: "0 \<le> a \<Longrightarrow> cached_number (show_int a) = a"
  by (simp add: cached_number_def show_int_def)

subsection \<open>Storing and finding an entry\<close>

definition entry_of :: "u64 \<Rightarrow> int \<Rightarrow> int \<Rightarrow> string \<Rightarrow> cached" where
  "entry_of i account company spcode =
     \<lparr>cd_msgId = i, cd_account = account, cd_company = company, cd_spcode = overwrite (zeroed 21) spcode\<rparr>"

text \<open>What the nodes hold under a message id, as \<open>lamb_get_cache\<close> reads it.\<close>

definition holds :: "nat \<Rightarrow> hashes \<Rightarrow> u64 \<Rightarrow> cached \<Rightarrow> bool" where
  "holds n H i c \<longleftrightarrow> lamb_get_cache (hash_nodes n H) i no_cached 21 = Some (0, c)"

lemma hash_cmd_other:
  assumes "0 < n" and "shard (hash_nodes n H) j = Some k" and "i \<noteq> j"
  shows "hash_cmd (k, HMSET (show_nat (unat j)) fvs) H l (show_nat (unat i)) = H l (show_nat (unat i))"
    and "hash_cmd (k, DEL (show_nat (unat j))) H l (show_nat (unat i)) = H l (show_nat (unat i))"
  using assms by (auto simp: hash_cmd_def word_unat_eq_iff)

lemma get_cache_cong:
  assumes "\<And>l. H l (show_nat (unat i)) = H' l (show_nat (unat i))"
  shows "lamb_get_cache (hash_nodes n H) i c sz = lamb_get_cache (hash_nodes n H') i c sz"
  by (simp add: lamb_get_cache_def shard_def assms)

lemma set_cache_holds:
  assumes "0 < n" and "lamb_set_cache (hash_nodes n H) msgId i account company spcode = Some (rc, cmd)"
    and "0 \<le> account" and "0 \<le> company" and "length spcode \<le> 20"
  shows "holds n (hash_cmd cmd H) msgId (entry_of i account company spcode)" and "rc = 0"
proof -
  let ?k = "unat msgId mod n"
  have cmd: "cmd = (?k, HMSET (show_nat (unat msgId)) [(''id'', show_nat (unat i)), (''account'', show_int account),
      (''company'', show_int company), (''spcode'', spcode)])" and rc: "rc = 0"
    using assms(1,2) by (auto simp: lamb_set_cache_def shard_Some Let_def)
  have "hash_cmd cmd H ?k (show_nat (unat msgId)) f =
      (if f = ''spcode'' then Some spcode else if f = ''company'' then Some (show_int company)
       else if f = ''account'' then Some (show_int account) else if f = ''id'' then Some (show_nat (unat i))
       else H ?k (show_nat (unat msgId)) f)" for f
    by (simp add: cmd hash_cmd_def)
  then show "holds n (hash_cmd cmd H) msgId (entry_of i account company spcode)"
    using assms
    by (simp add: holds_def lamb_get_cache_def shard_Some cached_number_show entry_of_def no_cached_def)
  show "rc = 0" by (rule rc)
qed

lemma set_cache_others:
  assumes "0 < n" and "lamb_set_cache (hash_nodes n H) msgId i account company spcode = Some (rc, cmd)"
    and "j \<noteq> msgId"
  shows "holds n (hash_cmd cmd H) j c = holds n H j c"
proof -
  obtain fvs where "cmd = (unat msgId mod n, HMSET (show_nat (unat msgId)) fvs)"
    using assms(1,2) by (auto simp: lamb_set_cache_def shard_Some Let_def)
  with assms have "hash_cmd cmd H l (show_nat (unat j)) = H l (show_nat (unat j))" for l
    using hash_cmd_other(1) [of n H msgId _ j] by (simp add: shard_Some)
  then show ?thesis by (simp add: holds_def get_cache_cong [of "hash_cmd cmd H" j H])
qed

lemma del_cache_others:
  assumes "0 < n" and "lamb_del_cache (hash_nodes n H) i = Some (rc, cmd)" and "j \<noteq> i"
  shows "holds n (hash_cmd cmd H) j c = holds n H j c"
proof -
  have "cmd = (unat i mod n, DEL (show_nat (unat i)))"
    using assms(1,2) by (auto simp: lamb_del_cache_def shard_Some Let_def)
  with assms have "hash_cmd cmd H l (show_nat (unat j)) = H l (show_nat (unat j))" for l
    using hash_cmd_other(2) [of n H i _ j] by (simp add: shard_Some)
  then show ?thesis by (simp add: holds_def get_cache_cong [of "hash_cmd cmd H" j H])
qed

lemma del_cache_total: "0 < n \<Longrightarrow> lamb_del_cache (hash_nodes n H) i = Some (0, unat i mod n, DEL (show_nat (unat i)))"
  by (simp add: lamb_del_cache_def shard_Some)

subsection \<open>The threads of sender and receiver\<close>

text \<open>
  Where the two threads are between their accesses to \<open>confirmed\<close>: the sender has cached a
  message, submitted it, waits, is woken; the receiver has accepted an acknowledgement (of the
  sequence number, with the gateway's id) and signalled, but not yet stored it. \<open>pc_sent\<close> and
  \<open>pc_stored\<close> are ghosts: what was submitted under a sequence number, what was stored for one.
\<close>

datatype sender_pc = Ready | Prepared Submit bytes | Submitted | Blocked | Woken

datatype receiver_pc = Listening | Acked u32 u64

record sp_threads =
  pc_sender :: sender_pc
  pc_receiver :: receiver_pc
  pc_sp :: sp
  pc_sent :: "(u32 \<times> Submit) list"
  pc_stored :: "(u32 \<times> nat \<times> rcmd) list"

text \<open>
  One access of one thread; a signal while the sender does not wait yet is lost. Any packet of the
  gateway can come at any time, and the receiver signals before it stores.
\<close>

inductive sp_step :: "sp_env \<Rightarrow> lamb_caches_t \<Rightarrow> sp_threads \<Rightarrow> sp_threads \<Rightarrow> bool"
  for e :: sp_env and caches :: lamb_caches_t where
  step_cache: "pc_sender s = Ready \<Longrightarrow> sp_convert e m = Some (Some out) \<Longrightarrow>
    sp_step e caches s (s\<lparr>pc_sender := Prepared m out, pc_sp := sp_caching m (pc_sp s)\<rparr>)"
| step_drop: "pc_sender s = Ready \<Longrightarrow> sp_convert e m = Some None \<Longrightarrow>
    sp_step e caches s (s\<lparr>pc_sp := sp_caching m (pc_sp s)\<rparr>)"
| step_submit: "pc_sender s = Prepared m out \<Longrightarrow>
    sp_step e caches s (s\<lparr>pc_sender := Submitted, pc_sp := sp_submitted q (pc_sp s),
      pc_sent := pc_sent s @ [(q, m)]\<rparr>)"
| step_fail: "pc_sender s = Prepared m out \<Longrightarrow>
    sp_step e caches s (s\<lparr>pc_sender := Ready, pc_sp := sp_count_err (sp_submitted q (pc_sp s)),
      pc_sent := pc_sent s @ [(q, m)]\<rparr>)"
| step_wait: "pc_sender s = Submitted \<Longrightarrow> sp_step e caches s (s\<lparr>pc_sender := Blocked\<rparr>)"
| step_timeout: "pc_sender s = Blocked \<Longrightarrow>
    sp_step e caches s (s\<lparr>pc_sender := Ready, pc_sp := sp_count_timeo (pc_sp s)\<rparr>)"
| step_resume: "pc_sender s = Woken \<Longrightarrow> sp_step e caches s (s\<lparr>pc_sender := Ready\<rparr>)"
| step_ack: "pc_receiver s = Listening \<Longrightarrow> pk_commandId p = CMPP_SUBMIT_RESP \<Longrightarrow>
    sp_ack_check p (pc_sp s) = (S', True) \<Longrightarrow>
    sp_step e caches s (s\<lparr>pc_sender := (if pc_sender s = Blocked then Woken else pc_sender s),
      pc_receiver := Acked (pk_sequenceId p) (pk_integer p cmpp_submit_resp_msg_id 8), pc_sp := S'\<rparr>)"
| step_refuse: "pc_receiver s = Listening \<Longrightarrow> pk_commandId p = CMPP_SUBMIT_RESP \<Longrightarrow>
    sp_ack_check p (pc_sp s) = (S', False) \<Longrightarrow> sp_step e caches s (s\<lparr>pc_sp := S'\<rparr>)"
| step_store: "pc_receiver s = Acked q msgId \<Longrightarrow> sp_ack_store caches msgId (pc_sp s) = Some cmd \<Longrightarrow>
    sp_step e caches s (s\<lparr>pc_receiver := Listening, pc_stored := pc_stored s @ [(q, cmd)]\<rparr>)"

definition sp_idle :: "sp \<Rightarrow> sp_threads" where
  "sp_idle S = \<lparr>pc_sender = Ready, pc_receiver = Listening, pc_sp = S, pc_sent = [], pc_stored = []\<rparr>"

definition sp_reach :: "sp_env \<Rightarrow> lamb_caches_t \<Rightarrow> sp \<Rightarrow> sp_threads \<Rightarrow> bool" where
  "sp_reach e caches S = (sp_step e caches)\<^sup>*\<^sup>* (sp_idle S)"

text \<open>
  The order the threads would have to keep, which nothing in the code ensures: from the moment an
  acknowledgement is accepted until it is stored, \<open>confirmed\<close> stays as it is; and one is accepted
  only for a message in flight. The runs that keep it:
\<close>

definition in_order :: "sp_threads \<Rightarrow> sp_threads \<Rightarrow> bool" where
  "in_order s s' \<longleftrightarrow> (pc_receiver s \<noteq> Listening \<longrightarrow> sp_confirmed (pc_sp s') = sp_confirmed (pc_sp s)) \<and>
     (pc_receiver s = Listening \<and> pc_receiver s' \<noteq> Listening \<longrightarrow> pc_sender s \<in> {Submitted, Blocked})"

definition sp_reach_in_order :: "sp_env \<Rightarrow> lamb_caches_t \<Rightarrow> sp \<Rightarrow> sp_threads \<Rightarrow> bool" where
  "sp_reach_in_order e caches S = (\<lambda>s s'. sp_step e caches s s' \<and> in_order s s')\<^sup>*\<^sup>* (sp_idle S)"

text \<open>Run without a step of the other thread in between, the steps are the turns of the loops.\<close>

lemma steps2: "r a b \<Longrightarrow> r b c \<Longrightarrow> r\<^sup>*\<^sup>* a c"
  by (rule rtranclp.rtrancl_into_rtrancl [OF r_into_rtranclp])

lemma sender_loop_submits:
  assumes turn: "sp_sender_loop e x S = Some (S', Some p, delay)"
  obtains body m out where "classify (x_buf x) = Frame LAMB_SUBMIT body" "pe_unpack e body = Some m"
    "sp_convert e m = Some (Some out)" "p = sp_packet e (x_sequence x) m out"
    "S' = (let S2 = sp_submitted (x_sequence x) (sp_caching m S)
           in if x_error x then sp_count_err S2 else if x_timedout x then sp_count_timeo S2 else S2)"
proof -
  have on: "sp_ok S \<and> x_sent x" using turn by (simp add: sp_sender_loop_def split: if_splits)
  obtain c body where f: "classify (x_buf x) = Frame c body"
    using turn on by (cases "classify (x_buf x)") (simp_all add: sp_sender_loop_def)
  have c: "c = LAMB_SUBMIT" using turn on f by (simp add: sp_sender_loop_def split: if_splits)
  obtain m where m: "pe_unpack e body = Some m"
    using turn on f c by (cases "pe_unpack e body") (simp_all add: sp_sender_loop_def)
  obtain v where v: "sp_convert e m = Some v"
    using turn on f c m by (cases "sp_convert e m") (simp_all add: sp_sender_loop_def)
  obtain out where out: "v = Some out"
    using turn on f c m v by (cases v) (simp_all add: sp_sender_loop_def)
  have "p = sp_packet e (x_sequence x) m out \<and>
     S' = (let S2 = sp_submitted (x_sequence x) (sp_caching m S)
           in if x_error x then sp_count_err S2 else if x_timedout x then sp_count_timeo S2 else S2)"
  proof (cases "x_error x")
    case True
    then show ?thesis using turn on f c m v out by (simp add: sp_sender_loop_def Let_def)
  next
    case False
    then show ?thesis using turn on f c m v out
      by (cases "sp_delay (gw_concurrent (pe_gateway e))") (simp_all add: sp_sender_loop_def Let_def)
  qed
  then show ?thesis using that [OF f [unfolded c] m v [unfolded out]] by simp
qed

lemma sender_turn_steps:
  assumes turn: "sp_sender_loop e x (pc_sp s) = Some (S', Some p, delay)" and s: "pc_sender s = Ready"
  shows "\<exists>m s'. (sp_step e caches)\<^sup>*\<^sup>* s s' \<and> pc_sp s' = S' \<and>
     pc_sender s' = (if x_error x \<or> x_timedout x then Ready else Blocked) \<and>
     pc_sent s' = pc_sent s @ [(x_sequence x, m)] \<and> pc_receiver s' = pc_receiver s"
proof -
  obtain m out where out: "sp_convert e m = Some (Some out)"
    and S': "S' = (let S2 = sp_submitted (x_sequence x) (sp_caching m (pc_sp s))
           in if x_error x then sp_count_err S2 else if x_timedout x then sp_count_timeo S2 else S2)"
    using turn by (rule sender_loop_submits)
  define q where "q = x_sequence x"
  define s1 where "s1 = s\<lparr>pc_sender := Prepared m out, pc_sp := sp_caching m (pc_sp s)\<rparr>"
  have 1: "sp_step e caches s s1" unfolding s1_def by (rule step_cache [OF s out])
  have pc1: "pc_sender s1 = Prepared m out" by (simp add: s1_def)
  show ?thesis
  proof (cases "x_error x")
    case True
    define s2 where "s2 = s1\<lparr>pc_sender := Ready, pc_sp := sp_count_err (sp_submitted q (pc_sp s1)),
      pc_sent := pc_sent s1 @ [(q, m)]\<rparr>"
    have "sp_step e caches s1 s2" unfolding s2_def by (rule step_fail [OF pc1])
    with 1 have "(sp_step e caches)\<^sup>*\<^sup>* s s2" by (rule steps2)
    moreover have "S' = pc_sp s2" using S' True by (simp add: s2_def s1_def q_def Let_def)
    ultimately show ?thesis using True
      by (intro exI [of _ m] exI [of _ s2]) (simp add: s2_def s1_def q_def)
  next
    case False
    define s2 where "s2 = s1\<lparr>pc_sender := Submitted, pc_sp := sp_submitted q (pc_sp s1), pc_sent := pc_sent s1 @ [(q, m)]\<rparr>"
    define s3 where "s3 = s2\<lparr>pc_sender := Blocked\<rparr>"
    define s4 where "s4 = s3\<lparr>pc_sender := Ready, pc_sp := sp_count_timeo (pc_sp s3)\<rparr>"
    have 2: "sp_step e caches s1 s2" unfolding s2_def by (rule step_submit [OF pc1])
    have "pc_sender s2 = Submitted" by (simp add: s2_def)
    then have 3: "sp_step e caches s2 s3" unfolding s3_def by (rule step_wait)
    have "pc_sender s3 = Blocked" by (simp add: s3_def)
    then have 4: "sp_step e caches s3 s4" unfolding s4_def by (rule step_timeout)
    have run2: "(sp_step e caches)\<^sup>*\<^sup>* s s2" using 1 2 by (rule steps2)
    have run3: "(sp_step e caches)\<^sup>*\<^sup>* s s3" by (rule rtranclp.rtrancl_into_rtrancl [OF run2 3])
    have run4: "(sp_step e caches)\<^sup>*\<^sup>* s s4" by (rule rtranclp.rtrancl_into_rtrancl [OF run3 4])
    have S3: "S' = (if x_timedout x then pc_sp s4 else pc_sp s3)"
      using S' False by (simp add: s4_def s3_def s2_def s1_def q_def Let_def)
    have pcs: "pc_sent s3 = pc_sent s @ [(q, m)]" "pc_receiver s3 = pc_receiver s" "pc_sender s3 = Blocked"
      "pc_sent s4 = pc_sent s @ [(q, m)]" "pc_receiver s4 = pc_receiver s" "pc_sender s4 = Ready"
      by (simp_all add: s4_def s3_def s2_def s1_def)
    show ?thesis
    proof (cases "x_timedout x")
      case True
      with run4 S3 pcs show ?thesis by (intro exI [of _ m] exI [of _ s4]) (simp add: q_def)
    next
      case no: False
      with run3 S3 pcs False show ?thesis by (intro exI [of _ m] exI [of _ s3]) (simp add: q_def)
    qed
  qed
qed

lemma ack_turn_steps:
  assumes turn: "sp_deliver_loop y (pc_sp s) = Some (S', out, [cmd])" and s: "pc_receiver s = Listening"
  shows "\<exists>s' q. (sp_step e (y_caches y))\<^sup>*\<^sup>* s s' \<and> pc_sp s' = S' \<and> pc_receiver s' = Listening \<and>
     pc_stored s' = pc_stored s @ [(q, cmd)] \<and> pc_sent s' = pc_sent s"
proof -
  have on: "sp_ok (pc_sp s)" using turn by (simp add: sp_deliver_loop_def split: if_splits)
  obtain p where p: "y_pack y = Some p" using turn on by (cases "y_pack y") (simp_all add: sp_deliver_loop_def)
  have nocmd: "pk_commandId p = CMPP_DELIVER \<Longrightarrow> False"
    using turn on p by (simp add: sp_deliver_loop_def Let_def bind_eq_Some_conv split: if_splits)
  have c: "pk_commandId p = CMPP_SUBMIT_RESP"
    using turn on p nocmd by (cases "pk_commandId p") (simp_all add: sp_deliver_loop_def)
  obtain S1 b where chk: "sp_ack_check p (pc_sp s) = (S1, b)" by fastforce
  have b: "b" using turn on p c chk by (simp add: sp_deliver_loop_def split: if_splits)
  have a: "sp_ack_check p (pc_sp s) = (S1, True)" and st: "S1 = S'"
    "sp_ack_store (y_caches y) (pk_integer p cmpp_submit_resp_msg_id 8) S1 = Some cmd"
    using turn on p c chk b by (auto simp: sp_deliver_loop_def bind_eq_Some_conv)
  define s1 where "s1 = s\<lparr>pc_sender := (if pc_sender s = Blocked then Woken else pc_sender s),
      pc_receiver := Acked (pk_sequenceId p) (pk_integer p cmpp_submit_resp_msg_id 8), pc_sp := S1\<rparr>"
  define s2 where "s2 = s1\<lparr>pc_receiver := Listening, pc_stored := pc_stored s1 @ [(pk_sequenceId p, cmd)]\<rparr>"
  have 1: "sp_step e (y_caches y) s s1" unfolding s1_def by (rule step_ack [OF s c a])
  have "pc_receiver s1 = Acked (pk_sequenceId p) (pk_integer p cmpp_submit_resp_msg_id 8)" and sp: "pc_sp s1 = S1"
    by (simp_all add: s1_def)
  then have 2: "sp_step e (y_caches y) s1 s2" unfolding s2_def using st(2) by (intro step_store) simp_all
  have "(sp_step e (y_caches y))\<^sup>*\<^sup>* s s2" using 1 2 by (rule steps2)
  then show ?thesis using st(1)
    by (intro exI [of _ s2] exI [of _ "pk_sequenceId p"]) (simp add: s2_def s1_def)
qed

subsection \<open>Whose report is it\<close>

text \<open>
  \<open>confirms m S\<close>: \<open>confirmed\<close> holds the data of \<open>m\<close>. \<open>attributed\<close>: whatever is stored for an
  acknowledged sequence number is the data of a message submitted under that number.
\<close>

definition confirms :: "Submit \<Rightarrow> sp \<Rightarrow> bool" where
  "confirms m S \<longleftrightarrow> cn_id (sp_confirmed S) = sb_id m \<and> cn_account (sp_confirmed S) = sb_account m \<and>
     cn_company (sp_confirmed S) = sb_company m \<and> cn_spcode (sp_confirmed S) = strncpy_z 20 (sb_spcode m)"

definition stored_for :: "lamb_caches_t \<Rightarrow> Submit \<Rightarrow> nat \<times> rcmd \<Rightarrow> bool" where
  "stored_for caches m cmd \<longleftrightarrow> (\<exists>msgId. map_option snd (lamb_set_cache caches msgId (sb_id m) (sb_account m)
     (sb_company m) (strncpy_z 20 (sb_spcode m))) = Some cmd)"

definition attributed :: "lamb_caches_t \<Rightarrow> sp_threads \<Rightarrow> bool" where
  "attributed caches s \<longleftrightarrow> (\<forall>(q, cmd) \<in> set (pc_stored s). \<exists>m. (q, m) \<in> set (pc_sent s) \<and> stored_for caches m cmd)"

lemma confirms_simps [simp]:
  "confirms m (sp_caching m S)"
  "confirms m (sp_submitted q S) = confirms m S"
  "confirms m (sp_count_err S) = confirms m S"
  "confirms m (sp_count_timeo S) = confirms m S"
  by (simp_all add: confirms_def sp_caching_def sp_submitted_def sp_count_err_def sp_count_timeo_def)

lemma sequence_simps [simp]:
  "cn_sequenceId (sp_confirmed (sp_submitted q S)) = q"
  "cn_sequenceId (sp_confirmed (sp_count_err S)) = cn_sequenceId (sp_confirmed S)"
  "cn_sequenceId (sp_confirmed (sp_count_timeo S)) = cn_sequenceId (sp_confirmed S)"
  "cn_sequenceId (sp_confirmed (sp_caching m S)) = cn_sequenceId (sp_confirmed S)"
  by (simp_all add: sp_submitted_def sp_count_err_def sp_count_timeo_def sp_caching_def)

lemma ack_check_confirmed:
  assumes "sp_ack_check p S = (S', ok)"
  shows "sp_confirmed S' = sp_confirmed S" and "ok \<Longrightarrow> pk_sequenceId p = cn_sequenceId (sp_confirmed S)"
  using assms by (auto simp: sp_ack_check_def sp_count_err_def Let_def split: if_splits)

lemma ack_store_confirms:
  assumes "confirms m S" and "sp_ack_store caches msgId S = Some cmd"
  shows "stored_for caches m cmd"
proof -
  have "map_option snd (lamb_set_cache caches msgId (sb_id m) (sb_account m) (sb_company m)
      (strncpy_z 20 (sb_spcode m))) = Some cmd"
    using assms by (simp only: sp_ack_store_def confirms_def)
  then show ?thesis unfolding stored_for_def by (rule exI)
qed

definition ack_inv :: "lamb_caches_t \<Rightarrow> sp_threads \<Rightarrow> bool" where
  "ack_inv caches s \<longleftrightarrow> attributed caches s \<and>
     (case pc_sender s of
        Prepared m out \<Rightarrow> confirms m (pc_sp s)
      | Ready \<Rightarrow> True
      | _ \<Rightarrow> \<exists>m. confirms m (pc_sp s) \<and> (cn_sequenceId (sp_confirmed (pc_sp s)), m) \<in> set (pc_sent s)) \<and>
     (case pc_receiver s of
        Listening \<Rightarrow> True
      | Acked q msgId \<Rightarrow> \<exists>m. confirms m (pc_sp s) \<and> (q, m) \<in> set (pc_sent s))"

lemma attributed_grow: "attributed caches s \<Longrightarrow> pc_stored s' = pc_stored s \<Longrightarrow>
    set (pc_sent s) \<subseteq> set (pc_sent s') \<Longrightarrow> attributed caches s'"
  unfolding attributed_def by fastforce

lemma confirms_same: "sp_confirmed S' = sp_confirmed S \<Longrightarrow> confirms m S' = confirms m S"
  by (simp add: confirms_def)

lemma ack_inv_caching:
  assumes "ack_inv caches s" and "pc_sender s = Ready" and ord: "in_order s s'"
    and s': "s' = s\<lparr>pc_sender := p, pc_sp := sp_caching m (pc_sp s)\<rparr>" and p: "p = Ready \<or> p = Prepared m out"
  shows "ack_inv caches s'"
proof (cases "pc_receiver s")
  case Listening
  then show ?thesis using assms by (auto simp: ack_inv_def attributed_def)
next
  case (Acked q msgId)
  then have "sp_confirmed (sp_caching m (pc_sp s)) = sp_confirmed (pc_sp s)" using ord s' by (simp add: in_order_def)
  from confirms_same [OF this] have "confirms n (sp_caching m (pc_sp s)) = confirms n (pc_sp s)" for n .
  then show ?thesis using assms(1) s' p Acked by (auto simp: ack_inv_def attributed_def)
qed

lemma ack_inv_step:
  assumes "sp_step e caches s s'" and ord: "in_order s s'" and inv: "ack_inv caches s"
  shows "ack_inv caches s'"
  using assms(1)
proof (cases rule: sp_step.cases)
  case (step_cache m out)
  show ?thesis by (rule ack_inv_caching [OF inv step_cache(2) ord step_cache(1)]) simp
next
  case (step_drop m)
  then have "s' = s\<lparr>pc_sender := Ready, pc_sp := sp_caching m (pc_sp s)\<rparr>" by simp
  then show ?thesis by (rule ack_inv_caching [OF inv step_drop(2) ord]) simp
next
  case (step_ack p S')
  note c = ack_check_confirmed [OF step_ack(4)]
  have same: "confirms m S' = confirms m (pc_sp s)" for m by (simp add: confirms_def c)
  have q: "pk_sequenceId p = cn_sequenceId (sp_confirmed (pc_sp s))" using c by simp
  have fly: "pc_sender s \<in> {Submitted, Blocked}" using ord step_ack(1,2) by (simp add: in_order_def)
  then obtain m where "confirms m (pc_sp s)" "(cn_sequenceId (sp_confirmed (pc_sp s)), m) \<in> set (pc_sent s)"
    using inv by (auto simp: ack_inv_def)
  then show ?thesis using inv step_ack(1) fly
    by (auto simp: ack_inv_def attributed_def same q c)
next
  case (step_refuse p S')
  note c = ack_check_confirmed [OF step_refuse(4)]
  have same: "confirms m S' = confirms m (pc_sp s)" for m by (simp add: confirms_def c)
  show ?thesis using inv step_refuse(1)
    by (simp add: ack_inv_def attributed_def same c split: sender_pc.splits receiver_pc.splits)
next
  case (step_store q msgId cmd)
  obtain m where m: "confirms m (pc_sp s)" "(q, m) \<in> set (pc_sent s)"
    using inv step_store(2) by (auto simp: ack_inv_def)
  then have "stored_for caches m cmd" using step_store(3) by (blast intro: ack_store_confirms)
  with m inv step_store(1) show ?thesis
    by (auto simp: ack_inv_def attributed_def split: sender_pc.splits)
qed (use inv in \<open>auto simp: ack_inv_def attributed_def split: sender_pc.splits receiver_pc.splits\<close>)

lemma ack_inv_reach: "sp_reach_in_order e caches S s \<Longrightarrow> ack_inv caches s"
  unfolding sp_reach_in_order_def
proof (induction rule: rtranclp_induct)
  case base
  show ?case by (simp add: ack_inv_def attributed_def sp_idle_def)
next
  case (step y z)
  then show ?case by (blast intro: ack_inv_step)
qed

text \<open>
  C12: In every interleaving of the accesses of sender and receiver in which \<open>confirmed\<close> is not
  overwritten between an acknowledgement and its being stored, and acknowledgements are accepted
  only for a message in flight, every entry the gateway client stores carries the data of a
  message submitted under the acknowledged sequence number. (The code itself does not keep this
  order.)
\<close>

theorem sp_acks_attributed:
  assumes "sp_reach_in_order e caches S s"
  shows "attributed caches s"
  using ack_inv_reach [OF assms] by (simp add: ack_inv_def)

definition ack_packet :: "u32 \<Rightarrow> u64 \<Rightarrow> cmpp_pack_t" where
  "ack_packet q msgId =
     \<lparr>pk_commandId = CMPP_SUBMIT_RESP, pk_sequenceId = q,
      pk_integer = (\<lambda>f n. if f = cmpp_submit_resp_msg_id then msgId else 0), pk_string = (\<lambda>f n l. [])\<rparr>"

lemma ack_packet_accepted:
  assumes "cn_sequenceId (sp_confirmed S) = q"
  shows "sp_ack_check (ack_packet q msgId) S = (S\<lparr>sp_status := (sp_status S)\<lparr>sx_ack := sx_ack (sp_status S) + 1\<rparr>\<rparr>, True)"
  using assms by (simp add: sp_ack_check_def ack_packet_def pack_byte_def Let_def)

lemma stored_for_id:
  assumes "stored_for caches m1 cmd" and "stored_for caches m2 cmd"
  shows "sb_id m1 = sb_id m2"
  using assms by (auto simp: stored_for_def lamb_set_cache_def bind_eq_Some_conv Let_def word_unat_eq_iff)

text \<open>
  The receiver has accepted the acknowledgement of the first message and signalled; before it
  stores, the sender wakes up and caches the second.
\<close>

lemma woken_before_stored:
  assumes m1: "sp_convert e m1 = Some (Some o1)" and m2: "sp_convert e m2 = Some (Some o2)"
  shows "\<exists>s. (sp_step e caches)\<^sup>*\<^sup>* (sp_idle S) s \<and> pc_receiver s = Acked q 0 \<and> pc_sent s = [(q, m1)] \<and>
     pc_stored s = [] \<and> confirms m2 (pc_sp s)"
proof -
  let ?r = "sp_step e caches"
  define s0 where "s0 = sp_idle S"
  define s1 where "s1 = s0\<lparr>pc_sender := Prepared m1 o1, pc_sp := sp_caching m1 (pc_sp s0)\<rparr>"
  define s2 where "s2 = s1\<lparr>pc_sender := Submitted, pc_sp := sp_submitted q (pc_sp s1), pc_sent := pc_sent s1 @ [(q, m1)]\<rparr>"
  define s3 where "s3 = s2\<lparr>pc_sender := Blocked\<rparr>"
  define A where "A = (pc_sp s3)\<lparr>sp_status := (sp_status (pc_sp s3))\<lparr>sx_ack := sx_ack (sp_status (pc_sp s3)) + 1\<rparr>\<rparr>"
  define s4 where "s4 = s3\<lparr>pc_sender := (if pc_sender s3 = Blocked then Woken else pc_sender s3),
      pc_receiver := Acked (pk_sequenceId (ack_packet q 0)) (pk_integer (ack_packet q 0) cmpp_submit_resp_msg_id 8),
      pc_sp := A\<rparr>"
  define s5 where "s5 = s4\<lparr>pc_sender := Ready\<rparr>"
  define s6 where "s6 = s5\<lparr>pc_sender := Prepared m2 o2, pc_sp := sp_caching m2 (pc_sp s5)\<rparr>"
  have e1: "?r s0 s1" unfolding s1_def by (rule step_cache [OF _ m1]) (simp_all add: s0_def sp_idle_def)
  have e2: "?r s1 s2" unfolding s2_def by (rule step_submit [where out = o1]) (simp add: s1_def)
  have e3: "?r s2 s3" unfolding s3_def by (rule step_wait) (simp add: s2_def)
  have e4: "?r s3 s4"
  proof -
    have "cn_sequenceId (sp_confirmed (pc_sp s3)) = q" by (simp add: s3_def s2_def)
    from ack_packet_accepted [OF this, of 0] have "sp_ack_check (ack_packet q 0) (pc_sp s3) = (A, True)"
      unfolding A_def .
    then show ?thesis unfolding s4_def
      by (intro step_ack) (simp_all add: s3_def s2_def s1_def s0_def sp_idle_def ack_packet_def)
  qed
  have e5: "?r s4 s5" unfolding s5_def by (rule step_resume) (simp add: s4_def s3_def)
  have e6: "?r s5 s6" unfolding s6_def by (rule step_cache [OF _ m2]) (simp_all add: s5_def)
  have "?r\<^sup>*\<^sup>* s0 s6"
    by (rule converse_rtranclp_into_rtranclp [of ?r, OF e1], rule converse_rtranclp_into_rtranclp [of ?r, OF e2],
        rule converse_rtranclp_into_rtranclp [of ?r, OF e3], rule converse_rtranclp_into_rtranclp [of ?r, OF e4],
        rule converse_rtranclp_into_rtranclp [of ?r, OF e5], rule r_into_rtranclp [of ?r, OF e6])
  moreover have "pc_receiver s6 = Acked q 0" by (simp add: s6_def s5_def s4_def ack_packet_def)
  moreover have "pc_sent s6 = [(q, m1)]" "pc_stored s6 = []"
    by (simp_all add: s6_def s5_def s4_def s3_def s2_def s1_def s0_def sp_idle_def)
  moreover have "confirms m2 (pc_sp s6)" by (simp add: s6_def)
  ultimately show ?thesis unfolding s0_def by blast
qed

text \<open>
  C17: Nothing in the code ensures that order, and then the entry is wrong: for any two messages
  the gateway accepts, the threads can reach a state in which only the first was submitted and
  the gateway's id for it is stored with the data of the second. The receiver wakes the sender
  before it stores, and the sender overwrites \<open>confirmed\<close> with the next message.
\<close>

theorem sp_ack_misattributed:
  assumes m1: "sp_convert e m1 = Some (Some o1)" and m2: "sp_convert e m2 = Some (Some o2)"
    and ids: "sb_id m1 \<noteq> sb_id m2" and n: "0 < cs_len caches"
  shows "\<exists>s cmd. sp_reach e caches S s \<and> pc_sent s = [(q, m1)] \<and> pc_stored s = [(q, cmd)] \<and>
     stored_for caches m2 cmd \<and> \<not> attributed caches s"
proof -
  obtain s where s: "(sp_step e caches)\<^sup>*\<^sup>* (sp_idle S) s" "pc_receiver s = Acked q 0" "pc_sent s = [(q, m1)]"
    "pc_stored s = []" "confirms m2 (pc_sp s)" using woken_before_stored [OF m1 m2] by blast
  obtain cmd where cmd: "sp_ack_store caches 0 (pc_sp s) = Some cmd"
    using n by (auto simp: sp_ack_store_def lamb_set_cache_def shard_Some Let_def)
  let ?s = "s\<lparr>pc_receiver := Listening, pc_stored := pc_stored s @ [(q, cmd)]\<rparr>"
  have "sp_step e caches s ?s" using s(2) cmd by (rule step_store)
  with s(1) have reach: "sp_reach e caches S ?s" by (simp add: sp_reach_def)
  have for2: "stored_for caches m2 cmd" using s(5) cmd by (rule ack_store_confirms)
  have "\<not> attributed caches ?s"
  proof
    assume "attributed caches ?s"
    then have "stored_for caches m1 cmd" using s(3,4) by (simp add: attributed_def)
    from stored_for_id [OF this for2] ids show False by simp
  qed
  then show ?thesis using reach s(3,4) for2 by (intro exI [of _ ?s] exI [of _ cmd] conjI) simp_all
qed

definition example_sp_env :: sp_env where
  "example_sp_env = \<lparr>pe_gid = 1, pe_gateway = no_gateway\<lparr>gw_spcode := ''10690'', gw_encoding := 11, gw_concurrent := 100\<rparr>,
     pe_conv = (\<lambda>s a b n. Some s), pe_unpack = (\<lambda>b. None),
     pe_up = \<lparr>unpack_report = (\<lambda>b. None), unpack_deliver = (\<lambda>b. None), pack_report = (\<lambda>r. rp_phone r),
       pack_deliver = (\<lambda>d. dl_phone d)\<rparr>, pe_retry = 3\<rparr>"

definition sp_example_submit :: "u64 \<Rightarrow> Submit" where
  "sp_example_submit i = \<lparr>sb_id = i, sb_account = 2, sb_company = 3, sb_spid = ''901234'', sb_spcode = ''10690'',
     sb_phone = ''13800138000'', sb_msgfmt = 11, sb_length = 2, sb_content = ''hi''\<rparr>"

lemma example_convert: "sp_convert example_sp_env (sp_example_submit i) = Some (Some ''hi'')"
  by (simp add: sp_convert_def example_sp_env_def sp_example_submit_def)

text \<open>One message is submitted, acknowledged and stored, and the next one cached, in order.\<close>

lemma stored_in_order:
  assumes m1: "sp_convert e m1 = Some (Some o1)" and m2: "sp_convert e m2 = Some (Some o2)" and n: "0 < cs_len caches"
  shows "\<exists>s cmd. sp_reach_in_order e caches S s \<and> pc_sent s = [(q, m1)] \<and> pc_stored s = [(q, cmd)] \<and> confirms m2 (pc_sp s)"
proof -
  let ?r = "\<lambda>s s'. sp_step e caches s s' \<and> in_order s s'"
  define s0 where "s0 = sp_idle S"
  define s1 where "s1 = s0\<lparr>pc_sender := Prepared m1 o1, pc_sp := sp_caching m1 (pc_sp s0)\<rparr>"
  define s2 where "s2 = s1\<lparr>pc_sender := Submitted, pc_sp := sp_submitted q (pc_sp s1), pc_sent := pc_sent s1 @ [(q, m1)]\<rparr>"
  define s3 where "s3 = s2\<lparr>pc_sender := Blocked\<rparr>"
  define A where "A = (pc_sp s3)\<lparr>sp_status := (sp_status (pc_sp s3))\<lparr>sx_ack := sx_ack (sp_status (pc_sp s3)) + 1\<rparr>\<rparr>"
  define s4 where "s4 = s3\<lparr>pc_sender := (if pc_sender s3 = Blocked then Woken else pc_sender s3),
      pc_receiver := Acked (pk_sequenceId (ack_packet q 9)) (pk_integer (ack_packet q 9) cmpp_submit_resp_msg_id 8),
      pc_sp := A\<rparr>"
  obtain cmd where cmd: "sp_ack_store caches 9 (pc_sp s4) = Some cmd"
    using n by (auto simp: sp_ack_store_def lamb_set_cache_def shard_Some Let_def)
  define s5 where "s5 = s4\<lparr>pc_receiver := Listening, pc_stored := pc_stored s4 @ [(q, cmd)]\<rparr>"
  define s6 where "s6 = s5\<lparr>pc_sender := Ready\<rparr>"
  define s7 where "s7 = s6\<lparr>pc_sender := Prepared m2 o2, pc_sp := sp_caching m2 (pc_sp s6)\<rparr>"
  note defs = s6_def s5_def s4_def s3_def s2_def s1_def s0_def sp_idle_def ack_packet_def
  have e1: "?r s0 s1"
    by (rule conjI, unfold s1_def, rule step_cache [OF _ m1]) (simp_all add: s0_def sp_idle_def in_order_def)
  have e2: "?r s1 s2"
    by (rule conjI, unfold s2_def, rule step_submit [where out = o1]) (simp_all add: s1_def s0_def sp_idle_def in_order_def)
  have e3: "?r s2 s3"
    by (rule conjI, unfold s3_def, rule step_wait) (simp_all add: s2_def s1_def s0_def sp_idle_def in_order_def)
  have e4: "?r s3 s4"
  proof
    have "cn_sequenceId (sp_confirmed (pc_sp s3)) = q" by (simp add: s3_def s2_def)
    from ack_packet_accepted [OF this, of 9] have "sp_ack_check (ack_packet q 9) (pc_sp s3) = (A, True)"
      unfolding A_def .
    then show "sp_step e caches s3 s4" unfolding s4_def
      by (intro step_ack) (simp_all add: s3_def s2_def s1_def s0_def sp_idle_def ack_packet_def)
    show "in_order s3 s4" by (simp add: in_order_def defs)
  qed
  have "pc_receiver s4 = Acked q 9" by (simp add: s4_def ack_packet_def)
  from step_store [OF this cmd] have e5: "?r s4 s5" by (simp add: s5_def in_order_def)
  have e6: "?r s5 s6" by (rule conjI, unfold s6_def, rule step_resume) (simp_all add: defs in_order_def)
  have e7: "?r s6 s7" by (rule conjI, unfold s7_def, rule step_cache [OF _ m2]) (simp_all add: s6_def s5_def in_order_def)
  have "?r\<^sup>*\<^sup>* s0 s7"
    by (rule converse_rtranclp_into_rtranclp [of ?r, OF e1], rule converse_rtranclp_into_rtranclp [of ?r, OF e2],
        rule converse_rtranclp_into_rtranclp [of ?r, OF e3], rule converse_rtranclp_into_rtranclp [of ?r, OF e4],
        rule converse_rtranclp_into_rtranclp [of ?r, OF e5], rule converse_rtranclp_into_rtranclp [of ?r, OF e6],
        rule r_into_rtranclp [of ?r, OF e7])
  moreover have "pc_sent s7 = [(q, m1)]" "pc_stored s7 = [(q, cmd)]" by (simp_all add: s7_def defs)
  moreover have "confirms m2 (pc_sp s7)" by (simp add: s7_def)
  ultimately show ?thesis unfolding sp_reach_in_order_def s0_def by blast
qed

text \<open>The entry was stored with the data of the first message, and is still its own.\<close>

lemma sp_acks_attributed_witness:
  "\<exists>s cmd. sp_reach_in_order example_sp_env (hash_nodes 7 (\<lambda>i k. Map.empty)) (sp_initial 1 True) s \<and>
     pc_sent s = [(5, sp_example_submit 1)] \<and> pc_stored s = [(5, cmd)] \<and> confirms (sp_example_submit 2) (pc_sp s) \<and>
     stored_for (hash_nodes 7 (\<lambda>i k. Map.empty)) (sp_example_submit 1) cmd"
proof -
  have "0 < cs_len (hash_nodes 7 (\<lambda>i k. Map.empty))" by simp
  from stored_in_order [OF example_convert example_convert this, of "sp_initial 1 True" 5 1 2] obtain s cmd where
    s: "sp_reach_in_order example_sp_env (hash_nodes 7 (\<lambda>i k. Map.empty)) (sp_initial 1 True) s"
      "pc_sent s = [(5, sp_example_submit 1)]" "pc_stored s = [(5, cmd)]" "confirms (sp_example_submit 2) (pc_sp s)" by blast
  from sp_acks_attributed [OF s(1)] s(2,3) have "stored_for (hash_nodes 7 (\<lambda>i k. Map.empty)) (sp_example_submit 1) cmd"
    by (simp add: attributed_def)
  with s show ?thesis by blast
qed

lemma sp_ack_misattributed_witness:
  "\<exists>s cmd. sp_reach example_sp_env (hash_nodes 7 (\<lambda>i k. Map.empty)) (sp_initial 1 True) s \<and>
     pc_sent s = [(5, sp_example_submit 1)] \<and> pc_stored s = [(5, cmd)] \<and>
     stored_for (hash_nodes 7 (\<lambda>i k. Map.empty)) (sp_example_submit 2) cmd \<and>
     \<not> attributed (hash_nodes 7 (\<lambda>i k. Map.empty)) s"
  by (rule sp_ack_misattributed [OF example_convert example_convert]) (simp_all add: sp_example_submit_def)

subsection \<open>Reports\<close>

lemma work_report_step:
  assumes "0 < n" and "holds n H (lr_id r) c" and "0 < cd_msgId c" and "0 < cd_account c" and "0 < cd_company c"
    and "sp_storage S = UpReport r # rest"
  shows "sp_work_loop e \<lparr>t_caches = hash_nodes n H, t_pk = True, t_frame = True\<rparr> S =
    Some (S\<lparr>sp_storage := rest, sp_statistical := lamb_check_statistical (lr_status r) (sp_statistical S)\<rparr>,
          [(unat (cd_msgId c) mod n, DEL (show_nat (unat (cd_msgId c))))],
          [htonl LAMB_REPORT @ pack_report (pe_up e) (cached_report c r)])"
proof -
  have "pack_report (pe_up e) (cached_report c r) = [] \<or> 0 < length (pack_report (pe_up e) (cached_report c r))" by auto
  then have "sp_forward \<lparr>t_caches = hash_nodes n H, t_pk = True, t_frame = True\<rparr> LAMB_REPORT
      (pack_report (pe_up e) (cached_report c r)) = [htonl LAMB_REPORT @ pack_report (pe_up e) (cached_report c r)]"
    by (auto simp: sp_forward_def lamb_pack_assembly_def)
  then show ?thesis using assms
    by (simp add: sp_work_loop_def sp_work_report_def holds_def del_cache_total)
qed

text \<open>The thread that passes reports on, over nodes that keep what is stored: all frames sent.\<close>

primrec sp_work_run :: "sp_env \<Rightarrow> nat \<Rightarrow> nat \<Rightarrow> hashes \<Rightarrow> sp \<Rightarrow> (hashes \<times> sp \<times> bytes list) option" where
  "sp_work_run e n 0 H S = Some (H, S, [])"
| "sp_work_run e n (Suc k) H S = do {
     (S1, cmds, out) \<leftarrow> sp_work_loop e \<lparr>t_caches = hash_nodes n H, t_pk = True, t_frame = True\<rparr> S;
     (H2, S2, outs) \<leftarrow> sp_work_run e n k (fold hash_cmd cmds H) S1;
     Some (H2, S2, out @ outs) }"

text \<open>
  C18: A report is passed on with the identity of its message: once the acknowledgement of a
  message has been stored under the gateway's id, a report with that id goes to the delivery
  process with the message's own id, account, company and sub-number, and with the phone,
  status and times of the report, whatever else is stored in the nodes.
\<close>

theorem sp_report_identified:
  assumes n: "0 < n" and set: "sp_ack_store (hash_nodes n H) (lr_id r) S0 = Some cmd" and m: "confirms m S0"
    and pos: "0 < sb_id m" "0 < sb_account m" "0 < sb_company m" and code: "c_string (sb_spcode m)"
    and S: "sp_storage S = UpReport r # rest"
  shows "\<exists>H' S'. sp_work_run e n 1 (hash_cmd cmd H) S = Some (H', S', [htonl LAMB_REPORT @ pack_report (pe_up e)
     \<lparr>rp_id = sb_id m, rp_account = sb_account m, rp_company = sb_company m, rp_spcode = strncpy_z 20 (sb_spcode m),
      rp_phone = lr_phone r, rp_status = lr_status r, rp_submittime = lr_submittime r,
      rp_donetime = lr_donetime r\<rparr>]) \<and> sp_storage S' = rest"
proof -
  let ?code = "strncpy_z 20 (sb_spcode m)"
  have len: "length ?code \<le> 20" by (rule length_strncpy_z)
  obtain rc where "lamb_set_cache (hash_nodes n H) (lr_id r) (sb_id m) (sb_account m) (sb_company m) ?code = Some (rc, cmd)"
    using set m by (auto simp: sp_ack_store_def confirms_def)
  then have h: "holds n (hash_cmd cmd H) (lr_id r) (entry_of (sb_id m) (sb_account m) (sb_company m) ?code)"
    using set_cache_holds(1) [OF n] pos len by simp
  have "overwrite (zeroed 21) ?code = ?code @ NUL # zeroed (20 - length ?code)"
    using len by (simp add: overwrite_def zeroed_def Suc_diff_le del: length_strncpy_z flip: replicate_Suc)
  moreover have "c_string ?code" using code by (simp add: strncpy_z_def c_string_take)
  ultimately have "cstr (overwrite (zeroed 21) ?code) = ?code" by (simp add: cstr_append_NUL)
  then have "cached_report (entry_of (sb_id m) (sb_account m) (sb_company m) ?code) r =
     \<lparr>rp_id = sb_id m, rp_account = sb_account m, rp_company = sb_company m, rp_spcode = ?code,
      rp_phone = lr_phone r, rp_status = lr_status r, rp_submittime = lr_submittime r, rp_donetime = lr_donetime r\<rparr>"
    by (simp add: cached_report_def entry_of_def)
  then show ?thesis
    using work_report_step [OF n h _ _ _ S, of e] pos by (simp add: entry_of_def)
qed

definition example_gateway_report :: lamb_report_t where
  "example_gateway_report = \<lparr>lr_id = 9, lr_account = 0, lr_company = 0, lr_spcode = [], lr_phone = ''13800138000'',
     lr_status = 1, lr_submittime = [], lr_donetime = []\<rparr>"

definition example_hashes :: hashes where
  "example_hashes = (\<lambda>i k. Map.empty)"

definition example_set :: "nat \<times> rcmd" where
  "example_set = (2, HMSET (show_nat 9) [(''id'', show_nat 1), (''account'', show_int 2), (''company'', show_int 3),
     (''spcode'', ''10690'')])"

lemma example_set_cache: "lamb_set_cache (hash_nodes 7 example_hashes) 9 1 2 3 ''10690'' = Some (0, example_set)"
  by (simp add: lamb_set_cache_def shard_Some example_set_def)

lemma sp_report_identified_witness:
  "\<exists>H' S'. sp_work_run example_sp_env 7 1 (hash_cmd example_set example_hashes)
     ((sp_initial 1 True)\<lparr>sp_storage := [UpReport example_gateway_report]\<rparr>) =
     Some (H', S', [htonl LAMB_REPORT @ ''13800138000'']) \<and> sp_storage S' = []"
proof -
  let ?S = "(sp_initial 1 True)\<lparr>sp_storage := [UpReport example_gateway_report]\<rparr>"
  let ?m = "sp_example_submit 1" and ?T = "sp_caching (sp_example_submit 1) (sp_initial 1 True)"
  have set: "sp_ack_store (hash_nodes 7 example_hashes) (lr_id example_gateway_report) ?T = Some example_set"
    using example_set_cache
    by (simp add: sp_ack_store_def sp_caching_def sp_example_submit_def example_gateway_report_def)
  have code: "c_string (sb_spcode ?m)" by (simp add: c_string_def sp_example_submit_def)
  have "\<exists>H' S'. sp_work_run example_sp_env 7 1 (hash_cmd example_set example_hashes) ?S = Some (H', S',
     [htonl LAMB_REPORT @ pack_report (pe_up example_sp_env)
     \<lparr>rp_id = sb_id ?m, rp_account = sb_account ?m, rp_company = sb_company ?m, rp_spcode = strncpy_z 20 (sb_spcode ?m),
      rp_phone = lr_phone example_gateway_report, rp_status = lr_status example_gateway_report,
      rp_submittime = lr_submittime example_gateway_report,
      rp_donetime = lr_donetime example_gateway_report\<rparr>]) \<and> sp_storage S' = []"
  proof (rule sp_report_identified [OF _ set])
    show "confirms ?m ?T" "c_string (sb_spcode ?m)" by (simp_all add: code)
    show "sp_storage ?S = [UpReport example_gateway_report]" by simp
  qed (simp_all add: sp_example_submit_def)
  then show ?thesis by (simp add: example_sp_env_def example_gateway_report_def)
qed

text \<open>
  C38: A duplicate of a report is passed on again, however often it comes: the entry is deleted
  under the message's own id instead of the gateway's id it is stored under, so it stays, and
  each copy of the report reaches the account and is refunded there again.
\<close>

theorem sp_report_repeats:
  assumes n: "0 < n" and h: "holds n H (lr_id r) c" and pos: "0 < cd_msgId c" "0 < cd_account c" "0 < cd_company c"
    and other: "cd_msgId c \<noteq> lr_id r" and S: "sp_storage S = replicate k (UpReport r)"
  shows "\<exists>H' S'. sp_work_run e n k H S = Some (H', S',
     replicate k (htonl LAMB_REPORT @ pack_report (pe_up e) (cached_report c r))) \<and> holds n H' (lr_id r) c"
  using h S
proof (induction k arbitrary: H S)
  case 0
  then show ?case by simp
next
  case (Suc k)
  have S: "sp_storage S = UpReport r # replicate k (UpReport r)" using Suc.prems(2) by simp
  define d where "d = (unat (cd_msgId c) mod n, DEL (show_nat (unat (cd_msgId c))))"
  define S1 where "S1 = S\<lparr>sp_storage := replicate k (UpReport r),
     sp_statistical := lamb_check_statistical (lr_status r) (sp_statistical S)\<rparr>"
  have step: "sp_work_loop e \<lparr>t_caches = hash_nodes n H, t_pk = True, t_frame = True\<rparr> S =
    Some (S1, [d], [htonl LAMB_REPORT @ pack_report (pe_up e) (cached_report c r)])"
    unfolding S1_def d_def by (rule work_report_step [OF n Suc.prems(1) pos S])
  have "lamb_del_cache (hash_nodes n H) (cd_msgId c) = Some (0, d)" unfolding d_def by (rule del_cache_total [OF n])
  then have "holds n (hash_cmd d H) (lr_id r) c" using del_cache_others [OF n] other Suc.prems(1) by metis
  moreover have "sp_storage S1 = replicate k (UpReport r)" by (simp add: S1_def)
  ultimately obtain H' S' where "sp_work_run e n k (hash_cmd d H) S1 = Some (H', S',
     replicate k (htonl LAMB_REPORT @ pack_report (pe_up e) (cached_report c r)))" "holds n H' (lr_id r) c"
    using Suc.IH by blast
  with step show ?case by simp
qed

lemma sp_report_repeats_witness:
  "\<exists>H' S'. sp_work_run example_sp_env 7 2 (hash_cmd example_set example_hashes)
     ((sp_initial 1 True)\<lparr>sp_storage := [UpReport example_gateway_report, UpReport example_gateway_report]\<rparr>) =
     Some (H', S', [htonl LAMB_REPORT @ ''13800138000'', htonl LAMB_REPORT @ ''13800138000''])"
proof -
  let ?S = "(sp_initial 1 True)\<lparr>sp_storage := replicate 2 (UpReport example_gateway_report)\<rparr>"
  have h: "holds 7 (hash_cmd example_set example_hashes) (lr_id example_gateway_report) (entry_of 1 2 3 ''10690'')"
    using set_cache_holds(1) [OF _ example_set_cache] by (simp add: example_gateway_report_def)
  have "\<exists>H' S'. sp_work_run example_sp_env 7 2 (hash_cmd example_set example_hashes) ?S = Some (H', S',
     replicate 2 (htonl LAMB_REPORT @ pack_report (pe_up example_sp_env)
       (cached_report (entry_of 1 2 3 ''10690'') example_gateway_report))) \<and>
     holds 7 H' (lr_id example_gateway_report) (entry_of 1 2 3 ''10690'')"
    by (rule sp_report_repeats [OF _ h]) (simp_all add: entry_of_def example_gateway_report_def)
  then show ?thesis
    by (auto simp: example_sp_env_def example_gateway_report_def cached_report_def numeral_2_eq_2)
qed

end
