(* ===== verification/SpRun.thy ===== *)
theory SpRun
  imports SpCache
begin

text \<open>
  The gateway client (\<open>src/src/sp.c\<close>) over time: turns of its threads in any order, the
  statistics they leave, connecting again.
\<close>

subsection \<open>Runs\<close>

datatype sp_event =
    Ev_sender sturn
  | Ev_deliver yturn
  | Ev_work tturn
  | Ev_keepalive u32
  | Ev_stat vturn

text \<open>
  The process: its state, the next attempt to connect, the speed, and a log of what left it:
  packets to the gateway, frames to the delivery process with the status of each report passed
  on, rows written to the database.
\<close>

record sp_proc =
  pr_sp :: sp
  pr_attempt :: nat
  pr_speed :: u64
  pr_packets :: "cmpp_submit_t list"
  pr_frames :: "bytes list"
  pr_statuses :: "int list"
  pr_rows :: "lamb_statistical_t list"

definition passed_status :: "sp \<Rightarrow> (nat \<times> rcmd) list \<Rightarrow> int list" where
  "passed_status S cmds =
     (case sp_storage S of
        UpReport r # rest \<Rightarrow> (if cmds = [] then [] else [lr_status r])
      | _ \<Rightarrow> [])"

definition sp_event_step :: "sp_env \<Rightarrow> (nat \<Rightarrow> attempt) \<Rightarrow> sp_event \<Rightarrow> sp_proc \<Rightarrow> sp_proc option" where
  "sp_event_step e A ev P =
     (case ev of
        Ev_sender x \<Rightarrow> do {
          (S, p, delay) \<leftarrow> sp_sender_loop e x (pr_sp P);
          Some (P\<lparr>pr_sp := S, pr_packets := pr_packets P @ (case p of None \<Rightarrow> [] | Some q \<Rightarrow> [q])\<rparr>) }
      | Ev_deliver y \<Rightarrow> do {
          (S, out, cmds) \<leftarrow> sp_deliver_loop y (pr_sp P);
          Some (P\<lparr>pr_sp := S\<rparr>) }
      | Ev_work t \<Rightarrow> do {
          (S, cmds, out) \<leftarrow> sp_work_loop e t (pr_sp P);
          Some (P\<lparr>pr_sp := S, pr_frames := pr_frames P @ out,
                 pr_statuses := pr_statuses P @ passed_status (pr_sp P) cmds\<rparr>) }
      | Ev_keepalive q \<Rightarrow> do {
          (S, k) \<leftarrow> lamb_cmpp_keepalive e A (pr_attempt P) q (pr_sp P);
          Some (P\<lparr>pr_sp := S, pr_attempt := k\<rparr>) }
      | Ev_stat v \<Rightarrow>
          (let (S, out) = sp_stat_loop e v (pr_speed P) (pr_sp P)
           in Some (P\<lparr>pr_sp := S, pr_speed := vo_speed out,
                     pr_rows := pr_rows P @ (if vo_sql out \<noteq> [] \<and> vo_rc out = 0 then [vo_row out] else [])\<rparr>)))"

primrec sp_run :: "sp_env \<Rightarrow> (nat \<Rightarrow> attempt) \<Rightarrow> sp_event list \<Rightarrow> sp_proc \<Rightarrow> sp_proc option" where
  "sp_run e A [] P = Some P"
| "sp_run e A (ev # evs) P = do { P1 \<leftarrow> sp_event_step e A ev P; sp_run e A evs P1 }"

definition sp_proc_start :: "sp \<Rightarrow> u64 \<Rightarrow> sp_proc" where
  "sp_proc_start S speed = \<lparr>pr_sp = S, pr_attempt = 0, pr_speed = speed, pr_packets = [], pr_frames = [],
     pr_statuses = [], pr_rows = []\<rparr>"

subsection \<open>Statistics\<close>

text \<open>The counters by number: 0 for the submits, otherwise the status they count.\<close>

definition stat_of :: "int \<Rightarrow> lamb_statistical_t \<Rightarrow> u64" where
  "stat_of j k =
     (if j = 0 then sk_submit k else if j = 1 then sk_delivrd k else if j = 2 then sk_expired k
      else if j = 3 then sk_deleted k else if j = 4 then sk_undeliv k else if j = 5 then sk_acceptd k
      else if j = 6 then sk_unknown k else if j = 7 then sk_rejectd k else 0)"

definition stat_events :: "int \<Rightarrow> sp_proc \<Rightarrow> nat" where
  "stat_events j P = (if j = 0 then length (pr_packets P) else count_list (pr_statuses P) j)"

definition stat_total :: "int \<Rightarrow> sp_proc \<Rightarrow> u64" where
  "stat_total j P = sum_list (map (stat_of j) (pr_rows P)) + stat_of j (sp_statistical (pr_sp P))"

lemma stat_of_check:
  assumes "0 \<le> j" and "j \<le> 7"
  shows "stat_of j (lamb_check_statistical st k) = stat_of j k + (if j \<noteq> 0 \<and> st = j then 1 else 0)"
  using assms by (simp add: stat_of_def lamb_check_statistical_def)

lemma sender_statistical:
  assumes "sp_sender_loop e x S = Some (S', p, d)"
  shows "sp_statistical S' = (case p of None \<Rightarrow> sp_statistical S
     | Some q \<Rightarrow> (sp_statistical S)\<lparr>sk_submit := sk_submit (sp_statistical S) + 1\<rparr>)"
proof (cases p)
  case (Some q)
  from assms [unfolded Some] show ?thesis
    by (rule sender_loop_submits)
      (simp add: Some sp_submitted_def sp_caching_def sp_count_err_def sp_count_timeo_def Let_def)
next
  case None
  show ?thesis
  proof (cases "sp_ok S \<and> x_sent x")
    case True
    show ?thesis
    proof (cases "classify (x_buf x)")
      case (Frame c body)
      show ?thesis
      proof (cases "c = LAMB_SUBMIT")
        case c: True
        show ?thesis
        proof (cases "pe_unpack e body")
          case (Some m)
          obtain v where v: "sp_convert e m = Some v"
            using assms True Frame c Some by (cases "sp_convert e m") (simp_all add: sp_sender_loop_def)
          show ?thesis
          proof (cases v)
            case None
            then show ?thesis using assms True Frame c Some v \<open>p = None\<close>
              by (auto simp: sp_sender_loop_def sp_caching_def)
          next
            case (Some out)
            then show ?thesis using assms True Frame c \<open>pe_unpack e body = Some m\<close> v \<open>p = None\<close>
              by (cases "sp_delay (gw_concurrent (pe_gateway e))") (simp_all add: sp_sender_loop_def Let_def split: if_splits)
          qed
        qed (use assms True Frame c \<open>p = None\<close> in \<open>simp add: sp_sender_loop_def\<close>)
      qed (use assms True Frame \<open>p = None\<close> in \<open>simp add: sp_sender_loop_def\<close>)
    qed (use assms True \<open>p = None\<close> in \<open>simp add: sp_sender_loop_def\<close>)
  qed (use assms \<open>p = None\<close> in \<open>auto simp: sp_sender_loop_def\<close>)
qed

lemma ack_check_statistical: "sp_statistical (fst (sp_ack_check p S)) = sp_statistical S"
  by (simp add: sp_ack_check_def sp_count_err_def Let_def)

lemma deliver_statistical:
  assumes "sp_deliver_loop y S = Some (S', out, cmds)"
  shows "sp_statistical S' = sp_statistical S"
proof (cases "sp_ok S")
  case ok: True
  show ?thesis
  proof (cases "y_pack y")
    case (Some p)
    note u = assms [unfolded sp_deliver_loop_def]
    show ?thesis
    proof (cases "pk_commandId p")
      case CMPP_SUBMIT_RESP
      obtain S1 b where c: "sp_ack_check p S = (S1, b)" by fastforce
      then have "S' = S1" using u ok Some CMPP_SUBMIT_RESP by (cases b) (auto simp: bind_eq_Some_conv)
      then show ?thesis using ack_check_statistical [of p S] c by simp
    next
      case CMPP_DELIVER
      then show ?thesis using u ok Some
        by (cases "pack_byte p cmpp_deliver_registered_delivery = 1"; cases "y_calloc y")
          (auto simp: bind_eq_Some_conv sp_push_def Let_def)
    qed (use u ok Some in auto)
  qed (use assms ok in \<open>simp add: sp_deliver_loop_def\<close>)
qed (use assms in \<open>simp add: sp_deliver_loop_def\<close>)

lemma work_statistical:
  assumes "sp_work_loop e t S = Some (S', cmds, out)"
  shows "sp_statistical S' = foldr lamb_check_statistical (passed_status S cmds) (sp_statistical S)"
proof (cases "sp_storage S")
  case Nil
  then show ?thesis using assms by (simp add: sp_work_loop_def passed_status_def)
next
  case (Cons v rest)
  show ?thesis
  proof (cases v)
    case (UpReport r)
    obtain rc c where g: "lamb_get_cache (t_caches t) (lr_id r) no_cached 21 = Some (rc, c)"
      using assms Cons UpReport by (cases "lamb_get_cache (t_caches t) (lr_id r) no_cached 21")
        (auto simp: sp_work_loop_def sp_work_report_def)
    show ?thesis
    proof (cases "0 < cd_msgId c \<and> 0 < cd_account c \<and> 0 < cd_company c")
      case True
      then show ?thesis using assms Cons UpReport g
        by (auto simp: sp_work_loop_def sp_work_report_def passed_status_def bind_eq_Some_conv)
    next
      case False
      then have "sp_work_loop e t S = Some (S\<lparr>sp_storage := rest\<rparr>, [], [])"
        using Cons UpReport g by (simp only: sp_work_loop_def sp_work_report_def list.case upmsg.case bind.bind_lunit case_prod_conv if_False)
      then show ?thesis using assms Cons UpReport by (simp add: passed_status_def)
    qed
  next
    case (UpDeliver d)
    then show ?thesis using assms Cons
      by (auto simp: sp_work_loop_def sp_work_deliver_def passed_status_def bind_eq_Some_conv split: if_splits)
  qed
qed

lemma keepalive_statistical:
  assumes "lamb_cmpp_keepalive e A k q S = Some (S', k')"
  shows "sp_statistical S' = sp_statistical S"
  using assms by (auto simp: lamb_cmpp_keepalive_def Let_def bind_eq_Some_conv split: if_splits)

lemma stat_idle:
  assumes "\<not> statistical_busy k"
  shows "stat_of j k = 0"
  using assms by (auto simp: statistical_busy_def stat_of_def word_greater_zero_iff)

lemma stat_turn:
  assumes "sp_stat_loop e v speed S = (S', out)" and "\<forall>q. v_exec v q"
  shows "stat_of j (sp_statistical S) = sum_list (map (stat_of j) (if vo_sql out \<noteq> [] \<and> vo_rc out = 0 then [vo_row out] else []))"
    and "stat_of j (sp_statistical S') = 0"
proof -
  show "stat_of j (sp_statistical S') = 0"
    using assms(1) by (auto simp: sp_stat_loop_def Let_def lamb_clean_statistical_def stat_of_def split: prod.splits)
  show "stat_of j (sp_statistical S) = sum_list (map (stat_of j) (if vo_sql out \<noteq> [] \<and> vo_rc out = 0 then [vo_row out] else []))"
  proof (cases "statistical_busy (sp_statistical S)")
    case True
    then have "vo_sql out \<noteq> []" "vo_rc out = 0" "vo_row out = sp_statistical S"
      using assms by (auto simp: sp_stat_loop_def Let_def lamb_write_statistical_def split: prod.splits)
    then show ?thesis by simp
  next
    case False
    then have "vo_sql out = []"
      using assms(1) by (auto simp: sp_stat_loop_def Let_def split: prod.splits)
    with stat_idle [OF False] show ?thesis by simp
  qed
qed

lemma stat_event_step:
  assumes step: "sp_event_step e A ev P = Some P'" and ok: "\<And>v. ev = Ev_stat v \<Longrightarrow> \<forall>q. v_exec v q"
    and j: "0 \<le> j" "j \<le> 7" and inv: "stat_total j P = of_nat (stat_events j P)"
  shows "stat_total j P' = of_nat (stat_events j P')"
proof (cases ev)
  case (Ev_sender x)
  then obtain S p d where t: "sp_sender_loop e x (pr_sp P) = Some (S, p, d)"
    and P': "P' = P\<lparr>pr_sp := S, pr_packets := pr_packets P @ (case p of None \<Rightarrow> [] | Some q \<Rightarrow> [q])\<rparr>"
    using step by (auto simp: sp_event_step_def bind_eq_Some_conv)
  show ?thesis using inv sender_statistical [OF t]
    by (cases p) (auto simp: P' stat_total_def stat_events_def stat_of_def)
next
  case (Ev_deliver y)
  then obtain S out cmds where t: "sp_deliver_loop y (pr_sp P) = Some (S, out, cmds)" and P': "P' = P\<lparr>pr_sp := S\<rparr>"
    using step by (auto simp: sp_event_step_def bind_eq_Some_conv)
  show ?thesis using inv deliver_statistical [OF t] by (simp add: P' stat_total_def stat_events_def)
next
  case (Ev_work t)
  then obtain S cmds out where w: "sp_work_loop e t (pr_sp P) = Some (S, cmds, out)"
    and P': "P' = P\<lparr>pr_sp := S, pr_frames := pr_frames P @ out,
                 pr_statuses := pr_statuses P @ passed_status (pr_sp P) cmds\<rparr>"
    using step by (auto simp: sp_event_step_def bind_eq_Some_conv)
  have "passed_status (pr_sp P) cmds = [] \<or> (\<exists>st. passed_status (pr_sp P) cmds = [st])"
    by (auto simp: passed_status_def split: list.splits upmsg.splits)
  then show ?thesis using inv work_statistical [OF w] stat_of_check [OF j]
    by (auto simp: P' stat_total_def stat_events_def)
next
  case (Ev_keepalive q)
  then obtain S k where t: "lamb_cmpp_keepalive e A (pr_attempt P) q (pr_sp P) = Some (S, k)"
    and P': "P' = P\<lparr>pr_sp := S, pr_attempt := k\<rparr>"
    using step by (auto simp: sp_event_step_def bind_eq_Some_conv)
  show ?thesis using inv keepalive_statistical [OF t] by (simp add: P' stat_total_def stat_events_def)
next
  case (Ev_stat v)
  obtain S out where t: "sp_stat_loop e v (pr_speed P) (pr_sp P) = (S, out)" by fastforce
  define rows where "rows = (if vo_sql out \<noteq> [] \<and> vo_rc out = 0 then [vo_row out] else [])"
  have P': "P' = P\<lparr>pr_sp := S, pr_speed := vo_speed out, pr_rows := pr_rows P @ rows\<rparr>"
    using step Ev_stat t by (simp add: sp_event_step_def rows_def)
  have s: "stat_of j (sp_statistical (pr_sp P)) = sum_list (map (stat_of j) rows)" "stat_of j (sp_statistical S) = 0"
    unfolding rows_def by (rule stat_turn [OF t ok [OF Ev_stat]])+
  then have "stat_total j P' = stat_total j P" by (simp add: P' stat_total_def)
  moreover have "stat_events j P' = stat_events j P" by (simp add: P' stat_events_def)
  ultimately show ?thesis using inv by simp
qed

text \<open>
  C37: The statistics of a gateway lose nothing: in any interleaving of the threads, as long as
  the database takes the rows, the rows written plus the current counters are, modulo 2 to the
  64, the number of submits sent to the gateway and, for each status, of reports passed on.
\<close>

theorem sp_statistics_conserved:
  assumes "sp_run e A evs (sp_proc_start (sp_initial gid ok) speed) = Some P"
    and "\<forall>v q. Ev_stat v \<in> set evs \<longrightarrow> v_exec v q" and "0 \<le> j" and "j \<le> 7"
  shows "stat_total j P = of_nat (stat_events j P)"
proof -
  have gen: "stat_total j P0 = of_nat (stat_events j P0) \<Longrightarrow> sp_run e A evs P0 = Some P \<Longrightarrow>
     (\<forall>v q. Ev_stat v \<in> set evs \<longrightarrow> v_exec v q) \<Longrightarrow> stat_total j P = of_nat (stat_events j P)" for P0
  proof (induction evs arbitrary: P0)
    case Nil
    then show ?case by simp
  next
    case (Cons ev evs)
    then obtain P1 where 1: "sp_event_step e A ev P0 = Some P1" and 2: "sp_run e A evs P1 = Some P"
      by (auto simp: bind_eq_Some_conv)
    have "stat_total j P1 = of_nat (stat_events j P1)"
      by (rule stat_event_step [OF 1 _ assms(3,4) Cons.prems(1)]) (use Cons.prems(3) in auto)
    then show ?case using 2 Cons.prems(3) by (intro Cons.IH) auto
  qed
  show ?thesis
    by (rule gen [OF _ assms(1,2)])
      (simp add: stat_total_def stat_events_def sp_proc_start_def sp_initial_def stat_of_def)
qed

definition example_sturn :: sturn where
  "example_sturn = \<lparr>x_sent = True, x_buf = Some (htonl LAMB_SUBMIT), x_sequence = 5, x_error = False, x_timedout = False\<rparr>"

definition example_attempt :: attempt where
  "example_attempt = \<lparr>at_init = False, at_ok = False, at_sequence = 1, at_connect = False, at_recv = None\<rparr>"

definition example_vturn :: vturn where
  "example_vturn = \<lparr>v_interval = 5, v_pid = 100, v_exec = (\<lambda>q. True),
     v_redis = \<lparr>rd_connect = (\<lambda>h p. True), rd_reply = (\<lambda>c. None)\<rparr>\<rparr>"

lemma sp_statistics_conserved_witness:
  "\<exists>P. sp_run (example_sp_env\<lparr>pe_unpack := (\<lambda>b. Some (sp_example_submit 1))\<rparr>) (\<lambda>k. example_attempt)
     [Ev_sender example_sturn, Ev_stat example_vturn] (sp_proc_start (sp_initial 1 True) 0) = Some P \<and>
     stat_total 0 P = 1"
proof -
  let ?e = "example_sp_env\<lparr>pe_unpack := (\<lambda>b. Some (sp_example_submit 1))\<rparr>"
  let ?evs = "[Ev_sender example_sturn, Ev_stat example_vturn]"
  have c: "sp_convert ?e (sp_example_submit 1) = Some (Some ''hi'')"
    by (simp add: sp_convert_def example_sp_env_def sp_example_submit_def)
  have d: "sp_delay (gw_concurrent (pe_gateway ?e)) = Some 10" by (simp add: sp_delay_def example_sp_env_def)
  have "\<exists>S p d. sp_sender_loop ?e example_sturn (sp_initial 1 True) = Some (S, Some p, d)"
    using c d by (simp add: sp_sender_loop_def example_sturn_def sp_initial_def Let_def)
  then obtain S p d where s: "sp_sender_loop ?e example_sturn (sp_initial 1 True) = Some (S, Some p, d)" by blast
  obtain S2 out where v: "sp_stat_loop ?e example_vturn 0 S = (S2, out)" by fastforce
  have "\<exists>P. sp_run ?e (\<lambda>k. example_attempt) ?evs (sp_proc_start (sp_initial 1 True) 0) = Some P \<and> length (pr_packets P) = 1"
    using s v by (simp add: sp_event_step_def sp_proc_start_def)
  then obtain P where P: "sp_run ?e (\<lambda>k. example_attempt) ?evs (sp_proc_start (sp_initial 1 True) 0) = Some P" "length (pr_packets P) = 1"
    by blast
  have "stat_total 0 P = of_nat (stat_events 0 P)"
    by (rule sp_statistics_conserved [OF P(1)]) (simp_all add: example_vturn_def)
  with P show ?thesis by (simp add: stat_events_def)
qed

subsection \<open>Connecting again\<close>

text \<open>
  The gateway has taken the login of an attempt: the connection was made, the CONNECT packet sent,
  and in time a packet came that is a CONNECT response, to this very request, with status 0.
\<close>

definition logged_in :: "attempt \<Rightarrow> bool" where
  "logged_in a \<longleftrightarrow> \<not> at_init a \<and> \<not> at_connect a \<and>
     (\<exists>p. at_recv a = Some p \<and> pk_commandId p = CMPP_CONNECT_RESP \<and> pk_sequenceId p = at_sequence a \<and>
        pack_byte p cmpp_connect_resp_status = 0)"

lemma cmpp_init_in: "logged_in a \<Longrightarrow> lamb_cmpp_init a = (0, True)"
  by (auto simp: logged_in_def lamb_cmpp_init_def)

lemma cmpp_init_out: "\<not> logged_in a \<Longrightarrow> fst (lamb_cmpp_init a) \<noteq> 0"
  by (auto simp: logged_in_def lamb_cmpp_init_def split: option.splits)

lemma reconnect_hit: "logged_in (A k) \<Longrightarrow> lamb_cmpp_reconnect A k = Some (Suc k, True)"
  using cmpp_init_in [of "A k"] by (subst lamb_cmpp_reconnect.simps) simp

lemma reconnect_miss: "\<not> logged_in (A k) \<Longrightarrow> lamb_cmpp_reconnect A k = lamb_cmpp_reconnect A (Suc k)"
  using cmpp_init_out [of "A k"] by (subst lamb_cmpp_reconnect.simps) (auto split: prod.splits)

lemma reconnect_skips:
  "(\<And>i. k \<le> i \<Longrightarrow> i < j \<Longrightarrow> \<not> logged_in (A i)) \<Longrightarrow> k \<le> j \<Longrightarrow> lamb_cmpp_reconnect A k = lamb_cmpp_reconnect A j"
proof (induction "j - k" arbitrary: k)
  case 0
  then show ?case by simp
next
  case (Suc d)
  then have "lamb_cmpp_reconnect A k = lamb_cmpp_reconnect A (Suc k)" by (intro reconnect_miss) simp
  also have "\<dots> = lamb_cmpp_reconnect A j" using Suc.hyps(2) Suc.prems by (intro Suc.hyps(1)) auto
  finally show ?case .
qed

lemma reconnect_sound:
  assumes "lamb_cmpp_reconnect A k = Some r"
  shows "\<exists>j. k \<le> j \<and> logged_in (A j)"
proof (rule lamb_cmpp_reconnect.raw_induct [where P = "\<lambda>A k r. \<exists>j. k \<le> j \<and> logged_in (A j)", OF _ assms])
  fix f :: "(nat \<Rightarrow> attempt) \<Rightarrow> nat \<Rightarrow> (nat \<times> bool) option" and A k r
  assume ih: "\<And>A k r. f A k = Some r \<Longrightarrow> \<exists>j. k \<le> j \<and> logged_in (A j)"
    and body: "(case lamb_cmpp_init (A k) of (rc, ok) \<Rightarrow> if rc \<noteq> 0 then f A (Suc k) else Some (Suc k, ok)) = Some r"
  show "\<exists>j. k \<le> j \<and> logged_in (A j)"
  proof (cases "logged_in (A k)")
    case False
    then have "f A (Suc k) = Some r" using body cmpp_init_out [of "A k"] by (auto split: prod.splits)
    with ih [of A "Suc k"] show ?thesis using Suc_leD by blast
  qed blast
qed

text \<open>
  C39: A lost connection to a gateway is made again: the loop that reconnects returns exactly when
  in some later attempt the gateway takes the login, that is answers this very request in time
  with a CONNECT response of status 0; it returns after the first such attempt, with the
  connection marked usable, and does not end otherwise.
\<close>

theorem cmpp_reconnect_first:
  "lamb_cmpp_reconnect A k =
     (if \<exists>j. k \<le> j \<and> logged_in (A j) then Some (Suc (LEAST j. k \<le> j \<and> logged_in (A j)), True) else None)"
proof (cases "\<exists>j. k \<le> j \<and> logged_in (A j)")
  case True
  let ?j = "LEAST j. k \<le> j \<and> logged_in (A j)"
  have j: "k \<le> ?j" "logged_in (A ?j)" using LeastI_ex [OF True] by simp_all
  have "lamb_cmpp_reconnect A k = lamb_cmpp_reconnect A ?j"
  proof (rule reconnect_skips [OF _ j(1)])
    fix i
    assume "k \<le> i" "i < ?j"
    then show "\<not> logged_in (A i)" using not_less_Least [of i "\<lambda>j. k \<le> j \<and> logged_in (A j)"] by simp
  qed
  with reconnect_hit [of A ?j, OF j(2)] True show ?thesis by simp
next
  case False
  then have "lamb_cmpp_reconnect A k = None"
    using reconnect_sound [of A k] by (cases "lamb_cmpp_reconnect A k") blast+
  then show ?thesis using False by simp
qed

subsection \<open>Messages from phones\<close>

text \<open>
  The length of a message from a phone is one byte of the packet; above 160 the thread that
  passes it on reads beyond the content.
\<close>

lemma sp_work_deliver_overread:
  "160 < ld_length d \<Longrightarrow> t_pk t \<Longrightarrow> sp_work_deliver e t d S = None"
  by (simp add: sp_work_deliver_def content_bytes_def)

text \<open>A gateway whose concurrency is 0 stops the process at the first message it accepts.\<close>

lemma sp_delay_bound:
  "0 < c \<Longrightarrow> \<exists>d. sp_delay c = Some d \<and> unat d \<le> 1000" "sp_delay 0 = None"
proof -
  show "sp_delay 0 = None" by (simp add: sp_delay_def)
  assume c: "0 < c"
  then have r: "0 \<le> 1000 div c" "1000 div c \<le> 1000"
    using zdiv_mono2 [of 1000 1 c] by (simp_all add: pos_imp_zdiv_nonneg_iff)
  show "\<exists>d. sp_delay c = Some d \<and> unat d \<le> 1000"
  proof (cases "c > 1000")
    case False
    have "nat (1000 div c) mod 2 ^ 64 \<le> 1000" using r by (intro order.trans [OF mod_less_eq_dividend]) linarith
    then have "unat (word_of_int (1000 div c) :: u64) \<le> 1000"
      using r by (simp add: unat_eq_nat_uint uint_word_of_int nat_mod_distrib)
    then show ?thesis using False c by (simp add: sp_delay_def)
  qed (simp add: sp_delay_def)
qed

end
