(* ===== verification/Ismg.thy ===== *)
theory Ismg
  imports Mo Cache Cmpp
begin

text \<open>
  The front end of the clients (\<open>src/src/ismg.c\<close>): the login of a client, and the process of a
  client that is logged in, whose work loop takes submits and acknowledgements, whose deliver
  loop sends reports and messages from phones, and which tells redis that it is online.
\<close>

subsection \<open>Login\<close>

text \<open>What a connection gets: the answer, whether it is closed, the account of a new process.\<close>

record login =
  lg_answer :: "int option"
  lg_closed :: bool
  lg_child :: "account_bufs option"

definition no_account_bufs :: account_bufs where
  "no_account_bufs = \<lparr>ab_id = 0, ab_username = zeroed 8, ab_password = zeroed 64, ab_spcode = zeroed 24,
     ab_company = 0, ab_address = zeroed 16, ab_concurrent = 0, ab_options = 0\<rparr>"

text \<open>\<open>now\<close> is the time in seconds.\<close>

definition lamb_is_login :: "redis \<Rightarrow> int \<Rightarrow> int \<Rightarrow> bool" where
  "lamb_is_login rds now account =
     (case rd_reply rds (''HGET client.'' @ show_int account @ '' online'') of
        Some (RString s) \<Rightarrow> now - (if 0 < length s then atoi (cstr s) else 0) < 7
      | _ \<Rightarrow> False)"

text \<open>
  The answer to a CONNECT packet. \<open>version\<close> is CMPP_VERSION, \<open>auth\<close> what
  \<open>cmpp_check_authentication\<close> says of the packet, the user name and the password, \<open>forked\<close> whether
  \<open>fork\<close> succeeds. A successful login is answered by the new process.
\<close>

definition ismg_connect ::
  "redis \<Rightarrow> int \<Rightarrow> (cmpp_pack_t \<Rightarrow> string \<Rightarrow> string \<Rightarrow> bool) \<Rightarrow> int \<Rightarrow> bool \<Rightarrow> cmpp_pack_t \<Rightarrow> login option" where
  "ismg_connect rds version auth now forked p =
     (if pack_byte p cmpp_connect_version \<noteq> version
      then Some \<lparr>lg_answer = Some 4, lg_closed = False, lg_child = None\<rparr>
      else do {
        username \<leftarrow> pack_string p cmpp_connect_source_addr 8 6;
        let key = snprintf_z 32 (''account.'' @ username);
        if \<not> lamb_cache_has rds (Some \<lparr>ca_handle = True\<rparr>) key
        then Some \<lparr>lg_answer = Some 2, lg_closed = False, lg_child = None\<rparr>
        else let password = cstr (snd (lamb_cache_hget rds (Some \<lparr>ca_handle = True\<rparr>) (Some key) ''password'' (zeroed 64) 64))
        in if \<not> auth p username password
           then Some \<lparr>lg_answer = Some 3, lg_closed = False, lg_child = None\<rparr>
           else let (err, account) = lamb_account_get rds username no_account_bufs
           in if err \<noteq> 0 then Some \<lparr>lg_answer = Some 9, lg_closed = True, lg_child = None\<rparr>
              else if lamb_is_login rds now (ab_id account)
                then Some \<lparr>lg_answer = Some 10, lg_closed = True, lg_child = None\<rparr>
              else if \<not> forked then Some \<lparr>lg_answer = None, lg_closed = True, lg_child = None\<rparr>
              else Some \<lparr>lg_answer = Some 0, lg_closed = False, lg_child = Some account\<rparr> })"

text \<open>
  One event of a connection that is not logged in: \<open>cmpp_recv\<close> gives an error or a packet,
  which \<open>cmpp_check_method\<close> finds to be a CONNECT or not.
\<close>

definition ismg_event ::
  "redis \<Rightarrow> int \<Rightarrow> (cmpp_pack_t \<Rightarrow> string \<Rightarrow> string \<Rightarrow> bool) \<Rightarrow> int \<Rightarrow> bool \<Rightarrow> int + cmpp_pack_t \<Rightarrow> login option" where
  "ismg_event rds version auth now forked r =
     (case r of
        Inl err \<Rightarrow> Some \<lparr>lg_answer = None, lg_closed = (err = -1), lg_child = None\<rparr>
      | Inr p \<Rightarrow>
          (if pk_commandId p = CMPP_CONNECT then ismg_connect rds version auth now forked p
           else Some \<lparr>lg_answer = None, lg_closed = False, lg_child = None\<rparr>))"

subsection \<open>The state of a client\<close>

record ismg_status_t =
  iq_recv :: u64
  iq_store :: u64
  iq_rep :: u64
  iq_delv :: u64
  iq_ack :: u64
  iq_timeo :: u64
  iq_fmt :: u64
  iq_len :: u64
  iq_err :: u64

record ismg_confirmed_t =
  ic_sequenceId :: u32
  ic_msgId :: u64

text \<open>The buffers of the work loop live on its stack and keep what the last packet left.\<close>

record ismg =
  ig_status :: ismg_status_t
  ig_total :: u64
  ig_confirmed :: ismg_confirmed_t
  ig_sequence :: u16
  ig_phone :: bytes
  ig_spcode :: bytes
  ig_content :: bytes

definition ismg_start :: ismg where
  "ismg_start =
     \<lparr>ig_status = \<lparr>iq_recv = 0, iq_store = 0, iq_rep = 0, iq_delv = 0, iq_ack = 0, iq_timeo = 0, iq_fmt = 0,
        iq_len = 0, iq_err = 0\<rparr>, ig_total = 0, ig_confirmed = \<lparr>ic_sequenceId = 0, ic_msgId = 0\<rparr>,
      ig_sequence = 1, ig_phone = zeroed 21, ig_spcode = zeroed 21, ig_content = zeroed 160\<rparr>"

text \<open>The date \<open>localtime\<close> gives, with the fields the message id uses.\<close>

record tm =
  tm_mon :: int
  tm_mday :: int
  tm_hour :: int
  tm_min :: int
  tm_sec :: int

type_synonym msgid_gen = "int \<Rightarrow> int \<Rightarrow> int \<Rightarrow> int \<Rightarrow> int \<Rightarrow> int \<Rightarrow> u16 \<Rightarrow> u64"

definition lamb_gen_msgid :: "msgid_gen \<Rightarrow> tm \<Rightarrow> int \<Rightarrow> u16 \<Rightarrow> u64" where
  "lamb_gen_msgid gen t gid sequenceId =
     gen (tm_mon t + 1) (tm_mday t) (tm_hour t) (tm_min t) (tm_sec t) gid sequenceId"

record ismg_env =
  ie_gid :: int
  ie_account :: account_bufs
  ie_gen :: msgid_gen
  ie_pack :: "Submit \<Rightarrow> bytes"
  ie_up :: upcodec

subsection \<open>Submits\<close>

text \<open>One turn of the work loop: what arrived (an error or a packet), the date, the memory,
  whether the frame went out to the mt process.\<close>

record iturn =
  i_recv :: "int + cmpp_pack_t"
  i_tm :: tm
  i_pk :: bool
  i_frame :: bool
  i_sent :: bool

datatype canswer =
    Active_test_resp u32
  | Submit_resp u32 u64 int
  | Terminate_resp u32

definition fill :: "bytes \<Rightarrow> bytes \<Rightarrow> bytes option" where
  "fill buf src = (if length src \<le> length buf then Some (overwrite buf src) else None)"

definition ismg_message :: "ismg_env \<Rightarrow> u64 \<Rightarrow> ismg \<Rightarrow> int \<Rightarrow> int \<Rightarrow> Submit" where
  "ismg_message e msgId S msgFmt len =
     \<lparr>sb_id = msgId, sb_account = ab_id (ie_account e), sb_company = ab_company (ie_account e),
      sb_spid = cstr (ab_username (ie_account e)), sb_spcode = cstr (ig_spcode S), sb_phone = cstr (ig_phone S),
      sb_msgfmt = msgFmt, sb_length = len, sb_content = take (nat len) (ig_content S)\<rparr>"

definition ismg_formats :: "int list" where
  "ismg_formats = [0, 8, 11, 15]"

text \<open>
  The handling of a submit: the message id, the result for the client, the frames for the mt
  process. Without memory for the frame, the code sends and frees an unset pointer: \<open>None\<close>.
\<close>

definition ismg_submit :: "ismg_env \<Rightarrow> iturn \<Rightarrow> cmpp_pack_t \<Rightarrow> ismg \<Rightarrow> (ismg \<times> u64 \<times> int \<times> bytes list) option" where
  "ismg_submit e t p S =
     (let (v, seq) = lamb_sequence (ig_sequence S);
          msgId = lamb_gen_msgid (ie_gen e) (i_tm t) (ie_gid e) v;
          S1 = S\<lparr>ig_total := ig_total S + 1, ig_sequence := seq,
                 ig_status := (ig_status S)\<lparr>iq_recv := iq_recv (ig_status S) + 1\<rparr>\<rparr>
      in do {
        phone \<leftarrow> fill (ig_phone S1) (pk_string p cmpp_submit_dest_terminal_id 21 20);
        spcode \<leftarrow> fill (ig_spcode S1) (pk_string p cmpp_submit_src_id 21 20);
        let S2 = S1\<lparr>ig_phone := phone, ig_spcode := spcode\<rparr>;
        let msgFmt = pack_byte p cmpp_submit_msg_fmt;
        if \<not> lamb_check_format msgFmt ismg_formats
        then Some (S2\<lparr>ig_status := (ig_status S2)\<lparr>iq_fmt := iq_fmt (ig_status S2) + 1\<rparr>\<rparr>, msgId, 11, [])
        else let len = pack_byte p cmpp_submit_msg_length
        in if len > 159 \<or> len < 1
           then Some (S2\<lparr>ig_status := (ig_status S2)\<lparr>iq_len := iq_len (ig_status S2) + 1\<rparr>\<rparr>, msgId, 4, [])
           else do {
             content \<leftarrow> fill (ig_content S2) (pk_string p cmpp_submit_msg_content 160 (nat len));
             let S3 = S2\<lparr>ig_content := content\<rparr>;
             if \<not> i_pk t then Some (S3, msgId, 12, [])
             else do {
               buf \<leftarrow> lamb_pack_assembly (i_frame t) LAMB_SUBMIT (Some (ie_pack e (ismg_message e msgId S3 msgFmt len)));
               Some (if i_sent t
                     then (S3\<lparr>ig_status := (ig_status S3)\<lparr>iq_store := iq_store (ig_status S3) + 1\<rparr>\<rparr>, msgId, 0, [buf])
                     else (S3\<lparr>ig_status := (ig_status S3)\<lparr>iq_err := iq_err (ig_status S3) + 1\<rparr>\<rparr>, msgId, 13, [])) } } })"

definition ismg_confirms :: "cmpp_pack_t \<Rightarrow> ismg \<Rightarrow> bool" where
  "ismg_confirms p S \<longleftrightarrow> ic_sequenceId (ig_confirmed S) = pk_sequenceId p \<and>
     ic_msgId (ig_confirmed S) = pk_integer p cmpp_deliver_resp_msg_id 8 \<and> pack_byte p cmpp_deliver_resp_result = 0"

text \<open>The results: answers to the client, frames to mt, whether the deliver loop is signalled,
  whether the loop ends.\<close>

record iout =
  io_answers :: "canswer list"
  io_frames :: "bytes list"
  io_signal :: bool
  io_stop :: bool

definition no_iout :: iout where
  "no_iout = \<lparr>io_answers = [], io_frames = [], io_signal = False, io_stop = False\<rparr>"

definition ismg_work_loop :: "ismg_env \<Rightarrow> iturn \<Rightarrow> ismg \<Rightarrow> (ismg \<times> iout) option" where
  "ismg_work_loop e t S =
     (case i_recv t of
        Inl err \<Rightarrow> Some (S, no_iout\<lparr>io_stop := (err = -1)\<rparr>)
      | Inr p \<Rightarrow>
          (case pk_commandId p of
             CMPP_ACTIVE_TEST \<Rightarrow> Some (S, no_iout\<lparr>io_answers := [Active_test_resp (pk_sequenceId p)]\<rparr>)
           | CMPP_SUBMIT \<Rightarrow> do {
               (S1, msgId, result, out) \<leftarrow> ismg_submit e t p S;
               Some (S1, no_iout\<lparr>io_answers := [Submit_resp (pk_sequenceId p) msgId result], io_frames := out\<rparr>) }
           | CMPP_DELIVER_RESP \<Rightarrow>
               Some (S\<lparr>ig_status := (ig_status S)\<lparr>iq_ack := iq_ack (ig_status S) + 1\<rparr>\<rparr>,
                     no_iout\<lparr>io_signal := ismg_confirms p S\<rparr>)
           | CMPP_TERMINATE \<Rightarrow>
               Some (S, no_iout\<lparr>io_answers := [Terminate_resp (pk_sequenceId p)], io_stop := True\<rparr>)
           | _ \<Rightarrow> Some (S, no_iout)))"

subsection \<open>Reports and messages from phones\<close>

definition stat_name :: "int \<Rightarrow> string" where
  "stat_name status =
     (if status = 1 then ''DELIVRD''
      else if status = 2 then ''EXPIRED''
      else if status = 3 then ''DELETED''
      else if status = 4 then ''UNDELIV''
      else if status = 5 then ''ACCEPTD''
      else if status = 6 then ''UNKNOWN''
      else if status = 7 then ''REJECTD''
      else ''UNKNOWN'')"

datatype cout =
    Cmpp_report u32 u64 string string string string string
  | Cmpp_deliver u32 u64 string string bytes int

text \<open>
  One turn of the deliver loop: whether the request went out, the frame, the sequence number,
  and, for each attempt to send the packet, whether sending fails and whether the wait for
  its acknowledgement times out.
\<close>

record jturn =
  j_sent :: bool
  j_buf :: "bytes option"
  j_sequence :: u32
  j_error :: "nat \<Rightarrow> bool"
  j_timedout :: "nat \<Rightarrow> bool"

definition ismg_confirm :: "u32 \<Rightarrow> u64 \<Rightarrow> ismg \<Rightarrow> ismg" where
  "ismg_confirm sequenceId msgId S = S\<lparr>ig_confirmed := \<lparr>ic_sequenceId = sequenceId, ic_msgId = msgId\<rparr>\<rparr>"

definition ismg_count_err :: "ismg \<Rightarrow> ismg" where
  "ismg_count_err S = S\<lparr>ig_status := (ig_status S)\<lparr>iq_err := iq_err (ig_status S) + 1\<rparr>\<rparr>"

definition ismg_count_timeo :: "ismg \<Rightarrow> ismg" where
  "ismg_count_timeo S = S\<lparr>ig_status := (ig_status S)\<lparr>iq_timeo := iq_timeo (ig_status S) + 1\<rparr>\<rparr>"

text \<open>Sending until an attempt does not time out, from attempt \<open>k\<close>: the number of attempts made.\<close>

partial_function (option) ismg_resend :: "jturn \<Rightarrow> nat \<Rightarrow> ismg \<Rightarrow> (ismg \<times> nat) option" where
  "ismg_resend j k S =
     (let S1 = (if j_error j k then ismg_count_err S else S)
      in if j_timedout j k then ismg_resend j (Suc k) (ismg_count_timeo S1) else Some (S1, Suc k))"

definition ismg_count_rep :: "ismg \<Rightarrow> ismg" where
  "ismg_count_rep S = S\<lparr>ig_status := (ig_status S)\<lparr>iq_rep := iq_rep (ig_status S) + 1\<rparr>\<rparr>"

text \<open>The result: the packets sent to the client. Frames of other kinds only wait.\<close>

definition ismg_deliver_loop :: "ismg_env \<Rightarrow> jturn \<Rightarrow> ismg \<Rightarrow> (ismg \<times> cout list) option" where
  "ismg_deliver_loop e j S =
     (if \<not> j_sent j then Some (S, [])
      else case classify (j_buf j) of
        Short \<Rightarrow> Some (S, [])
      | Frame c body \<Rightarrow>
          (if c = LAMB_EMPTY then Some (S, [])
           else if c = LAMB_REPORT then
             (case unpack_report (ie_up e) body of
                None \<Rightarrow> Some (S, [])
              | Some r \<Rightarrow> do {
                  (S1, n) \<leftarrow> ismg_resend j 0 (ismg_confirm (j_sequence j) (rp_id r) S);
                  Some (ismg_count_rep S1,
                    replicate n (Cmpp_report (j_sequence j) (rp_id r) (rp_spcode r) (stat_name (rp_status r))
                      (rp_submittime r) (rp_donetime r) (rp_phone r))) })
           else if c = LAMB_DELIVER then
             (case unpack_deliver (ie_up e) body of
                None \<Rightarrow> Some (S, [])
              | Some d \<Rightarrow> do {
                  (S1, n) \<leftarrow> ismg_resend j 0 (ismg_confirm (j_sequence j) (dl_id d) S);
                  Some (ismg_count_rep S1,
                    replicate n (Cmpp_deliver (j_sequence j) (dl_id d) (dl_spcode d) (dl_phone d) (dl_content d)
                      (dl_msgfmt d))) })
           else Some (ismg_count_rep (if j_timedout j 0 then ismg_count_timeo S else S), [])))"

subsection \<open>Status, signals, being online\<close>

definition ismg_clear_signal :: "int \<Rightarrow> string list" where
  "ismg_clear_signal i = [''HSET client.'' @ show_int i @ '' signal 0'']"

definition ismg_check_signal :: "redis \<Rightarrow> int \<Rightarrow> int \<times> string list" where
  "ismg_check_signal rds i =
     (let get = ''HGET client.'' @ show_int i @ '' signal'';
          signal = (case rd_reply rds get of
                      Some (RString s) \<Rightarrow> (if 0 < length s then atoi (cstr s) else 0)
                    | _ \<Rightarrow> 0)
      in (signal, get # ismg_clear_signal i))"

definition lamb_state_renewal :: "redis \<Rightarrow> int \<Rightarrow> int \<Rightarrow> int \<times> string" where
  "lamb_state_renewal rds now i =
     (let cmd = ''HSET client.'' @ show_int i @ '' online '' @ show_int now
      in (if rd_reply rds cmd \<noteq> None then 0 else -1, cmd))"

text \<open>One turn of the online thread.\<close>

definition lamb_online_loop :: "ismg_env \<Rightarrow> redis \<Rightarrow> int \<Rightarrow> string" where
  "lamb_online_loop e rds now = snd (lamb_state_renewal rds now (ab_id (ie_account e)))"

text \<open>
  One turn of the status thread, from the seconds since the last and the speed of the last: the
  state, the speed, the commands, the sockets when it exits.
\<close>

definition ismg_stat_loop ::
  "ismg_env \<Rightarrow> nnenv \<Rightarrow> redis \<Rightarrow> string \<Rightarrow> u32 \<Rightarrow> int \<Rightarrow> int \<times> int \<Rightarrow> u64 \<Rightarrow> ismg \<Rightarrow> nnet \<Rightarrow>
   ismg \<times> u64 \<times> string list \<times> nnet \<times> bool" where
  "ismg_stat_loop e n rds addr pid interval socks speed S s =
     (let speed1 = (if interval > 0 then ig_total S div word_of_int interval else speed);
          st = ig_status S;
          error = iq_timeo st + iq_fmt st + iq_len st + iq_err st;
          account = ab_id (ie_account e);
          cmd = ''HMSET client.'' @ show_int account @ '' pid '' @ show_nat (unat pid) @ '' addr '' @ addr
                  @ '' speed '' @ show_nat (unat speed1) @ '' error '' @ show_nat (unat error);
          (sig, cmds) = ismg_check_signal rds account
      in (S\<lparr>ig_total := 0\<rparr>, speed1, cmd # cmds,
          (if sig = 9 then lamb_nn_close n (snd socks) (lamb_nn_close n (fst socks) s) else s), sig = 9))"

subsection \<open>The start of a client's process\<close>

text \<open>The connections to redis and mt in the work loop, that to mo in the deliver loop.\<close>

definition ismg_open_mt ::
  "redis \<Rightarrow> nnenv \<Rightarrow> codec \<Rightarrow> string \<Rightarrow> int \<Rightarrow> account_bufs \<Rightarrow> nnet \<Rightarrow> int option \<times> nnet" where
  "ismg_open_mt rds n c mt timeout account s =
     (if fst (lamb_cache_connect rds ''127.0.0.1'' 6379 None 0) \<noteq> 0 then (None, s)
      else let (fd, s1) = lamb_nn_pair n c mt (ab_id account) timeout s
      in (if fd < 0 then None else Some fd, s1))"

definition ismg_open_mo ::
  "nnenv \<Rightarrow> codec \<Rightarrow> string \<Rightarrow> int \<Rightarrow> account_bufs \<Rightarrow> nnet \<Rightarrow> int option \<times> nnet" where
  "ismg_open_mo n c mo timeout account s =
     (let (fd, s1) = lamb_nn_reqrep n c mo (ab_id account) timeout s
      in (if fd < 0 then None else Some fd, s1))"

end
