(* ===== verification/IsmgRun.thy ===== *)
theory IsmgRun
  imports Ismg
begin

text \<open>
  The front end (\<open>src/src/ismg.c\<close>) over time: the answers to a client's submits, the sending of
  reports until they are acknowledged, who is admitted.
\<close>

subsection \<open>The loops interleaved\<close>

datatype ismg_ev = Iwork iturn | Ideliver jturn

record ismg_log =
  il_submits :: "u32 list"
  il_answers :: "canswer list"
  il_frames :: "bytes list"
  il_packets :: "cout list"

definition submit_sequence :: "iturn \<Rightarrow> u32 list" where
  "submit_sequence t =
     (case i_recv t of Inl err \<Rightarrow> [] | Inr p \<Rightarrow> (if pk_commandId p = CMPP_SUBMIT then [pk_sequenceId p] else []))"

primrec ismg_run :: "ismg_env \<Rightarrow> ismg_ev list \<Rightarrow> ismg \<Rightarrow> ismg_log \<Rightarrow> (ismg \<times> ismg_log) option" where
  "ismg_run e [] S L = Some (S, L)"
| "ismg_run e (ev # evs) S L =
     (case ev of
        Iwork t \<Rightarrow> do {
          (S1, out) \<leftarrow> ismg_work_loop e t S;
          let L1 = L\<lparr>il_submits := il_submits L @ submit_sequence t, il_answers := il_answers L @ io_answers out,
                     il_frames := il_frames L @ io_frames out\<rparr>;
          if io_stop out then Some (S1, L1) else ismg_run e evs S1 L1 }
      | Ideliver j \<Rightarrow> do {
          (S1, ps) \<leftarrow> ismg_deliver_loop e j S;
          ismg_run e evs S1 (L\<lparr>il_packets := il_packets L @ ps\<rparr>) })"

definition no_log :: ismg_log where
  "no_log = \<lparr>il_submits = [], il_answers = [], il_frames = [], il_packets = []\<rparr>"

subsection \<open>Every submit is answered once\<close>

definition submit_answers :: "canswer list \<Rightarrow> (u32 \<times> int) list" where
  "submit_answers as = concat (map (\<lambda>a. case a of Submit_resp q i r \<Rightarrow> [(q, r)] | _ \<Rightarrow> []) as)"

definition answered :: "int \<Rightarrow> canswer list \<Rightarrow> nat" where
  "answered r as = length (filter (\<lambda>a. snd a = r) (submit_answers as))"

lemma submit_answers_simps [simp]:
  "submit_answers [] = []"
  "submit_answers (as @ bs) = submit_answers as @ submit_answers bs"
  "submit_answers [Active_test_resp q] = []"
  "submit_answers [Submit_resp q i r] = [(q, r)]"
  "submit_answers [Terminate_resp q] = []"
  by (simp_all add: submit_answers_def)

lemma answered_append [simp]: "answered r (as @ bs) = answered r as + answered r bs"
  by (simp add: answered_def)

lemma answered_simps [simp]:
  "answered r [] = 0"
  "answered r [Active_test_resp q] = 0"
  "answered r [Submit_resp q i r'] = (if r' = r then 1 else 0)"
  "answered r [Terminate_resp q] = 0"
  by (simp_all add: answered_def)

definition books :: "ismg \<Rightarrow> ismg_log \<Rightarrow> bool" where
  "books S L \<longleftrightarrow> map fst (submit_answers (il_answers L)) = il_submits L \<and>
     set (map snd (submit_answers (il_answers L))) \<subseteq> {0, 4, 11, 12, 13} \<and>
     length (il_frames L) = answered 0 (il_answers L) \<and>
     iq_recv (ig_status S) = of_nat (length (il_submits L)) \<and>
     iq_store (ig_status S) = of_nat (answered 0 (il_answers L)) \<and>
     iq_len (ig_status S) = of_nat (answered 4 (il_answers L)) \<and>
     iq_fmt (ig_status S) = of_nat (answered 11 (il_answers L))"

lemma ismg_submit_books:
  assumes "ismg_submit e t p S = Some (S', msgId, r, out)"
  shows "iq_recv (ig_status S') = iq_recv (ig_status S) + 1"
    and "iq_store (ig_status S') = iq_store (ig_status S) + (if r = 0 then 1 else 0)"
    and "iq_len (ig_status S') = iq_len (ig_status S) + (if r = 4 then 1 else 0)"
    and "iq_fmt (ig_status S') = iq_fmt (ig_status S) + (if r = 11 then 1 else 0)"
    and "length out = (if r = 0 then 1 else 0)" and "r \<in> {0, 4, 11, 12, 13}"
proof -
  have "iq_recv (ig_status S') = iq_recv (ig_status S) + 1 \<and>
     iq_store (ig_status S') = iq_store (ig_status S) + (if r = 0 then 1 else 0) \<and>
     iq_len (ig_status S') = iq_len (ig_status S) + (if r = 4 then 1 else 0) \<and>
     iq_fmt (ig_status S') = iq_fmt (ig_status S) + (if r = 11 then 1 else 0) \<and>
     length out = (if r = 0 then 1 else 0) \<and> r \<in> {0, 4, 11, 12, 13}"
  proof -
    obtain v seq where q: "lamb_sequence (ig_sequence S) = (v, seq)" by fastforce
    obtain phone where phone: "fill (ig_phone S) (pk_string p cmpp_submit_dest_terminal_id 21 20) = Some phone"
      using assms q by (cases "fill (ig_phone S) (pk_string p cmpp_submit_dest_terminal_id 21 20)")
        (simp_all add: ismg_submit_def)
    obtain spcode where spcode: "fill (ig_spcode S) (pk_string p cmpp_submit_src_id 21 20) = Some spcode"
      using assms q phone by (cases "fill (ig_spcode S) (pk_string p cmpp_submit_src_id 21 20)")
        (simp_all add: ismg_submit_def)
    note run = assms [unfolded ismg_submit_def q Let_def, simplified, unfolded phone spcode, simplified]
    let ?len = "pack_byte p cmpp_submit_msg_length"
    show ?thesis
    proof (cases "lamb_check_format (pack_byte p cmpp_submit_msg_fmt) ismg_formats")
      case False
      then show ?thesis using run by auto
    next
      case fmt: True
      show ?thesis
      proof (cases "?len > 159 \<or> ?len < 1")
        case True
        then show ?thesis using run fmt by auto
      next
        case False
        then obtain content where content: "fill (ig_content S) (pk_string p cmpp_submit_msg_content 160 (nat ?len)) = Some content"
          using run fmt by (cases "fill (ig_content S) (pk_string p cmpp_submit_msg_content 160 (nat ?len))") simp_all
        show ?thesis
        proof (cases "i_pk t")
          case True
          then show ?thesis using run fmt False content
            by (cases "i_frame t"; cases "i_sent t") (auto simp: lamb_pack_assembly_def)
        next
          case no: False
          then show ?thesis using run fmt False content by auto
        qed
      qed
    qed
  qed
  then show "iq_recv (ig_status S') = iq_recv (ig_status S) + 1"
    "iq_store (ig_status S') = iq_store (ig_status S) + (if r = 0 then 1 else 0)"
    "iq_len (ig_status S') = iq_len (ig_status S) + (if r = 4 then 1 else 0)"
    "iq_fmt (ig_status S') = iq_fmt (ig_status S) + (if r = 11 then 1 else 0)"
    "length out = (if r = 0 then 1 else 0)" "r \<in> {0, 4, 11, 12, 13}" by blast+
qed

lemma ismg_work_books:
  assumes w: "ismg_work_loop e t S = Some (S', out)" and b: "books S L"
  shows "books S' (L\<lparr>il_submits := il_submits L @ submit_sequence t, il_answers := il_answers L @ io_answers out,
                     il_frames := il_frames L @ io_frames out\<rparr>)"
proof (cases "i_recv t")
  case (Inl err)
  then show ?thesis using assms by (auto simp: ismg_work_loop_def submit_sequence_def books_def no_iout_def)
next
  case (Inr p)
  show ?thesis
  proof (cases "pk_commandId p = CMPP_SUBMIT")
    case True
    obtain S1 msgId r fs where s: "ismg_submit e t p S = Some (S1, msgId, r, fs)"
      using w Inr True by (cases "ismg_submit e t p S") (auto simp: ismg_work_loop_def)
    then have "S' = S1" "out = no_iout\<lparr>io_answers := [Submit_resp (pk_sequenceId p) msgId r], io_frames := fs\<rparr>"
      using w Inr True by (simp_all add: ismg_work_loop_def)
    then show ?thesis using ismg_submit_books [OF s] b Inr True
      by (auto simp: books_def submit_sequence_def no_iout_def)
  next
    case False
    then have "ig_status S' = (ig_status S)\<lparr>iq_ack := iq_ack (ig_status S')\<rparr>"
      and "submit_answers (io_answers out) = []" "io_frames out = []" "\<And>r. answered r (io_answers out) = 0"
      using w Inr by (cases "pk_commandId p"; auto simp: ismg_work_loop_def no_iout_def)+
    then show ?thesis using b Inr False
      by (cases "ig_status S'", cases "ig_status S") (simp add: books_def submit_sequence_def)
  qed
qed

lemma resend_status:
  assumes "ismg_resend j k S = Some (S', n)"
  shows "ig_status S' = (ig_status S)\<lparr>iq_err := iq_err (ig_status S'), iq_timeo := iq_timeo (ig_status S')\<rparr>"
proof -
  have "ig_status (fst r) =
      (ig_status S)\<lparr>iq_err := iq_err (ig_status (fst r)), iq_timeo := iq_timeo (ig_status (fst r))\<rparr>"
    if "ismg_resend j k S = Some r" for r
  proof (rule ismg_resend.raw_induct [where P = "\<lambda>j k S r. ig_status (fst r) =
      (ig_status S)\<lparr>iq_err := iq_err (ig_status (fst r)), iq_timeo := iq_timeo (ig_status (fst r))\<rparr>", OF _ that])
    fix f :: "jturn \<Rightarrow> nat \<Rightarrow> ismg \<Rightarrow> (ismg \<times> nat) option" and j k S r
    assume ih: "\<And>j k S r. f j k S = Some r \<Longrightarrow>
        ig_status (fst r) = (ig_status S)\<lparr>iq_err := iq_err (ig_status (fst r)), iq_timeo := iq_timeo (ig_status (fst r))\<rparr>"
      and body: "(let S1 = if j_error j k then ismg_count_err S else S
        in if j_timedout j k then f j (Suc k) (ismg_count_timeo S1) else Some (S1, Suc k)) = Some r"
    show "ig_status (fst r) = (ig_status S)\<lparr>iq_err := iq_err (ig_status (fst r)), iq_timeo := iq_timeo (ig_status (fst r))\<rparr>"
    proof (cases "j_timedout j k")
      case True
      then have "f j (Suc k) (ismg_count_timeo (if j_error j k then ismg_count_err S else S)) = Some r"
        using body by (simp add: Let_def)
      from ih [OF this] show ?thesis by (simp add: ismg_count_timeo_def ismg_count_err_def split: if_splits)
    next
      case False
      then show ?thesis using body by (auto simp: Let_def ismg_count_err_def)
    qed
  qed
  from this [OF assms] show ?thesis by simp
qed

lemma status_books:
  assumes "ig_status S' = (ig_status S)\<lparr>iq_rep := a, iq_err := b, iq_timeo := c\<rparr>" and "books S L"
  shows "books S' (L\<lparr>il_packets := ps\<rparr>)"
  using assms by (simp add: books_def)

lemma ismg_deliver_status:
  assumes "ismg_deliver_loop e j S = Some (S', ps)"
  shows "\<exists>a b c. ig_status S' = (ig_status S)\<lparr>iq_rep := a, iq_err := b, iq_timeo := c\<rparr>"
proof -
  let ?R = "\<lambda>S S'. \<exists>a b c. ig_status S' = (ig_status S)\<lparr>iq_rep := a, iq_err := b, iq_timeo := c\<rparr>"
  have same: "?R S S" by (intro exI [of _ "iq_rep (ig_status S)"] exI [of _ "iq_err (ig_status S)"]
        exI [of _ "iq_timeo (ig_status S)"]) simp
  have resent: "?R S (ismg_count_rep S1)" if "ismg_resend j 0 (ismg_confirm q i S) = Some (S1, n)" for q i S1 n
  proof -
    have "ig_status (ismg_count_rep S1) = (ig_status S)\<lparr>iq_rep := iq_rep (ig_status S1) + 1,
        iq_err := iq_err (ig_status S1), iq_timeo := iq_timeo (ig_status S1)\<rparr>"
      using resend_status [OF that] by (cases "ig_status S1") (simp add: ismg_count_rep_def ismg_confirm_def)
    then show ?thesis by blast
  qed
  have other: "?R S (ismg_count_rep (if j_timedout j 0 then ismg_count_timeo S else S))"
  proof -
    let ?T = "ismg_count_rep (if j_timedout j 0 then ismg_count_timeo S else S)"
    have "ig_status ?T = (ig_status S)\<lparr>iq_rep := iq_rep (ig_status ?T), iq_err := iq_err (ig_status ?T),
        iq_timeo := iq_timeo (ig_status ?T)\<rparr>"
      by (simp add: ismg_count_rep_def ismg_count_timeo_def)
    then show ?thesis by blast
  qed
  show ?thesis
  proof (cases "\<not> j_sent j \<or> classify (j_buf j) = Short")
    case True
    then have "S' = S" using assms by (cases "j_sent j") (simp_all add: ismg_deliver_loop_def)
    then show ?thesis using same by simp
  next
    case False
    then obtain c body where f: "classify (j_buf j) = Frame c body" by (cases "classify (j_buf j)") auto
    consider "c = LAMB_EMPTY" | "c = LAMB_REPORT" | "c = LAMB_DELIVER"
      | "c \<notin> {LAMB_EMPTY, LAMB_REPORT, LAMB_DELIVER}" by blast
    then show ?thesis
    proof cases
      case 1
      then have "S' = S" using assms f False by (simp add: ismg_deliver_loop_def)
      then show ?thesis using same by simp
    next
      case 2
      then have c: "c \<noteq> LAMB_EMPTY" "c = LAMB_REPORT" by (simp_all add: commands)
      show ?thesis
      proof (cases "unpack_report (ie_up e) body")
        case None
        then have "S' = S" using assms f False c by (simp add: ismg_deliver_loop_def)
        then show ?thesis using same by simp
      next
        case (Some r)
        then obtain S1 n where "ismg_resend j 0 (ismg_confirm (j_sequence j) (rp_id r) S) = Some (S1, n)"
          and "S' = ismg_count_rep S1"
          using assms f False c by (auto simp: ismg_deliver_loop_def bind_eq_Some_conv)
        then show ?thesis using resent by simp
      qed
    next
      case 3
      then have c: "c \<noteq> LAMB_EMPTY" "c \<noteq> LAMB_REPORT" "c = LAMB_DELIVER" by (simp_all add: commands)
      show ?thesis
      proof (cases "unpack_deliver (ie_up e) body")
        case None
        then have "S' = S" using assms f False c by (simp add: ismg_deliver_loop_def)
        then show ?thesis using same by simp
      next
        case (Some d)
        then obtain S1 n where "ismg_resend j 0 (ismg_confirm (j_sequence j) (dl_id d) S) = Some (S1, n)"
          and "S' = ismg_count_rep S1"
          using assms f False c by (auto simp: ismg_deliver_loop_def bind_eq_Some_conv)
        then show ?thesis using resent by simp
      qed
    next
      case 4
      then have "S' = ismg_count_rep (if j_timedout j 0 then ismg_count_timeo S else S)"
        using assms f False by (simp add: ismg_deliver_loop_def)
      then show ?thesis using other by simp
    qed
  qed
qed

lemma ismg_run_books: "ismg_run e evs S L = Some (S', L') \<Longrightarrow> books S L \<Longrightarrow> books S' L'"
proof (induction evs arbitrary: S L)
  case Nil
  then show ?case by simp
next
  case (Cons ev evs)
  show ?case
  proof (cases ev)
    case (Iwork t)
    obtain S1 out where w: "ismg_work_loop e t S = Some (S1, out)"
      using Cons.prems(1) Iwork by (cases "ismg_work_loop e t S") auto
    note b = ismg_work_books [OF w Cons.prems(2)]
    show ?thesis using Cons.prems(1) Iwork w b Cons.IH by (cases "io_stop out") auto
  next
    case (Ideliver j)
    obtain S1 ps where d: "ismg_deliver_loop e j S = Some (S1, ps)"
      using Cons.prems(1) Ideliver by (cases "ismg_deliver_loop e j S") auto
    obtain a b c where "ig_status S1 = (ig_status S)\<lparr>iq_rep := a, iq_err := b, iq_timeo := c\<rparr>"
      using ismg_deliver_status [OF d] by blast
    from status_books [OF this Cons.prems(2)] show ?thesis using Cons.prems(1) Ideliver d Cons.IH by simp
  qed
qed

text \<open>
  C20: Every submit of a client is answered once, in order, with its own sequence number and one
  of five results. As many frames go to the mt process as submits are answered with 0; the
  counters of received, stored, badly encoded and badly sized messages count exactly these, in
  any interleaving with the reports sent to the client.
\<close>

theorem ismg_answers_each_submit:
  assumes "ismg_run e evs ismg_start no_log = Some (S, L)"
  shows "map fst (submit_answers (il_answers L)) = il_submits L \<and>
     set (map snd (submit_answers (il_answers L))) \<subseteq> {0, 4, 11, 12, 13} \<and>
     length (il_frames L) = answered 0 (il_answers L) \<and>
     iq_recv (ig_status S) = of_nat (length (il_submits L)) \<and>
     iq_store (ig_status S) = of_nat (answered 0 (il_answers L)) \<and>
     iq_len (ig_status S) = of_nat (answered 4 (il_answers L)) \<and>
     iq_fmt (ig_status S) = of_nat (answered 11 (il_answers L))"
  using ismg_run_books [OF assms] by (simp add: books_def ismg_start_def no_log_def)

definition example_client :: ismg_env where
  "example_client = \<lparr>ie_gid = 77, ie_account = no_account_bufs\<lparr>ab_id := 2, ab_company := 3, ab_username := ''901234'' @ zeroed 2\<rparr>,
     ie_gen = (\<lambda>a b c d f g i. ucast i), ie_pack = sb_phone, ie_up = example_up\<rparr>"

definition submit_packet :: "u32 \<Rightarrow> u64 \<Rightarrow> cmpp_pack_t" where
  "submit_packet q fmt =
     \<lparr>pk_commandId = CMPP_SUBMIT, pk_sequenceId = q,
      pk_integer = (\<lambda>f n. if f = cmpp_submit_msg_fmt then fmt else 2),
      pk_string = (\<lambda>f n l. if f = cmpp_submit_dest_terminal_id then ''13800138000'' else ''hi'')\<rparr>"

definition example_iturn :: "cmpp_pack_t \<Rightarrow> iturn" where
  "example_iturn p = \<lparr>i_recv = Inr p, i_tm = \<lparr>tm_mon = 0, tm_mday = 1, tm_hour = 0, tm_min = 0, tm_sec = 0\<rparr>,
     i_pk = True, i_frame = True, i_sent = True\<rparr>"

lemma ismg_answers_each_submit_witness:
  "\<exists>S L. ismg_run example_client [Iwork (example_iturn (submit_packet 5 8)), Iwork (example_iturn (submit_packet 6 9))]
     ismg_start no_log = Some (S, L) \<and> map fst (submit_answers (il_answers L)) = [5, 6] \<and> length (il_frames L) = 1"
proof -
  have seq: "lamb_sequence 1 = (1, 2)" "lamb_sequence 2 = (2, 3)" by (simp_all add: lamb_sequence_def)
  have "\<exists>S L. ismg_run example_client [Iwork (example_iturn (submit_packet 5 8)), Iwork (example_iturn (submit_packet 6 9))]
     ismg_start no_log = Some (S, L) \<and> il_submits L = [5, 6] \<and> answered 0 (il_answers L) = 1"
    by (simp add: ismg_work_loop_def example_iturn_def submit_packet_def ismg_submit_def ismg_start_def no_log_def seq
        fill_def zeroed_def overwrite_def pack_byte_def lamb_check_format_def ismg_formats_def lamb_pack_assembly_def
        submit_sequence_def no_iout_def Let_def answered_def submit_answers_def)
  then obtain S L where run: "ismg_run example_client [Iwork (example_iturn (submit_packet 5 8)),
      Iwork (example_iturn (submit_packet 6 9))] ismg_start no_log = Some (S, L)"
    and l: "il_submits L = [5, 6]" "answered 0 (il_answers L) = 1" by blast
  from ismg_answers_each_submit [OF run] run l show ?thesis by simp
qed

subsection \<open>Sending until acknowledged\<close>

lemma resend_stop: "\<not> j_timedout j k \<Longrightarrow> ismg_resend j k S = Some (if j_error j k then ismg_count_err S else S, Suc k)"
  by (subst ismg_resend.simps) (simp add: Let_def)

lemma resend_go:
  "j_timedout j k \<Longrightarrow> ismg_resend j k S =
     ismg_resend j (Suc k) (ismg_count_timeo (if j_error j k then ismg_count_err S else S))"
  by (subst ismg_resend.simps) (simp add: Let_def)

text \<open>The state after attempts \<open>k\<close> to \<open>n - 1\<close> that timed out and attempt \<open>n\<close> that did not.\<close>

definition attempts :: "jturn \<Rightarrow> nat \<Rightarrow> nat \<Rightarrow> ismg \<Rightarrow> ismg" where
  "attempts j k n S =
     S\<lparr>ig_status := (ig_status S)\<lparr>iq_timeo := iq_timeo (ig_status S) + of_nat (n - k),
         iq_err := iq_err (ig_status S) + of_nat (length (filter (j_error j) [k..<Suc n]))\<rparr>\<rparr>"

lemma resend_runs:
  assumes "k \<le> n" and "\<And>i. k \<le> i \<Longrightarrow> i < n \<Longrightarrow> j_timedout j i" and "\<not> j_timedout j n"
  shows "ismg_resend j k S = Some (attempts j k n S, Suc n)"
  using assms
proof (induction "n - k" arbitrary: k S)
  case 0
  then have "k = n" by simp
  with 0 show ?case by (simp add: resend_stop attempts_def ismg_count_err_def)
next
  case (Suc d)
  then have lt: "k < n" by simp
  let ?S = "ismg_count_timeo (if j_error j k then ismg_count_err S else S)"
  have "ismg_resend j k S = ismg_resend j (Suc k) ?S" using Suc.prems(2) lt by (intro resend_go) simp
  also have "\<dots> = Some (attempts j (Suc k) n ?S, Suc n)"
    by (rule Suc.hyps(1)) (use Suc.hyps(2) Suc.prems lt in auto)
  also have "attempts j (Suc k) n ?S = attempts j k n S"
  proof -
    have up: "[k..<Suc n] = k # [Suc k..<Suc n]" using lt by (simp add: upt_conv_Cons)
    have nk: "n - k = Suc (n - Suc k)" using lt by simp
    show ?thesis
      by (simp only: attempts_def up nk)
        (simp add: ismg_count_timeo_def ismg_count_err_def add.commute add.left_commute)
  qed
  finally show ?case .
qed

lemma resend_returns:
  assumes "ismg_resend j k S = Some r"
  shows "\<exists>n. k \<le> n \<and> \<not> j_timedout j n"
proof (rule ismg_resend.raw_induct [where P = "\<lambda>j k S r. \<exists>n. k \<le> n \<and> \<not> j_timedout j n", OF _ assms])
  fix f :: "jturn \<Rightarrow> nat \<Rightarrow> ismg \<Rightarrow> (ismg \<times> nat) option" and j k S r
  assume ih: "\<And>j k S r. f j k S = Some r \<Longrightarrow> \<exists>n. k \<le> n \<and> \<not> j_timedout j n"
    and body: "(let S1 = if j_error j k then ismg_count_err S else S
      in if j_timedout j k then f j (Suc k) (ismg_count_timeo S1) else Some (S1, Suc k)) = Some r"
  show "\<exists>n. k \<le> n \<and> \<not> j_timedout j n"
  proof (cases "j_timedout j k")
    case True
    then have "\<exists>n. Suc k \<le> n \<and> \<not> j_timedout j n" using body ih by (simp add: Let_def)
    then show ?thesis using Suc_leD by blast
  qed blast
qed

text \<open>
  C22: A report pulled from the mo process is sent to the client again and again until the client
  acknowledges it: if the acknowledgement of attempt n is the first that comes in time, exactly
  n + 1 identical packets go out, each late one counted, and only then the next message is
  asked for; without an acknowledgement the loop never goes on.
\<close>

theorem ismg_sends_until_acknowledged:
  assumes "j_sent j" and "j_buf j = Some (htonl LAMB_REPORT @ body)" and "unpack_report (ie_up e) body = Some r"
  shows "ismg_deliver_loop e j S =
     (if \<exists>n. \<not> j_timedout j n
      then (let n = (LEAST n. \<not> j_timedout j n)
            in Some (ismg_count_rep (attempts j 0 n (ismg_confirm (j_sequence j) (rp_id r) S)),
                 replicate (Suc n) (Cmpp_report (j_sequence j) (rp_id r) (rp_spcode r) (stat_name (rp_status r))
                   (rp_submittime r) (rp_donetime r) (rp_phone r))))
      else None)"
proof -
  have run: "ismg_deliver_loop e j S = do {
      (S1, n) \<leftarrow> ismg_resend j 0 (ismg_confirm (j_sequence j) (rp_id r) S);
      Some (ismg_count_rep S1, replicate n (Cmpp_report (j_sequence j) (rp_id r) (rp_spcode r)
        (stat_name (rp_status r)) (rp_submittime r) (rp_donetime r) (rp_phone r))) }"
    using assms by (simp add: ismg_deliver_loop_def commands)
  show ?thesis
  proof (cases "\<exists>n. \<not> j_timedout j n")
    case True
    define n where "n = (LEAST n. \<not> j_timedout j n)"
    have stop: "\<not> j_timedout j n" unfolding n_def using LeastI_ex [OF True] .
    have late: "j_timedout j i" if "i < n" for i using not_less_Least [OF that [unfolded n_def]] by simp
    have "ismg_resend j 0 (ismg_confirm (j_sequence j) (rp_id r) S) =
        Some (attempts j 0 n (ismg_confirm (j_sequence j) (rp_id r) S), Suc n)"
      by (rule resend_runs [OF le0 late stop])
    then show ?thesis using True unfolding run n_def [symmetric] by (simp add: Let_def)
  next
    case False
    have "ismg_resend j 0 (ismg_confirm (j_sequence j) (rp_id r) S) = None"
    proof (rule ccontr)
      assume "ismg_resend j 0 (ismg_confirm (j_sequence j) (rp_id r) S) \<noteq> None"
      then obtain x where "ismg_resend j 0 (ismg_confirm (j_sequence j) (rp_id r) S) = Some x" by blast
      from resend_returns [OF this] False show False by blast
    qed
    then show ?thesis using False unfolding run by simp
  qed
qed

definition example_jturn :: "bytes \<Rightarrow> jturn" where
  "example_jturn f = \<lparr>j_sent = True, j_buf = Some f, j_sequence = 8, j_error = (\<lambda>k. False), j_timedout = (\<lambda>k. k < 1)\<rparr>"

lemma ismg_sends_until_acknowledged_witness:
  "\<exists>S' p. ismg_deliver_loop example_client (example_jturn (htonl LAMB_REPORT @ ''138'')) ismg_start = Some (S', [p, p])"
proof -
  let ?j = "example_jturn (htonl LAMB_REPORT @ ''138'')"
  have "(LEAST n. \<not> j_timedout ?j n) = 1"
    by (rule Least_equality) (simp_all add: example_jturn_def)
  moreover have "\<exists>n. \<not> j_timedout ?j n" by (rule exI [of _ 1]) (simp add: example_jturn_def)
  moreover have "\<exists>r. unpack_report (ie_up example_client) ''138'' = Some r"
    by (simp add: example_client_def example_up_def)
  ultimately show ?thesis
    using ismg_sends_until_acknowledged [of ?j "''138''" example_client _ ismg_start]
    by (auto simp: example_jturn_def Let_def numeral_2_eq_2)
qed

subsection \<open>Who is admitted\<close>

text \<open>The reply redis gives to what the online thread stored at time \<open>t\<close>.\<close>

definition online_since :: "redis \<Rightarrow> int \<Rightarrow> int \<Rightarrow> bool" where
  "online_since rds i t \<longleftrightarrow>
     rd_reply rds (''HGET client.'' @ show_int i @ '' online'') = Some (RString (show_int t))"

lemma is_login_recent:
  assumes "online_since rds i t" and "0 \<le> t"
  shows "lamb_is_login rds now i \<longleftrightarrow> now - t < 7"
  using assms by (simp add: online_since_def lamb_is_login_def show_int_def)

text \<open>
  A client gets a process of its own only when its version is supported, its account is
  known, the authentication with the stored password succeeds, its data could be read, and it
  was not online within the last seven seconds; it is then told 0, and otherwise a code that
  says why not.
\<close>

theorem admits_login:
  assumes "ismg_connect rds version auth now forked p = Some l" and "lg_child l = Some a"
  shows "lg_answer l = Some 0 \<and> forked \<and> pack_byte p cmpp_connect_version = version \<and>
     (\<exists>username. pack_string p cmpp_connect_source_addr 8 6 = Some username \<and>
        lamb_cache_has rds (Some \<lparr>ca_handle = True\<rparr>) (snprintf_z 32 (''account.'' @ username)) \<and>
        auth p username (cstr (snd (lamb_cache_hget rds (Some \<lparr>ca_handle = True\<rparr>)
          (Some (snprintf_z 32 (''account.'' @ username))) ''password'' (zeroed 64) 64))) \<and>
        lamb_account_get rds username no_account_bufs = (0, a)) \<and>
     (\<forall>t. 0 \<le> t \<and> online_since rds (ab_id a) t \<longrightarrow> 7 \<le> now - t)"
proof -
  have v: "pack_byte p cmpp_connect_version = version"
    using assms by (cases "pack_byte p cmpp_connect_version = version") (auto simp: ismg_connect_def)
  obtain u where u: "pack_string p cmpp_connect_source_addr 8 6 = Some u"
    using assms v by (cases "pack_string p cmpp_connect_source_addr 8 6") (simp_all add: ismg_connect_def)
  let ?key = "snprintf_z 32 (''account.'' @ u)"
  let ?pw = "cstr (snd (lamb_cache_hget rds (Some \<lparr>ca_handle = True\<rparr>) (Some ?key) ''password'' (zeroed 64) 64))"
  have has: "lamb_cache_has rds (Some \<lparr>ca_handle = True\<rparr>) ?key"
    using assms v u by (cases "lamb_cache_has rds (Some \<lparr>ca_handle = True\<rparr>) ?key") (auto simp: ismg_connect_def)
  have ok: "auth p u ?pw" using assms v u has by (cases "auth p u ?pw") (auto simp: ismg_connect_def)
  obtain err b where g: "lamb_account_get rds u no_account_bufs = (err, b)" by fastforce
  have err: "err = 0" using assms v u has ok g by (cases "err = 0") (auto simp: ismg_connect_def)
  have free: "\<not> lamb_is_login rds now (ab_id b)"
    using assms v u has ok g err by (cases "lamb_is_login rds now (ab_id b)") (auto simp: ismg_connect_def)
  have "forked" using assms v u has ok g err free by (cases forked) (auto simp: ismg_connect_def)
  then have "l = \<lparr>lg_answer = Some 0, lg_closed = False, lg_child = Some b\<rparr>"
    using assms v u has ok g err free by (simp add: ismg_connect_def)
  moreover have "7 \<le> now - t" if "0 \<le> t" "online_since rds (ab_id b) t" for t
    using is_login_recent [OF that(2,1), of now] free by simp
  ultimately show ?thesis using assms(2) v u has ok g err \<open>forked\<close> by auto
qed

definition example_accounts :: redis where
  "example_accounts = \<lparr>rd_connect = (\<lambda>h p. True), rd_reply = (\<lambda>c.
     if take 6 c = ''EXISTS'' then Some (RInteger 1)
     else if take 5 c = ''HMGET'' then Some (RArray [''2'', ''901234'', ''pw'', ''106'', ''3'', [], ''10'', ''0''])
     else if take 12 c = ''HGET account'' then Some (RString ''pw'') else Some RNil)\<rparr>"

definition connect_packet :: cmpp_pack_t where
  "connect_packet = \<lparr>pk_commandId = CMPP_CONNECT, pk_sequenceId = 1, pk_integer = (\<lambda>f n. 32),
     pk_string = (\<lambda>f n l. ''901234'')\<rparr>"

lemma example_account_get: "\<exists>b. lamb_account_get example_accounts u no_account_bufs = (0, b)"
  by (simp add: lamb_account_get_def example_accounts_def)

lemma admits_login_witness:
  "\<exists>l a. ismg_connect example_accounts 32 (\<lambda>p u w. w = ''pw'') 1000 True connect_packet = Some l \<and>
     lg_child l = Some a \<and> lg_answer l = Some 0 \<and>
     (\<forall>t. 0 \<le> t \<and> online_since example_accounts (ab_id a) t \<longrightarrow> 7 \<le> 1000 - t)"
proof -
  have user: "pack_string connect_packet cmpp_connect_source_addr 8 6 = Some ''901234''"
    by (simp add: pack_string_def connect_packet_def memcpy_z_def zeroed_def cstr_def)
  obtain b where b: "lamb_account_get example_accounts ''901234'' no_account_bufs = (0, b)"
    using example_account_get by blast
  have has: "lamb_cache_has example_accounts (Some \<lparr>ca_handle = True\<rparr>) key" for key
    by (simp add: lamb_cache_has_def example_accounts_def)
  have off: "\<not> lamb_is_login example_accounts 1000 i" for i
    by (simp add: lamb_is_login_def example_accounts_def)
  have pw: "cstr (snd (lamb_cache_hget example_accounts (Some \<lparr>ca_handle = True\<rparr>)
      (Some (''account.901234'')) ''password'' (zeroed 64) 64)) = ''pw''"
    by (simp add: lamb_cache_hget_def example_accounts_def fetch_into_def overwrite_def zeroed_def cstr_def)
  have "ismg_connect example_accounts 32 (\<lambda>p u w. w = ''pw'') 1000 True connect_packet =
      Some \<lparr>lg_answer = Some 0, lg_closed = False, lg_child = Some b\<rparr>"
    using user b has off pw
    by (simp add: ismg_connect_def pack_byte_def snprintf_z_def) (simp add: connect_packet_def)
  from this admits_login [OF this] show ?thesis by auto
qed

subsection \<open>The loops keep to their buffers\<close>

text \<open>The buffers of the work loop, of the sizes the code declares.\<close>

definition ismg_buffers :: "ismg \<Rightarrow> bool" where
  "ismg_buffers I \<longleftrightarrow> length (ig_phone I) = 21 \<and> length (ig_spcode I) = 21 \<and> length (ig_content I) = 160"

text \<open>
  What the loops rely on: \<open>cmpp_pack_get_string\<close> writes no more than the size it is given, frames
  get their memory, and a packet to the client is acknowledged in the end.
\<close>

definition ismg_ev_ok :: "ismg_ev \<Rightarrow> bool" where
  "ismg_ev_ok ev = (case ev of
     Iwork t \<Rightarrow> i_frame t \<and> (case i_recv t of Inl err \<Rightarrow> True | Inr p \<Rightarrow> \<forall>f l. length (pk_string p f 21 l) \<le> 21 \<and> length (pk_string p f 160 l) \<le> 160)
   | Ideliver j \<Rightarrow> \<exists>k. \<not> j_timedout j k)"

lemma ismg_counts_buffers [simp]:
  "ismg_buffers (ismg_count_err S) = ismg_buffers S" "ismg_buffers (ismg_count_timeo S) = ismg_buffers S"
  "ismg_buffers (ismg_count_rep S) = ismg_buffers S" "ismg_buffers (ismg_confirm q i S) = ismg_buffers S"
  by (simp_all add: ismg_buffers_def ismg_count_err_def ismg_count_timeo_def ismg_count_rep_def ismg_confirm_def)

lemma length_fill: "length src \<le> length buf \<Longrightarrow> \<exists>b. fill buf src = Some b \<and> length b = length buf"
  by (simp add: fill_def overwrite_def)

lemma ismg_submit_typed:
  assumes S: "ismg_buffers S" and p: "\<forall>f l. length (pk_string p f 21 l) \<le> 21 \<and> length (pk_string p f 160 l) \<le> 160" and t: "i_frame t"
  shows "\<exists>S' i r out. ismg_submit e t p S = Some (S', i, r, out) \<and> ismg_buffers S'"
proof -
  obtain phone where phone: "fill (ig_phone S) (pk_string p cmpp_submit_dest_terminal_id 21 20) = Some phone" "length phone = 21"
    using length_fill p S by (metis ismg_buffers_def)
  obtain code where code: "fill (ig_spcode S) (pk_string p cmpp_submit_src_id 21 20) = Some code" "length code = 21"
    using length_fill p S by (metis ismg_buffers_def)
  obtain content where content: "fill (ig_content S) (pk_string p cmpp_submit_msg_content 160 (nat (pack_byte p cmpp_submit_msg_length))) =
      Some content" "length content = 160"
    using length_fill p S by (metis ismg_buffers_def)
  obtain v seq where "lamb_sequence (ig_sequence S) = (v, seq)" by fastforce
  then show ?thesis using S phone code content t
    by (simp add: ismg_submit_def ismg_buffers_def lamb_pack_assembly_def Let_def)
qed

lemma ismg_resend_typed:
  assumes "\<not> j_timedout j (k + d)" and "ismg_buffers S"
  shows "\<exists>S' n. ismg_resend j k S = Some (S', n) \<and> ismg_buffers S'"
  using assms
proof (induction d arbitrary: k S)
  case 0
  then show ?case by (simp add: resend_stop)
next
  case (Suc d)
  then show ?case
    by (cases "j_timedout j k") (simp_all add: resend_go resend_stop)
qed

lemma ismg_deliver_typed:
  assumes S: "ismg_buffers S" and j: "\<not> j_timedout j k"
  shows "\<exists>S' ps. ismg_deliver_loop e j S = Some (S', ps) \<and> ismg_buffers S'"
proof -
  have "\<exists>S' n. ismg_resend j 0 (ismg_confirm q i S) = Some (S', n) \<and> ismg_buffers S'" for q i
    using ismg_resend_typed [of j 0 k] j S by simp
  then obtain f g where "ismg_resend j 0 (ismg_confirm q i S) = Some (f q i, g q i)" "ismg_buffers (f q i)" for q i
    by metis
  then show ?thesis using S
    by (auto simp: ismg_deliver_loop_def split: frame.split option.split)
qed

text \<open>
  C21: The process of a client keeps to its buffers and never gets stuck: from the start, whatever
  packets and frames come in any order, every turn is defined (no write past a buffer, no
  missing frame, no endless resending) as long as the library writes no more than it is
  given room for, memory suffices and packets are acknowledged in the end; and the buffers keep
  their sizes.
\<close>

theorem ismg_keeps_buffers:
  assumes "list_all ismg_ev_ok evs"
  shows "\<exists>S L. ismg_run e evs ismg_start no_log = Some (S, L) \<and> ismg_buffers S"
proof -
  have "\<exists>S' L'. ismg_run e evs S L = Some (S', L') \<and> ismg_buffers S'" if "ismg_buffers S" for S L
    using assms that
  proof (induction evs arbitrary: S L)
    case Nil
    then show ?case by simp
  next
    case (Cons ev evs)
    show ?case
    proof (cases ev)
      case (Iwork t)
      have "\<exists>S' out. ismg_work_loop e t S = Some (S', out) \<and> ismg_buffers S'"
      proof (cases "i_recv t")
        case (Inl err)
        then show ?thesis using Cons.prems(2) by (simp add: ismg_work_loop_def)
      next
        case (Inr p)
        then have "\<exists>S' i r out. ismg_submit e t p S = Some (S', i, r, out) \<and> ismg_buffers S'"
          using ismg_submit_typed [OF Cons.prems(2), of p t e] Cons.prems(1) Iwork by (simp add: ismg_ev_ok_def)
        moreover have "ismg_buffers (S\<lparr>ig_status := x\<rparr>)" for x using Cons.prems(2) by (simp add: ismg_buffers_def)
        ultimately show ?thesis using Inr Cons.prems(2) by (auto simp: ismg_work_loop_def split: cmpp_command.split)
      qed
      then show ?thesis using Cons Iwork by (fastforce simp: Let_def)
    next
      case (Ideliver j)
      then obtain k where "\<not> j_timedout j k" using Cons.prems(1) by (auto simp: ismg_ev_ok_def)
      from ismg_deliver_typed [OF Cons.prems(2) this, of e] show ?thesis using Cons Ideliver by fastforce
    qed
  qed
  moreover have "ismg_buffers ismg_start" by (simp add: ismg_buffers_def ismg_start_def zeroed_def)
  ultimately show ?thesis by blast
qed

theorem ismg_keeps_buffers_witness:
  "\<exists>S L. ismg_run example_client [Iwork (example_iturn (submit_packet 5 8)), Iwork (example_iturn (submit_packet 6 9))]
     ismg_start no_log = Some (S, L) \<and> ismg_buffers S"
  by (rule ismg_keeps_buffers) (simp add: ismg_ev_ok_def example_iturn_def submit_packet_def)

end
