(* ===== verification/ServerRun.thy ===== *)
theory ServerRun
  imports ServerLoops
begin

text \<open>
  The threads of the server together: runs of work, deliver, store and billing turns in any
  order over the shared lists, and what such a run does with money and messages; the start;
  the way from a message that says stop to the refusal of its sender.
\<close>

subsection \<open>Interleaved turns\<close>

datatype sevent =
    Work_turn wturn
  | Deliver_turn dturn
  | Billing_turn redis
  | Store_turn bool bool

text \<open>
  What a turn shows: its end, the report or phone message pulled, the command sent to redis with
  the error returned, what was taken to be written.
\<close>

datatype sout =
    Worked wout
  | Got_report Report
  | Got_deliver Deliver
  | Billed string int
  | Wrote stored "string list"
  | Nothing

record store_env =
  sx_conv :: iconv
  sx_exec :: "string \<Rightarrow> bool"

text \<open>The frame a deliver turn handles, if it is not asleep.\<close>

definition deliver_seen :: "server_env \<Rightarrow> dturn \<Rightarrow> server \<Rightarrow> sout" where
  "deliver_seen e d S =
     (if sv_sleeping S \<or> \<not> d_sent d then Nothing
      else case classify (d_buf d) of
        Short \<Rightarrow> Nothing
      | Frame c body \<Rightarrow>
          (if c = LAMB_REPORT then (case unpack_report (se_up e) body of None \<Rightarrow> Nothing | Some p \<Rightarrow> Got_report p)
           else if c = LAMB_DELIVER then
             (case unpack_deliver (se_up e) body of None \<Rightarrow> Nothing | Some p \<Rightarrow> Got_deliver p)
           else Nothing))"

definition server_event :: "server_env \<Rightarrow> store_env \<Rightarrow> Report \<Rightarrow> sevent \<Rightarrow> server \<Rightarrow> (server \<times> sout) option" where
  "server_event e x resp ev S =
     (case ev of
        Work_turn w \<Rightarrow> do { (S1, out) \<leftarrow> lamb_work_loop e resp w S; Some (S1, Worked out) }
      | Deliver_turn d \<Rightarrow> do { (S1, out) \<leftarrow> lamb_deliver_loop e d S; Some (S1, deliver_seen e d S) }
      | Billing_turn rds \<Rightarrow>
          (case lamb_billing_loop rds S of
             (S1, None) \<Rightarrow> Some (S1, Nothing)
           | (S1, Some (cmd, err)) \<Rightarrow> Some (S1, Billed cmd err))
      | Store_turn dup node \<Rightarrow>
          (case sv_storage S of
             [] \<Rightarrow> Some (S, Nothing)
           | m # rest \<Rightarrow> do {
               (S1, sql) \<leftarrow> lamb_store_loop (sx_conv x) (sx_exec x) dup node S;
               Some (S1, Wrote m sql) }))"

primrec server_run ::
  "server_env \<Rightarrow> store_env \<Rightarrow> Report \<Rightarrow> sevent list \<Rightarrow> server \<Rightarrow> (server \<times> sout list) option" where
  "server_run e x resp [] S = Some (S, [])"
| "server_run e x resp (ev # evs) S = do {
     (S1, out) \<leftarrow> server_event e x resp ev S;
     (S2, outs) \<leftarrow> server_run e x resp evs S1;
     Some (S2, out # outs) }"

definition sevent_ok :: "sevent \<Rightarrow> bool" where
  "sevent_ok ev = (case ev of Work_turn w \<Rightarrow> w_ok w | Deliver_turn d \<Rightarrow> d_ok d | _ \<Rightarrow> True)"

subsection \<open>The books\<close>

definition charges :: "int \<Rightarrow> sout \<Rightarrow> lamb_bill_t list" where
  "charges company out =
     (case out of
        Worked o1 \<Rightarrow> map (\<lambda>m. \<lparr>bl_id = company, bl_money = -1\<rparr>) (accepts o1)
      | Got_report p \<Rightarrow> (if rp_status p \<noteq> 1 then [\<lparr>bl_id = company, bl_money = 1\<rparr>] else [])
      | _ \<Rightarrow> [])"

definition billed :: "sout \<Rightarrow> (string \<times> int) list" where
  "billed out = (case out of Billed cmd err \<Rightarrow> [(cmd, err)] | _ \<Rightarrow> [])"

text \<open>What redis has to be told for a bill; whether a turn reports redis' answer to its command.\<close>

definition bill_cmd :: "lamb_bill_t \<Rightarrow> string" where
  "bill_cmd b = ''HINCRBY company.'' @ show_int (bl_id b) @ '' money '' @ show_int (bl_money b)"

definition answered_by :: "sevent \<Rightarrow> sout \<Rightarrow> bool" where
  "answered_by ev out = (case out of
     Billed cmd err \<Rightarrow> (case ev of Billing_turn rds \<Rightarrow> err = (if rd_reply rds cmd = None then -1 else 0) | _ \<Rightarrow> False)
   | _ \<Rightarrow> True)"

text \<open>What a turn adds to the storage list of the state it starts from, and what it writes.\<close>

definition keeps :: "server \<Rightarrow> sout \<Rightarrow> stored list" where
  "keeps S out =
     (case out of
        Worked o1 \<Rightarrow> map (stored_of S) (accepts o1)
      | Got_report p \<Rightarrow> [St_report (report_store p)]
      | Got_deliver p \<Rightarrow> [St_deliver (the (deliver_store (deliver_copy S p)))]
      | _ \<Rightarrow> [])"

definition written :: "sout \<Rightarrow> stored list" where
  "written out = (case out of Wrote m sql \<Rightarrow> [m] | _ \<Rightarrow> [])"

definition same_account :: "server \<Rightarrow> server \<Rightarrow> bool" where
  "same_account S S' \<longleftrightarrow> sv_account S' = sv_account S \<and> sv_company S' = sv_company S"

lemmas book_defs = charges_def billed_def keeps_def written_def same_account_def

lemma same_account_views:
  assumes "same_account S S'"
  shows "keeps S' = keeps S" and "co_id (sv_company S') = co_id (sv_company S)"
  using assms by (auto simp: same_account_def keeps_def stored_of_def storage_submit_def deliver_copy_def
      fun_eq_iff split: sout.split)

definition turn_books :: "server \<Rightarrow> server \<Rightarrow> sout \<Rightarrow> bool" where
  "turn_books S S' out \<longleftrightarrow>
     (\<exists>sent. sv_billing S @ charges (co_id (sv_company S)) out = sent @ sv_billing S' \<and>
        map bill_cmd sent = map fst (billed out)) \<and>
     sv_storage S @ keeps S out = written out @ sv_storage S' \<and> same_account S S'"

lemma deliver_loop_books:
  assumes "lamb_deliver_loop e d S = Some (S', out)" and "d_ok d"
  shows "turn_books S S' (deliver_seen e d S)"
proof (cases "classify (d_buf d)")
  case Short
  with assms(1) show ?thesis
    by (auto simp: lamb_deliver_loop_def deliver_seen_def turn_books_def book_defs split: if_splits)
next
  case (Frame c body)
  have ok: "d_bill d" "d_bnode d" "d_calloc d" "d_node d" using assms(2) by (simp_all add: d_ok_def)
  consider "c = LAMB_REPORT" | "c = LAMB_DELIVER" | "c \<noteq> LAMB_REPORT" "c \<noteq> LAMB_DELIVER" by blast
  then show ?thesis
  proof cases
    case 1
    then show ?thesis using assms(1) Frame ok
      by (cases "unpack_report (se_up e) body")
        (auto simp: lamb_deliver_loop_def deliver_seen_def turn_books_def book_defs deliver_report_def Let_def
          split: if_splits)
  next
    case 2
    show ?thesis
    proof (cases "unpack_deliver (se_up e) body")
      case None
      then show ?thesis using assms(1) Frame 2
        by (auto simp: lamb_deliver_loop_def deliver_seen_def turn_books_def book_defs split: if_splits)
    next
      case (Some p)
      then show ?thesis using assms(1) Frame 2 ok
        by (auto simp: lamb_deliver_loop_def deliver_seen_def turn_books_def book_defs deliver_phone_def
            deliver_copy_def Let_def bind_eq_Some_conv split: if_splits)
    qed
  next
    case 3
    then show ?thesis using assms(1) Frame
      by (auto simp: lamb_deliver_loop_def deliver_seen_def turn_books_def book_defs split: if_splits)
  qed
qed

lemma store_unsubscribe_frame:
  "store_unsubscribe dup node S m = Some S' \<Longrightarrow>
     sv_billing S' = sv_billing S \<and> sv_storage S' = sv_storage S \<and> same_account S S'"
  by (auto simp: store_unsubscribe_def same_account_def split: if_splits)

lemma store_deliver_frame:
  assumes "store_deliver conv exec dup node S m = Some (S', sql)"
  shows "sv_billing S' = sv_billing S \<and> sv_storage S' = sv_storage S \<and> same_account S S'"
proof -
  obtain c where c: "store_content conv m = Some c" using assms by (auto simp: store_deliver_def bind_eq_Some_conv)
  show ?thesis
  proof (cases c)
    case None
    then show ?thesis using assms c by (simp add: store_deliver_def same_account_def)
  next
    case (Some m1)
    then have "store_unsubscribe dup node S m1 = Some S'"
      using assms c by (auto simp: store_deliver_def bind_eq_Some_conv)
    then show ?thesis by (rule store_unsubscribe_frame)
  qed
qed

lemma store_loop_books:
  assumes "lamb_store_loop conv exec dup node S = Some (S', sql)" and "sv_storage S = m # rest"
  shows "turn_books S S' (Wrote m sql)"
proof (cases m)
  case (St_submit q)
  then show ?thesis using assms by (auto simp: lamb_store_loop_def turn_books_def book_defs bind_eq_Some_conv)
next
  case (St_report q)
  then show ?thesis using assms by (auto simp: lamb_store_loop_def turn_books_def book_defs)
next
  case (St_deliver q)
  then have "store_deliver conv exec dup node (S\<lparr>sv_storage := rest\<rparr>) q = Some (S', sql)"
    using assms by (simp add: lamb_store_loop_def)
  from store_deliver_frame [OF this] show ?thesis using assms(2)
    by (simp add: turn_books_def book_defs)
qed

lemma server_event_books:
  assumes "server_event e x resp ev S = Some (S', out)" and "sevent_ok ev"
  shows "turn_books S S' out"
proof (cases ev)
  case (Work_turn w)
  then obtain o1 where o1: "lamb_work_loop e resp w S = Some (S', o1)" "out = Worked o1"
    using assms(1) by (auto simp: server_event_def bind_eq_Some_conv)
  then have "turn_effect e resp S S' o1"
    using work_loop_effect assms(2) Work_turn by (auto simp: sevent_ok_def)
  then show ?thesis using o1(2)
    by (auto simp: turn_effect_def turn_books_def book_defs bill_of_def)
next
  case (Deliver_turn d)
  then obtain fs where "lamb_deliver_loop e d S = Some (S', fs)" "out = deliver_seen e d S"
    using assms(1) by (auto simp: server_event_def bind_eq_Some_conv)
  then show ?thesis using deliver_loop_books assms(2) Deliver_turn by (auto simp: sevent_ok_def)
next
  case (Billing_turn rds)
  then show ?thesis using assms(1)
    by (auto simp: server_event_def lamb_billing_loop_def lamb_company_billing_def turn_books_def book_defs bill_cmd_def
        Let_def split: list.splits)
next
  case (Store_turn dup node)
  then show ?thesis using assms(1) store_loop_books
    by (cases "sv_storage S") (auto simp: server_event_def turn_books_def book_defs bind_eq_Some_conv)
qed

lemma server_run_books:
  assumes "server_run e x resp evs S = Some (S', outs)" and "list_all sevent_ok evs"
  shows "(\<exists>sent. sv_billing S @ concat (map (charges (co_id (sv_company S))) outs) = sent @ sv_billing S' \<and>
       map bill_cmd sent = map fst (concat (map billed outs))) \<and>
     sv_storage S @ concat (map (keeps S) outs) = concat (map written outs) @ sv_storage S'"
  using assms
proof (induction evs arbitrary: S outs)
  case Nil
  then show ?case by simp
next
  case (Cons ev evs)
  then obtain S1 out outs1 where t: "server_event e x resp ev S = Some (S1, out)"
    and r: "server_run e x resp evs S1 = Some (S', outs1)" and outs: "outs = out # outs1"
    by (auto simp: bind_eq_Some_conv)
  have books: "turn_books S S1 out" using server_event_books [OF t] Cons.prems(2) by simp
  then have same: "keeps S1 = keeps S" "co_id (sv_company S1) = co_id (sv_company S)"
    using same_account_views by (simp_all add: turn_books_def)
  obtain s1 where s1: "sv_billing S @ charges (co_id (sv_company S)) out = s1 @ sv_billing S1" "map bill_cmd s1 = map fst (billed out)"
    using books by (auto simp: turn_books_def)
  obtain s2 where s2: "sv_billing S1 @ concat (map (charges (co_id (sv_company S))) outs1) = s2 @ sv_billing S'"
      "map bill_cmd s2 = map fst (concat (map billed outs1))"
    and ih: "sv_storage S1 @ concat (map (keeps S) outs1) = concat (map written outs1) @ sv_storage S'"
    using Cons.IH [OF r] Cons.prems(2) same by auto
  have cat: "a @ b @ c = b' @ d' @ s'" if "a @ b = b' @ s1" "s1 @ c = d' @ s'" for a b c b' d' s1 s' :: "'a list"
    using that by (metis append_assoc)
  show ?case
  proof
    show "\<exists>sent. sv_billing S @ concat (map (charges (co_id (sv_company S))) outs) = sent @ sv_billing S' \<and>
        map bill_cmd sent = map fst (concat (map billed outs))"
      using s1 s2 outs cat [OF s1(1) s2(1)] by (intro exI [of _ "s1 @ s2"]) simp
    show "sv_storage S @ concat (map (keeps S) outs) = concat (map written outs) @ sv_storage S'"
      using books ih outs by (auto simp: turn_books_def intro: cat)
  qed
qed

lemma server_event_answered: "server_event e x resp ev S = Some (S', out) \<Longrightarrow> answered_by ev out"
  by (cases ev)
    (auto simp: server_event_def answered_by_def deliver_seen_def lamb_billing_loop_def lamb_company_billing_def Let_def
      bind_eq_Some_conv split: sout.splits list.splits if_splits frame.splits option.splits)

lemma server_run_answered: "server_run e x resp evs S = Some (S', outs) \<Longrightarrow> list_all2 answered_by evs outs"
  by (induction evs arbitrary: S outs) (auto simp: bind_eq_Some_conv dest: server_event_answered)

text \<open>
  C7: No charge is doubled or invented, and none is lost but by redis. In any interleaving of work,
  deliver, billing and store turns with enough memory, the bills pending at the start, followed by
  one charge of 1 per accepted submit and one refund of 1 per report whose status is not 1, in the
  order of the turns, are the bills for which commands were sent, one command each with the
  company and the amount of the bill, followed by those still pending. A command that redis does
  not answer gives an error; its bill is among those sent and is not pending any more, so that the
  charge or refund is never made.
\<close>

theorem server_bills_in_order:
  assumes "server_run e x resp evs S = Some (S', outs)" and "list_all sevent_ok evs"
  shows "(\<exists>sent. sv_billing S @ concat (map (charges (co_id (sv_company S))) outs) = sent @ sv_billing S' \<and>
       map bill_cmd sent = map fst (concat (map billed outs))) \<and>
     list_all2 answered_by evs outs"
  using server_run_books [OF assms] server_run_answered [OF assms(1)] by blast

text \<open>
  Nothing accepted is lost on its way to the database. In any interleaving of the turns
  with enough memory, the storage list at the start, followed by every accepted submit, every
  report and every message from a phone in the order they came, is exactly what the storage
  thread has taken to write followed by what still waits.
\<close>

theorem server_storage_in_order:
  assumes "server_run e x resp evs S = Some (S', outs)" and "list_all sevent_ok evs"
  shows "sv_storage S @ concat (map (keeps S) outs) = concat (map written outs) @ sv_storage S'"
  using server_run_books [OF assms] by blast

subsection \<open>An example run\<close>

definition example_dturn :: "bytes \<Rightarrow> dturn" where
  "example_dturn b = \<lparr>d_sent = True, d_buf = Some b, d_bill = True, d_bnode = True, d_pk = True, d_frame = True,
     d_calloc = True, d_node = True\<rparr>"

definition example_redis :: redis where
  "example_redis = \<lparr>rd_connect = (\<lambda>h p. True), rd_reply = (\<lambda>c. Some (RStatus ''OK''))\<rparr>"

definition dead_redis :: redis where
  "dead_redis = \<lparr>rd_connect = (\<lambda>h p. False), rd_reply = (\<lambda>c. None)\<rparr>"

definition example_events :: "sevent list" where
  "example_events = [Work_turn (example_wturn ''hello'' [LAMB_BUSY, LAMB_OK]),
     Deliver_turn (example_dturn (htonl LAMB_REPORT @ ''r'')), Billing_turn example_redis, Billing_turn dead_redis]"

definition example_store_env :: store_env where
  "example_store_env = \<lparr>sx_conv = (\<lambda>s f t n. Some s), sx_exec = (\<lambda>q. True)\<rparr>"

lemma example_events_ok: "list_all sevent_ok example_events"
  by (simp add: example_events_def sevent_ok_def example_w_ok d_ok_def example_dturn_def)

lemma example_deliver:
  "\<exists>S' out. lamb_deliver_loop example_server_env (example_dturn (htonl LAMB_REPORT @ ''r'')) S = Some (S', out)"
  by (auto simp: lamb_deliver_loop_def example_dturn_def example_server_env_def example_upcodec_def deliver_report_def
      Let_def)

text \<open>A submit is accepted, a report of failure comes; the charge is made, the refund fails.\<close>

lemma example_server_run:
  "\<exists>S' outs. server_run example_server_env example_store_env example_report example_events example_server = Some (S', outs) \<and>
     sv_billing S' = [] \<and> concat (map (charges 3) outs) = [\<lparr>bl_id = 3, bl_money = -1\<rparr>, \<lparr>bl_id = 3, bl_money = 1\<rparr>] \<and>
     map snd (concat (map billed outs)) = [0, -1]"
proof -
  let ?e = example_server_env and ?x = example_store_env and ?d = "example_dturn (htonl LAMB_REPORT @ ''r'')"
  obtain S1 o1 where w: "lamb_work_loop ?e example_report (example_wturn ''hello'' [LAMB_BUSY, LAMB_OK]) example_server = Some (S1, o1)"
    and o1: "accepts o1 = [example_submit ''hello'']"
    using example_work by (auto simp: accepts_def)
  have "turn_effect ?e example_report example_server S1 o1" by (rule work_loop_effect [OF w example_w_ok])
  then have S1: "sv_billing S1 = [\<lparr>bl_id = 3, bl_money = -1\<rparr>]" "sv_company S1 = sv_company example_server" "\<not> sv_sleeping S1"
    using o1 work_loop_rules [OF w] by (simp_all add: turn_effect_def bill_of_def example_server_def same_rules_def)
  obtain S2 o2 where d: "lamb_deliver_loop ?e ?d S1 = Some (S2, o2)" using example_deliver by blast
  have seen: "deliver_seen ?e ?d S1 = Got_report (example_report\<lparr>rp_spcode := ''r''\<rparr>)"
    using S1(3) by (simp add: deliver_seen_def example_dturn_def example_server_env_def example_upcodec_def)
  have "turn_books S1 S2 (deliver_seen ?e ?d S1)"
    by (rule deliver_loop_books [OF d]) (simp add: d_ok_def example_dturn_def)
  then have S2: "sv_billing S2 = [\<lparr>bl_id = 3, bl_money = -1\<rparr>, \<lparr>bl_id = 3, bl_money = 1\<rparr>]"
    using S1(1,2) unfolding seen
    by (auto simp: turn_books_def charges_def billed_def example_report_def example_server_def)
  have ev: "server_event ?e ?x example_report (Work_turn (example_wturn ''hello'' [LAMB_BUSY, LAMB_OK])) example_server = Some (S1, Worked o1)"
    "server_event ?e ?x example_report (Deliver_turn ?d) S1 = Some (S2, Got_report (example_report\<lparr>rp_spcode := ''r''\<rparr>))"
    using w d seen by (simp_all add: server_event_def)
  have bill: "server_event ?e ?x example_report (Billing_turn example_redis) S2 =
      Some (S2\<lparr>sv_billing := [\<lparr>bl_id = 3, bl_money = 1\<rparr>]\<rparr>, Billed (bill_cmd \<lparr>bl_id = 3, bl_money = -1\<rparr>) 0)"
    "server_event ?e ?x example_report (Billing_turn dead_redis) (S2\<lparr>sv_billing := [\<lparr>bl_id = 3, bl_money = 1\<rparr>]\<rparr>) =
      Some (S2\<lparr>sv_billing := []\<rparr>, Billed (bill_cmd \<lparr>bl_id = 3, bl_money = 1\<rparr>) (-1))"
    using S2 by (simp_all add: server_event_def lamb_billing_loop_def lamb_company_billing_def bill_cmd_def example_redis_def
        dead_redis_def Let_def)
  show ?thesis using ev bill o1 by (simp add: example_events_def charges_def billed_def example_report_def)
qed

lemma server_bills_in_order_witness:
  "\<exists>S' outs. server_run example_server_env example_store_env example_report example_events example_server = Some (S', outs) \<and>
     sv_billing S' = [] \<and> map fst (concat (map billed outs)) = [''HINCRBY company.3 money -1'', ''HINCRBY company.3 money 1''] \<and>
     map snd (concat (map billed outs)) = [0, -1] \<and> list_all2 answered_by example_events outs"
proof -
  obtain S' outs where r:
    "server_run example_server_env example_store_env example_report example_events example_server = Some (S', outs)"
    "sv_billing S' = []" "concat (map (charges 3) outs) = [\<lparr>bl_id = 3, bl_money = -1\<rparr>, \<lparr>bl_id = 3, bl_money = 1\<rparr>]"
    "map snd (concat (map billed outs)) = [0, -1]"
    using example_server_run by (elim exE conjE) (rule that)
  have cmds: "bill_cmd \<lparr>bl_id = 3, bl_money = -1\<rparr> = ''HINCRBY company.3 money -1''"
    "bill_cmd \<lparr>bl_id = 3, bl_money = 1\<rparr> = ''HINCRBY company.3 money 1''"
    by (simp_all add: bill_cmd_def show_int_def show_nat.simps digit_char_def)
  from server_bills_in_order [OF r(1) example_events_ok] r cmds show ?thesis
    by (auto simp: example_server_def)
qed

lemma server_storage_in_order_witness:
  "\<exists>S' outs. server_run example_server_env example_store_env example_report example_events example_server = Some (S', outs) \<and>
     concat (map (keeps example_server) outs) = concat (map written outs) @ sv_storage S'"
proof -
  obtain S' outs where r:
    "server_run example_server_env example_store_env example_report example_events example_server = Some (S', outs)"
    using example_server_run by blast
  moreover have "sv_storage example_server = []" by (simp add: example_server_def)
  ultimately show ?thesis using server_storage_in_order [OF r example_events_ok] by auto
qed

subsection \<open>Reports pass through\<close>

text \<open>
  A report passes through the server unchanged. The frame pulled from the delivery process
  is sent to the mo process byte for byte, counted and stored; a refund is queued exactly when
  its status is not 1.
\<close>

theorem server_forwards_report:
  assumes "\<not> sv_sleeping S" and "d_sent d" and "d_ok d" and "d_buf d = Some (htonl LAMB_REPORT @ body)"
    and "unpack_report (se_up e) body = Some p" and "pack_report (se_up e) p = body"
  shows "lamb_deliver_loop e d S =
     Some (S\<lparr>sv_status := (sv_status S)\<lparr>st_rep := st_rep (sv_status S) + 1\<rparr>,
             sv_billing := sv_billing S @ (if rp_status p = 1 then [] else [\<lparr>bl_id = co_id (sv_company S), bl_money = 1\<rparr>]),
             sv_storage := sv_storage S @ [St_report (report_store p)]\<rparr>,
           [htonl LAMB_REPORT @ body])"
  using assms by (simp add: lamb_deliver_loop_def deliver_report_def forward_up_def d_ok_def Let_def)

lemma server_forwards_report_witness:
  "\<exists>S'. lamb_deliver_loop example_server_env (example_dturn (htonl LAMB_REPORT @ ''r'')) example_server =
     Some (S', [htonl LAMB_REPORT @ ''r'']) \<and> sv_billing S' = [\<lparr>bl_id = 3, bl_money = 1\<rparr>]"
proof -
  have "lamb_deliver_loop example_server_env (example_dturn (htonl LAMB_REPORT @ ''r'')) example_server =
     Some (example_server\<lparr>sv_status := (sv_status example_server)\<lparr>st_rep := st_rep (sv_status example_server) + 1\<rparr>,
         sv_billing := sv_billing example_server @ (if rp_status (example_report\<lparr>rp_spcode := ''r''\<rparr>) = 1 then []
           else [\<lparr>bl_id = co_id (sv_company example_server), bl_money = 1\<rparr>]),
         sv_storage := sv_storage example_server @ [St_report (report_store (example_report\<lparr>rp_spcode := ''r''\<rparr>))]\<rparr>,
       [htonl LAMB_REPORT @ ''r''])"
    by (rule server_forwards_report [where d = "example_dturn (htonl LAMB_REPORT @ ''r'')"])
      (simp_all add: example_server_def example_dturn_def d_ok_def example_server_env_def example_upcodec_def)
  then show ?thesis by (simp add: example_server_def example_report_def)
qed

subsection \<open>From a message that says stop to the refusal of its sender\<close>

text \<open>
  The text of a message from a phone in UTF-8: as it came for format 11, else as iconv converts
  it; and the words that say stop.
\<close>

definition phone_text :: "iconv \<Rightarrow> lamb_deliver_t \<Rightarrow> string option" where
  "phone_text conv m =
     (if ld_msgfmt m = 11 then Some (cstr (ld_content m))
      else case map_of [(0, ''ASCII''), (8, ''UCS-2BE''), (15, ''GBK'')] (ld_msgfmt m) of
        None \<Rightarrow> None
      | Some code \<Rightarrow> map_option cstr (conv (take (nat (ld_length m)) (ld_content m)) code ''UTF-8'' 512))"

definition says_stop :: "string \<Rightarrow> bool" where
  "says_stop t \<longleftrightarrow> (\<exists>w \<in> {''t'', ''T'', ''td'', ''TD'', tui, tuiding}. strstr t w)"

lemma says_stop: "lamb_check_unsubval t len = says_stop t"
  by (simp add: lamb_check_unsubval_def says_stop_def)

lemma strstr_Nil: "w \<noteq> [] \<Longrightarrow> \<not> strstr [] w"
  by (cases w) simp_all

lemma says_stop_Nil: "\<not> says_stop []"
  by (simp add: says_stop_def tui_def tuiding_def strstr_Nil)

lemma store_content_text:
  assumes c: "store_content conv m = Some c" and t: "phone_text conv m = Some t" and stop: "says_stop t"
  shows "\<exists>m1. c = Some m1 \<and> cstr (ld_content m1) = t \<and> ld_phone m1 = ld_phone m"
proof (cases "ld_msgfmt m = 11")
  case True
  then show ?thesis using c t by (auto simp: store_content_def store_fromcode_def phone_text_def)
next
  case False
  then obtain code src out where f: "store_fromcode (ld_msgfmt m) = Some code" "content_bytes (ld_length m) (ld_content m) = Some src"
      "conv src code ''UTF-8'' 512 = Some out" "cstr out = t"
    using c t by (auto simp: store_content_def store_fromcode_def phone_text_def content_bytes_def bind_eq_Some_conv split: if_splits)
  have "out \<noteq> []" using f(4) stop says_stop_Nil by (auto simp: cstr_def)
  then obtain content where "memcpy_z 160 out = Some content" "c = Some (m\<lparr>ld_length := int (length out), ld_content := content\<rparr>)"
    using c f False by (cases out) (auto simp: store_content_def bind_eq_Some_conv)
  moreover from this have "cstr content = t" using f(4)
    by (auto simp: memcpy_z_def cstr_def zeroed_def takeWhile_append takeWhile_replicate takeWhile_eq_all_conv [THEN iffD2] split: if_splits)
  ultimately show ?thesis by simp
qed

lemma store_unsubscribes:
  assumes "sv_storage S = St_deliver m # rest" and "phone_text conv m = Some t" and "says_stop t"
    and "bit (ac_options (sv_account S)) 3" and "lamb_store_loop conv exec True True S = Some (S1, sql)"
  shows "sv_unsubscribe S1 = sv_unsubscribe S @ [Some (ld_phone m)]"
proof -
  have d: "store_deliver conv exec True True (S\<lparr>sv_storage := rest\<rparr>) m = Some (S1, sql)"
    using assms(1,5) by (simp add: lamb_store_loop_def)
  then obtain c where c: "store_content conv m = Some c" by (auto simp: store_deliver_def bind_eq_Some_conv)
  then obtain m1 where m1: "c = Some m1" "cstr (ld_content m1) = t" "ld_phone m1 = ld_phone m"
    using store_content_text [OF c assms(2,3)] by blast
  then show ?thesis using d c assms(3,4)
    by (auto simp: store_deliver_def store_unsubscribe_def says_stop bind_eq_Some_conv split: if_splits)
qed

text \<open>
  C27: A phone that sends a stop word is not written to again. For an account with the
  unsubscribe option, once the storage thread has handled a message from a phone whose text, in
  UTF-8 or converted to it from ASCII, UCS-2 or GBK, contains a stop word, and the unsubscribe
  thread has taken its turn, the check of the work loop refuses that number for the account,
  however it is written. (The storage thread has no turn on a text that does not fit its 160
  bytes with a NUL, which is undefined behaviour.)
\<close>

theorem stop_word_unsubscribes:
  assumes "sv_storage S = St_deliver m # rest" and "phone_text conv m = Some t" and "says_stop t"
    and "bit (ac_options (sv_account S)) 3" and "lamb_store_loop conv exec True True S = Some (S1, sql)"
    and "sv_unsubscribe S = []" and "0 < n" and "atol (ld_phone m) \<noteq> 0" and "atol number = atol (ld_phone m)"
    and "lamb_unsubscribe_loop (key_nodes n K) aid S1 = Some (S2, cmds)"
  shows "lamb_check_unsubscribe (key_nodes n (run_cmds cmds K)) aid number = Some True"
proof -
  have "sv_unsubscribe S1 = [Some (ld_phone m)]" using store_unsubscribes [OF assms(1-5)] assms(6) by simp
  then have "unsubscribe_turn (key_nodes n K) aid (Some (ld_phone m)) = Some cmds"
    using assms(10) by (auto simp: lamb_unsubscribe_loop_def bind_eq_Some_conv)
  from unsubscribe_turn_check [OF assms(7) this] assms(8,9) show ?thesis by simp
qed

text \<open>A phone that sends the letter T in UCS-2.\<close>

definition stop_message :: lamb_deliver_t where
  "stop_message = \<lparr>ld_id = 1, ld_account = 7, ld_company = 3, ld_phone = ''138'', ld_spcode = ''1069'',
     ld_serviceid = [], ld_msgfmt = 8, ld_length = 2, ld_content = NUL # CHR ''T'' # zeroed 158\<rparr>"

definition stop_iconv :: iconv where
  "stop_iconv s f t n = (if f = ''UCS-2BE'' \<and> s = [NUL, CHR ''T''] then Some ''T'' else None)"

definition stop_server :: server where
  "stop_server = example_server\<lparr>sv_storage := [St_deliver stop_message],
     sv_account := example_account\<lparr>ac_options := 8\<rparr>\<rparr>"

lemma stop_text: "phone_text stop_iconv stop_message = Some ''T''" "says_stop ''T''"
  by (simp_all add: phone_text_def stop_iconv_def stop_message_def cstr_def says_stop_def strstr_singleton)

lemma atol_138: "atol ''138'' = 138"
  by (simp add: atol_def atoi_def is_blank_def is_digit_def digits_val_def digit_val_def)

lemma stop_stored:
  "\<exists>sql. lamb_store_loop stop_iconv (\<lambda>q. True) True True stop_server =
     Some (stop_server\<lparr>sv_storage := [], sv_unsubscribe := [Some ''138'']\<rparr>, sql)"
proof -
  let ?m = "stop_message\<lparr>ld_length := 1, ld_content := CHR ''T'' # zeroed 159\<rparr>"
  have c: "store_content stop_iconv stop_message = Some (Some ?m)"
    by (simp add: store_content_def store_fromcode_def content_bytes_def stop_iconv_def stop_message_def memcpy_z_def)
  have t: "terminated (ld_content ?m)" "cstr (ld_content ?m) = ''T''" by (simp_all add: terminated_def zeroed_def cstr_def)
  moreover have "bit (ac_options (sv_account stop_server)) 3" "ld_phone ?m = ''138''"
      "sv_storage stop_server = [St_deliver stop_message]" "sv_unsubscribe stop_server = []"
    by (simp_all add: stop_server_def bit_iff_odd stop_message_def example_server_def)
  ultimately show ?thesis using c stop_text(2)
    by (simp add: lamb_store_loop_def store_deliver_def store_unsubscribe_def server_write_deliver_def says_stop)
qed

lemma stop_word_unsubscribes_witness:
  "lamb_check_unsubscribe (key_nodes 7 (run_cmds [(5, SET (phone_key 7 138) ''1'')] (\<lambda>i. {}))) 7 ''138'' = Some True"
proof -
  obtain sql where s: "lamb_store_loop stop_iconv (\<lambda>q. True) True True stop_server =
     Some (stop_server\<lparr>sv_storage := [], sv_unsubscribe := [Some ''138'']\<rparr>, sql)"
    using stop_stored by blast
  have u: "lamb_unsubscribe_loop (key_nodes 7 (\<lambda>i. {})) 7 (stop_server\<lparr>sv_storage := [], sv_unsubscribe := [Some ''138'']\<rparr>) =
      Some (stop_server\<lparr>sv_storage := [], sv_unsubscribe := []\<rparr>, [(5, SET (phone_key 7 138) ''1'')])"
    by (simp add: lamb_unsubscribe_loop_def unsubscribe_turn_def shard_def key_nodes_def atol_138)
  show ?thesis
    by (rule stop_word_unsubscribes [OF _ stop_text _ s _ _ _ _ u, of "[]"])
      (simp_all add: stop_server_def example_server_def stop_message_def bit_iff_odd atol_138)
qed

subsection \<open>The start\<close>

lemma lamb_nn_reqrep_socks:
  "lamb_nn_reqrep n c host aid t s = (fd, s') \<Longrightarrow> \<not> fd < 0 \<Longrightarrow> nsocks s' = fd # nsocks s"
  using ask_and_connect_socks by (fastforce simp: lamb_nn_reqrep_def)

lemma lamb_nn_pair_socks:
  "lamb_nn_pair n c host aid t s = (fd, s') \<Longrightarrow> \<not> fd < 0 \<Longrightarrow> nsocks s' = fd # nsocks s"
  using ask_and_connect_socks by (fastforce simp: lamb_nn_pair_def)

lemma init_links_socks:
  assumes "init_links n cfg aid s = (Some L, s')"
  shows "nsocks s' = [lk_deliverd L, lk_scheduler L, lk_mo L, lk_mt L] @ nsocks s" and "lk_net L = s'"
  using assms
  by (auto simp: init_links_def Let_def lamb_nn_reqrep_socks lamb_nn_pair_socks split: prod.splits if_splits)

lemma length_conf_nodes: "length (conf_nodes cfg) = 7"
  by (simp add: conf_nodes_def)

lemma init_nodes_all:
  assumes "init_nodes n cfg db = Some slots"
  shows "dom slots = {0..<7}"
proof -
  have c: "lamb_nodes_connect (in_node n db) (in_redis n) LAMB_MAX_CACHE (conf_nodes cfg) 7 db = (slots, 7)"
    using assms by (auto simp: init_nodes_def split: prod.splits if_splits)
  show ?thesis
  proof (rule nodes_connect_all [OF c])
    show "7 = length (conf_nodes cfg)" by (simp add: length_conf_nodes)
    show "conf_nodes cfg \<noteq> []" using length_conf_nodes [of cfg] by auto
  qed (simp_all add: LAMB_MAX_CACHE_def)
qed

lemma init_stores_all:
  assumes "init_stores n cfg = Some (black, unsub, freq)"
  shows "dom black = {0..<7}" "dom unsub = {0..<7}" "dom freq = {0..<7}"
proof -
  have "init_nodes n cfg 1 = Some black" "init_nodes n cfg 2 = Some unsub" "init_nodes n cfg 3 = Some freq"
    using assms by (auto simp: init_stores_def bind_eq_Some_conv split: if_splits)
  then show "dom black = {0..<7}" "dom unsub = {0..<7}" "dom freq = {0..<7}"
    by (auto dest!: init_nodes_all simp only:)
qed

definition start_complete :: "nnet \<Rightarrow> nnet \<Rightarrow> started \<Rightarrow> bool" where
  "start_complete s s' d \<longleftrightarrow>
     (\<forall>phone :: u64. \<forall>t \<in> {sd_blacklist d, sd_unsubscribe d, sd_frequency d}. t (unat phone mod 7) \<noteq> None) \<and>
     nsocks s' = [lk_deliverd (sd_links d), lk_scheduler (sd_links d), lk_mo (sd_links d), lk_mt (sd_links d)] @ nsocks s \<and>
     sv_storage (sd_server d) = [] \<and> sv_billing (sd_server d) = [] \<and> \<not> sv_sleeping (sd_server d)"

text \<open>
  C28: A server that starts is fully connected. When the initialization returns 0, the three
  sharded caches have a node for every phone number, and the sockets opened are exactly the
  four to the mt, mo, scheduler and delivery processes; the queues are empty.
\<close>

theorem server_start_complete:
  assumes "lamb_component_initialization n config aid s = (0, st, s')"
  shows "\<exists>d. st = Some d \<and> start_complete s s' d"
proof -
  obtain cfg where cfg: "config = Some cfg" using assms by (cases config) (auto simp: lamb_component_initialization_def)
  obtain black unsub freq where stores: "init_stores n cfg = Some (black, unsub, freq)"
    using assms cfg by (cases "init_stores n cfg") (auto simp: lamb_component_initialization_def)
  obtain e1 account where acc: "lamb_account_fetch (in_pg n) aid no_account = (e1, account)" by fastforce
  then have e1: "e1 = 0"
    using assms cfg stores by (auto simp: lamb_component_initialization_def split: if_splits)
  obtain l s1 where links: "init_links n cfg aid s = (l, s1)" by fastforce
  obtain L where L: "l = Some L"
    using assms cfg stores acc e1 links by (cases l) (auto simp: lamb_component_initialization_def)
  obtain e2 company where com: "lamb_company_get (in_pg n) (ac_company account)
      \<lparr>co_id = 0, co_money = 0, co_status = 0\<rparr> = (e2, company)" by fastforce
  then have e2: "e2 = 0"
    using assms cfg stores acc e1 links L by (auto simp: lamb_component_initialization_def split: if_splits)
  obtain ts ks where lists: "init_lists n aid (ac_options account) = Some (ts, ks)"
    using assms cfg stores acc e1 links L com e2
    by (cases "init_lists n aid (ac_options account)") (auto simp: lamb_component_initialization_def)
  let ?d = "\<lparr>sd_server = \<lparr>sv_status = no_status, sv_storage = [], sv_billing = [], sv_unsubscribe = [],
      sv_account = account, sv_company = company, sv_templates = ts, sv_keywords = ks,
      sv_sleeping = False, sv_arrears = False\<rparr>,
    sd_links = L, sd_blacklist = black, sd_unsubscribe = unsub, sd_frequency = freq\<rparr>"
  have d: "st = Some ?d" "s' = s1"
    using assms cfg stores acc e1 links L com e2 lists by (auto simp: lamb_component_initialization_def)
  have node: "t k \<noteq> None" if "dom t = {0..<7}" "k < 7" for t :: "nat \<rightharpoonup> string" and k
    using that by (metis atLeastLessThan_iff domD less_eq_nat.simps(1) option.distinct(1))
  have "start_complete s s' ?d"
    using init_stores_all [OF stores] init_links_socks [OF links [unfolded L]] d(2)
    by (auto simp: start_complete_def node)
  with d(1) show ?thesis by blast
qed

definition example_init :: init_env where
  "example_init = \<lparr>in_structs = True, in_list = (\<lambda>k. True), in_node = (\<lambda>db i. True), in_redis = example_redis,
     in_up = (\<lambda>s. True), in_pg = \<lparr>pg_exec = (\<lambda>q. Some [[''7'']]), pg_calloc = (\<lambda>i. True), pg_node = (\<lambda>i. True)\<rparr>,
     in_dup = (\<lambda>i. True), in_nn = example_env\<lparr>e_recv := (\<lambda>t fd. Some (htonl LAMB_RESPONSE))\<rparr>,
     in_codec = \<lparr>pack_req = (\<lambda>r. []), unpack_resp = (\<lambda>b. Some \<lparr>resp_id = 7, resp_host = ''tcp://a:1''\<rparr>)\<rparr>\<rparr>"

definition example_config :: lamb_config_t where
  "example_config = \<lparr>c_buf = (\<lambda>f. [NUL]), c_int = (\<lambda>f. 1), c_bool = (\<lambda>f. False), c_nodes = (\<lambda>i. Some ''a:1'')\<rparr>"

lemma example_cache_connect: "lamb_cache_connect example_redis h p None db = (0, [''SELECT '' @ show_int db])"
  by (simp add: lamb_cache_connect_def example_redis_def Let_def)

lemma nodes_loop_example:
  assumes "\<forall>node \<in> set nodes. node \<noteq> []" and "i + length nodes \<le> sz" and "j + length nodes \<le> len"
  shows "snd (nodes_loop (\<lambda>i. True) example_redis len sz db nodes i j port slots n) = n + length nodes"
  using assms
proof (induction nodes arbitrary: i j port slots n)
  case Nil
  then show ?case by simp
next
  case (Cons node nodes)
  obtain host port1 where "lamb_hp_parse node (zeroed 16) port = (host, port1)" by fastforce
  then show ?case using Cons by (simp add: example_cache_connect)
qed

lemma init_nodes_example: "\<exists>slots. init_nodes example_init example_config db = Some slots"
proof -
  obtain slots len where c: "lamb_nodes_connect (in_node example_init db) (in_redis example_init) LAMB_MAX_CACHE
      (conf_nodes example_config) 7 db = (slots, len)" by fastforce
  have "conf_nodes example_config = replicate 7 ''a:1''"
    by (simp add: conf_nodes_def example_config_def map_replicate_const)
  then have "len = 7"
    using c nodes_loop_example [of "replicate 7 ''a:1''" 0 7 0 16 db 0 Map.empty 0]
    by (simp add: lamb_nodes_connect_def example_init_def LAMB_MAX_CACHE_def)
  with c show ?thesis by (simp add: init_nodes_def)
qed

lemma init_stores_example: "\<exists>b u f. init_stores example_init example_config = Some (b, u, f)"
proof -
  obtain b u f where nodes: "init_nodes example_init example_config 1 = Some b" "init_nodes example_init example_config 2 = Some u"
    "init_nodes example_init example_config 3 = Some f"
    using init_nodes_example by blast
  have "lamb_db_connect (in_up example_init) h p us pw n = 0" for h p us pw n
    by (simp add: lamb_db_connect_def example_init_def)
  moreover have "fst (lamb_cache_connect (in_redis example_init) h p None db) = 0" for h p db
    by (simp add: example_init_def example_cache_connect)
  moreover have "in_structs example_init" "in_list example_init k" for k by (simp_all add: example_init_def)
  ultimately show ?thesis using nodes by (simp add: init_stores_def)
qed

lemma ask_example:
  "\<exists>fd s'. ask_and_connect (in_nn example_init) (in_codec example_init) h r p t s = (fd, s') \<and> 0 \<le> fd"
  by (auto simp: ask_and_connect_def lamb_nn_request_def lamb_nn_connect_def nn_socket_def mallocs_def nn_send_def
      nn_setsockopt_def nn_close_def tick_def example_init_def example_env_def lamb_pack_assembly_def Let_def
      CHECK_COMMAND_def)

lemma init_links_example: "\<exists>L s'. init_links example_init example_config aid s = (Some L, s')"
proof -
  let ?n = "in_nn example_init" and ?c = "in_codec example_init" and ?t = "c_int example_config ''timeout''"
  let ?h = "conf_str example_config"
  obtain mt s1 where 1: "lamb_nn_reqrep ?n ?c (?h ''mt'') aid ?t s = (mt, s1)" "0 \<le> mt"
    using ask_example unfolding lamb_nn_reqrep_def by blast
  obtain mo s2 where 2: "lamb_nn_pair ?n ?c (?h ''mo'') aid ?t s1 = (mo, s2)" "0 \<le> mo"
    using ask_example unfolding lamb_nn_pair_def by blast
  obtain sch s3 where 3: "lamb_nn_pair ?n ?c (?h ''scheduler'') aid ?t s2 = (sch, s3)" "0 \<le> sch"
    using ask_example unfolding lamb_nn_pair_def by blast
  obtain del s4 where 4: "lamb_nn_reqrep ?n ?c (?h ''deliver'') aid ?t s3 = (del, s4)" "0 \<le> del"
    using ask_example unfolding lamb_nn_reqrep_def by blast
  from 1 2 3 4 show ?thesis by (simp add: init_links_def)
qed

lemma init_lists_example: "\<exists>ts ks. init_lists example_init aid options = Some (ts, ks)"
  by (simp add: init_lists_def example_init_def lamb_get_template_def lamb_keyword_get_all_def)

lemma server_start_complete_witness:
  "\<exists>d s'. lamb_component_initialization example_init (Some example_config) 7
       \<lparr>ntick = 0, nsocks = [], nopts = [], nsent = []\<rparr> = (0, Some d, s') \<and>
     start_complete \<lparr>ntick = 0, nsocks = [], nopts = [], nsent = []\<rparr> s' d"
proof -
  let ?s = "\<lparr>ntick = 0, nsocks = [], nopts = [], nsent = []\<rparr>"
  obtain b u f where "init_stores example_init example_config = Some (b, u, f)" using init_stores_example by blast
  moreover obtain L s' where "init_links example_init example_config 7 ?s = (Some L, s')"
    using init_links_example by blast
  moreover obtain account where "lamb_account_fetch (in_pg example_init) 7 no_account = (0, account)"
    by (simp add: lamb_account_fetch_def example_init_def)
  moreover obtain company where "lamb_company_get (in_pg example_init) (ac_company account)
      \<lparr>co_id = 0, co_money = 0, co_status = 0\<rparr> = (0, company)"
    by (simp add: lamb_company_get_def example_init_def)
  moreover obtain ts ks where "init_lists example_init 7 (ac_options account) = Some (ts, ks)"
    using init_lists_example by blast
  ultimately have "\<exists>st. lamb_component_initialization example_init (Some example_config) 7 ?s = (0, st, s')"
    by (simp add: lamb_component_initialization_def)
  then obtain st where "lamb_component_initialization example_init (Some example_config) 7 ?s = (0, st, s')" by blast
  with server_start_complete [OF this] show ?thesis by blast
qed

end
