(* ===== verification/ReportPath.thy ===== *)
theory ReportPath
  imports SpRun IsmgRun ServerRun
begin

text \<open>
  The path of a status report through all processes: from the operator's packet in \<open>sp.c\<close>
  over \<open>delivery.c\<close>, \<open>server.c\<close> and \<open>mo.c\<close> to the packet \<open>ismg.c\<close> sends to the client. Each
  process makes one turn in which nothing fails.
\<close>

subsection \<open>Status names\<close>

text \<open>
  The gateway client understands the status names the front end writes: reading a name back
  gives the status it was made from, for the seven known statuses, and 6, unknown, for others.
\<close>

theorem report_stat_name:
  "report_stat (stat_name s) = (if 1 \<le> s \<and> s \<le> 7 then s else 6)"
proof -
  have names: "report_stat ''DELIVRD'' = 1" "report_stat ''EXPIRED'' = 2" "report_stat ''DELETED'' = 3"
    "report_stat ''UNDELIV'' = 4" "report_stat ''ACCEPTD'' = 5" "report_stat ''UNKNOWN'' = 6"
    "report_stat ''REJECTD'' = 7"
    by (simp_all add: report_stat_def strncasecmp_eq_def lower_def)
  consider "s = 1" | "s = 2" | "s = 3" | "s = 4" | "s = 5" | "s = 6" | "s = 7" | "s < 1" | "7 < s" by linarith
  then show ?thesis by cases (simp_all add: stat_name_def names)
qed

lemma report_stat_range: "1 \<le> report_stat stat \<and> report_stat stat \<le> 7"
  by (simp add: report_stat_def)

subsection \<open>One turn of each process\<close>

definition good_rx :: "bytes \<Rightarrow> rx" where
  "good_rx f = \<lparr>r_buf = Some f, r_timedout = False, r_conns = 0, r_calloc = True, r_node = True, r_pk = True,
     r_frame = True\<rparr>"

definition good_dturn :: "bytes \<Rightarrow> dturn" where
  "good_dturn f = \<lparr>d_sent = True, d_buf = Some f, d_bill = True, d_bnode = True, d_pk = True, d_frame = True,
     d_calloc = True, d_node = True\<rparr>"

definition the_frame :: "bytes list \<Rightarrow> bytes option" where
  "the_frame xs = (case xs of [f] \<Rightarrow> Some f | _ \<Rightarrow> None)"

definition sp_turns :: "sp_env \<Rightarrow> nat \<Rightarrow> hashes \<Rightarrow> cmpp_pack_t \<Rightarrow> sp \<Rightarrow> (bytes \<times> (u32 \<times> u64 \<times> int) list) option" where
  "sp_turns e n H p S = do {
     (S1, answers, cmds) \<leftarrow> sp_deliver_loop \<lparr>y_pack = Some p, y_calloc = True, y_node = True, y_caches = hash_nodes n H\<rparr> S;
     (S2, cmds2, out) \<leftarrow> sp_work_loop e \<lparr>t_caches = hash_nodes n H, t_pk = True, t_frame = True\<rparr> S1;
     f \<leftarrow> the_frame out;
     Some (f, answers) }"

definition dl_turns :: "upcodec \<Rightarrow> pcre \<Rightarrow> int \<Rightarrow> bytes \<Rightarrow> dstate \<Rightarrow> bytes option" where
  "dl_turns u pcre account f D = do {
     (D1, stop) \<leftarrow> dl_push_loop u pcre (good_rx f) D;
     k \<leftarrow> pool_find account (d_pool D1);
     (P, out, stop) \<leftarrow> dl_pull_loop u k (good_rx (htonl LAMB_REQ)) (d_pool D1);
     the_frame out }"

definition mo_turns :: "upcodec \<Rightarrow> nat \<Rightarrow> bytes \<Rightarrow> upmsg pool \<Rightarrow> bytes option" where
  "mo_turns u k f M = do {
     (M1, out, stop) \<leftarrow> mo_push_loop u k (good_rx f) M;
     (M2, out, stop) \<leftarrow> mo_pull_loop u k (good_rx (htonl LAMB_REQ)) M1;
     the_frame out }"

definition ismg_turn :: "ismg_env \<Rightarrow> u32 \<Rightarrow> bytes \<Rightarrow> ismg \<Rightarrow> cout list option" where
  "ismg_turn e q f S = map_option snd (ismg_deliver_loop e
     \<lparr>j_sent = True, j_buf = Some f, j_sequence = q, j_error = (\<lambda>k. False), j_timedout = (\<lambda>k. False)\<rparr> S)"

text \<open>
  The whole path for a report to an account: the packets the client gets and the answers the
  operator gets. \<open>k\<close> is the queue of the client in the mo process.
\<close>

definition report_path ::
  "sp_env \<Rightarrow> server_env \<Rightarrow> ismg_env \<Rightarrow> pcre \<Rightarrow> nat \<Rightarrow> hashes \<Rightarrow> cmpp_pack_t \<Rightarrow> sp \<Rightarrow> dstate \<Rightarrow> server \<Rightarrow>
   nat \<Rightarrow> upmsg pool \<Rightarrow> u32 \<Rightarrow> ismg \<Rightarrow> int \<Rightarrow> (cout list \<times> (u32 \<times> u64 \<times> int) list) option" where
  "report_path e se ie pcre n H p S D V k M q I account = do {
     (f1, answers) \<leftarrow> sp_turns e n H p S;
     f2 \<leftarrow> dl_turns (pe_up e) pcre account f1 D;
     (V1, out) \<leftarrow> lamb_deliver_loop se (good_dturn f2) V;
     f3 \<leftarrow> the_frame out;
     f4 \<leftarrow> mo_turns (pe_up e) k f3 M;
     packets \<leftarrow> ismg_turn ie q f4 I;
     Some (packets, answers) }"

subsection \<open>Stage by stage\<close>

text \<open>The fields of a report cut to the widths of the brokers.\<close>

definition trimmed :: "Report \<Rightarrow> Report" where
  "trimmed r = report_load (report_store r)"

lemma trimmed_trimmed [simp]: "trimmed (trimmed r) = trimmed r"
  by (simp add: trimmed_def report_load_def report_store_def)

lemma report_store_trimmed [simp]: "report_store (trimmed r) = report_store r"
  by (simp add: trimmed_def report_load_def report_store_def)

lemma rp_account_trimmed [simp]: "rp_account (trimmed r) = rp_account r"
  by (simp add: trimmed_def report_load_def report_store_def)

lemma sp_turns_report:
  assumes n: "0 < n" and ok: "sp_ok S" "sp_storage S = []" and p: "pk_commandId p = CMPP_DELIVER"
    "pack_byte p cmpp_deliver_registered_delivery = 1" "sp_report p = Some r"
    and h: "holds n H (lr_id r) c" and pos: "0 < cd_msgId c" "0 < cd_account c" "0 < cd_company c"
  shows "sp_turns e n H p S = Some (htonl LAMB_REPORT @ pack_report (pe_up e) (cached_report c r),
     [(pk_sequenceId p, lr_id r, 0)])"
proof -
  let ?y = "\<lparr>y_pack = Some p, y_calloc = True, y_node = True, y_caches = hash_nodes n H\<rparr>"
  define S1 where "S1 = sp_push True (UpReport r) (S\<lparr>sp_status := (sp_status S)\<lparr>sx_rep := sx_rep (sp_status S) + 1\<rparr>\<rparr>)"
  have y: "sp_deliver_loop ?y S = Some (S1, [(pk_sequenceId p, lr_id r, 0)], [])"
    using ok p by (simp add: sp_deliver_loop_def S1_def Let_def)
  have "sp_storage S1 = UpReport r # []" using ok by (simp add: S1_def sp_push_def)
  from work_report_step [OF n h pos this, of e] y show ?thesis
    by (simp add: sp_turns_def the_frame_def)
qed

lemma mo_pull_report:
  assumes inv: "pool_inv P" and find: "pool_find i P = Some k" and items: "pool_content P i = [UpReport r]"
  shows "\<exists>P'. mo_pull_loop u k (good_rx (htonl LAMB_REQ)) P =
     Some (P', [htonl LAMB_REPORT @ pack_report u (report_load r)], False)"
proof -
  obtain P' where "pool_pop k P = (Some (UpReport r), P')"
    using pool_pop_content(1) [OF inv find] items by (cases "pool_pop k P") auto
  then show ?thesis by (simp add: mo_pull_loop_def good_rx_def lamb_pack_assembly_def)
qed

lemma good_rx_ok: "rx_ok (good_rx f)"
  by (simp add: rx_ok_def good_rx_def)

lemma dl_turns_report:
  assumes u: "unpack_report u (pack_report u r) = Some r" and inv: "pool_inv (d_pool D)" and up: "\<not> d_sleeping D"
    and empty: "pool_content (d_pool D) (rp_account r) = []"
  shows "dl_turns u pcre (rp_account r) (htonl LAMB_REPORT @ pack_report u r) D =
     Some (htonl LAMB_REPORT @ pack_report u (trimmed r))"
proof -
  let ?i = "rp_account r" and ?rx = "good_rx (htonl LAMB_REPORT @ pack_report u r)"
  let ?P = "push_to_client ?rx ?i (UpReport (report_store r)) (d_pool D)"
  have push: "dl_push_loop u pcre ?rx D = Some (D\<lparr>d_pool := ?P\<rparr>, False)"
    using u up by (simp add: dl_push_loop_def good_rx_def)
  note c = push_to_client_content [OF inv good_rx_ok, where i = ?i and m = "UpReport (report_store r)"]
  have items: "pool_content ?P ?i = [UpReport (report_store r)]" using c(2) empty by simp
  then obtain k where k: "pool_find ?i ?P = Some k" by (cases "pool_find ?i ?P") (auto simp: pool_content_def)
  obtain P' where "dl_pull_loop u k (good_rx (htonl LAMB_REQ)) ?P =
      Some (P', [htonl LAMB_REPORT @ pack_report u (report_load (report_store r))], False)"
    using mo_pull_report [OF c(1) k items] dl_pull_mo [OF good_rx_ok] by metis
  with push k show ?thesis by (simp add: dl_turns_def the_frame_def trimmed_def)
qed

lemma mo_turns_report:
  assumes u: "unpack_report u (pack_report u r) = Some r" and inv: "pool_inv M" and k: "pool_find i M = Some k"
    and empty: "pool_content M i = []"
  shows "mo_turns u k (htonl LAMB_REPORT @ pack_report u r) M =
     Some (htonl LAMB_REPORT @ pack_report u (trimmed r))"
proof -
  let ?M = "pool_push True k (UpReport (report_store r)) M"
  have push: "mo_push_loop u k (good_rx (htonl LAMB_REPORT @ pack_report u r)) M = Some (?M, [], False)"
    using u by (simp add: mo_push_loop_def good_rx_def)
  have "pool_content ?M i = [UpReport (report_store r)]" using pool_push_content [OF inv k] empty by simp
  from mo_pull_report [OF pool_inv_push [OF inv] _ this] k
  obtain P' where "mo_pull_loop u k (good_rx (htonl LAMB_REQ)) ?M =
      Some (P', [htonl LAMB_REPORT @ pack_report u (report_load (report_store r))], False)"
    by fastforce
  with push show ?thesis by (simp add: mo_turns_def the_frame_def trimmed_def)
qed

lemma server_turn_report:
  assumes "unpack_report (se_up se) (pack_report (se_up se) r) = Some r" and "\<not> sv_sleeping V"
  shows "\<exists>V1. lamb_deliver_loop se (good_dturn (htonl LAMB_REPORT @ pack_report (se_up se) r)) V =
     Some (V1, [htonl LAMB_REPORT @ pack_report (se_up se) r])"
  using assms by (simp add: lamb_deliver_loop_def deliver_report_def forward_up_def good_dturn_def
      lamb_pack_assembly_def Let_def)

lemma ismg_turn_report:
  assumes "unpack_report (ie_up ie) (pack_report (ie_up ie) r) = Some r"
  shows "ismg_turn ie q (htonl LAMB_REPORT @ pack_report (ie_up ie) r) I =
     Some [Cmpp_report q (rp_id r) (rp_spcode r) (stat_name (rp_status r)) (rp_submittime r) (rp_donetime r) (rp_phone r)]"
  using assms by (simp add: ismg_turn_def ismg_deliver_loop_def resend_stop commands)

text \<open>
  C5: A status report travels from the operator to the client: for an acknowledged message whose
  id, account, company and number are stored under the gateway's id, the operator's report goes
  through the gateway client, delivery, the account's server and mo, and the client gets
  exactly one report, with the id the client was given for its message, the number and times
  cut to their widths, the phone cut to 11 digits, and the operator's status in canonical
  spelling; the operator is answered with 0.
\<close>

theorem report_reaches_client:
  assumes rep: "rep = \<lparr>rp_id = i, rp_account = account, rp_company = company, rp_spcode = spcode,
      rp_phone = lr_phone r, rp_status = lr_status r, rp_submittime = lr_submittime r, rp_donetime = lr_donetime r\<rparr>"
    and codec: "\<forall>x \<in> {rep, trimmed rep}. unpack_report (pe_up e) (pack_report (pe_up e) x) = Some x"
      "se_up se = pe_up e" "ie_up ie = pe_up e"
    and n: "0 < n" and S: "sp_ok S" "sp_storage S = []"
    and p: "pk_commandId p = CMPP_DELIVER" "pack_byte p cmpp_deliver_registered_delivery = 1" "sp_report p = Some r"
    and h: "holds n H (lr_id r) (entry_of i account company spcode)"
    and pos: "0 < i" "0 < account" "0 < company" and code: "c_string spcode" "length spcode \<le> 20"
    and D: "pool_inv (d_pool D)" "\<not> d_sleeping D" "pool_content (d_pool D) account = []"
    and V: "\<not> sv_sleeping V"
    and M: "pool_inv M" "pool_find account M = Some k" "pool_content M account = []"
  shows "report_path e se ie pcre n H p S D V k M q I account =
     Some ([Cmpp_report q i spcode (stat_name (lr_status r)) (take 10 (lr_submittime r)) (take 10 (lr_donetime r))
              (take 11 (lr_phone r))], [(pk_sequenceId p, lr_id r, 0)])"
proof -
  let ?u = "pe_up e" and ?rep = rep
  have "overwrite (zeroed 21) spcode = spcode @ NUL # zeroed (20 - length spcode)"
    using code by (simp add: overwrite_def zeroed_def Suc_diff_le flip: replicate_Suc)
  then have c: "cached_report (entry_of i account company spcode) r = rep"
    using code by (simp add: cached_report_def entry_of_def cstr_append_NUL rep)
  have acc: "rp_account ?rep = account" by (simp add: rep)
  have pos': "0 < cd_msgId (entry_of i account company spcode)" "0 < cd_account (entry_of i account company spcode)"
    "0 < cd_company (entry_of i account company spcode)" using pos by (simp_all add: entry_of_def)
  have 1: "sp_turns e n H p S = Some (htonl LAMB_REPORT @ pack_report ?u ?rep, [(pk_sequenceId p, lr_id r, 0)])"
    using sp_turns_report [OF n S p h pos', of e] by (simp add: c)
  have 2: "dl_turns ?u pcre account (htonl LAMB_REPORT @ pack_report ?u ?rep) D =
      Some (htonl LAMB_REPORT @ pack_report ?u (trimmed ?rep))"
    using dl_turns_report [of ?u ?rep D pcre] codec(1) D acc by simp
  obtain V1 where 3: "lamb_deliver_loop se (good_dturn (htonl LAMB_REPORT @ pack_report ?u (trimmed ?rep))) V =
      Some (V1, [htonl LAMB_REPORT @ pack_report ?u (trimmed ?rep)])"
    using server_turn_report [of se "trimmed ?rep" V] codec V by auto
  have 4: "mo_turns ?u k (htonl LAMB_REPORT @ pack_report ?u (trimmed ?rep)) M =
      Some (htonl LAMB_REPORT @ pack_report ?u (trimmed ?rep))"
    using mo_turns_report [OF _ M, of ?u "trimmed ?rep"] codec(1) by simp
  have 5: "ismg_turn ie q (htonl LAMB_REPORT @ pack_report ?u (trimmed ?rep)) I =
      Some [Cmpp_report q i spcode (stat_name (lr_status r)) (take 10 (lr_submittime r)) (take 10 (lr_donetime r))
              (take 11 (lr_phone r))]"
    using ismg_turn_report [of ie "trimmed ?rep" q I] codec code
    by (simp add: trimmed_def report_load_def report_store_def rep strncpy_z_def)
  show ?thesis using 1 2 3 4 5 by (simp add: report_path_def the_frame_def)
qed

definition path_codec :: upcodec where
  "path_codec = \<lparr>unpack_report = (\<lambda>b. Some \<lparr>rp_id = 1, rp_account = 2, rp_company = 3, rp_spcode = ''10690'',
       rp_phone = b, rp_status = 1, rp_submittime = [], rp_donetime = []\<rparr>),
     unpack_deliver = (\<lambda>b. None), pack_report = rp_phone, pack_deliver = dl_phone\<rparr>"

definition path_packet :: cmpp_pack_t where
  "path_packet = \<lparr>pk_commandId = CMPP_DELIVER, pk_sequenceId = 4,
     pk_integer = (\<lambda>f n. if f = cmpp_deliver_msg_content_msg_id then 9 else 1),
     pk_string = (\<lambda>f n l. if f = cmpp_deliver_src_terminal_id then ''13800138000''
        else if f = cmpp_deliver_msg_content_stat then ''DELIVRD'' else [])\<rparr>"

lemma path_report: "sp_report path_packet = Some example_gateway_report"
  by (simp add: sp_report_def pack_string_def path_packet_def example_gateway_report_def memcpy_z_def zeroed_def
      cstr_def report_stat_def strncasecmp_eq_def lower_def)

lemma path_pool:
  "\<exists>(M :: 'm pool) k. pool_inv M \<and> pool_find i M = Some k \<and> pool_content M i = []"
proof -
  obtain q M where q: "client_queue True True i (empty_pool :: 'm pool) = (q, M)" by fastforce
  obtain k where k: "q = Some k" using client_queue_total [OF q] by auto
  note f = client_queue_found [OF pool_inv_empty(1) q]
  have "pool_content M i = []" using f(2) by (simp add: pool_inv_empty)
  with f(1) f(4) [OF _ k] show ?thesis by blast
qed

lemma report_reaches_client_witness:
  "\<exists>M k. report_path (example_sp_env\<lparr>pe_up := path_codec\<rparr>) (example_server_env\<lparr>se_up := path_codec\<rparr>)
     (example_client\<lparr>ie_up := path_codec\<rparr>) (\<lambda>p s n. False) 7 (hash_cmd example_set example_hashes) path_packet
     (sp_initial 1 True) (d_init []) example_server k M 8 ismg_start 2 =
   Some ([Cmpp_report 8 1 ''10690'' ''DELIVRD'' [] [] ''13800138000''], [(4, 9, 0)])"
proof -
  obtain M k where M: "pool_inv M" "pool_find 2 M = Some k" "pool_content M 2 = ([] :: upmsg list)"
    using path_pool by blast
  let ?rep = "\<lparr>rp_id = 1, rp_account = 2, rp_company = 3, rp_spcode = ''10690'', rp_phone = lr_phone example_gateway_report,
     rp_status = lr_status example_gateway_report, rp_submittime = lr_submittime example_gateway_report,
     rp_donetime = lr_donetime example_gateway_report\<rparr>"
  have h: "holds 7 (hash_cmd example_set example_hashes) (lr_id example_gateway_report) (entry_of 1 2 3 ''10690'')"
    using set_cache_holds(1) [OF _ example_set_cache] by (simp add: example_gateway_report_def)
  have "report_path (example_sp_env\<lparr>pe_up := path_codec\<rparr>) (example_server_env\<lparr>se_up := path_codec\<rparr>)
     (example_client\<lparr>ie_up := path_codec\<rparr>) (\<lambda>p s n. False) 7 (hash_cmd example_set example_hashes) path_packet
     (sp_initial 1 True) (d_init []) example_server k M 8 ismg_start 2 =
   Some ([Cmpp_report 8 1 ''10690'' (stat_name (lr_status example_gateway_report))
      (take 10 (lr_submittime example_gateway_report)) (take 10 (lr_donetime example_gateway_report))
      (take 11 (lr_phone example_gateway_report))], [(pk_sequenceId path_packet, lr_id example_gateway_report, 0)])"
  proof (rule report_reaches_client [where rep = ?rep])
    show "sp_report path_packet = Some example_gateway_report" by (rule path_report)
    show "holds 7 (hash_cmd example_set example_hashes) (lr_id example_gateway_report) (entry_of 1 2 3 ''10690'')"
      by (rule h)
    show "pool_inv M" "pool_find 2 M = Some k" "pool_content M 2 = []" by (rule M)+
    show "pool_inv (d_pool (d_init []))" "\<not> d_sleeping (d_init [])" "pool_content (d_pool (d_init [])) 2 = []"
      by (simp_all add: d_init_def pool_inv_empty)
    show "c_string ''10690''" by (simp add: c_string_def)
    show "\<not> sv_sleeping example_server" by (simp add: example_server_def)
    show "\<forall>x \<in> {?rep, trimmed ?rep}. unpack_report (pe_up (example_sp_env\<lparr>pe_up := path_codec\<rparr>))
        (pack_report (pe_up (example_sp_env\<lparr>pe_up := path_codec\<rparr>)) x) = Some x"
      by (simp add: path_codec_def trimmed_def report_load_def report_store_def example_gateway_report_def)
  qed (simp_all add: path_packet_def pack_byte_def sp_initial_def)
  then show ?thesis using M by (auto simp: example_gateway_report_def stat_name_def path_packet_def)
qed

end
