(* ===== verification/PhonePath.thy ===== *)
theory PhonePath
  imports ReportPath
begin

text \<open>
  The path of a message from a phone through all processes, from the operator's packet in
  \<open>sp.c\<close> over \<open>delivery.c\<close>, \<open>server.c\<close> and \<open>mo.c\<close> to the packet \<open>ismg.c\<close> sends to the client: the
  same turns as for a report (\<open>report_path\<close>), with other frames.
\<close>

subsection \<open>Stage by stage\<close>

text \<open>A packet with a message from a phone: its id, the phone, the number it was sent to, the text.\<close>

definition phone_packet :: "cmpp_pack_t \<Rightarrow> u64 \<Rightarrow> string \<Rightarrow> string \<Rightarrow> int \<Rightarrow> bytes \<Rightarrow> bool" where
  "phone_packet p i phone code fmt text \<longleftrightarrow>
     pk_commandId p = CMPP_DELIVER \<and> pack_byte p cmpp_deliver_registered_delivery \<noteq> 1 \<and>
     pk_integer p cmpp_deliver_msg_id 8 = i \<and>
     pack_string p cmpp_deliver_src_terminal_id 21 20 = Some phone \<and>
     pack_string p cmpp_deliver_dest_id 21 20 = Some code \<and>
     pack_string p cmpp_deliver_service_id 11 10 \<noteq> None \<and>
     pack_byte p cmpp_deliver_msg_fmt = fmt \<and>
     pack_byte p cmpp_deliver_msg_length = int (length text) \<and> length text \<le> 160 \<and>
     pk_string p cmpp_deliver_msg_content 160 (length text) = text"

text \<open>The message as the gateway client, delivery and the server pass it on.\<close>

definition phone_from_sp :: "lamb_gateway_t \<Rightarrow> u64 \<Rightarrow> string \<Rightarrow> string \<Rightarrow> int \<Rightarrow> bytes \<Rightarrow> Deliver" where
  "phone_from_sp g i phone code fmt text =
     \<lparr>dl_id = i, dl_account = 0, dl_company = 0, dl_phone = phone, dl_spcode = code, dl_serviceid = sp_service g code,
      dl_msgfmt = fmt, dl_length = int (length text), dl_content = text\<rparr>"

definition phone_from_delivery :: "u64 \<Rightarrow> string \<Rightarrow> string \<Rightarrow> int \<Rightarrow> bytes \<Rightarrow> Deliver" where
  "phone_from_delivery i phone code fmt text =
     \<lparr>dl_id = i, dl_account = 0, dl_company = 0, dl_phone = strncpy_z 11 phone, dl_spcode = strncpy_z 20 code,
      dl_serviceid = [], dl_msgfmt = fmt, dl_length = int (length text), dl_content = text\<rparr>"

definition phone_from_server :: "server \<Rightarrow> u64 \<Rightarrow> string \<Rightarrow> int \<Rightarrow> bytes \<Rightarrow> Deliver" where
  "phone_from_server V i phone fmt text =
     \<lparr>dl_id = i, dl_account = ac_id (sv_account V), dl_company = co_id (sv_company V), dl_phone = strncpy_z 11 phone,
      dl_spcode = snprintf_z 21 (ac_spcode (sv_account V)), dl_serviceid = [], dl_msgfmt = fmt,
      dl_length = int (length text), dl_content = text\<rparr>"

lemma memcpy_z_fits: "length src \<le> 160 \<Longrightarrow> \<exists>b. memcpy_z 160 src = Some b \<and> content_bytes (int (length src)) b = Some src"
  using memcpy_z_Some_iff [of 160 src] by auto

lemma sp_turns_phone:
  assumes p: "phone_packet p i phone code fmt text" and ok: "sp_ok S" "sp_storage S = []"
  shows "sp_turns e n H p S =
     Some (htonl LAMB_DELIVER @ pack_deliver (pe_up e) (phone_from_sp (pe_gateway e) i phone code fmt text), [(pk_sequenceId p, i, 0)])"
proof -
  obtain b where b: "memcpy_z 160 text = Some b" "content_bytes (int (length text)) b = Some text"
    using memcpy_z_fits p by (auto simp: phone_packet_def)
  obtain sid where "pack_string p cmpp_deliver_service_id 11 10 = Some sid" using p by (auto simp: phone_packet_def)
  then have "sp_phone_message p = Some \<lparr>ld_id = i, ld_account = 0, ld_company = 0, ld_phone = phone, ld_spcode = code,
      ld_serviceid = sid, ld_msgfmt = fmt, ld_length = int (length text), ld_content = b\<rparr>"
    using p b(1) by (simp add: sp_phone_message_def phone_packet_def Let_def)
  then show ?thesis using p ok b(2)
    by (simp add: sp_turns_def sp_deliver_loop_def phone_packet_def sp_push_def sp_work_loop_def sp_work_deliver_def
        sp_forward_def the_frame_def phone_from_sp_def Let_def)
qed

lemma mo_pull_phone:
  assumes inv: "pool_inv P" and find: "pool_find i P = Some k" and items: "pool_content P i = [UpDeliver d]"
    and load: "deliver_load d = Some x"
  shows "\<exists>P'. mo_pull_loop u k (good_rx (htonl LAMB_REQ)) P = Some (P', [htonl LAMB_DELIVER @ pack_deliver u x], False)"
proof -
  obtain P' where "pool_pop k P = (Some (UpDeliver d), P')"
    using pool_pop_content(1) [OF inv find] items by (cases "pool_pop k P") auto
  then show ?thesis using load by (simp add: mo_pull_loop_def good_rx_def lamb_pack_assembly_def)
qed

lemma dl_turns_phone:
  assumes u: "unpack_deliver u (pack_deliver u d) = Some d" and d: "d = phone_from_sp g i phone code fmt text"
    and len: "length text \<le> 160" and route: "route_search pcre (strncpy_z 20 code) (length code) (d_routes D) = account"
    and pos: "0 < account" and inv: "pool_inv (d_pool D)" and up: "\<not> d_sleeping D" and empty: "pool_content (d_pool D) account = []"
  shows "dl_turns u pcre account (htonl LAMB_DELIVER @ pack_deliver u d) D =
     Some (htonl LAMB_DELIVER @ pack_deliver u (phone_from_delivery i phone code fmt text))"
proof -
  let ?rx = "good_rx (htonl LAMB_DELIVER @ pack_deliver u d)"
  obtain b where b: "memcpy_z 160 text = Some b" "content_bytes (int (length text)) b = Some text" using memcpy_z_fits [OF len] by blast
  define m where "m = \<lparr>ld_id = i, ld_account = 0, ld_company = 0, ld_phone = strncpy_z 11 phone, ld_spcode = strncpy_z 20 code,
    ld_serviceid = [], ld_msgfmt = fmt, ld_length = int (length text), ld_content = b\<rparr>"
  have m: "phone_message d = Some m" using b(1) by (simp add: phone_message_def d phone_from_sp_def m_def)
  have load: "deliver_load m = Some (phone_from_delivery i phone code fmt text)"
    using b(2) by (simp add: deliver_load_def m_def phone_from_delivery_def)
  let ?P = "push_to_client ?rx account (UpDeliver m) (d_pool D)"
  have "ld_spcode m = strncpy_z 20 code" "dl_spcode d = code" by (simp_all add: m_def d phone_from_sp_def)
  then have push: "dl_push_loop u pcre ?rx D = Some (D\<lparr>d_pool := ?P\<rparr>, False)"
    using u up m route pos by (simp add: dl_push_loop_def good_rx_def commands Let_def)
  note c = push_to_client_content [OF inv good_rx_ok, where i = account and m = "UpDeliver m"]
  have items: "pool_content ?P account = [UpDeliver m]" using c(2) empty by simp
  then obtain k where k: "pool_find account ?P = Some k" by (cases "pool_find account ?P") (auto simp: pool_content_def)
  obtain P' where "dl_pull_loop u k (good_rx (htonl LAMB_REQ)) ?P =
      Some (P', [htonl LAMB_DELIVER @ pack_deliver u (phone_from_delivery i phone code fmt text)], False)"
    using mo_pull_phone [OF c(1) k items load] dl_pull_mo [OF good_rx_ok] by metis
  with push k show ?thesis by (simp add: dl_turns_def the_frame_def)
qed

lemma server_turn_phone:
  assumes "unpack_deliver (se_up se) (pack_deliver (se_up se) (phone_from_delivery i phone code fmt text)) =
      Some (phone_from_delivery i phone code fmt text)"
    and "\<not> sv_sleeping V" and "length text \<le> 160"
  shows "\<exists>V1. lamb_deliver_loop se (good_dturn (htonl LAMB_DELIVER @ pack_deliver (se_up se) (phone_from_delivery i phone code fmt text))) V =
     Some (V1, [htonl LAMB_DELIVER @ pack_deliver (se_up se) (phone_from_server V i phone fmt text)])"
proof -
  let ?V = "V\<lparr>sv_status := (sv_status V)\<lparr>st_delv := st_delv (sv_status V) + 1\<rparr>\<rparr>"
  have copy: "deliver_copy ?V (phone_from_delivery i phone code fmt text) = phone_from_server V i phone fmt text"
    by (simp add: deliver_copy_def phone_from_delivery_def phone_from_server_def)
  have "dl_content (phone_from_server V i phone fmt text) = text" by (simp add: phone_from_server_def)
  then obtain x where "deliver_store (phone_from_server V i phone fmt text) = Some x"
    using deliver_store_Some_iff assms(3) by metis
  then show ?thesis using assms(1,2) copy
    by (simp add: lamb_deliver_loop_def deliver_phone_def forward_up_def good_dturn_def lamb_pack_assembly_def commands Let_def)
qed

lemma mo_turns_phone:
  assumes u: "unpack_deliver u (pack_deliver u x) = Some x" and fits: "deliver_fits x" and inv: "pool_inv M"
    and k: "pool_find i M = Some k" and empty: "pool_content M i = []"
  shows "mo_turns u k (htonl LAMB_DELIVER @ pack_deliver u x) M = Some (htonl LAMB_DELIVER @ pack_deliver u x)"
proof -
  obtain d where d: "deliver_store x = Some d" "deliver_load d = Some x" using deliver_fits_round [OF fits] by blast
  let ?M = "pool_push True k (UpDeliver d) M"
  have push: "mo_push_loop u k (good_rx (htonl LAMB_DELIVER @ pack_deliver u x)) M = Some (?M, [], False)"
    using u d(1) by (simp add: mo_push_loop_def good_rx_def commands)
  have "pool_content ?M i = [UpDeliver d]" using pool_push_content [OF inv k] empty by simp
  from mo_pull_phone [OF pool_inv_push [OF inv] _ this d(2)] k
  obtain P' where "mo_pull_loop u k (good_rx (htonl LAMB_REQ)) ?M = Some (P', [htonl LAMB_DELIVER @ pack_deliver u x], False)"
    by fastforce
  with push show ?thesis by (simp add: mo_turns_def the_frame_def)
qed

lemma ismg_turn_phone:
  assumes "unpack_deliver (ie_up ie) (pack_deliver (ie_up ie) x) = Some x"
  shows "ismg_turn ie q (htonl LAMB_DELIVER @ pack_deliver (ie_up ie) x) I =
     Some [Cmpp_deliver q (dl_id x) (dl_spcode x) (dl_phone x) (dl_content x) (dl_msgfmt x)]"
  using assms by (simp add: ismg_turn_def ismg_deliver_loop_def resend_stop commands)

subsection \<open>The path\<close>

text \<open>
  C6: A message from a phone travels from the operator to the client: when the routing of
  delivery gives the number an account, the client of that account gets the message exactly
  once, with its id, text and format unchanged and the phone cut to 11 digits, and the operator is
  answered with 0. But the number it shows is the account's own code: the extension the phone
  sent to, which the gateway client computes as the service id, is lost on the way.
\<close>

theorem phone_message_reaches_client:
  assumes p: "phone_packet p i phone code fmt text" and S: "sp_ok S" "sp_storage S = []"
    and codec: "\<forall>x \<in> {phone_from_sp (pe_gateway e) i phone code fmt text, phone_from_delivery i phone code fmt text,
        phone_from_server V i phone fmt text}. unpack_deliver (pe_up e) (pack_deliver (pe_up e) x) = Some x"
      "se_up se = pe_up e" "ie_up ie = pe_up e"
    and route: "route_search pcre (strncpy_z 20 code) (length code) (d_routes D) = account" "0 < account"
    and D: "pool_inv (d_pool D)" "\<not> d_sleeping D" "pool_content (d_pool D) account = []"
    and V: "\<not> sv_sleeping V"
    and M: "pool_inv M" "pool_find account M = Some k" "pool_content M account = []"
  shows "report_path e se ie pcre n H p S D V k M q I account =
     Some ([Cmpp_deliver q i (take 20 (ac_spcode (sv_account V))) (take 11 phone) text fmt], [(pk_sequenceId p, i, 0)])"
proof -
  let ?u = "pe_up e" and ?d1 = "phone_from_sp (pe_gateway e) i phone code fmt text"
    and ?d2 = "phone_from_delivery i phone code fmt text" and ?d3 = "phone_from_server V i phone fmt text"
  have len: "length text \<le> 160" using p by (simp add: phone_packet_def)
  have 1: "sp_turns e n H p S = Some (htonl LAMB_DELIVER @ pack_deliver ?u ?d1, [(pk_sequenceId p, i, 0)])"
    by (rule sp_turns_phone [OF p S])
  have 2: "dl_turns ?u pcre account (htonl LAMB_DELIVER @ pack_deliver ?u ?d1) D = Some (htonl LAMB_DELIVER @ pack_deliver ?u ?d2)"
    using dl_turns_phone [OF _ refl len route D] codec(1) by simp
  obtain V1 where 3: "lamb_deliver_loop se (good_dturn (htonl LAMB_DELIVER @ pack_deliver ?u ?d2)) V =
      Some (V1, [htonl LAMB_DELIVER @ pack_deliver ?u ?d3])"
    using server_turn_phone [of se i phone code fmt "text" V] codec V len by auto
  have fits: "deliver_fits ?d3" using len by (simp add: deliver_fits_def phone_from_server_def strncpy_z_def snprintf_z_def)
  have 4: "mo_turns ?u k (htonl LAMB_DELIVER @ pack_deliver ?u ?d3) M = Some (htonl LAMB_DELIVER @ pack_deliver ?u ?d3)"
    using mo_turns_phone [OF _ fits M] codec(1) by simp
  have 5: "ismg_turn ie q (htonl LAMB_DELIVER @ pack_deliver ?u ?d3) I =
      Some [Cmpp_deliver q i (take 20 (ac_spcode (sv_account V))) (strncpy_z 11 phone) text fmt]"
    using ismg_turn_phone [of ie ?d3 q I] codec by (simp add: phone_from_server_def snprintf_z_def)
  show ?thesis using 1 2 3 4 5 by (simp add: report_path_def the_frame_def strncpy_z_def)
qed

text \<open>A subscriber writes to \<open>106909001\<close>, the gateway's code \<open>10690\<close> with the extension \<open>9001\<close>.\<close>

definition up_packet :: cmpp_pack_t where
  "up_packet = \<lparr>pk_commandId = CMPP_DELIVER, pk_sequenceId = 6,
     pk_integer = (\<lambda>f n. if f = cmpp_deliver_msg_id then 9 else if f = cmpp_deliver_registered_delivery then 0
        else if f = cmpp_deliver_msg_length then 2 else 15),
     pk_string = (\<lambda>f n l. if f = cmpp_deliver_src_terminal_id then ''13800138000''
        else if f = cmpp_deliver_dest_id then ''106909001'' else if f = cmpp_deliver_service_id then [] else ''hi'')\<rparr>"

lemma phone_up_packet: "phone_packet up_packet 9 ''13800138000'' ''106909001'' 15 ''hi''"
  by (simp add: phone_packet_def up_packet_def pack_byte_def pack_string_def memcpy_z_def zeroed_def cstr_def take_bit_eq_mod)

text \<open>A codec that keeps the three forms of the message apart by number and service id.\<close>

definition up_messages :: "Deliver list" where
  "up_messages = [phone_from_sp (pe_gateway example_sp_env) 9 ''13800138000'' ''106909001'' 15 ''hi'',
     phone_from_delivery 9 ''13800138000'' ''106909001'' 15 ''hi'', phone_from_server example_server 9 ''13800138000'' 15 ''hi'']"

definition up_pack :: "Deliver \<Rightarrow> bytes" where
  "up_pack d = dl_spcode d @ ''/'' @ dl_serviceid d"

definition up_codec :: upcodec where
  "up_codec = path_codec\<lparr>unpack_deliver := (\<lambda>b. find (\<lambda>d. up_pack d = b) up_messages), pack_deliver := up_pack\<rparr>"

theorem phone_message_reaches_client_witness:
  "\<exists>M k. report_path (example_sp_env\<lparr>pe_up := up_codec\<rparr>) (example_server_env\<lparr>se_up := up_codec\<rparr>)
     (example_client\<lparr>ie_up := up_codec\<rparr>) (\<lambda>p s n. True) 7 example_hashes up_packet
     (sp_initial 1 True) (d_init [example_route 7]) example_server k M 8 ismg_start 7 =
   Some ([Cmpp_deliver 8 9 ''1069'' ''13800138000'' ''hi'' 15], [(6, 9, 0)])"
proof -
  obtain M k where M: "pool_inv M" "pool_find 7 M = Some k" "pool_content M 7 = ([] :: upmsg list)"
    using path_pool by blast
  let ?e = "example_sp_env\<lparr>pe_up := up_codec\<rparr>"
  have "report_path ?e (example_server_env\<lparr>se_up := up_codec\<rparr>)
     (example_client\<lparr>ie_up := up_codec\<rparr>) (\<lambda>p s n. True) 7 example_hashes up_packet
     (sp_initial 1 True) (d_init [example_route 7]) example_server k M 8 ismg_start 7 =
   Some ([Cmpp_deliver 8 9 (take 20 (ac_spcode (sv_account example_server))) (take 11 ''13800138000'') ''hi'' 15], [(pk_sequenceId up_packet, 9, 0)])"
  proof (rule phone_message_reaches_client [OF phone_up_packet])
    show "pool_inv M" "pool_find 7 M = Some k" "pool_content M 7 = []" by (rule M)+
    show "pool_inv (d_pool (d_init [example_route 7]))" "\<not> d_sleeping (d_init [example_route 7])"
      "pool_content (d_pool (d_init [example_route 7])) 7 = []" by (simp_all add: d_init_def pool_inv_empty)
    show "\<not> sv_sleeping example_server" by (simp add: example_server_def)
    show "route_search (\<lambda>p s n. True) (strncpy_z 20 ''106909001'') (length ''106909001'') (d_routes (d_init [example_route 7])) = 7"
      by (simp add: d_init_def example_route_def lamb_check_delivery_def)
    show "\<forall>x \<in> {phone_from_sp (pe_gateway ?e) 9 ''13800138000'' ''106909001'' 15 ''hi'',
        phone_from_delivery 9 ''13800138000'' ''106909001'' 15 ''hi'', phone_from_server example_server 9 ''13800138000'' 15 ''hi''}.
        unpack_deliver (pe_up ?e) (pack_deliver (pe_up ?e) x) = Some x"
      by (simp add: up_codec_def up_messages_def up_pack_def phone_from_sp_def phone_from_delivery_def phone_from_server_def
          sp_service_def example_sp_env_def example_server_def example_account_def strncpy_z_def snprintf_z_def)
  qed (simp_all add: sp_initial_def)
  then show ?thesis using M by (auto simp: example_server_def example_account_def up_packet_def)
qed

end
