(* ===== verification/SubmitPath.thy ===== *)
theory SubmitPath
  imports ReportPath
begin

text \<open>
  The path of a submit through all processes: from the client's packet in \<open>ismg.c\<close> over \<open>mt.c\<close>,
  \<open>server.c\<close> and \<open>scheduler.c\<close> to the packet \<open>sp.c\<close> sends to the operator. Each process makes
  one turn in which nothing fails; the server's turn is evaluated once without an answer to its
  offer, for the frame it sends, and then with the scheduler's answer to that frame.
\<close>

subsection \<open>One turn of each process\<close>

definition mt_turns :: "(bytes \<Rightarrow> Submit option) \<Rightarrow> (Submit \<Rightarrow> bytes) \<Rightarrow> nat \<Rightarrow> bytes \<Rightarrow> lamb_submit_t pool \<Rightarrow> bytes option" where
  "mt_turns unpack pack k f M = do {
     (M1, out, stop) \<leftarrow> mt_push_loop unpack k (good_rx f) M;
     (M2, out, stop) \<leftarrow> mt_pull_loop pack k (good_rx (htonl LAMB_REQ)) M1;
     the_frame out }"

definition server_turn :: "server_env \<Rightarrow> Report \<Rightarrow> wturn \<Rightarrow> bytes \<Rightarrow> bytes option option list \<Rightarrow> server \<Rightarrow> (server \<times> wout) option" where
  "server_turn se resp w f answers V =
     lamb_work_loop se resp (w\<lparr>w_sent := True, w_buf := Some f, w_answers := answers\<rparr>) V"

definition sender_turn :: "sp_env \<Rightarrow> u32 \<Rightarrow> bytes \<Rightarrow> sp \<Rightarrow> cmpp_submit_t option" where
  "sender_turn e q f S = do {
     (S1, packet, delay) \<leftarrow> sp_sender_loop e
       \<lparr>x_sent = True, x_buf = Some f, x_sequence = q, x_error = False, x_timedout = False\<rparr> S;
     packet }"

text \<open>
  The whole path: the answers to the client, how the server's turn ends and its state, and the
  packet for the operator. \<open>km\<close> is the client's queue in mt, \<open>ks\<close> the gateway's in the scheduler.
\<close>

definition submit_path ::
  "(bytes \<Rightarrow> Submit option) \<Rightarrow> (Submit \<Rightarrow> bytes) \<Rightarrow> ismg_env \<Rightarrow> iturn \<Rightarrow> ismg \<Rightarrow> nat \<Rightarrow> lamb_submit_t pool \<Rightarrow>
   server_env \<Rightarrow> Report \<Rightarrow> wturn \<Rightarrow> server \<Rightarrow> lamb_channel_t list \<Rightarrow> nat \<Rightarrow> lamb_submit_t pool \<Rightarrow> sp_env \<Rightarrow> u32 \<Rightarrow> sp \<Rightarrow>
   (canswer list \<times> work_end \<times> server \<times> cmpp_submit_t) option" where
  "submit_path unpack pack ie t I km M se resp w V channels ks P e q S = do {
     (I1, io) \<leftarrow> ismg_work_loop ie t I;
     f1 \<leftarrow> the_frame (io_frames io);
     f2 \<leftarrow> mt_turns unpack pack km f1 M;
     (V0, offer) \<leftarrow> server_turn se resp w f2 [] V;
     f3 \<leftarrow> wo_packet offer;
     (P1, answers, stop) \<leftarrow> sched_push_loop unpack channels (good_rx f3) P;
     a \<leftarrow> the_frame answers;
     (V1, done) \<leftarrow> server_turn se resp w f2 [Some (Some a)] V;
     (P2, out, stop) \<leftarrow> sched_pull_loop pack ks (good_rx (htonl LAMB_REQ)) P1;
     f4 \<leftarrow> the_frame out;
     packet \<leftarrow> sender_turn e q f4 S;
     Some (io_answers io, wo_end done, V1, packet) }"

subsection \<open>Stage by stage\<close>

text \<open>A packet of a client with these fields, which the front end can take into its buffers.\<close>

definition client_submit :: "cmpp_pack_t \<Rightarrow> string \<Rightarrow> string \<Rightarrow> int \<Rightarrow> bytes \<Rightarrow> bool" where
  "client_submit p phone code fmt text \<longleftrightarrow>
     pk_commandId p = CMPP_SUBMIT \<and>
     pk_string p cmpp_submit_dest_terminal_id 21 20 = phone @ [NUL] \<and> c_string phone \<and> length phone \<le> 20 \<and>
     pk_string p cmpp_submit_src_id 21 20 = code @ [NUL] \<and> c_string code \<and> length code \<le> 20 \<and>
     pack_byte p cmpp_submit_msg_fmt = fmt \<and> fmt \<in> set ismg_formats \<and>
     pack_byte p cmpp_submit_msg_length = int (length text) \<and> 1 \<le> length text \<and> length text \<le> 159 \<and>
     pk_string p cmpp_submit_msg_content 160 (length text) = text"

definition the_submit :: "account_bufs \<Rightarrow> u64 \<Rightarrow> string \<Rightarrow> string \<Rightarrow> int \<Rightarrow> bytes \<Rightarrow> Submit" where
  "the_submit a i phone code fmt text =
     \<lparr>sb_id = i, sb_account = ab_id a, sb_company = ab_company a, sb_spid = cstr (ab_username a), sb_spcode = code,
      sb_phone = phone, sb_msgfmt = fmt, sb_length = int (length text), sb_content = text\<rparr>"

definition next_msgid :: "ismg_env \<Rightarrow> iturn \<Rightarrow> ismg \<Rightarrow> u64" where
  "next_msgid ie t I = lamb_gen_msgid (ie_gen ie) (i_tm t) (ie_gid ie) (fst (lamb_sequence (ig_sequence I)))"

lemma fill_string:
  assumes "c_string s" and "length s < length buf"
  shows "\<exists>b. fill buf (s @ [NUL]) = Some b \<and> cstr b = s \<and> length b = length buf"
  using assms cstr_append_NUL [OF assms(1)] by (simp add: fill_def overwrite_def)

lemma ismg_takes_submit:
  assumes p: "client_submit p phone code fmt text" and I: "ismg_buffers I" and t: "i_recv t = Inr p" "i_pk t" "i_frame t" "i_sent t"
  shows "\<exists>I1. ismg_work_loop ie t I = Some (I1, no_iout\<lparr>io_answers := [Submit_resp (pk_sequenceId p) (next_msgid ie t I) 0],
     io_frames := [htonl LAMB_SUBMIT @ ie_pack ie (the_submit (ie_account ie) (next_msgid ie t I) phone code fmt text)]\<rparr>)"
proof -
  obtain ph where ph: "fill (ig_phone I) (phone @ [NUL]) = Some ph" "cstr ph = phone"
    using fill_string [of phone "ig_phone I"] p I by (auto simp: client_submit_def ismg_buffers_def)
  obtain sc where sc: "fill (ig_spcode I) (code @ [NUL]) = Some sc" "cstr sc = code"
    using fill_string [of code "ig_spcode I"] p I by (auto simp: client_submit_def ismg_buffers_def)
  have c: "fill (ig_content I) text = Some (overwrite (ig_content I) text)" "take (length text) (overwrite (ig_content I) text) = text"
    using p I by (simp_all add: client_submit_def ismg_buffers_def fill_def overwrite_def)
  have fmt: "lamb_check_format fmt ismg_formats" using p by (auto simp: client_submit_def lamb_check_format_def)
  obtain v seq where v: "lamb_sequence (ig_sequence I) = (v, seq)" by fastforce
  have id: "next_msgid ie t I = lamb_gen_msgid (ie_gen ie) (i_tm t) (ie_gid ie) v" by (simp add: next_msgid_def v)
  have len: "\<not> (int (length text) > 159 \<or> int (length text) < 1)" using p by (auto simp: client_submit_def)
  have "\<exists>I1. ismg_submit ie t p I = Some (I1, next_msgid ie t I, 0,
      [htonl LAMB_SUBMIT @ ie_pack ie (the_submit (ie_account ie) (next_msgid ie t I) phone code fmt text)])"
    using p t(2-4) ph sc c fmt len
    by (simp add: ismg_submit_def client_submit_def v id Let_def lamb_pack_assembly_def ismg_message_def the_submit_def)
  then show ?thesis using p t(1) by (auto simp: ismg_work_loop_def client_submit_def)
qed

text \<open>What a broker keeps of a submit: its character fields cut to their widths.\<close>

definition mt_cut :: "Submit \<Rightarrow> Submit" where
  "mt_cut m = m\<lparr>sb_spid := strncpy_z 6 (sb_spid m), sb_spcode := strncpy_z 20 (sb_spcode m), sb_phone := strncpy_z 11 (sb_phone m)\<rparr>"

lemma mt_turns_submit:
  assumes "unpack (pack m) = Some m" and m: "sb_length m = int (length (sb_content m))" "length (sb_content m) \<le> 160"
    and inv: "pool_inv M" and k: "pool_find i M = Some k" and empty: "pool_content M i = []"
  shows "mt_turns unpack pack k (htonl LAMB_SUBMIT @ pack m) M = Some (htonl LAMB_SUBMIT @ pack (mt_cut m))"
proof -
  obtain x where x: "submit_store m = Some x" using submit_store_Some_iff m(2) by blast
  then have load: "submit_load x = Some (mt_cut m)" using submit_store_load [OF x m(1)] by (simp add: mt_cut_def)
  let ?M = "pool_push True k x M"
  have push: "mt_push_loop unpack k (good_rx (htonl LAMB_SUBMIT @ pack m)) M = Some (?M, [], False)"
    using assms(1) x by (simp add: mt_push_loop_def good_rx_def)
  have "pool_content ?M i = [x]" using pool_push_content [OF inv k] empty by simp
  then obtain M2 where "pool_pop k ?M = (Some x, M2)"
    using pool_pop_content(1) [of ?M i k] pool_inv_push [OF inv] k by (cases "pool_pop k ?M") auto
  then have "mt_pull_loop pack k (good_rx (htonl LAMB_REQ)) ?M = Some (M2, [htonl LAMB_SUBMIT @ pack (mt_cut m)], False)"
    using load by (simp add: mt_pull_loop_def good_rx_def)
  with push show ?thesis by (simp add: mt_turns_def the_frame_def)
qed

text \<open>The server: its checks look at neither the frame nor the answers.\<close>

lemma work_filter_turn:
  "work_filter se (w\<lparr>w_sent := a, w_buf := b, w_answers := c\<rparr>) V m st = work_filter se w V m st"
proof -
  let ?w = "w\<lparr>w_sent := a, w_buf := b, w_answers := c\<rparr>"
  have sel: "w_blacklist ?w = w_blacklist w" "w_unsubscribe ?w = w_unsubscribe w" "w_frequency ?w = w_frequency w"
    "w_tail ?w = w_tail w" "w_content ?w = w_content w" by simp_all
  have "work_lists se ?w V m st = work_lists se w V m st" unfolding work_lists_def sel by (rule refl)
  moreover have "work_content se ?w V x st' = work_content se w V x st'" for x st'
    unfolding work_content_def sel by (rule refl)
  ultimately show ?thesis unfolding work_filter_def sel by presburger
qed

definition submit_filter :: "server_env \<Rightarrow> wturn \<Rightarrow> server \<Rightarrow> Submit \<Rightarrow> (lamb_status_t \<times> (nat \<times> rcmd) list \<times> (int + Submit)) option" where
  "submit_filter se w V m = work_filter se w V m ((sv_status V)\<lparr>st_toal := st_toal (sv_status V) + 1\<rparr>)"

lemma server_turn_waits:
  assumes "se_unpack se (se_pack se m) = Some m" and "\<not> sv_sleeping V" "\<not> sv_arrears V"
    and "submit_filter se w V m = Some (st, cmds, Inr m1)" and "w_ok w"
  shows "server_turn se resp w (htonl LAMB_SUBMIT @ se_pack se m) [] V =
     Some (V\<lparr>sv_status := st\<rparr>, \<lparr>wo_end = Waiting m1, wo_mo = [], wo_packet = Some (htonl LAMB_SUBMIT @ se_pack se m1), wo_cmds = cmds\<rparr>)"
  using assms
  by (simp add: server_turn_def lamb_work_loop_def work_submit_def submit_filter_def work_filter_turn w_ok_def Let_def)

lemma server_turn_accepts:
  assumes "se_unpack se (se_pack se m) = Some m" and "\<not> sv_sleeping V" "\<not> sv_arrears V"
    and "submit_filter se w V m = Some (st, cmds, Inr m1)" and "w_ok w" and "length (sb_content m1) \<le> 160"
  shows "\<exists>V1 x. server_turn se resp w (htonl LAMB_SUBMIT @ se_pack se m) [Some (Some (htonl LAMB_OK))] V =
     Some (V1, \<lparr>wo_end = Accepted m1, wo_mo = [], wo_packet = Some (htonl LAMB_SUBMIT @ se_pack se m1), wo_cmds = cmds\<rparr>) \<and>
     sv_billing V1 = sv_billing V @ [\<lparr>bl_id = co_id (sv_company V), bl_money = -1\<rparr>] \<and>
     sv_storage V1 = sv_storage V @ [St_submit x] \<and> ls_id x = sb_id m1"
proof -
  let ?S = "V\<lparr>sv_status := st\<lparr>st_sub := st_sub st + 1\<rparr>\<rparr>"
  let ?B = "?S\<lparr>sv_billing := sv_billing V @ [\<lparr>bl_id = co_id (sv_company V), bl_money = -1\<rparr>]\<rparr>"
  obtain x where x: "storage_submit ?B m1 = Some x" "ls_id x = sb_id m1"
    using assms(6) by (auto simp: storage_submit_def submit_store_def memcpy_z_def)
  let ?w = "w\<lparr>w_sent := True, w_buf := Some (htonl LAMB_SUBMIT @ se_pack se m), w_answers := [Some (Some (htonl LAMB_OK))]\<rparr>"
  have "work_record ?w ?S m1 = Some (?B\<lparr>sv_storage := sv_storage V @ [St_submit x]\<rparr>)"
    using assms(5) x(1) by (simp add: work_record_def w_ok_def Let_def)
  then have "server_turn se resp w (htonl LAMB_SUBMIT @ se_pack se m) [Some (Some (htonl LAMB_OK))] V =
     Some (?B\<lparr>sv_storage := sv_storage V @ [St_submit x]\<rparr>,
       \<lparr>wo_end = Accepted m1, wo_mo = [], wo_packet = Some (htonl LAMB_SUBMIT @ se_pack se m1), wo_cmds = cmds\<rparr>)"
    using assms(1-5)
    by (simp add: server_turn_def lamb_work_loop_def work_submit_def submit_filter_def work_filter_turn w_ok_def Let_def)
  then show ?thesis using x(2) by simp
qed

lemma sched_turns_submit:
  assumes "unpack (pack m) = Some m" and "submit_fits m" and inv: "pool_inv P" and k: "pool_find (ch_id c) P = Some k"
    and empty: "pool_content P (ch_id c) = []" and serves: "lamb_check_operator c (sb_phone m)"
  shows "\<exists>P1 P2. sched_push_loop unpack (c # cs) (good_rx (htonl LAMB_SUBMIT @ pack m)) P = Some (P1, [htonl LAMB_OK], False) \<and>
     sched_pull_loop pack k (good_rx (htonl LAMB_REQ)) P1 = Some (P2, [htonl LAMB_SUBMIT @ pack m], False)"
proof -
  obtain x where x: "submit_store m = Some x" "submit_load x = Some m" using submit_fits_round [OF assms(2)] by blast
  have phone: "ls_phone x = sb_phone m" using x(2) by (auto simp: submit_load_def bind_eq_Some_conv)
  have room: "pool_len k P < 128" using empty k by (simp add: pool_content_def pool_len_def)
  let ?P = "pool_push True k x P"
  have "channel_search True x (c # cs) no_search P = (no_search\<lparr>f_available := True, f_operator := True, f_province := True, f_completed := True\<rparr>, ?P)"
    using serves phone k room by (simp add: lamb_check_province_def Let_def)
  then have push: "sched_push_loop unpack (c # cs) (good_rx (htonl LAMB_SUBMIT @ pack m)) P = Some (?P, [htonl LAMB_OK], False)"
    using assms(1) x(1) by (simp add: sched_push_loop_def good_rx_def answer_frame_def search_answer_def)
  have "pool_content ?P (ch_id c) = [x]" using pool_push_content [OF inv k] empty by simp
  then obtain P2 where "pool_pop k ?P = (Some x, P2)"
    using pool_pop_content(1) [of ?P "ch_id c" k] pool_inv_push [OF inv] k by (cases "pool_pop k ?P") auto
  then have "sched_pull_loop pack k (good_rx (htonl LAMB_REQ)) ?P = Some (P2, [htonl LAMB_SUBMIT @ pack m], False)"
    using x(2) by (simp add: sched_pull_loop_def good_rx_def)
  with push show ?thesis by blast
qed

lemma sender_turn_submit:
  assumes "pe_unpack e (pack m) = Some m" and "sp_ok S" and "sb_length m = int (length (sb_content m))"
    and "pe_conv e (sb_content m) ''UTF-8'' (snd (sp_coding (gw_encoding (pe_gateway e)))) 256 = Some text" and "text \<noteq> []"
    and "gw_concurrent (pe_gateway e) \<noteq> 0"
  shows "sender_turn e q (htonl LAMB_SUBMIT @ pack m) S = Some (sp_packet e q m text)"
proof -
  have "sp_convert e m = Some (Some text)" using assms(3-5) by (simp add: sp_convert_def)
  moreover obtain delay where "sp_delay (gw_concurrent (pe_gateway e)) = Some delay"
    using assms(6) by (cases "sp_delay (gw_concurrent (pe_gateway e))") (simp_all add: sp_delay_def split: if_splits)
  ultimately show ?thesis using assms(1,2) by (simp add: sender_turn_def sp_sender_loop_def Let_def)
qed

subsection \<open>The path\<close>

lemma submit_path_runs:
  assumes m: "m = the_submit (ie_account ie) (next_msgid ie t I) phone code fmt text"
    and m1: "submit_filter se w V (mt_cut m) = Some (st, cmds, Inr m1)"
    and codec: "\<forall>x \<in> {m, mt_cut m, m1}. unpack (pack x) = Some x" "ie_pack ie = pack" "se_pack se = pack" "se_unpack se = unpack"
      "pe_unpack e = unpack"
    and p: "client_submit p phone code fmt text" and user: "length (cstr (ab_username (ie_account ie))) \<le> 6"
    and I: "ismg_buffers I" "i_recv t = Inr p" "i_pk t" "i_frame t" "i_sent t"
    and M: "pool_inv M" "pool_find (ab_id (ie_account ie)) M = Some km" "pool_content M (ab_id (ie_account ie)) = []"
    and V: "\<not> sv_sleeping V" "\<not> sv_arrears V" "w_ok w" "length (sb_content m1) \<le> 160"
    and P: "lamb_check_operator c (strncpy_z 11 phone)" "pool_inv P" "pool_find (ch_id c) P = Some ks" "pool_content P (ch_id c) = []"
    and S: "sp_ok S" "gw_concurrent (pe_gateway e) \<noteq> 0" "out \<noteq> []"
      "pe_conv e (sb_content m1) ''UTF-8'' (snd (sp_coding (gw_encoding (pe_gateway e)))) 256 = Some out"
  shows "\<exists>V1 x packet. submit_path unpack pack ie t I km M se resp w V (c # cs) ks P e q S =
       Some ([Submit_resp (pk_sequenceId p) (next_msgid ie t I) 0], Accepted m1, V1, packet) \<and>
     sv_billing V1 = sv_billing V @ [\<lparr>bl_id = co_id (sv_company V), bl_money = -1\<rparr>] \<and>
     sv_storage V1 = sv_storage V @ [St_submit x] \<and> ls_id x = next_msgid ie t I \<and>
     sm_sequenceId packet = q \<and> sm_phone packet = strncpy_z 11 phone \<and> sm_content packet = out \<and> sm_length packet = length out \<and>
     sm_spcode packet = (if gw_extended (pe_gateway e) then take 20 (gw_spcode (pe_gateway e) @ code)
                         else gw_spcode (pe_gateway e))"
proof -
  let ?m = "mt_cut m"
  have content: "sb_length m = int (length (sb_content m))" "length (sb_content m) \<le> 160"
    using p by (simp_all add: m the_submit_def client_submit_def)
  have fields: "sb_id ?m = next_msgid ie t I" "sb_phone ?m = strncpy_z 11 phone" "sb_spcode ?m = code"
      "sb_spid ?m = cstr (ab_username (ie_account ie))" "sb_length ?m = int (length text)" "sb_content ?m = text"
    using p user by (simp_all add: m the_submit_def mt_cut_def client_submit_def)
  have fits: "submit_fits ?m" using p user fields by (simp add: submit_fits_def client_submit_def length_strncpy_z)
  have checked: "checked se w V ?m m1" using work_filter_pass [OF m1 [unfolded submit_filter_def]] by blast
  then have m1_is: "m1 = ?m\<lparr>sb_length := sb_length m1, sb_msgfmt := 11, sb_content := sb_content m1\<rparr>"
    and len1: "sb_length m1 = int (length (sb_content m1))"
    using fields by (auto simp: checked_def split: if_splits)
  have f1: "sb_id m1 = next_msgid ie t I" "sb_phone m1 = strncpy_z 11 phone" "sb_spcode m1 = code" "sb_spid m1 = sb_spid ?m"
    using fields by (subst m1_is; simp)+
  have fits1: "submit_fits m1" using fits f1 fields len1 V(4) by (simp add: submit_fits_def)
  obtain I1 where 1: "ismg_work_loop ie t I = Some (I1, no_iout\<lparr>io_answers := [Submit_resp (pk_sequenceId p) (next_msgid ie t I) 0],
      io_frames := [htonl LAMB_SUBMIT @ pack m]\<rparr>)"
    using ismg_takes_submit [OF p I, of ie] codec(2) m by auto
  have 2: "mt_turns unpack pack km (htonl LAMB_SUBMIT @ pack m) M = Some (htonl LAMB_SUBMIT @ pack ?m)"
    using mt_turns_submit [OF _ content M] codec(1) by simp
  have se: "se_unpack se (se_pack se ?m) = Some ?m" using codec by simp
  obtain V0 where 3: "server_turn se resp w (htonl LAMB_SUBMIT @ pack ?m) [] V =
      Some (V0, \<lparr>wo_end = Waiting m1, wo_mo = [], wo_packet = Some (htonl LAMB_SUBMIT @ pack m1), wo_cmds = cmds\<rparr>)"
    using server_turn_waits [OF se V(1,2) m1 V(3)] codec(3) by simp
  obtain V1 x where 4: "server_turn se resp w (htonl LAMB_SUBMIT @ pack ?m) [Some (Some (htonl LAMB_OK))] V =
      Some (V1, \<lparr>wo_end = Accepted m1, wo_mo = [], wo_packet = Some (htonl LAMB_SUBMIT @ pack m1), wo_cmds = cmds\<rparr>)"
    and V1: "sv_billing V1 = sv_billing V @ [\<lparr>bl_id = co_id (sv_company V), bl_money = -1\<rparr>]"
      "sv_storage V1 = sv_storage V @ [St_submit x]" "ls_id x = next_msgid ie t I"
    using server_turn_accepts [OF se V(1,2) m1 V(3,4), of resp] codec(3) f1(1) by auto
  obtain P1 P2 where 5: "sched_push_loop unpack (c # cs) (good_rx (htonl LAMB_SUBMIT @ pack m1)) P = Some (P1, [htonl LAMB_OK], False)"
      "sched_pull_loop pack ks (good_rx (htonl LAMB_REQ)) P1 = Some (P2, [htonl LAMB_SUBMIT @ pack m1], False)"
    using sched_turns_submit [OF _ fits1 P(2-4), of unpack pack cs] codec(1) P(1) f1(2) by auto
  have 6: "sender_turn e q (htonl LAMB_SUBMIT @ pack m1) S = Some (sp_packet e q m1 out)"
    using sender_turn_submit [OF _ S(1) len1 S(4,3,2), of pack q] codec by simp
  have "submit_path unpack pack ie t I km M se resp w V (c # cs) ks P e q S =
      Some ([Submit_resp (pk_sequenceId p) (next_msgid ie t I) 0], Accepted m1, V1, sp_packet e q m1 out)"
    using 1 2 3 4 5 6 by (simp add: submit_path_def the_frame_def)
  moreover have "sm_spcode (sp_packet e q m1 out) = (if gw_extended (pe_gateway e) then take 20 (gw_spcode (pe_gateway e) @ code)
      else gw_spcode (pe_gateway e))"
    using f1(3) by (simp add: sp_packet_def sp_code_def snprintf_z_def)
  ultimately show ?thesis using V1 f1(2) by (auto simp: sp_packet_def)
qed

text \<open>
  C2: A submit travels from the client to the operator: a well-formed submit of a client, whose
  account's server passes it and whose first channel serves its number and is idle, goes through the
  front end, mt, the server, the scheduler and the gateway client. The client is answered once,
  with success; the server charges the company once and records the message once; and the operator
  gets one submit with the client's number, its text in the gateway's encoding, and the client's
  code behind the gateway's if that is extended.
\<close>

theorem submit_reaches_operator:
  assumes m: "m = the_submit (ie_account ie) (next_msgid ie t I) phone code fmt text"
    and m1: "submit_filter se w V m = Some (st, cmds, Inr m1)"
    and codec: "\<forall>x \<in> {m, m1}. unpack (pack x) = Some x" "ie_pack ie = pack" "se_pack se = pack" "se_unpack se = unpack"
      "pe_unpack e = unpack"
    and p: "client_submit p phone code fmt text" "length phone \<le> 11" and user: "length (cstr (ab_username (ie_account ie))) \<le> 6"
    and I: "ismg_buffers I" "i_recv t = Inr p" "i_pk t" "i_frame t" "i_sent t"
    and M: "pool_inv M" "pool_find (ab_id (ie_account ie)) M = Some km" "pool_content M (ab_id (ie_account ie)) = []"
    and V: "\<not> sv_sleeping V" "\<not> sv_arrears V" "w_ok w" "length (sb_content m1) \<le> 160"
    and P: "lamb_check_operator c phone" "pool_inv P" "pool_find (ch_id c) P = Some ks" "pool_content P (ch_id c) = []"
    and S: "sp_ok S" "gw_concurrent (pe_gateway e) \<noteq> 0" "out \<noteq> []"
      "pe_conv e (sb_content m1) ''UTF-8'' (snd (sp_coding (gw_encoding (pe_gateway e)))) 256 = Some out"
  shows "\<exists>V1 x packet. submit_path unpack pack ie t I km M se resp w V (c # cs) ks P e q S =
       Some ([Submit_resp (pk_sequenceId p) (next_msgid ie t I) 0], Accepted m1, V1, packet) \<and>
     sv_billing V1 = sv_billing V @ [\<lparr>bl_id = co_id (sv_company V), bl_money = -1\<rparr>] \<and>
     sv_storage V1 = sv_storage V @ [St_submit x] \<and> ls_id x = next_msgid ie t I \<and>
     sm_sequenceId packet = q \<and> sm_phone packet = phone \<and> sm_content packet = out \<and> sm_length packet = length out \<and>
     sm_spcode packet = (if gw_extended (pe_gateway e) then take 20 (gw_spcode (pe_gateway e) @ code)
                         else gw_spcode (pe_gateway e))"
proof -
  have m': "mt_cut m = m" using p user by (simp add: m mt_cut_def the_submit_def client_submit_def)
  have phone: "strncpy_z 11 phone = phone" using p(2) by simp
  have codec': "\<forall>x \<in> {m, mt_cut m, m1}. unpack (pack x) = Some x" using codec(1) m' by simp
  have m1': "submit_filter se w V (mt_cut m) = Some (st, cmds, Inr m1)" using m1 m' by simp
  have P': "lamb_check_operator c (strncpy_z 11 phone)" using P(1) phone by simp
  show ?thesis by (rule submit_path_runs [OF m m1' codec' codec(2-5) p(1) user I M V P' P(2-4) S, unfolded phone])
qed

text \<open>
  C15: A number of more than 11 characters is not refused but cut: the front end accepts up to 20,
  as in the international form with the country code, and answers with success, but mt keeps only
  the first 11. Everything after that, the black list, the routing, the charge and the packet for
  the operator, is for the number that is left, another one.
\<close>

theorem long_phone_cut:
  assumes m: "m = the_submit (ie_account ie) (next_msgid ie t I) phone code fmt text"
    and long: "11 < length phone" and m1: "submit_filter se w V (m\<lparr>sb_phone := take 11 phone\<rparr>) = Some (st, cmds, Inr m1)"
    and codec: "\<forall>x \<in> {m, m\<lparr>sb_phone := take 11 phone\<rparr>, m1}. unpack (pack x) = Some x" "ie_pack ie = pack" "se_pack se = pack" "se_unpack se = unpack"
      "pe_unpack e = unpack"
    and p: "client_submit p phone code fmt text" and user: "length (cstr (ab_username (ie_account ie))) \<le> 6"
    and I: "ismg_buffers I" "i_recv t = Inr p" "i_pk t" "i_frame t" "i_sent t"
    and M: "pool_inv M" "pool_find (ab_id (ie_account ie)) M = Some km" "pool_content M (ab_id (ie_account ie)) = []"
    and V: "\<not> sv_sleeping V" "\<not> sv_arrears V" "w_ok w" "length (sb_content m1) \<le> 160"
    and P: "lamb_check_operator c (take 11 phone)" "pool_inv P" "pool_find (ch_id c) P = Some ks" "pool_content P (ch_id c) = []"
    and S: "sp_ok S" "gw_concurrent (pe_gateway e) \<noteq> 0" "out \<noteq> []"
      "pe_conv e (sb_content m1) ''UTF-8'' (snd (sp_coding (gw_encoding (pe_gateway e)))) 256 = Some out"
  shows "\<exists>V1 x packet. submit_path unpack pack ie t I km M se resp w V (c # cs) ks P e q S =
       Some ([Submit_resp (pk_sequenceId p) (next_msgid ie t I) 0], Accepted m1, V1, packet) \<and>
     sv_billing V1 = sv_billing V @ [\<lparr>bl_id = co_id (sv_company V), bl_money = -1\<rparr>] \<and>
     sv_storage V1 = sv_storage V @ [St_submit x] \<and> ls_id x = next_msgid ie t I \<and>
     sm_phone packet = take 11 phone \<and> sm_phone packet \<noteq> phone"
proof -
  have m': "mt_cut m = m\<lparr>sb_phone := take 11 phone\<rparr>"
    using p user by (simp add: m mt_cut_def the_submit_def client_submit_def strncpy_z_def)
  have phone: "strncpy_z 11 phone = take 11 phone" by (simp add: strncpy_z_def)
  have codec': "\<forall>x \<in> {m, mt_cut m, m1}. unpack (pack x) = Some x" using codec(1) m' by simp
  have other: "take 11 phone \<noteq> phone" using long by (auto dest: arg_cong [where f = length])
  have m1': "submit_filter se w V (mt_cut m) = Some (st, cmds, Inr m1)" using m1 m' by simp
  have P': "lamb_check_operator c (strncpy_z 11 phone)" using P(1) phone by simp
  from submit_path_runs [OF m m1' codec' codec(2-5) p user I M V P' P(2-4) S, unfolded phone, of resp cs q]
  obtain V1 x packet where "submit_path unpack pack ie t I km M se resp w V (c # cs) ks P e q S =
       Some ([Submit_resp (pk_sequenceId p) (next_msgid ie t I) 0], Accepted m1, V1, packet)"
    "sv_billing V1 = sv_billing V @ [\<lparr>bl_id = co_id (sv_company V), bl_money = -1\<rparr>]"
    "sv_storage V1 = sv_storage V @ [St_submit x]" "ls_id x = next_msgid ie t I" "sm_phone packet = take 11 phone"
    by blast
  with other show ?thesis by (intro exI [of _ V1] exI [of _ x] exI [of _ packet]) simp
qed

definition path_submit :: cmpp_pack_t where
  "path_submit = \<lparr>pk_commandId = CMPP_SUBMIT, pk_sequenceId = 5,
     pk_integer = (\<lambda>f n. if f = cmpp_submit_msg_fmt then 11 else if f = cmpp_submit_msg_length then 5 else 0),
     pk_string = (\<lambda>f n l. if f = cmpp_submit_dest_terminal_id then ''13800138000'' @ [NUL]
        else if f = cmpp_submit_src_id then ''10690'' @ [NUL] else ''hello'')\<rparr>"

lemma client_path_submit: "client_submit path_submit ''13800138000'' ''10690'' 11 ''hello''"
  by (simp add: client_submit_def path_submit_def pack_byte_def ismg_formats_def c_string_def take_bit_eq_mod)

definition path_message :: Submit where
  "path_message = the_submit (ie_account example_client) 1 ''13800138000'' ''10690'' 11 ''hello''"

definition path_unpack :: "bytes \<Rightarrow> Submit option" where
  "path_unpack b = (if b = ''hello'' then Some path_message else None)"

lemma path_msgid: "next_msgid (example_client\<lparr>ie_pack := f\<rparr>) (example_iturn p) ismg_start = 1"
  by (simp add: next_msgid_def lamb_gen_msgid_def example_client_def ismg_start_def lamb_sequence_def)

lemma path_filter_phone:
  "submit_filter e (example_wturn [] []) example_server (path_message\<lparr>sb_phone := x\<rparr>) =
     Some ((sv_status example_server)\<lparr>st_toal := st_toal (sv_status example_server) + 1\<rparr>, [], Inr (path_message\<lparr>sb_phone := x\<rparr>))"
proof -
  have "work_fromcode (sb_msgfmt path_message) = Some None" by (simp add: path_message_def the_submit_def work_fromcode_def)
  moreover have "work_lists e w example_server m st = Some (st, [], False)" for w m st
    by (simp add: work_lists_def example_server_def example_account_def bit_iff_odd)
  moreover have "work_content e (example_wturn [] []) example_server (path_message\<lparr>sb_phone := x\<rparr>) st = Some (st, False)" for st
    by (simp add: work_content_def example_server_def example_account_def example_wturn_def path_message_def the_submit_def
        lamb_check_keyword_def cstr_def bit_iff_odd)
  ultimately show ?thesis by (simp add: submit_filter_def work_filter_def work_convert_def)
qed

lemma path_filter:
  "submit_filter e (example_wturn [] []) example_server path_message =
     Some ((sv_status example_server)\<lparr>st_toal := st_toal (sv_status example_server) + 1\<rparr>, [], Inr path_message)"
  using path_filter_phone [of e "sb_phone path_message"] by simp

definition path_channel :: lamb_channel_t where
  "path_channel = \<lparr>ch_id = 12, ch_acc = 2, ch_weight = 1, ch_operator = 15\<rparr>"

theorem submit_reaches_operator_witness:
  "\<exists>km M ks P V1 packet. submit_path path_unpack sb_content (example_client\<lparr>ie_pack := sb_content\<rparr>) (example_iturn path_submit)
       ismg_start km M (example_server_env\<lparr>se_unpack := path_unpack\<rparr>) example_report (example_wturn [] []) example_server
       [path_channel] ks P (example_sp_env\<lparr>pe_unpack := path_unpack\<rparr>) 8 (sp_initial 1 True) =
     Some ([Submit_resp 5 1 0], Accepted path_message, V1, packet) \<and>
   sm_phone packet = ''13800138000'' \<and> sm_content packet = ''hello''"
proof -
  let ?ie = "example_client\<lparr>ie_pack := sb_content\<rparr>" and ?t = "example_iturn path_submit"
    and ?se = "example_server_env\<lparr>se_unpack := path_unpack\<rparr>" and ?e = "example_sp_env\<lparr>pe_unpack := path_unpack\<rparr>"
  obtain M :: "lamb_submit_t pool" and km where M: "pool_inv M" "pool_find (ab_id (ie_account ?ie)) M = Some km"
    "pool_content M (ab_id (ie_account ?ie)) = []" using path_pool by blast
  obtain P :: "lamb_submit_t pool" and ks where P: "pool_inv P" "pool_find (ch_id path_channel) P = Some ks"
    "pool_content P (ch_id path_channel) = []" using path_pool by blast
  have m: "path_message = the_submit (ie_account ?ie) (next_msgid ?ie ?t ismg_start) ''13800138000'' ''10690'' 11 ''hello''"
    by (simp add: path_msgid path_message_def)
  have codec: "\<forall>x \<in> {path_message, path_message}. path_unpack (sb_content x) = Some x"
    by (simp add: path_unpack_def path_message_def the_submit_def)
  have short: "length ''13800138000'' \<le> 11" by simp
  have user: "length (cstr (ab_username (ie_account ?ie))) \<le> 6"
    by (simp add: example_client_def cstr_def zeroed_def)
  have I: "ismg_buffers ismg_start" by (simp add: ismg_buffers_def ismg_start_def zeroed_def)
  have t: "i_recv ?t = Inr path_submit" "i_pk ?t" "i_frame ?t" "i_sent ?t" by (simp_all add: example_iturn_def)
  have V: "\<not> sv_sleeping example_server" "\<not> sv_arrears example_server" "w_ok (example_wturn [] [])"
    "length (sb_content path_message) \<le> 160"
    by (simp_all add: example_server_def example_wturn_def w_ok_def path_message_def the_submit_def)
  have c: "lamb_check_operator path_channel ''13800138000''"
    by (simp add: lamb_check_operator_def path_channel_def cmcc_def LAMB_CMCC_def)
  have S: "sp_ok (sp_initial 1 True)" "gw_concurrent (pe_gateway ?e) \<noteq> 0" "sb_content path_message \<noteq> []"
    "pe_conv ?e (sb_content path_message) ''UTF-8'' (snd (sp_coding (gw_encoding (pe_gateway ?e)))) 256 = Some (sb_content path_message)"
    by (simp_all add: sp_initial_def example_sp_env_def path_message_def the_submit_def)
  have same: "ie_pack ?ie = sb_content" "se_pack ?se = sb_content" "se_unpack ?se = path_unpack" "pe_unpack ?e = path_unpack"
    by (simp_all add: example_server_env_def)
  have eqs: "sb_content path_message = ''hello''" "pk_sequenceId path_submit = 5"
    by (simp_all add: path_message_def the_submit_def path_submit_def)
  show ?thesis
    using submit_reaches_operator [OF m path_filter codec same client_path_submit short user I t M V c P S, of example_report "[]" 8]
    unfolding path_msgid eqs by blast
qed

text \<open>The same submit with the country code before the number.\<close>

definition abroad_submit :: cmpp_pack_t where
  "abroad_submit = path_submit\<lparr>pk_string := (\<lambda>f n l. if f = cmpp_submit_dest_terminal_id then ''8613800138000'' @ [NUL]
     else pk_string path_submit f n l)\<rparr>"

definition abroad_message :: Submit where
  "abroad_message = path_message\<lparr>sb_phone := ''8613800138000''\<rparr>"

definition abroad_unpack :: "bytes \<Rightarrow> Submit option" where
  "abroad_unpack b = (if b \<in> {''8613800138000'', ''86138001380''} then Some (path_message\<lparr>sb_phone := b\<rparr>) else None)"

lemma client_abroad_submit: "client_submit abroad_submit ''8613800138000'' ''10690'' 11 ''hello''"
  by (simp add: client_submit_def abroad_submit_def path_submit_def pack_byte_def ismg_formats_def c_string_def take_bit_eq_mod)

theorem long_phone_cut_witness:
  "\<exists>km M ks P V1 m packet. submit_path abroad_unpack sb_phone (example_client\<lparr>ie_pack := sb_phone\<rparr>) (example_iturn abroad_submit)
       ismg_start km M (example_server_env\<lparr>se_unpack := abroad_unpack, se_pack := sb_phone\<rparr>) example_report (example_wturn [] [])
       example_server [path_channel] ks P (example_sp_env\<lparr>pe_unpack := abroad_unpack\<rparr>) 8 (sp_initial 1 True) =
     Some ([Submit_resp 5 1 0], Accepted m, V1, packet) \<and>
   sm_phone packet = ''86138001380''"
proof -
  let ?ie = "example_client\<lparr>ie_pack := sb_phone\<rparr>" and ?t = "example_iturn abroad_submit"
    and ?se = "example_server_env\<lparr>se_unpack := abroad_unpack, se_pack := sb_phone\<rparr>"
    and ?e = "example_sp_env\<lparr>pe_unpack := abroad_unpack\<rparr>"
  let ?m1 = "abroad_message\<lparr>sb_phone := take 11 ''8613800138000''\<rparr>"
  obtain M :: "lamb_submit_t pool" and km where M: "pool_inv M" "pool_find (ab_id (ie_account ?ie)) M = Some km"
    "pool_content M (ab_id (ie_account ?ie)) = []" using path_pool by blast
  obtain P :: "lamb_submit_t pool" and ks where P: "pool_inv P" "pool_find (ch_id path_channel) P = Some ks"
    "pool_content P (ch_id path_channel) = []" using path_pool by blast
  have m: "abroad_message = the_submit (ie_account ?ie) (next_msgid ?ie ?t ismg_start) ''8613800138000'' ''10690'' 11 ''hello''"
    by (simp add: path_msgid abroad_message_def path_message_def the_submit_def)
  have long: "11 < length ''8613800138000''" by simp
  have f: "submit_filter ?se (example_wturn [] []) example_server ?m1 =
      Some ((sv_status example_server)\<lparr>st_toal := st_toal (sv_status example_server) + 1\<rparr>, [], Inr ?m1)"
    using path_filter_phone [of ?se "take 11 ''8613800138000''"] by (simp add: abroad_message_def)
  have codec: "\<forall>x \<in> {abroad_message, ?m1, ?m1}. abroad_unpack (sb_phone x) = Some x"
    by (simp add: abroad_unpack_def abroad_message_def)
  have same: "ie_pack ?ie = sb_phone" "se_pack ?se = sb_phone" "se_unpack ?se = abroad_unpack" "pe_unpack ?e = abroad_unpack" by simp_all
  have user: "length (cstr (ab_username (ie_account ?ie))) \<le> 6" by (simp add: example_client_def cstr_def zeroed_def)
  have I: "ismg_buffers ismg_start" by (simp add: ismg_buffers_def ismg_start_def zeroed_def)
  have t: "i_recv ?t = Inr abroad_submit" "i_pk ?t" "i_frame ?t" "i_sent ?t" by (simp_all add: example_iturn_def)
  have V: "\<not> sv_sleeping example_server" "\<not> sv_arrears example_server" "w_ok (example_wturn [] [])" "length (sb_content ?m1) \<le> 160"
    by (simp_all add: example_server_def example_wturn_def w_ok_def abroad_message_def path_message_def the_submit_def)
  have c: "lamb_check_operator path_channel (take 11 ''8613800138000'')"
    by (simp add: lamb_check_operator_def path_channel_def LAMB_MVNO_def)
  have S: "sp_ok (sp_initial 1 True)" "gw_concurrent (pe_gateway ?e) \<noteq> 0" "sb_content ?m1 \<noteq> []"
    "pe_conv ?e (sb_content ?m1) ''UTF-8'' (snd (sp_coding (gw_encoding (pe_gateway ?e)))) 256 = Some (sb_content ?m1)"
    by (simp_all add: sp_initial_def example_sp_env_def abroad_message_def path_message_def the_submit_def)
  have eqs: "next_msgid ?ie ?t ismg_start = 1" "pk_sequenceId abroad_submit = 5" "take 11 ''8613800138000'' = ''86138001380''"
    by (simp_all add: path_msgid abroad_submit_def path_submit_def)
  show ?thesis
    using long_phone_cut [OF m long f codec same client_abroad_submit user I t M V c P S, of example_report "[]" 8]
    unfolding eqs by blast
qed

subsection \<open>Text that does not fit\<close>

text \<open>
  C26: A text the gateway client cannot convert in full is not refused: as long as anything of it
  is converted into the buffer of 256 bytes, that part is sent to the operator as the whole
  message and counted as submitted. With a gateway of encoding 8 this is every text of more
  than 128 characters (the witness sends 160 and the operator gets 128).
\<close>

theorem sender_cuts_text:
  assumes "pe_conv e = lamb_encoded_convert lib" and "to = snd (sp_coding (gw_encoding (pe_gateway e)))"
    and "ic_open lib to ''UTF-8''" and "ic_run lib to ''UTF-8'' (sb_content m) 256 = (part, False)" and "part \<noteq> []"
    and "pe_unpack e (pack m) = Some m" and "sp_ok S" and "sb_length m = int (length (sb_content m))"
    and "gw_concurrent (pe_gateway e) \<noteq> 0"
  shows "\<exists>S' packet delay. sp_sender_loop e
       \<lparr>x_sent = True, x_buf = Some (htonl LAMB_SUBMIT @ pack m), x_sequence = q, x_error = False, x_timedout = False\<rparr> S =
       Some (S', Some packet, Some delay) \<and>
     sm_content packet = part \<and> sm_length packet = length part \<and> sm_phone packet = sb_phone m \<and>
     sx_sub (sp_status S') = sx_sub (sp_status S) + 1"
proof -
  have "sp_convert e m = Some (Some part)" using assms(1-5,8) by (simp add: sp_convert_def lamb_encoded_convert_def)
  moreover obtain delay where "sp_delay (gw_concurrent (pe_gateway e)) = Some delay"
    using assms(9) by (cases "sp_delay (gw_concurrent (pe_gateway e))") (simp_all add: sp_delay_def split: if_splits)
  ultimately show ?thesis using assms(6,7)
    by (simp add: sp_sender_loop_def sp_packet_def sp_submitted_def sp_caching_def Let_def)
qed

text \<open>A library that converts ASCII text to UCS-2BE, and copies otherwise.\<close>

definition ucs2_lib :: iconv_lib where
  "ucs2_lib = \<lparr>ic_open = (\<lambda>to from. True), ic_run = (\<lambda>to from s n.
     if to = ''UCS-2BE'' then (concat (map (\<lambda>c. [NUL, c]) (take (n div 2) s)), length s \<le> n div 2)
     else (take n s, length s \<le> n))\<rparr>"

definition long_message :: Submit where
  "long_message = path_message\<lparr>sb_content := replicate 160 (CHR ''a''), sb_length := 160\<rparr>"

definition ucs2_env :: sp_env where
  "ucs2_env = example_sp_env\<lparr>pe_gateway := (pe_gateway example_sp_env)\<lparr>gw_encoding := 8\<rparr>,
     pe_conv := lamb_encoded_convert ucs2_lib, pe_unpack := (\<lambda>b. if b = sb_content long_message then Some long_message else None)\<rparr>"

theorem sender_cuts_text_witness:
  "\<exists>S' packet delay. sp_sender_loop ucs2_env
       \<lparr>x_sent = True, x_buf = Some (htonl LAMB_SUBMIT @ sb_content long_message), x_sequence = 5, x_error = False, x_timedout = False\<rparr>
       (sp_initial 1 True) = Some (S', Some packet, Some delay) \<and>
     sm_content packet = concat (replicate 128 [NUL, CHR ''a'']) \<and> length (sb_content long_message) = 160"
proof -
  let ?part = "concat (replicate 128 [NUL, CHR ''a''])"
  have to: "''UCS-2BE'' = snd (sp_coding (gw_encoding (pe_gateway ucs2_env)))" by (simp add: ucs2_env_def sp_coding_def)
  have run: "ic_run ucs2_lib ''UCS-2BE'' ''UTF-8'' (sb_content long_message) 256 = (?part, False)"
    by (simp add: ucs2_lib_def long_message_def take_replicate map_replicate)
  have part: "?part \<noteq> []" by simp
  have rest: "pe_conv ucs2_env = lamb_encoded_convert ucs2_lib" "ic_open ucs2_lib ''UCS-2BE'' ''UTF-8''"
    "pe_unpack ucs2_env (sb_content long_message) = Some long_message" "sp_ok (sp_initial 1 True)"
    "sb_length long_message = int (length (sb_content long_message))" "gw_concurrent (pe_gateway ucs2_env) \<noteq> 0"
    by (simp_all add: ucs2_env_def ucs2_lib_def long_message_def sp_initial_def example_sp_env_def)
  have "length (sb_content long_message) = 160" by (simp add: long_message_def)
  with sender_cuts_text [where pack = sb_content and q = 5, OF rest(1) to rest(2) run part rest(3-6)] show ?thesis by blast
qed

end
