(* ===== verification/Pipeline.thy ===== *)
theory Pipeline
  imports SubmitPath "HOL-Library.Multiset" "HOL-Library.Sublist"
begin

text \<open>
  The way of submits through the running system: the front end of a client, mt, the account's
  server, the scheduler and the gateway clients, interleaved in any order at the granularity of
  their turns, with the PAIR sockets between front end and mt and between server and scheduler
  as queues of frames. The server offers a submit by sending it and waiting for the answer; a
  reload of its configuration in between cuts the connection, and it sends the submit again.

  Without such a reload every submit that was answered with success is in one place: on its way,
  in a queue, refused, or charged once and handed to one gateway. With one it can be in two.
\<close>

subsection \<open>The state\<close>

record pipe_env =
  pi_ismg :: ismg_env
  pi_server :: server_env
  pi_resp :: Report
  pi_channels :: "lamb_channel_t list"
  pi_sp :: "int \<Rightarrow> sp_env"
  pi_pack :: "Submit \<Rightarrow> bytes"
  pi_unpack :: "bytes \<Rightarrow> Submit option"
  pi_queue :: nat

text \<open>
  \<open>pp_turn\<close> is the submit the server is offering: the turn, the frame it got from mt, the answers
  so far. The rest are records of what happened: the frames sent to mt, those the server took,
  how it ended with them, the frames gateways were handed, the packets operators got.
\<close>

record pipe =
  pp_ismg :: ismg
  pp_open :: bool
  pp_link :: "bytes list"
  pp_mt :: "lamb_submit_t pool"
  pp_server :: server
  pp_turn :: "(wturn \<times> bytes \<times> bytes option option list) option"
  pp_to :: "bytes list"
  pp_from :: "bytes list"
  pp_sched :: "lamb_submit_t pool"
  pp_sps :: "int \<Rightarrow> sp"
  pp_answers :: "canswer list"
  pp_frames :: "bytes list"
  pp_taken :: "bytes list"
  pp_ends :: "work_end list"
  pp_handed :: "(int \<times> bytes) list"
  pp_packets :: "(int \<times> cmpp_submit_t) list"

definition pipe_init :: "lamb_submit_t pool \<Rightarrow> server \<Rightarrow> lamb_submit_t pool \<Rightarrow> (int \<Rightarrow> sp) \<Rightarrow> pipe" where
  "pipe_init M V P sps = \<lparr>pp_ismg = ismg_start, pp_open = True, pp_link = [], pp_mt = M, pp_server = V, pp_turn = None,
     pp_to = [], pp_from = [], pp_sched = P, pp_sps = sps, pp_answers = [], pp_frames = [], pp_taken = [], pp_ends = [],
     pp_handed = [], pp_packets = []\<rparr>"

subsection \<open>The steps\<close>

text \<open>
  A packet of the client arrives; mt takes a frame; the server asks mt for a submit; the
  scheduler takes a frame of the server; the server gets its answer; the server reloads its
  configuration while it waits for one; a gateway client asks the scheduler for a submit.
\<close>

datatype pact = Client iturn | Mt_take | Serve wturn | Route | Reply | Reload | Gateway int sturn

definition client_step :: "pipe_env \<Rightarrow> iturn \<Rightarrow> pipe \<Rightarrow> pipe option" where
  "client_step E t S =
     (if \<not> pp_open S then None
      else do {
        (I, out) \<leftarrow> ismg_work_loop (pi_ismg E) t (pp_ismg S);
        Some (S\<lparr>pp_ismg := I, pp_open := \<not> io_stop out, pp_link := pp_link S @ io_frames out,
                pp_answers := pp_answers S @ io_answers out, pp_frames := pp_frames S @ io_frames out\<rparr>) })"

definition mt_step :: "pipe_env \<Rightarrow> pipe \<Rightarrow> pipe option" where
  "mt_step E S =
     (case pp_link S of
        [] \<Rightarrow> None
      | f # fs \<Rightarrow> do {
          (M, out, stop) \<leftarrow> mt_push_loop (pi_unpack E) (pi_queue E) (good_rx f) (pp_mt S);
          Some (S\<lparr>pp_link := fs, pp_mt := M\<rparr>) })"

text \<open>
  The server starts a turn: unless it sleeps or has arrears, it pulls a frame. A submit its checks
  refuse ends there; one that passes is sent to the scheduler.
\<close>

definition serve_step :: "pipe_env \<Rightarrow> wturn \<Rightarrow> pipe \<Rightarrow> pipe option" where
  "serve_step E w S =
     (if pp_turn S \<noteq> None \<or> sv_sleeping (pp_server S) \<or> sv_arrears (pp_server S) then None
      else do {
        (M, out, stop) \<leftarrow> mt_pull_loop (pi_pack E) (pi_queue E) (good_rx (htonl LAMB_REQ)) (pp_mt S);
        f \<leftarrow> the_frame out;
        (V, r) \<leftarrow> server_turn (pi_server E) (pi_resp E) w f [] (pp_server S);
        Some (if CHECK_COMMAND f = LAMB_EMPTY then S
              else case wo_packet r of
                None \<Rightarrow> S\<lparr>pp_mt := M, pp_server := V, pp_taken := pp_taken S @ [f], pp_ends := pp_ends S @ [wo_end r]\<rparr>
              | Some p \<Rightarrow> S\<lparr>pp_mt := M, pp_taken := pp_taken S @ [f], pp_turn := Some (w, f, []), pp_to := pp_to S @ [p]\<rparr>) })"

definition route_step :: "pipe_env \<Rightarrow> pipe \<Rightarrow> pipe option" where
  "route_step E S =
     (case pp_to S of
        [] \<Rightarrow> None
      | p # ps \<Rightarrow> do {
          (P, out, stop) \<leftarrow> sched_push_loop (pi_unpack E) (pi_channels E) (good_rx p) (pp_sched S);
          Some (S\<lparr>pp_to := ps, pp_from := pp_from S @ out, pp_sched := P\<rparr>) })"

text \<open>
  The server has an answer, or \<open>nn_recv\<close> fails: its turn ends, or it sends the submit again. The
  turn is evaluated with the answers it got so far.
\<close>

definition hear :: "pipe_env \<Rightarrow> bytes option \<Rightarrow> pipe \<Rightarrow> pipe option" where
  "hear E a S =
     (case pp_turn S of
        None \<Rightarrow> None
      | Some (w, f, as) \<Rightarrow> do {
          (V, r) \<leftarrow> server_turn (pi_server E) (pi_resp E) w f (as @ [Some a]) (pp_server S);
          (case wo_end r of
             Waiting m \<Rightarrow> do { p \<leftarrow> wo_packet r; Some (S\<lparr>pp_turn := Some (w, f, as @ [Some a]), pp_to := pp_to S @ [p]\<rparr>) }
           | x \<Rightarrow> Some (S\<lparr>pp_turn := None, pp_server := V, pp_ends := pp_ends S @ [x]\<rparr>)) })"

definition reply_step :: "pipe_env \<Rightarrow> pipe \<Rightarrow> pipe option" where
  "reply_step E S = (case pp_from S of [] \<Rightarrow> None | a # as \<Rightarrow> hear E (Some a) (S\<lparr>pp_from := as\<rparr>))"

text \<open>
  A reload (\<open>lamb_reload\<close>) while the server waits: it closes the socket to the scheduler, with what
  is on it, and opens another, so that \<open>nn_recv\<close> fails. What it loads is taken to be unchanged.

  A submit that the old session of the scheduler still reads before the BYE is a \<open>Route\<close> step before
  the \<open>Reload\<close>, so that dropping what is left on the sockets is the case in which it does not. The
  flag \<open>sleeping\<close> and the wait of three seconds only keep the work loop from some of the turns the
  model allows around the reload: the runs of the code are among those of the model.
\<close>

definition reload_step :: "pipe_env \<Rightarrow> pipe \<Rightarrow> pipe option" where
  "reload_step E S = hear E None (S\<lparr>pp_to := [], pp_from := []\<rparr>)"

definition gateway_step :: "pipe_env \<Rightarrow> int \<Rightarrow> sturn \<Rightarrow> pipe \<Rightarrow> pipe option" where
  "gateway_step E g x S =
     (if \<not> sp_ok (pp_sps S g) then None
      else do {
        k \<leftarrow> pool_find g (pp_sched S);
        (P, out, stop) \<leftarrow> sched_pull_loop (pi_pack E) k (good_rx (htonl LAMB_REQ)) (pp_sched S);
        f \<leftarrow> the_frame out;
        (G, packet, delay) \<leftarrow> sp_sender_loop (pi_sp E g) (x\<lparr>x_sent := True, x_buf := Some f\<rparr>) (pp_sps S g);
        Some (S\<lparr>pp_sched := P, pp_sps := (pp_sps S)(g := G),
                pp_handed := pp_handed S @ (if CHECK_COMMAND f = LAMB_EMPTY then [] else [(g, f)]),
                pp_packets := pp_packets S @ (case packet of None \<Rightarrow> [] | Some q \<Rightarrow> [(g, q)])\<rparr>) })"

definition pipe_step :: "pipe_env \<Rightarrow> pact \<Rightarrow> pipe \<Rightarrow> pipe option" where
  "pipe_step E a S =
     (case a of
        Client t \<Rightarrow> client_step E t S
      | Mt_take \<Rightarrow> mt_step E S
      | Serve w \<Rightarrow> serve_step E w S
      | Route \<Rightarrow> route_step E S
      | Reply \<Rightarrow> reply_step E S
      | Reload \<Rightarrow> reload_step E S
      | Gateway g x \<Rightarrow> gateway_step E g x S)"

inductive pipe_reach :: "pipe_env \<Rightarrow> (pact \<Rightarrow> bool) \<Rightarrow> pipe \<Rightarrow> pipe \<Rightarrow> bool"
  for E :: pipe_env and allowed :: "pact \<Rightarrow> bool" and S0 :: pipe where
  pipe_start: "pipe_reach E allowed S0 S0"
| pipe_next: "pipe_reach E allowed S0 S \<Longrightarrow> allowed a \<Longrightarrow> pipe_step E a S = Some S' \<Longrightarrow> pipe_reach E allowed S0 S'"

primrec pipe_run :: "pipe_env \<Rightarrow> pact list \<Rightarrow> pipe \<Rightarrow> pipe option" where
  "pipe_run E [] S = Some S"
| "pipe_run E (a # as) S = do { S1 \<leftarrow> pipe_step E a S; pipe_run E as S1 }"

text \<open>No reload while the server waits, and it has memory.\<close>

definition steady :: "pact \<Rightarrow> bool" where
  "steady a = (case a of Reload \<Rightarrow> False | Serve w \<Rightarrow> w_ok w | _ \<Rightarrow> True)"

lemma pipe_run_reach: "pipe_reach E allowed S0 S \<Longrightarrow> pipe_run E as S = Some S' \<Longrightarrow> list_all allowed as \<Longrightarrow> pipe_reach E allowed S0 S'"
  by (induction as arbitrary: S) (auto simp: bind_eq_Some_conv intro: pipe_next)

subsection \<open>Where a submit is\<close>

text \<open>
  What the processes send of this client's submits, and the codec they share: it gives such a
  message back.
\<close>

definition on_wire :: "pipe_env \<Rightarrow> Submit \<Rightarrow> bool" where
  "on_wire E m \<longleftrightarrow> sb_account m = ab_id (ie_account (pi_ismg E)) \<and> sb_company m = ab_company (ie_account (pi_ismg E)) \<and>
     sb_msgfmt m \<in> set ismg_formats \<and> c_string (sb_spid m) \<and> c_string (sb_spcode m) \<and> c_string (sb_phone m) \<and>
     sb_length m = int (length (sb_content m)) \<and> sb_content m \<noteq> []"

definition pipe_env_ok :: "pipe_env \<Rightarrow> bool" where
  "pipe_env_ok E \<longleftrightarrow> ie_pack (pi_ismg E) = pi_pack E \<and> se_pack (pi_server E) = pi_pack E \<and>
     se_unpack (pi_server E) = pi_unpack E \<and> (\<forall>g. pe_unpack (pi_sp E g) = pi_unpack E) \<and>
     (\<forall>m. on_wire E m \<longrightarrow> pi_unpack E (pi_pack E m) = Some m)"

definition submit_frame :: "pipe_env \<Rightarrow> Submit \<Rightarrow> bytes" where
  "submit_frame E m = htonl LAMB_SUBMIT @ pi_pack E m"

definition frame_submit :: "pipe_env \<Rightarrow> bytes \<Rightarrow> Submit" where
  "frame_submit E f = the (pi_unpack E (drop HEAD f))"

definition mt_pass :: "pipe_env \<Rightarrow> bytes \<Rightarrow> bytes" where
  "mt_pass E f = submit_frame E (mt_cut (frame_submit E f))"

definition pipe_queued :: "pipe_env \<Rightarrow> pipe \<Rightarrow> bytes list" where
  "pipe_queued E S = map (mt_emit (pi_pack E)) (pool_content (pp_mt S) (ab_id (ie_account (pi_ismg E))))"

definition pipe_accepted :: "pipe \<Rightarrow> Submit list" where
  "pipe_accepted S = concat (map (\<lambda>x. case x of Accepted m \<Rightarrow> [m] | _ \<Rightarrow> []) (pp_ends S))"

text \<open>The submits in the queues of the gateways, and the one the scheduler has queued and the server not heard of.\<close>

definition pool_items :: "'m pool \<Rightarrow> 'm list" where
  "pool_items P = concat (map bq_items (pqueues P))"

definition pipe_scheduled :: "pipe_env \<Rightarrow> pipe \<Rightarrow> bytes list" where
  "pipe_scheduled E S = map (mt_emit (pi_pack E)) (pool_items (pp_sched S))"

definition pipe_routed :: "pipe_env \<Rightarrow> pipe \<Rightarrow> bytes list" where
  "pipe_routed E S =
     (case pp_turn S of
        None \<Rightarrow> []
      | Some (w, f, as) \<Rightarrow>
          (if pp_from S = [htonl LAMB_OK]
           then (case server_turn (pi_server E) (pi_resp E) w f as (pp_server S) of
                   Some (V, r) \<Rightarrow> (case wo_packet r of None \<Rightarrow> [] | Some p \<Rightarrow> [p])
                 | None \<Rightarrow> [])
           else []))"

lemma frame_submit_frame: "pipe_env_ok E \<Longrightarrow> on_wire E m \<Longrightarrow> frame_submit E (submit_frame E m) = m"
  by (simp add: frame_submit_def submit_frame_def pipe_env_ok_def HEAD_def)

lemma mt_pass_frame: "pipe_env_ok E \<Longrightarrow> on_wire E m \<Longrightarrow> mt_pass E (submit_frame E m) = submit_frame E (mt_cut m)"
  by (simp add: mt_pass_def frame_submit_frame)

lemma on_wire_cut: "on_wire E m \<Longrightarrow> on_wire E (mt_cut m)"
  by (simp add: on_wire_def mt_cut_def strncpy_z_def c_string_take)

lemma mt_cut_cut [simp]: "mt_cut (mt_cut m) = mt_cut m"
  by (simp add: mt_cut_def)

lemma stored_cut:
  assumes "submit_store m = Some x" and "on_wire E m"
  shows "submit_load x = Some (mt_cut m)" and "mt_emit (pi_pack E) x = submit_frame E (mt_cut m)"
  using submit_store_load [OF assms(1)] assms(2) by (simp_all add: on_wire_def mt_cut_def mt_emit_def submit_frame_def)

text \<open>A message in a queue: it is one of this client's, and loads.\<close>

definition in_queue :: "pipe_env \<Rightarrow> lamb_submit_t \<Rightarrow> bool" where
  "in_queue E x \<longleftrightarrow> (\<exists>m. submit_load x = Some m \<and> on_wire E m \<and> mt_cut m = m)"

lemma in_queue_store: "submit_store m = Some x \<Longrightarrow> on_wire E m \<Longrightarrow> in_queue E x"
  using stored_cut(1) on_wire_cut by (fastforce simp: in_queue_def)

lemma in_queue_emit: "in_queue E x \<Longrightarrow> \<exists>m. mt_emit (pi_pack E) x = submit_frame E m \<and> submit_load x = Some m \<and> on_wire E m \<and> mt_cut m = m"
  by (auto simp: in_queue_def mt_emit_def submit_frame_def)

subsection \<open>One step of each process\<close>

lemma cstr_c_string [simp]: "c_string (cstr b)"
  by (auto simp: c_string_def cstr_def dest: set_takeWhileD)

lemma fill_length: "fill buf src = Some b \<Longrightarrow> length b = length buf"
  by (auto simp: fill_def overwrite_def split: if_splits)

lemma ismg_submit_frame:
  assumes s: "ismg_submit e t p S = Some (S', i, r, out)" and S: "ismg_buffers S"
  shows "ismg_buffers S' \<and> (\<forall>f \<in> set out. \<exists>S3 fmt len. ismg_buffers S3 \<and> fmt \<in> set ismg_formats \<and> 1 \<le> len \<and> len \<le> 159 \<and>
     f = htonl LAMB_SUBMIT @ ie_pack e (ismg_message e i S3 fmt len))"
proof -
  obtain v seq where q: "lamb_sequence (ig_sequence S) = (v, seq)" by fastforce
  let ?fmt = "pack_byte p cmpp_submit_msg_fmt" and ?len = "pack_byte p cmpp_submit_msg_length"
  obtain phone code where b: "fill (ig_phone S) (pk_string p cmpp_submit_dest_terminal_id 21 20) = Some phone"
      "fill (ig_spcode S) (pk_string p cmpp_submit_src_id 21 20) = Some code"
    using s q by (auto simp: ismg_submit_def Let_def bind_eq_Some_conv)
  have l: "length phone = 21" "length code = 21" using b [THEN fill_length] S by (simp_all add: ismg_buffers_def)
  show ?thesis
  proof (cases "lamb_check_format ?fmt ismg_formats \<and> \<not> (?len > 159 \<or> ?len < 1)")
    case False
    then consider "\<not> lamb_check_format ?fmt ismg_formats" | "lamb_check_format ?fmt ismg_formats" "?len > 159 \<or> ?len < 1" by blast
    then show ?thesis
    proof cases
      case 1
      then show ?thesis using s q b l S by (auto simp: ismg_submit_def Let_def ismg_buffers_def)
    next
      case 2
      then have "out = [] \<and> ig_phone S' = phone \<and> ig_spcode S' = code \<and> ig_content S' = ig_content S"
        using s q b by (auto simp: ismg_submit_def Let_def)
      then show ?thesis using l S by (simp add: ismg_buffers_def)
    qed
  next
    case True
    then obtain content where c: "fill (ig_content S) (pk_string p cmpp_submit_msg_content 160 (nat ?len)) = Some content"
      using s q b by (auto simp: ismg_submit_def Let_def bind_eq_Some_conv)
    define S3 where "S3 = S\<lparr>ig_total := ig_total S + 1, ig_sequence := seq,
        ig_status := (ig_status S)\<lparr>iq_recv := iq_recv (ig_status S) + 1\<rparr>, ig_phone := phone, ig_spcode := code, ig_content := content\<rparr>"
    have out: "(out = [] \<or> out = [htonl LAMB_SUBMIT @ ie_pack e (ismg_message e i S3 ?fmt ?len)]) \<and>
        ig_phone S' = phone \<and> ig_spcode S' = code \<and> ig_content S' = content"
      using s q b c True
      by (cases "i_pk t"; cases "i_frame t"; cases "i_sent t") (auto simp: ismg_submit_def Let_def S3_def)
    have len: "length content = 160" using fill_length [OF c] S by (simp add: ismg_buffers_def)
    then have S3: "ismg_buffers S3" using l by (simp add: S3_def ismg_buffers_def)
    have fmt: "?fmt \<in> set ismg_formats" "1 \<le> ?len" "?len \<le> 159" using True by (auto simp: lamb_check_format_def list_ex_iff)
    have "ismg_buffers S'" using out l len by (simp add: ismg_buffers_def)
    moreover have "f = htonl LAMB_SUBMIT @ ie_pack e (ismg_message e i S3 ?fmt ?len)" if "f \<in> set out" for f
      using out that by auto
    ultimately show ?thesis using S3 fmt by blast
  qed
qed

lemma ismg_message_wire:
  "ismg_buffers S \<Longrightarrow> fmt \<in> set ismg_formats \<Longrightarrow> 1 \<le> len \<Longrightarrow> len \<le> 159 \<Longrightarrow> on_wire E (ismg_message (pi_ismg E) i S fmt len) \<and>
     length (sb_content (ismg_message (pi_ismg E) i S fmt len)) \<le> 160"
  by (auto simp: on_wire_def ismg_message_def ismg_buffers_def)

lemma client_turn:
  assumes w: "ismg_work_loop (pi_ismg E) t I = Some (I', out)" and I: "ismg_buffers I" and E: "pipe_env_ok E"
  shows "ismg_buffers I' \<and> answered 0 (io_answers out) = length (io_frames out) \<and>
     (\<forall>f \<in> set (io_frames out). \<exists>m. f = submit_frame E m \<and> on_wire E m \<and> length (sb_content m) \<le> 160)"
proof (cases "\<exists>p. i_recv t = Inr p \<and> pk_commandId p = CMPP_SUBMIT")
  case True
  then obtain p where p: "i_recv t = Inr p" "pk_commandId p = CMPP_SUBMIT" by blast
  then obtain S1 i r fs where s: "ismg_submit (pi_ismg E) t p I = Some (S1, i, r, fs)"
    using w by (cases "ismg_submit (pi_ismg E) t p I") (auto simp: ismg_work_loop_def)
  then have out: "I' = S1" "io_answers out = [Submit_resp (pk_sequenceId p) i r]" "io_frames out = fs"
    using w p by (auto simp: ismg_work_loop_def)
  have "\<exists>m. f = submit_frame E m \<and> on_wire E m \<and> length (sb_content m) \<le> 160" if f: "f \<in> set fs" for f
  proof -
    obtain S3 fmt len where S3: "ismg_buffers S3" "fmt \<in> set ismg_formats" "1 \<le> len" "len \<le> 159"
      "f = htonl LAMB_SUBMIT @ ie_pack (pi_ismg E) (ismg_message (pi_ismg E) i S3 fmt len)"
      using ismg_submit_frame [OF s I] f by blast
    then have "f = submit_frame E (ismg_message (pi_ismg E) i S3 fmt len)" using E by (simp add: submit_frame_def pipe_env_ok_def)
    with ismg_message_wire [OF S3(1-4)] show ?thesis by blast
  qed
  then show ?thesis using ismg_submit_frame [OF s I] ismg_submit_books(5) [OF s] out by simp
next
  case False
  show ?thesis
  proof (cases "i_recv t")
    case (Inl err)
    then show ?thesis using w I by (auto simp: ismg_work_loop_def no_iout_def)
  next
    case (Inr p)
    then have "pk_commandId p \<noteq> CMPP_SUBMIT" using False by blast
    then have "io_frames out = [] \<and> answered 0 (io_answers out) = 0 \<and> (\<exists>st. I' = I\<lparr>ig_status := st\<rparr> \<or> I' = I)"
      using w Inr by (cases "pk_commandId p") (auto simp: ismg_work_loop_def no_iout_def)
    then show ?thesis using I by (auto simp: ismg_buffers_def)
  qed
qed

lemma mt_push_turn:
  assumes "mt_push_loop (pi_unpack E) k (good_rx (submit_frame E m)) M = Some (M', out, stop)"
    and "on_wire E m" and E: "pipe_env_ok E"
  shows "\<exists>x. M' = pool_push True k x M \<and> in_queue E x \<and> mt_emit (pi_pack E) x = submit_frame E (mt_cut m)"
proof -
  have "pi_unpack E (pi_pack E m) = Some m" using assms(2) E by (simp add: pipe_env_ok_def)
  then obtain x where "submit_store m = Some x" "M' = pool_push True k x M"
    using assms(1) by (auto simp: mt_push_loop_def good_rx_def submit_frame_def bind_eq_Some_conv)
  then show ?thesis using in_queue_store stored_cut(2) assms(2) by blast
qed

lemma mt_pull_turn:
  assumes "mt_pull_loop pack k (good_rx (htonl LAMB_REQ)) M = Some (M', out, stop)" and "the_frame out = Some f"
    and "pool_inv M" and "pool_find i M = Some k"
  shows "pool_content M i = [] \<and> f = htonl LAMB_EMPTY \<or>
     (\<exists>x xs. pool_content M i = x # xs \<and> M' = snd (pool_pop k M) \<and> f = mt_emit pack x \<and> pool_content M' i = xs)"
proof (cases "pool_pop k M")
  case (Pair r M1)
  have c: "r = (case pool_content M i of [] \<Rightarrow> None | m # ms \<Rightarrow> Some m)" "pool_content M1 = (pool_content M)(i := tl (pool_content M i))"
    using pool_pop_content [OF assms(3,4)] Pair by simp_all
  show ?thesis
  proof (cases "pool_content M i")
    case Nil
    then show ?thesis using assms(1,2) Pair c by (auto simp: mt_pull_loop_def good_rx_def the_frame_def)
  next
    case (Cons x xs)
    then show ?thesis using assms(1,2) Pair c
      by (auto simp: mt_pull_loop_def good_rx_def the_frame_def mt_emit_def bind_eq_Some_conv)
  qed
qed

text \<open>The server's turn with the answers it has.\<close>

definition answer_end :: "bytes option option list \<Rightarrow> Submit \<Rightarrow> work_end" where
  "answer_end as m = (case work_schedule as of
     None \<Rightarrow> Waiting m
   | Some c \<Rightarrow> (if c = LAMB_OK then Accepted m else Refused (if c = LAMB_NOROUTE then 4 else 7) m))"

lemma checked_on_wire:
  assumes "checked e w V m m1" and "on_wire E m"
  shows "on_wire E m1" and "mt_cut m = m \<Longrightarrow> mt_cut m1 = m1"
proof -
  have m1: "m1 = m\<lparr>sb_length := sb_length m1, sb_msgfmt := 11, sb_content := sb_content m1\<rparr>"
    and len: "sb_length m1 = int (length (sb_content m1))" "sb_content m1 \<noteq> []"
    using assms by (auto simp: checked_def on_wire_def split: if_splits)
  have same: "sb_account m1 = sb_account m" "sb_company m1 = sb_company m" "sb_spid m1 = sb_spid m" "sb_spcode m1 = sb_spcode m"
    "sb_phone m1 = sb_phone m" "sb_msgfmt m1 = 11" by (subst m1; simp)+
  show "on_wire E m1" using assms(2) same len by (simp add: on_wire_def ismg_formats_def)
  assume cut: "mt_cut m = m"
  have "sb_spid (mt_cut m) = sb_spid m" "sb_spcode (mt_cut m) = sb_spcode m" "sb_phone (mt_cut m) = sb_phone m"
    by (simp_all add: cut)
  then show "mt_cut m1 = m1" using same by (simp add: mt_cut_def)
qed

lemma w_ok_turn: "w_ok (w\<lparr>w_sent := a, w_buf := b, w_answers := c\<rparr>) = w_ok w"
  by (simp add: w_ok_def)

lemma server_turn_ends:
  assumes t: "server_turn (pi_server E) resp w (submit_frame E m) as V = Some (V', r)" and m: "on_wire E m" and E: "pipe_env_ok E"
    and V: "\<not> sv_sleeping V" "\<not> sv_arrears V" and w: "w_ok w"
  shows "\<exists>st cmds v. submit_filter (pi_server E) w V m = Some (st, cmds, v) \<and>
     (case v of
        Inl c \<Rightarrow> wo_end r = Refused c m \<and> wo_packet r = None
      | Inr m1 \<Rightarrow> wo_end r = answer_end as m1 \<and> wo_packet r = Some (submit_frame E m1))"
proof -
  let ?w = "w\<lparr>w_sent := True, w_buf := Some (submit_frame E m), w_answers := as\<rparr>"
  have sub: "work_submit (pi_server E) resp ?w V m = Some (V', r)"
    using t m E V by (simp add: server_turn_def lamb_work_loop_def submit_frame_def pipe_env_ok_def)
  then obtain st cmds v where f: "submit_filter (pi_server E) w V m = Some (st, cmds, v)"
    by (auto simp: work_submit_def submit_filter_def work_filter_turn bind_eq_Some_conv)
  then have f': "work_filter (pi_server E) ?w V m ((sv_status V)\<lparr>st_toal := st_toal (sv_status V) + 1\<rparr>) = Some (st, cmds, v)"
    by (simp add: submit_filter_def work_filter_turn)
  show ?thesis
  proof (cases v)
    case (Inl c)
    then have "wo_end r = Refused c m \<and> wo_packet r = None"
      using sub f' by (auto simp: work_submit_def refuse_turn_simps)
    then show ?thesis using f Inl by auto
  next
    case (Inr m1)
    have mem: "w_pk ?w" "w_packet ?w" "w_answers ?w = as" using w by (simp_all add: w_ok_def)
    have p: "htonl LAMB_SUBMIT @ se_pack (pi_server E) m1 = submit_frame E m1" using E by (simp add: submit_frame_def pipe_env_ok_def)
    consider "work_schedule as = None" | "work_schedule as = Some LAMB_OK"
      | "work_schedule as = Some LAMB_NOROUTE" | "work_schedule as = Some LAMB_REJECT"
      by (cases "work_schedule as") (auto dest: work_schedule_answer)
    then have "wo_end r = answer_end as m1 \<and> wo_packet r = Some (submit_frame E m1)"
      using sub f' Inr mem p
      by cases (auto simp: work_submit_def refuse_turn_simps answer_end_def bind_eq_Some_conv)
    then show ?thesis using f Inr by auto
  qed
qed

lemma server_turn_ledger:
  assumes "server_turn e resp w f as V = Some (V', r)" and "w_ok w"
  shows "sv_billing V' = sv_billing V @ map (bill_of V) (accepts r)" and "sv_storage V' = sv_storage V @ map (stored_of V) (accepts r)"
    and "sv_account V' = sv_account V" and "sv_company V' = sv_company V"
proof -
  have "turn_effect e resp V V' r"
    using work_loop_effect [of e resp "w\<lparr>w_sent := True, w_buf := Some f, w_answers := as\<rparr>" V V' r] assms
    by (simp add: server_turn_def w_ok_turn)
  then show "sv_billing V' = sv_billing V @ map (bill_of V) (accepts r)" "sv_storage V' = sv_storage V @ map (stored_of V) (accepts r)"
    "sv_account V' = sv_account V" "sv_company V' = sv_company V" by (simp_all add: turn_effect_def)
qed

lemma ledger_of:
  assumes "sv_account V' = sv_account V" and "sv_company V' = sv_company V"
  shows "bill_of V' = bill_of V" and "stored_of V' = stored_of V"
  using assms by (auto simp: bill_of_def stored_of_def storage_submit_def)

subsection \<open>The queues of the gateways\<close>

lemma mset_concat_update:
  "k < length qs \<Longrightarrow> mset (concat (map f (qs[k := q]))) + mset (f (qs ! k)) = mset (concat (map f qs)) + mset (f q)"
proof (induction qs arbitrary: k)
  case (Cons x xs)
  then show ?case
  proof (cases k)
    case (Suc j)
    with Cons.prems have "mset (concat (map f (xs[j := q]))) + mset (f (xs ! j)) = mset (concat (map f xs)) + mset (f q)"
      by (intro Cons.IH) simp
    then show ?thesis using Suc by (simp add: ac_simps)
  qed (simp add: ac_simps)
qed simp

lemma pool_items_push:
  assumes "pool_inv P" and "pool_find i P = Some k"
  shows "mset (pool_items (pool_push True k x P)) = add_mset x (mset (pool_items P))"
proof -
  have k: "k < length (pqueues P)" using assms pool_find_Some by (fastforce simp: pool_inv_def)
  then show ?thesis
    using mset_concat_update [OF k, of bq_items "(pqueues P ! k)\<lparr>bq_items := bq_items (pqueues P ! k) @ [x]\<rparr>"]
    by (simp add: pool_items_def pool_push_def)
qed

lemma pool_items_pop:
  assumes "pool_inv P" and "pool_find i P = Some k" and "pool_pop k P = (Some x, P')"
  shows "mset (pool_items P) = add_mset x (mset (pool_items P'))"
proof -
  have k: "k < length (pqueues P)" using assms(1,2) pool_find_Some by (fastforce simp: pool_inv_def)
  obtain xs where xs: "bq_items (pqueues P ! k) = x # xs" "P' = P\<lparr>pqueues := (pqueues P)[k := (pqueues P ! k)\<lparr>bq_items := xs\<rparr>]\<rparr>"
    using assms(3) by (auto simp: pool_pop_def split: list.splits)
  then show ?thesis
    using mset_concat_update [OF k, of bq_items "(pqueues P ! k)\<lparr>bq_items := xs\<rparr>"] by (simp add: pool_items_def)
qed

lemma pool_items_all: "(\<forall>x \<in> set (pool_items P). fine x) \<longleftrightarrow> pool_all fine P"
  by (auto simp: pool_items_def pool_all_def)

definition answer_commands :: "u32 list" where
  "answer_commands = [LAMB_OK, LAMB_NOROUTE, LAMB_REJECT, LAMB_BUSY]"

lemma route_turn:
  assumes "sched_push_loop (pi_unpack E) channels (good_rx (submit_frame E m)) P = Some (P', out, stop)"
    and m: "on_wire E m" "mt_cut m = m" and E: "pipe_env_ok E" and P: "pool_inv P"
  shows "\<exists>c. out = [htonl c] \<and> c \<in> set answer_commands \<and> pool_inv P' \<and> (\<forall>i. pool_find i P' = pool_find i P) \<and>
     (if c = LAMB_OK then \<exists>x. in_queue E x \<and> mt_emit (pi_pack E) x = submit_frame E m \<and>
        mset (pool_items P') = add_mset x (mset (pool_items P))
      else P' = P)"
proof -
  have "pi_unpack E (pi_pack E m) = Some m" using m E by (simp add: pipe_env_ok_def)
  note push = assms(1) [unfolded submit_frame_def sched_push_loop_def] this
  then obtain x where x: "submit_store m = Some x"
    by (cases "submit_store m") (simp_all add: good_rx_def)
  have P': "P' = snd (channel_search True x channels no_search P)"
    and out: "out = [htonl (search_answer (fst (channel_search True x channels no_search P)))]"
    using push x by (cases "channel_search True x channels no_search P"; simp add: good_rx_def answer_frame_def)+
  let ?c = "routing_answer x channels P"
  have c: "out = [htonl ?c]" using out by (simp add: channel_search_answer)
  have mem: "?c \<in> set answer_commands" by (simp add: routing_answer_def answer_commands_def)
  show ?thesis
  proof (cases "find (\<lambda>ch. serves x ch \<and> has_room P ch) channels")
    case None
    then have "\<not> (\<exists>ch \<in> set channels. serves x ch \<and> has_room P ch)" by (auto simp: find_None_iff)
    then have "?c \<noteq> LAMB_OK" by (auto simp: routing_answer_def commands)
    moreover have "P' = P" using channel_search_none [OF None, of True no_search] P' by simp
    ultimately show ?thesis using c mem P by auto
  next
    case (Some ch)
    then have ch: "ch \<in> set channels" "serves x ch" "has_room P ch" by (auto simp: find_Some_iff)
    then obtain k where k: "pool_find (ch_id ch) P = Some k" by (auto simp: has_room_def split: option.splits)
    have ok: "?c = LAMB_OK" using ch by (auto simp: routing_answer_def)
    have "P' = pool_push True k x P" using channel_search_found [OF Some, of True no_search] P' k by auto
    then show ?thesis
      using c mem ok pool_items_push [OF P k, of x] pool_inv_push [OF P, of True k x] in_queue_store [OF x m(1)] stored_cut(2) [OF x m(1)] m(2)
      by (intro exI [of _ ?c]) auto
  qed
qed

lemma gateway_pull_turn:
  assumes "sched_pull_loop pack k (good_rx (htonl LAMB_REQ)) P = Some (P', out, stop)" and "the_frame out = Some f"
  shows "P' = P \<and> f = htonl LAMB_EMPTY \<or> (\<exists>x. pool_pop k P = (Some x, P') \<and> f = mt_emit pack x)"
proof (cases "pool_pop k P")
  case (Pair r P1)
  then have "r = None \<Longrightarrow> P1 = P" by (auto simp: pool_pop_def split: list.splits)
  then show ?thesis using assms Pair
    by (cases r) (auto simp: sched_pull_loop_def good_rx_def the_frame_def mt_emit_def answer_frame_def bind_eq_Some_conv)
qed

text \<open>The gateway client sends no more than one packet for a frame, to the number in it.\<close>

lemma sender_packet:
  assumes t: "sp_sender_loop e (x\<lparr>x_sent := True, x_buf := Some f\<rparr>) G = Some (G', packet, delay)"
  shows "CHECK_COMMAND f = LAMB_EMPTY \<Longrightarrow> packet = None"
    and "f = submit_frame E m \<Longrightarrow> pe_unpack e (pi_pack E m) = Some m \<Longrightarrow> packet = Some q \<Longrightarrow> sm_phone q = sb_phone m"
proof -
  show "packet = None" if "CHECK_COMMAND f = LAMB_EMPTY"
    using t that by (auto simp: sp_sender_loop_def classify_def commands split: if_splits)
  assume f: "f = submit_frame E m" "pe_unpack e (pi_pack E m) = Some m" and q: "packet = Some q"
  show "sm_phone q = sb_phone m"
  proof (cases "sp_ok G")
    case True
    then obtain v where v: "sp_convert e m = Some v" using t f by (auto simp: sp_sender_loop_def submit_frame_def bind_eq_Some_conv)
    then show ?thesis using t f q True
      by (cases v) (auto simp: sp_sender_loop_def submit_frame_def sp_packet_def bind_eq_Some_conv Let_def split: if_splits)
  qed (use t q in \<open>simp add: sp_sender_loop_def\<close>)
qed

subsection \<open>The invariant\<close>

definition pipe_offer :: "pipe \<Rightarrow> bytes list" where
  "pipe_offer S = (case pp_turn S of None \<Rightarrow> [] | Some (w, f, as) \<Rightarrow> [f])"

text \<open>How the server is done with a frame: accepted or refused, under the id and for the number in it.\<close>

definition served :: "pipe_env \<Rightarrow> bytes \<Rightarrow> work_end \<Rightarrow> bool" where
  "served E f x =
     (case x of
        Accepted m \<Rightarrow> sb_id m = sb_id (frame_submit E f) \<and> sb_phone m = sb_phone (frame_submit E f)
      | Refused c m \<Rightarrow> sb_id m = sb_id (frame_submit E f) \<and> sb_phone m = sb_phone (frame_submit E f)
      | _ \<Rightarrow> False)"

definition front_ok :: "pipe_env \<Rightarrow> pipe \<Rightarrow> bool" where
  "front_ok E S \<longleftrightarrow> ismg_buffers (pp_ismg S) \<and> answered 0 (pp_answers S) = length (pp_frames S) \<and>
     (\<forall>f \<in> set (pp_link S). \<exists>m. f = submit_frame E m \<and> on_wire E m \<and> length (sb_content m) \<le> 160) \<and>
     pool_inv (pp_mt S) \<and> pool_find (ab_id (ie_account (pi_ismg E))) (pp_mt S) = Some (pi_queue E) \<and>
     (\<forall>x \<in> set (pool_content (pp_mt S) (ab_id (ie_account (pi_ismg E)))). in_queue E x) \<and>
     map (mt_pass E) (pp_frames S) = pp_taken S @ pipe_queued E S @ map (mt_pass E) (pp_link S)"

definition ends_ok :: "pipe_env \<Rightarrow> server \<Rightarrow> pipe \<Rightarrow> bool" where
  "ends_ok E V S \<longleftrightarrow> (\<exists>ds. pp_taken S = ds @ pipe_offer S \<and> list_all2 (served E) ds (pp_ends S)) \<and>
     sv_account (pp_server S) = sv_account V \<and> sv_company (pp_server S) = sv_company V \<and>
     sv_billing (pp_server S) = sv_billing V @ map (bill_of V) (pipe_accepted S) \<and>
     sv_storage (pp_server S) = sv_storage V @ map (stored_of V) (pipe_accepted S)"

definition offers :: "pipe_env \<Rightarrow> pipe \<Rightarrow> wturn \<Rightarrow> bytes \<Rightarrow> bytes option option list \<Rightarrow> Submit \<Rightarrow> Submit \<Rightarrow> bool" where
  "offers E S w f as m m1 \<longleftrightarrow> w_ok w \<and> \<not> sv_sleeping (pp_server S) \<and> \<not> sv_arrears (pp_server S) \<and> work_schedule as = None \<and>
     f = submit_frame E m \<and> on_wire E m \<and> mt_cut m = m \<and>
     (\<exists>st cmds. submit_filter (pi_server E) w (pp_server S) m = Some (st, cmds, Inr m1))"

definition turn_ok :: "pipe_env \<Rightarrow> pipe \<Rightarrow> bool" where
  "turn_ok E S \<longleftrightarrow>
     (case pp_turn S of
        None \<Rightarrow> pp_to S = [] \<and> pp_from S = []
      | Some (w, f, as) \<Rightarrow> \<exists>m m1. offers E S w f as m m1 \<and>
          (pp_to S = [submit_frame E m1] \<and> pp_from S = [] \<or> pp_to S = [] \<and> (\<exists>c \<in> set answer_commands. pp_from S = [htonl c])))"

definition gate_ok :: "pipe_env \<Rightarrow> pipe \<Rightarrow> bool" where
  "gate_ok E S \<longleftrightarrow> pool_inv (pp_sched S) \<and> (\<forall>x \<in> set (pool_items (pp_sched S)). in_queue E x) \<and>
     mset (map snd (pp_handed S)) + mset (pipe_scheduled E S) =
       mset (map (submit_frame E) (pipe_accepted S)) + mset (pipe_routed E S) \<and>
     subseq (map (\<lambda>(g, q). (g, sm_phone q)) (pp_packets S)) (map (\<lambda>(g, f). (g, sb_phone (frame_submit E f))) (pp_handed S))"

definition pipe_ok :: "pipe_env \<Rightarrow> server \<Rightarrow> pipe \<Rightarrow> bool" where
  "pipe_ok E V S \<longleftrightarrow> front_ok E S \<and> ends_ok E V S \<and> turn_ok E S \<and> gate_ok E S"

lemmas pipe_parts = pipe_ok_def front_ok_def ends_ok_def turn_ok_def gate_ok_def offers_def
lemmas pipe_views = pipe_queued_def pipe_accepted_def pipe_scheduled_def pipe_routed_def pipe_offer_def

lemma server_turn_offers:
  assumes offer: "offers E S w f as m m1" and E: "pipe_env_ok E"
  shows "\<exists>V r. server_turn (pi_server E) (pi_resp E) w f as (pp_server S) = Some (V, r) \<and> wo_packet r = Some (submit_frame E m1)"
proof -
  obtain st cmds where f: "submit_filter (pi_server E) w (pp_server S) m = Some (st, cmds, Inr m1)" using offer by (auto simp: offers_def)
  then show ?thesis using offer E
    by (simp add: offers_def server_turn_def lamb_work_loop_def submit_frame_def pipe_env_ok_def work_submit_def submit_filter_def
        work_filter_turn w_ok_def Let_def)
qed

lemma pipe_routed_offers:
  assumes "offers E S w f as m m1" and "pipe_env_ok E" and "pp_turn S = Some (w, f, as)"
  shows "pipe_routed E S = (if pp_from S = [htonl LAMB_OK] then [submit_frame E m1] else [])"
  using server_turn_offers [OF assms(1,2)] assms(3) by (auto simp: pipe_routed_def)

lemma offers_on_wire:
  assumes "offers E S w f as m m1"
  shows "on_wire E m1" and "mt_cut m1 = m1" and "sb_id m1 = sb_id m" and "sb_phone m1 = sb_phone m"
proof -
  obtain st cmds where f: "submit_filter (pi_server E) w (pp_server S) m = Some (st, cmds, Inr m1)" using assms by (auto simp: offers_def)
  have c: "checked (pi_server E) w (pp_server S) m m1" using work_filter_pass [OF f [unfolded submit_filter_def]] by blast
  then have m1: "m1 = m\<lparr>sb_length := sb_length m1, sb_msgfmt := 11, sb_content := sb_content m1\<rparr>" by (simp add: checked_def)
  show "on_wire E m1" "mt_cut m1 = m1" using checked_on_wire [OF c, of E] assms by (simp_all add: offers_def)
  show "sb_id m1 = sb_id m" "sb_phone m1 = sb_phone m" by (subst m1; simp)+
qed

lemma htonl_inject [simp]: "htonl a = htonl b \<longleftrightarrow> a = b"
  by (metis ntohl_htonl)

lemma offers_cong: "pp_server S' = pp_server S \<Longrightarrow> offers E S' = offers E S"
  by (intro ext) (simp add: offers_def)

lemma pipe_routed_cong:
  assumes "pp_turn S' = pp_turn S" and "pp_from S' = pp_from S" and "pp_server S' = pp_server S"
  shows "pipe_routed E S' = pipe_routed E S"
  unfolding pipe_routed_def assms ..

lemma turn_ok_cong:
  assumes "pp_turn S' = pp_turn S" and "pp_to S' = pp_to S" and "pp_from S' = pp_from S" and "pp_server S' = pp_server S"
  shows "turn_ok E S' = turn_ok E S"
  unfolding turn_ok_def assms(1-3) offers_cong [OF assms(4)] ..

text \<open>A step that leaves the server, its turn, the scheduler and the gateways alone.\<close>

lemma back_unchanged:
  assumes "ends_ok E V S \<and> turn_ok E S \<and> gate_ok E S"
    and "pp_turn S' = pp_turn S" "pp_to S' = pp_to S" "pp_from S' = pp_from S" "pp_server S' = pp_server S"
    and "pp_taken S' = pp_taken S" "pp_ends S' = pp_ends S" "pp_sched S' = pp_sched S" "pp_handed S' = pp_handed S"
      "pp_packets S' = pp_packets S"
  shows "ends_ok E V S' \<and> turn_ok E S' \<and> gate_ok E S'"
proof -
  have "pipe_offer S' = pipe_offer S" "pipe_accepted S' = pipe_accepted S" "pipe_scheduled E S' = pipe_scheduled E S"
    unfolding pipe_offer_def pipe_accepted_def pipe_scheduled_def using assms(2-10) by simp_all
  moreover have "pipe_routed E S' = pipe_routed E S" using pipe_routed_cong assms(2-5) by blast
  ultimately show ?thesis using assms turn_ok_cong [of S' S E] by (simp add: ends_ok_def gate_ok_def)
qed

subsection \<open>Every step keeps it\<close>

lemma client_step_ok:
  assumes "pipe_ok E V S" and E: "pipe_env_ok E" and "client_step E t S = Some S'"
  shows "pipe_ok E V S'"
proof -
  obtain I out where w: "ismg_work_loop (pi_ismg E) t (pp_ismg S) = Some (I, out)"
    and S': "S' = S\<lparr>pp_ismg := I, pp_open := \<not> io_stop out, pp_link := pp_link S @ io_frames out,
                pp_answers := pp_answers S @ io_answers out, pp_frames := pp_frames S @ io_frames out\<rparr>"
    using assms(3) by (auto simp: client_step_def bind_eq_Some_conv split: if_splits)
  have b: "ismg_buffers (pp_ismg S)" using assms(1) by (simp add: pipe_parts)
  have "front_ok E S'" using client_turn [OF w b E] assms(1) by (auto simp: S' pipe_ok_def front_ok_def pipe_queued_def)
  moreover have "ends_ok E V S' \<and> turn_ok E S' \<and> gate_ok E S'"
    by (rule back_unchanged [of E V S]) (use assms(1) in \<open>simp_all add: S' pipe_ok_def\<close>)
  ultimately show ?thesis by (simp add: pipe_ok_def)
qed

lemma mt_step_ok:
  assumes "pipe_ok E V S" and E: "pipe_env_ok E" and "mt_step E S = Some S'"
  shows "pipe_ok E V S'"
proof -
  let ?i = "ab_id (ie_account (pi_ismg E))"
  obtain f fs M out stop where link: "pp_link S = f # fs" and S': "S' = S\<lparr>pp_link := fs, pp_mt := M\<rparr>"
    and p: "mt_push_loop (pi_unpack E) (pi_queue E) (good_rx f) (pp_mt S) = Some (M, out, stop)"
    using assms(3) by (auto simp: mt_step_def bind_eq_Some_conv split: list.splits)
  obtain m where m: "f = submit_frame E m" "on_wire E m" using assms(1) link by (auto simp: pipe_parts)
  obtain x where x: "M = pool_push True (pi_queue E) x (pp_mt S)" "in_queue E x" "mt_emit (pi_pack E) x = mt_pass E f"
    using mt_push_turn [OF p [unfolded m(1)] m(2) E] m mt_pass_frame [OF E m(2)] by auto
  have inv: "pool_inv (pp_mt S)" "pool_find ?i (pp_mt S) = Some (pi_queue E)" using assms(1) by (simp_all add: pipe_parts)
  have "front_ok E S'"
    using assms(1) link x pool_push_content [OF inv, of x] pool_inv_push [OF inv(1), of True "pi_queue E" x]
    by (auto simp: S' pipe_ok_def front_ok_def pipe_queued_def)
  moreover have "ends_ok E V S' \<and> turn_ok E S' \<and> gate_ok E S'"
    by (rule back_unchanged [of E V S]) (use assms(1) in \<open>simp_all add: S' pipe_ok_def\<close>)
  ultimately show ?thesis by (simp add: pipe_ok_def)
qed

lemma list_all2_snoc: "list_all2 P xs ys \<Longrightarrow> P x y \<Longrightarrow> list_all2 P (xs @ [x]) (ys @ [y])"
  by (simp add: list_all2_appendI)

lemma serve_step_ok:
  assumes ok: "pipe_ok E V S" and E: "pipe_env_ok E" and "serve_step E w S = Some S'" and w: "w_ok w"
  shows "pipe_ok E V S'"
proof -
  let ?i = "ab_id (ie_account (pi_ismg E))"
  have "\<not> (pp_turn S \<noteq> None \<or> sv_sleeping (pp_server S) \<or> sv_arrears (pp_server S))"
    using assms(3) unfolding serve_step_def by (metis option.distinct(1))
  then have idle: "pp_turn S = None" "\<not> sv_sleeping (pp_server S)" "\<not> sv_arrears (pp_server S)" by blast+
  obtain M out stop f V' r where pull: "mt_pull_loop (pi_pack E) (pi_queue E) (good_rx (htonl LAMB_REQ)) (pp_mt S) = Some (M, out, stop)"
      and f: "the_frame out = Some f" and t: "server_turn (pi_server E) (pi_resp E) w f [] (pp_server S) = Some (V', r)"
      and S': "S' = (if CHECK_COMMAND f = LAMB_EMPTY then S
              else case wo_packet r of
                None \<Rightarrow> S\<lparr>pp_mt := M, pp_server := V', pp_taken := pp_taken S @ [f], pp_ends := pp_ends S @ [wo_end r]\<rparr>
              | Some p \<Rightarrow> S\<lparr>pp_mt := M, pp_taken := pp_taken S @ [f], pp_turn := Some (w, f, []), pp_to := pp_to S @ [p]\<rparr>)"
    using assms(3) idle unfolding serve_step_def
    by (auto simp: bind_eq_Some_conv simp del: split_paired_Ex split: prod.splits)
  have front: "pool_inv (pp_mt S)" "pool_find ?i (pp_mt S) = Some (pi_queue E)" "\<forall>x \<in> set (pool_content (pp_mt S) ?i). in_queue E x"
    using ok by (simp_all add: pipe_parts)
  show ?thesis
  proof (cases "pool_content (pp_mt S) ?i")
    case Nil
    then have "f = htonl LAMB_EMPTY" using mt_pull_turn [OF pull f front(1,2)] by auto
    then have "CHECK_COMMAND f = LAMB_EMPTY" using CHECK_COMMAND_htonl [of LAMB_EMPTY "[]"] by simp
    then show ?thesis using ok S' by simp
  next
    case (Cons x xs)
    then have M: "M = snd (pool_pop (pi_queue E) (pp_mt S))" "f = mt_emit (pi_pack E) x" "pool_content M ?i = xs"
      using mt_pull_turn [OF pull f front(1,2)] by auto
    obtain m where m: "f = submit_frame E m" "on_wire E m" "mt_cut m = m"
      using in_queue_emit [of E x] front(3) Cons M(2) by auto
    then have some: "CHECK_COMMAND f \<noteq> LAMB_EMPTY" and fm: "frame_submit E f = m"
      using frame_submit_frame [OF E] by (simp_all add: submit_frame_def)
    have keeps: "front_ok E (S\<lparr>pp_mt := M, pp_taken := pp_taken S @ [f]\<rparr>)"
      using ok M Cons pool_inv_pop [OF front(1), of "pi_queue E"] by (simp add: pipe_ok_def front_ok_def pipe_queued_def)
    obtain st cmds v where v: "submit_filter (pi_server E) w (pp_server S) m = Some (st, cmds, v)"
      and r: "case v of Inl c \<Rightarrow> wo_end r = Refused c m \<and> wo_packet r = None
        | Inr m1 \<Rightarrow> wo_end r = answer_end [] m1 \<and> wo_packet r = Some (submit_frame E m1)"
      using server_turn_ends [OF t [unfolded m(1)] m(2) E idle(2,3) w] by blast
    show ?thesis
    proof (cases v)
      case (Inl c)
      then have e: "wo_end r = Refused c m" and S'': "S' = S\<lparr>pp_mt := M, pp_server := V', pp_taken := pp_taken S @ [f], pp_ends := pp_ends S @ [Refused c m]\<rparr>"
        using r S' some by simp_all
      note V' = server_turn_ledger [OF t w]
      have acc: "pipe_accepted S' = pipe_accepted S" and none: "accepts r = []" "pipe_offer S = []"
        using e idle(1) by (simp_all add: S'' pipe_accepted_def accepts_def pipe_offer_def)
      obtain ds where "pp_taken S = ds @ pipe_offer S" "list_all2 (served E) ds (pp_ends S)" using ok by (auto simp: pipe_parts)
      then have "list_all2 (served E) (pp_taken S @ [f]) (pp_ends S @ [Refused c m])"
        using none fm by (simp add: list_all2_snoc served_def)
      then have "ends_ok E V S'" using ok V' none acc idle(1) by (simp add: S'' pipe_ok_def ends_ok_def pipe_offer_def)
      moreover have "front_ok E S'" using keeps by (simp add: S'' front_ok_def pipe_queued_def)
      ultimately show ?thesis using ok idle(1) acc
        by (simp add: S'' pipe_ok_def turn_ok_def gate_ok_def pipe_routed_def pipe_scheduled_def)
    next
      case (Inr m1)
      then have S'': "S' = S\<lparr>pp_mt := M, pp_taken := pp_taken S @ [f], pp_turn := Some (w, f, []), pp_to := pp_to S @ [submit_frame E m1]\<rparr>"
        using r S' some by simp
      have quiet: "pp_to S = []" "pp_from S = []" using ok idle(1) by (simp_all add: pipe_parts)
      have offer: "offers E S' w f [] m m1" using w idle m v Inr by (simp add: offers_def S'')
      have "turn_ok E S'" using offer quiet by (auto simp: S'' turn_ok_def)
      moreover have "ends_ok E V S'" using ok idle(1) by (auto simp: S'' pipe_ok_def ends_ok_def pipe_offer_def pipe_accepted_def)
      moreover have "pipe_routed E S' = []" using quiet by (simp add: S'' pipe_routed_def)
      moreover have "front_ok E S'" using keeps by (simp add: S'' front_ok_def pipe_queued_def)
      ultimately show ?thesis using ok idle(1)
        by (simp add: pipe_ok_def gate_ok_def pipe_scheduled_def pipe_accepted_def S'' pipe_routed_def)
    qed
  qed
qed

lemma route_step_ok:
  assumes ok: "pipe_ok E V S" and E: "pipe_env_ok E" and "route_step E S = Some S'"
  shows "pipe_ok E V S'"
proof -
  obtain p ps P out stop where to: "pp_to S = p # ps" and S': "S' = S\<lparr>pp_to := ps, pp_from := pp_from S @ out, pp_sched := P\<rparr>"
    and push: "sched_push_loop (pi_unpack E) (pi_channels E) (good_rx p) (pp_sched S) = Some (P, out, stop)"
    using assms(3) by (auto simp: route_step_def bind_eq_Some_conv split: list.splits)
  obtain w f as where turn: "pp_turn S = Some (w, f, as)"
    using ok to by (cases "pp_turn S") (auto simp: pipe_ok_def turn_ok_def)
  then obtain m m1 where offer: "offers E S w f as m m1" and p: "p = submit_frame E m1" "ps = []" and frm: "pp_from S = []"
    using ok to by (auto simp: pipe_ok_def turn_ok_def)
  note m1 = offers_on_wire [OF offer]
  have P: "pool_inv (pp_sched S)" using ok by (simp add: pipe_ok_def gate_ok_def)
  obtain c where c: "out = [htonl c]" "c \<in> set answer_commands" "pool_inv P"
    "if c = LAMB_OK then \<exists>x. in_queue E x \<and> mt_emit (pi_pack E) x = submit_frame E m1 \<and>
        mset (pool_items P) = add_mset x (mset (pool_items (pp_sched S))) else P = pp_sched S"
    using route_turn [OF push [unfolded p(1)] m1(1,2) E P] by blast
  have offer': "offers E S' w f as m m1" using offer by (simp add: S' offers_def)
  have "turn_ok E S'" using turn offer' p(2) frm c(1,2) by (auto simp: S' turn_ok_def)
  moreover have "front_ok E S'" using ok by (simp add: S' pipe_ok_def front_ok_def pipe_queued_def)
  moreover have "ends_ok E V S'" using ok by (simp add: S' pipe_ok_def ends_ok_def pipe_offer_def pipe_accepted_def)
  moreover have "gate_ok E S'"
  proof -
    have none: "pipe_routed E S = []" using frm by (simp add: pipe_routed_def turn)
    have routed: "pipe_routed E S' = (if c = LAMB_OK then [submit_frame E m1] else [])"
      using pipe_routed_offers [OF offer' E] turn frm c(1) by (simp add: S')
    have same: "pipe_accepted S' = pipe_accepted S" "pp_handed S' = pp_handed S" "pp_packets S' = pp_packets S" "pp_sched S' = P"
      by (simp_all add: S' pipe_accepted_def)
    show ?thesis
    proof (cases "c = LAMB_OK")
      case True
      then obtain x where x: "in_queue E x" "mt_emit (pi_pack E) x = submit_frame E m1"
          "mset (pool_items P) = add_mset x (mset (pool_items (pp_sched S)))"
        using c(4) by auto
      then have "set (pool_items P) = insert x (set (pool_items (pp_sched S)))"
        by (metis set_mset_add_mset_insert set_mset_mset)
      then show ?thesis using ok x True routed none same c(3)
        by (simp add: pipe_ok_def gate_ok_def pipe_scheduled_def)
    next
      case False
      then show ?thesis using ok routed none same c(3,4) by (simp add: pipe_ok_def gate_ok_def pipe_scheduled_def)
    qed
  qed
  ultimately show ?thesis by (simp add: pipe_ok_def)
qed

lemma work_schedule_more: "work_schedule as = None \<Longrightarrow> work_schedule (as @ bs) = work_schedule bs"
  by (induction as) (auto split: option.splits frame.splits if_splits)

lemma work_schedule_answered:
  assumes "work_schedule as = None" and "c \<in> set answer_commands"
  shows "work_schedule (as @ [Some (Some (htonl c))]) = (if c = LAMB_BUSY then None else Some c)"
  using assms by (auto simp: work_schedule_more answer_commands_def commands)

lemma reply_step_ok:
  assumes ok: "pipe_ok E V S" and E: "pipe_env_ok E" and "reply_step E S = Some S'"
  shows "pipe_ok E V S'"
proof -
  obtain a rest where frm: "pp_from S = a # rest" and h: "hear E (Some a) (S\<lparr>pp_from := rest\<rparr>) = Some S'"
    using assms(3) by (auto simp: reply_step_def split: list.splits)
  obtain w f as where turn: "pp_turn S = Some (w, f, as)"
    using ok frm by (cases "pp_turn S") (auto simp: pipe_ok_def turn_ok_def)
  then obtain m m1 c where offer: "offers E S w f as m m1" and c: "c \<in> set answer_commands" "a = htonl c" "rest = []" and to: "pp_to S = []"
    using ok frm by (auto simp: pipe_ok_def turn_ok_def)
  note m1 = offers_on_wire [OF offer]
  have m: "on_wire E m" "f = submit_frame E m" and V: "\<not> sv_sleeping (pp_server S)" "\<not> sv_arrears (pp_server S)" and w: "w_ok w"
    and asw: "work_schedule as = None" using offer by (simp_all add: offers_def)
  obtain V' r where t: "server_turn (pi_server E) (pi_resp E) w f (as @ [Some (Some a)]) (pp_server S) = Some (V', r)"
    using h turn by (auto simp: hear_def bind_eq_Some_conv)
  have r: "wo_end r = answer_end (as @ [Some (Some a)]) m1" "wo_packet r = Some (submit_frame E m1)"
    using server_turn_ends [OF t [unfolded m(2)] m(1) E V w] offer by (auto simp: offers_def)
  have sched: "work_schedule (as @ [Some (Some a)]) = (if c = LAMB_BUSY then None else Some c)"
    using work_schedule_answered [OF asw c(1)] c(2) by simp
  have routed: "pipe_routed E S = (if c = LAMB_OK then [submit_frame E m1] else [])"
    using pipe_routed_offers [OF offer E turn] frm c by simp
  show ?thesis
  proof (cases "c = LAMB_BUSY")
    case True
    then have S'': "S' = S\<lparr>pp_from := [], pp_turn := Some (w, f, as @ [Some (Some a)]), pp_to := [submit_frame E m1]\<rparr>"
      using h turn t r sched to c(3) by (simp add: hear_def answer_end_def)
    have offer': "offers E S' w f (as @ [Some (Some a)]) m m1" using offer sched True by (simp add: offers_def S'')
    have "pipe_routed E S = []" using routed True by (simp add: commands)
    moreover have "pipe_routed E S' = []" by (simp add: S'' pipe_routed_def)
    ultimately have "gate_ok E S'" using ok by (simp add: pipe_ok_def gate_ok_def S'' pipe_scheduled_def pipe_accepted_def)
    moreover have "turn_ok E S'" using offer' by (auto simp: S'' turn_ok_def)
    moreover have "ends_ok E V S'" using ok turn by (simp add: S'' pipe_ok_def ends_ok_def pipe_offer_def pipe_accepted_def)
    moreover have "front_ok E S'" using ok by (simp add: S'' pipe_ok_def front_ok_def pipe_queued_def)
    ultimately show ?thesis by (simp add: pipe_ok_def)
  next
    case False
    let ?x = "answer_end (as @ [Some (Some a)]) m1"
    have x: "?x = (if c = LAMB_OK then Accepted m1 else Refused (if c = LAMB_NOROUTE then 4 else 7) m1)"
      using sched False by (simp add: answer_end_def)
    have S'': "S' = S\<lparr>pp_from := [], pp_turn := None, pp_server := V', pp_ends := pp_ends S @ [?x]\<rparr>"
      using h turn t r(1) x c(3) by (auto simp: hear_def split: if_splits)
    note V' = server_turn_ledger [OF t w]
    have acc: "accepts r = (if c = LAMB_OK then [m1] else [])" using r(1) x by (simp add: accepts_def)
    then have all: "pipe_accepted S' = pipe_accepted S @ accepts r" using x by (simp add: S'' pipe_accepted_def)
    have none: "pipe_routed E S' = []" by (simp add: S'' pipe_routed_def)
    have server: "sv_account (pp_server S) = sv_account V" "sv_company (pp_server S) = sv_company V"
      "sv_billing (pp_server S) = sv_billing V @ map (bill_of V) (pipe_accepted S)"
      "sv_storage (pp_server S) = sv_storage V @ map (stored_of V) (pipe_accepted S)" using ok by (simp_all add: pipe_ok_def ends_ok_def)
    obtain ds where ds: "pp_taken S = ds @ [f]" "list_all2 (served E) ds (pp_ends S)"
      using ok turn by (auto simp: pipe_ok_def ends_ok_def pipe_offer_def)
    have "served E f ?x" using x m1(3,4) frame_submit_frame [OF E m(1)] m(2) by (simp add: served_def)
    then have "list_all2 (served E) (pp_taken S') (pp_ends S')" using ds by (simp add: S'' list_all2_snoc)
    moreover have "pipe_offer S' = []" by (simp add: S'' pipe_offer_def)
    ultimately have "ends_ok E V S'" using V' server ledger_of [OF server(1,2)] all by (simp add: ends_ok_def S'')
    moreover have "gate_ok E S'" using ok routed none all acc by (simp add: pipe_ok_def gate_ok_def S'' pipe_scheduled_def)
    moreover have "turn_ok E S'" using to by (simp add: S'' turn_ok_def)
    moreover have "front_ok E S'" using ok by (simp add: S'' pipe_ok_def front_ok_def pipe_queued_def)
    ultimately show ?thesis by (simp add: pipe_ok_def)
  qed
qed

lemma gateway_step_ok:
  assumes ok: "pipe_ok E V S" and E: "pipe_env_ok E" and "gateway_step E g x S = Some S'"
  shows "pipe_ok E V S'"
proof -
  have sp: "sp_ok (pp_sps S g)" using assms(3) unfolding gateway_step_def by (metis option.distinct(1))
  obtain k P out stop f G packet delay where k: "pool_find g (pp_sched S) = Some k"
    and pull: "sched_pull_loop (pi_pack E) k (good_rx (htonl LAMB_REQ)) (pp_sched S) = Some (P, out, stop)" and f: "the_frame out = Some f"
    and t: "sp_sender_loop (pi_sp E g) (x\<lparr>x_sent := True, x_buf := Some f\<rparr>) (pp_sps S g) = Some (G, packet, delay)"
    and S': "S' = S\<lparr>pp_sched := P, pp_sps := (pp_sps S)(g := G),
                pp_handed := pp_handed S @ (if CHECK_COMMAND f = LAMB_EMPTY then [] else [(g, f)]),
                pp_packets := pp_packets S @ (case packet of None \<Rightarrow> [] | Some q \<Rightarrow> [(g, q)])\<rparr>"
    using assms(3) sp unfolding gateway_step_def
    by (auto simp: bind_eq_Some_conv simp del: split_paired_Ex split: prod.splits)
  have P: "pool_inv (pp_sched S)" using ok by (simp add: pipe_ok_def gate_ok_def)
  have routed: "pipe_routed E S' = pipe_routed E S" by (rule pipe_routed_cong) (simp_all add: S')
  have "turn_ok E S'" using ok turn_ok_cong [of S' S E] by (simp add: S' pipe_ok_def)
  moreover have "ends_ok E V S'" using ok by (simp add: S' pipe_ok_def ends_ok_def pipe_offer_def pipe_accepted_def)
  moreover have "front_ok E S'" using ok by (simp add: S' pipe_ok_def front_ok_def pipe_queued_def)
  moreover have "gate_ok E S'"
    using gateway_pull_turn [OF pull f]
  proof
    assume e: "P = pp_sched S \<and> f = htonl LAMB_EMPTY"
    then have c: "CHECK_COMMAND f = LAMB_EMPTY" using CHECK_COMMAND_htonl [of LAMB_EMPTY "[]"] by simp
    then have "packet = None" using sender_packet(1) [OF t] by blast
    then show ?thesis using ok c e routed by (simp add: pipe_ok_def gate_ok_def S' pipe_scheduled_def pipe_accepted_def)
  next
    assume "\<exists>x. pool_pop k (pp_sched S) = (Some x, P) \<and> f = mt_emit (pi_pack E) x"
    then obtain x where pop: "pool_pop k (pp_sched S) = (Some x, P)" and fx: "f = mt_emit (pi_pack E) x" by blast
    have items: "mset (pool_items (pp_sched S)) = add_mset x (mset (pool_items P))" by (rule pool_items_pop [OF P k pop])
    then have sets: "set (pool_items (pp_sched S)) = insert x (set (pool_items P))"
      by (metis set_mset_add_mset_insert set_mset_mset)
    then have "in_queue E x" using ok by (simp add: pipe_ok_def gate_ok_def)
    then obtain m where m: "f = submit_frame E m" "on_wire E m" using in_queue_emit fx by fastforce
    have c: "CHECK_COMMAND f \<noteq> LAMB_EMPTY" using m(1) by (simp add: submit_frame_def)
    have phone: "sm_phone q = sb_phone (frame_submit E f)" if "packet = Some q" for q
      using sender_packet(2) [OF t m(1) _ that] m E frame_submit_frame [OF E m(2)] by (simp add: pipe_env_ok_def)
    have "pool_inv P" using pool_inv_pop [OF P, of k] pop by simp
    moreover have "mset (map (mt_emit (pi_pack E)) (pool_items (pp_sched S))) = add_mset f (mset (map (mt_emit (pi_pack E)) (pool_items P)))"
      using items fx by simp
    moreover have "subseq (map (\<lambda>(g, q). (g, sm_phone q)) (pp_packets S')) (map (\<lambda>(g, f). (g, sb_phone (frame_submit E f))) (pp_handed S'))"
      using ok c phone by (cases packet) (auto simp: S' pipe_ok_def gate_ok_def subseq_append_iff intro: list_emb_append_mono subseq_append)
    ultimately show ?thesis using ok c routed sets
      by (simp add: pipe_ok_def gate_ok_def S' pipe_scheduled_def pipe_accepted_def)
  qed
  ultimately show ?thesis by (simp add: pipe_ok_def)
qed

lemma pipe_step_ok:
  assumes "pipe_ok E V S" and "pipe_env_ok E" and "pipe_step E a S = Some S'" and "steady a"
  shows "pipe_ok E V S'"
proof (cases a)
  case (Client t)
  then show ?thesis using assms client_step_ok by (simp add: pipe_step_def)
next
  case Mt_take
  then show ?thesis using assms mt_step_ok by (simp add: pipe_step_def)
next
  case (Serve w)
  then show ?thesis using assms serve_step_ok by (simp add: pipe_step_def steady_def)
next
  case Route
  then show ?thesis using assms route_step_ok by (simp add: pipe_step_def)
next
  case Reply
  then show ?thesis using assms reply_step_ok by (simp add: pipe_step_def)
next
  case Reload
  then show ?thesis using assms by (simp add: steady_def)
next
  case (Gateway g x)
  then show ?thesis using assms gateway_step_ok by (simp add: pipe_step_def)
qed

lemma pipe_init_ok:
  assumes "pool_inv M" "pool_find (ab_id (ie_account (pi_ismg E))) M = Some (pi_queue E)"
    "pool_content M (ab_id (ie_account (pi_ismg E))) = []" and "pool_inv P" "pool_items P = []"
  shows "pipe_ok E V (pipe_init M V P sps)"
  using assms
  by (simp add: pipe_init_def pipe_ok_def front_ok_def ends_ok_def turn_ok_def gate_ok_def pipe_views ismg_buffers_def ismg_start_def
      zeroed_def)

lemma pipe_reach_ok:
  assumes "pipe_reach E steady (pipe_init M V P sps) S" and E: "pipe_env_ok E"
    and M: "pool_inv M" "pool_find (ab_id (ie_account (pi_ismg E))) M = Some (pi_queue E)"
      "pool_content M (ab_id (ie_account (pi_ismg E))) = []" and P: "pool_inv P" "pool_items P = []"
  shows "pipe_ok E V S"
  using assms(1)
proof induction
  case pipe_start
  then show ?case by (rule pipe_init_ok [OF M P])
next
  case (pipe_next S a S')
  then show ?case using pipe_step_ok [OF _ E] by blast
qed

text \<open>
  C3: Nothing is lost, doubled or charged wrongly on the way to the gateways. Whatever client,
  processes and gateways do in any order, as long as memory suffices and the server is not
  reloaded while it waits for the scheduler: each submit answered with success was sent to mt
  once; what mt got, cut to its fields, is in order what the server took, what mt still holds
  and what is on the way; the server is done with each frame it took, except the one it is
  offering, by accepting or refusing that very message; the charges and records are those of the
  accepted ones, in order; the frames the gateways were handed and those in their queues are
  together the accepted ones and the one the server has not heard of yet; and each gateway sends
  at most one packet for a frame it was handed, to the number in it, in order.
\<close>

theorem pipeline_conserves:
  assumes E: "pipe_env_ok E" and M: "pool_inv M" "pool_find (ab_id (ie_account (pi_ismg E))) M = Some (pi_queue E)"
      "pool_content M (ab_id (ie_account (pi_ismg E))) = []" and P: "pool_inv P" "pool_items P = []"
    and reach: "pipe_reach E steady (pipe_init M V P sps) S"
  shows "answered 0 (pp_answers S) = length (pp_frames S) \<and>
     map (mt_pass E) (pp_frames S) = pp_taken S @ pipe_queued E S @ map (mt_pass E) (pp_link S) \<and>
     (\<exists>ds. pp_taken S = ds @ pipe_offer S \<and> list_all2 (served E) ds (pp_ends S)) \<and>
     sv_billing (pp_server S) = sv_billing V @ map (bill_of V) (pipe_accepted S) \<and>
     sv_storage (pp_server S) = sv_storage V @ map (stored_of V) (pipe_accepted S) \<and>
     mset (map snd (pp_handed S)) + mset (pipe_scheduled E S) =
       mset (map (submit_frame E) (pipe_accepted S)) + mset (pipe_routed E S) \<and>
     subseq (map (\<lambda>(g, q). (g, sm_phone q)) (pp_packets S)) (map (\<lambda>(g, f). (g, sb_phone (frame_submit E f))) (pp_handed S))"
  using pipe_reach_ok [OF reach E M P] by (simp add: pipe_ok_def front_ok_def ends_ok_def gate_ok_def)

subsection \<open>Steps that succeed\<close>

lemma classify_none [simp]: "classify None = Short"
  by (simp add: classify_def)

lemma serve_offers:
  assumes E: "pipe_env_ok E" and w: "w_ok w" and idle: "pp_turn S = None" "\<not> sv_sleeping (pp_server S)" "\<not> sv_arrears (pp_server S)"
    and M: "pool_inv (pp_mt S)" "pool_find i (pp_mt S) = Some (pi_queue E)" "pool_content (pp_mt S) i = x # xs"
    and m: "submit_load x = Some m" "on_wire E m" and f: "submit_filter (pi_server E) w (pp_server S) m = Some (st, cmds, Inr m1)"
  shows "serve_step E w S = Some (S\<lparr>pp_mt := snd (pool_pop (pi_queue E) (pp_mt S)), pp_taken := pp_taken S @ [submit_frame E m],
     pp_turn := Some (w, submit_frame E m, []), pp_to := pp_to S @ [submit_frame E m1]\<rparr>)"
proof -
  obtain M1 where pop: "pool_pop (pi_queue E) (pp_mt S) = (Some x, M1)"
    using pool_pop_content(1) [OF M(1,2)] M(3) by (cases "pool_pop (pi_queue E) (pp_mt S)") simp
  have pull: "mt_pull_loop (pi_pack E) (pi_queue E) (good_rx (htonl LAMB_REQ)) (pp_mt S) = Some (M1, [submit_frame E m], False)"
    using pop m(1) by (simp add: mt_pull_loop_def good_rx_def submit_frame_def)
  have p: "submit_frame E m = htonl LAMB_SUBMIT @ se_pack (pi_server E) m" "se_unpack (pi_server E) (se_pack (pi_server E) m) = Some m"
    "submit_frame E m1 = htonl LAMB_SUBMIT @ se_pack (pi_server E) m1"
    using E m(2) by (simp_all add: submit_frame_def pipe_env_ok_def)
  note t = server_turn_waits [OF p(2) idle(2,3) f w, of "pi_resp E", folded p(1,3)]
  have "CHECK_COMMAND (submit_frame E m) \<noteq> LAMB_EMPTY" by (simp add: submit_frame_def)
  with idle pull t pop show ?thesis by (simp add: serve_step_def the_frame_def)
qed

lemma route_sends:
  assumes E: "pipe_env_ok E" and to: "pp_to S = submit_frame E m # ps" and m: "on_wire E m" "submit_store m = Some x"
  shows "route_step E S = Some (S\<lparr>pp_to := ps, pp_from := pp_from S @ [htonl (routing_answer x (pi_channels E) (pp_sched S))],
     pp_sched := snd (channel_search True x (pi_channels E) no_search (pp_sched S))\<rparr>)"
proof -
  have "pi_unpack E (pi_pack E m) = Some m" using E m(1) by (simp add: pipe_env_ok_def)
  then show ?thesis using to m(2) channel_search_answer [of True x "pi_channels E" "pp_sched S"]
    by (cases "channel_search True x (pi_channels E) no_search (pp_sched S)")
      (simp add: route_step_def sched_push_loop_def good_rx_def submit_frame_def answer_frame_def)
qed

lemma reload_offers_again:
  assumes E: "pipe_env_ok E" and turn: "pp_turn S = Some (w, f, as)" and offer: "offers E S w f as m m1"
  shows "reload_step E S = Some (S\<lparr>pp_from := [], pp_turn := Some (w, f, as @ [Some None]), pp_to := [submit_frame E m1]\<rparr>)"
proof -
  have next_offer: "offers E S w f (as @ [Some None]) m m1" using offer by (simp add: offers_def work_schedule_more)
  obtain V r where t: "server_turn (pi_server E) (pi_resp E) w f (as @ [Some None]) (pp_server S) = Some (V, r)"
    using server_turn_offers [OF next_offer E] by blast
  have ofr: "w_ok w" "f = submit_frame E m" "on_wire E m" "\<not> sv_sleeping (pp_server S)" "\<not> sv_arrears (pp_server S)"
      "work_schedule (as @ [Some None]) = None" using next_offer by (simp_all add: offers_def)
  have "wo_end r = Waiting m1 \<and> wo_packet r = Some (submit_frame E m1)"
    using server_turn_ends [OF t [unfolded ofr(2)] ofr(3) E ofr(4,5,1)] offer ofr(6) by (auto simp: offers_def answer_end_def)
  then show ?thesis using turn t by (simp add: reload_step_def hear_def)
qed

lemma reply_accepts:
  assumes E: "pipe_env_ok E" and turn: "pp_turn S = Some (w, f, as)" and offer: "offers E S w f as m m1"
    and ok: "pp_from S = htonl LAMB_OK # rest" and len: "length (sb_content m1) \<le> 160"
  shows "\<exists>V. reply_step E S = Some (S\<lparr>pp_from := rest, pp_turn := None, pp_server := V, pp_ends := pp_ends S @ [Accepted m1]\<rparr>) \<and>
     sv_billing V = sv_billing (pp_server S) @ [bill_of (pp_server S) m1] \<and>
     sv_storage V = sv_storage (pp_server S) @ [stored_of (pp_server S) m1]"
proof -
  let ?as = "as @ [Some (Some (htonl LAMB_OK))]"
  have ofr: "w_ok w" "f = submit_frame E m" "on_wire E m" "\<not> sv_sleeping (pp_server S)" "\<not> sv_arrears (pp_server S)"
      "work_schedule ?as = Some LAMB_OK" using offer by (simp_all add: offers_def work_schedule_more)
  obtain st cmds where f: "submit_filter (pi_server E) w (pp_server S) m = Some (st, cmds, Inr m1)" using offer by (auto simp: offers_def)
  let ?S = "(pp_server S)\<lparr>sv_status := st\<lparr>st_sub := st_sub st + 1\<rparr>\<rparr>"
  obtain x where "submit_store m1 = Some x" using submit_store_Some_iff [of m1] len by blast
  then have stored: "\<exists>x. storage_submit S m1 = Some x" for S by (auto simp: storage_submit_def submit_store_def bind_eq_Some_conv)
  have "\<exists>V. work_record w' ?S m1 = Some V" for w'
    using stored [of "?S\<lparr>sv_billing := sv_billing (pp_server S) @ [\<lparr>bl_id = co_id (sv_company (pp_server S)), bl_money = -1\<rparr>]\<rparr>"] stored [of ?S]
    by (auto simp: work_record_def Let_def)
  then obtain V where rec: "work_record (w\<lparr>w_sent := True, w_buf := Some f, w_answers := ?as\<rparr>) ?S m1 = Some V" by blast
  obtain r where t: "server_turn (pi_server E) (pi_resp E) w f ?as (pp_server S) = Some (V, r)"
    using ofr f E rec
    by (simp add: server_turn_def lamb_work_loop_def submit_frame_def pipe_env_ok_def work_submit_def submit_filter_def
        work_filter_turn w_ok_def Let_def)
  have r: "wo_end r = Accepted m1" using server_turn_ends [OF t [unfolded ofr(2)] ofr(3) E ofr(4,5,1)] f ofr(6) by (auto simp: answer_end_def)
  then have "accepts r = [m1]" by (simp add: accepts_def)
  with server_turn_ledger [OF t ofr(1)] turn ok t r show ?thesis by (intro exI [of _ V]) (simp add: reply_step_def hear_def)
qed

lemma first_channel_takes:
  assumes "lamb_check_operator c phone" and "ls_phone y = phone" and "pool_find (ch_id c) Q = Some k" "pool_len k Q < 128"
  shows "snd (channel_search True y (c # cs) no_search Q) = pool_push True k y Q \<and> routing_answer y (c # cs) Q = LAMB_OK"
  using assms by (simp add: lamb_check_province_def routing_answer_def serves_def has_room_def Let_def)

text \<open>
  C14: A reload can send a submit twice. If the server reloads its configuration after the scheduler
  has queued the submit it offers and before it has the answer, it sends the submit again on
  its new connection: the scheduler queues it a second time for a gateway with room, and the
  company is charged once for what the operator gets twice.
\<close>

theorem reload_doubles_submit:
  assumes E: "pipe_env_ok E" and w: "w_ok w" and idle: "pp_turn S = None" "pp_to S = []" "pp_from S = []"
      "\<not> sv_sleeping (pp_server S)" "\<not> sv_arrears (pp_server S)"
    and M: "pool_inv (pp_mt S)" "pool_find i (pp_mt S) = Some (pi_queue E)" "pool_content (pp_mt S) i = x # xs"
    and m: "submit_load x = Some m" "on_wire E m" "mt_cut m = m" and f: "submit_filter (pi_server E) w (pp_server S) m = Some (st, cmds, Inr m1)"
    and len: "length (sb_content m1) \<le> 160" "submit_store m1 = Some y"
    and c: "pi_channels E = c # cs" "lamb_check_operator c (sb_phone m1)" and P: "pool_inv (pp_sched S)"
      "pool_find (ch_id c) (pp_sched S) = Some k" "pool_len k (pp_sched S) < 127"
  shows "\<exists>S'. pipe_run E [Serve w, Route, Reload, Route, Reply] S = Some S' \<and>
     pp_ends S' = pp_ends S @ [Accepted m1] \<and> pp_turn S' = None \<and>
     sv_billing (pp_server S') = sv_billing (pp_server S) @ [bill_of (pp_server S) m1] \<and>
     pool_content (pp_sched S') = (pool_content (pp_sched S))(ch_id c := pool_content (pp_sched S) (ch_id c) @ [y, y])"
proof -
  let ?f = "submit_frame E m" and ?p = "submit_frame E m1" and ?P = "pp_sched S"
  let ?P1 = "pool_push True k y ?P" let ?P2 = "pool_push True k y ?P1"
  have phone: "ls_phone y = sb_phone m1"
  proof -
    have "offers E S w ?f [] m m1" using w idle m f by (simp add: offers_def)
    then have "mt_cut m1 = m1" by (rule offers_on_wire(2))
    then have "sb_phone (mt_cut m1) = sb_phone m1" by simp
    then show ?thesis using len(2) by (auto simp: submit_store_def mt_cut_def bind_eq_Some_conv)
  qed
  have k: "k < length (pqueues ?P)" using P pool_find_Some by (fastforce simp: pool_inv_def)
  have first: "snd (channel_search True y (pi_channels E) no_search Q) = pool_push True k y Q \<and> routing_answer y (pi_channels E) Q = LAMB_OK"
    if "pool_find (ch_id c) Q = Some k" "pool_len k Q < 128" for Q
    using first_channel_takes [OF c(2) phone that] c(1) by simp
  have search1: "snd (channel_search True y (pi_channels E) no_search ?P) = ?P1 \<and> routing_answer y (pi_channels E) ?P = LAMB_OK"
    using first [of ?P] P by simp
  have search2: "snd (channel_search True y (pi_channels E) no_search ?P1) = ?P2 \<and> routing_answer y (pi_channels E) ?P1 = LAMB_OK"
    using first [of ?P1] P k by (simp add: pool_len_def pool_push_def)
  define S1 where "S1 = S\<lparr>pp_mt := snd (pool_pop (pi_queue E) (pp_mt S)), pp_taken := pp_taken S @ [?f], pp_turn := Some (w, ?f, []), pp_to := [?p]\<rparr>"
  define S2 where "S2 = S1\<lparr>pp_to := [], pp_from := [htonl LAMB_OK], pp_sched := ?P1\<rparr>"
  define S3 where "S3 = S2\<lparr>pp_from := [], pp_turn := Some (w, ?f, [Some None]), pp_to := [?p]\<rparr>"
  define S4 where "S4 = S3\<lparr>pp_to := [], pp_from := [htonl LAMB_OK], pp_sched := ?P2\<rparr>"
  have offer: "offers E S2 w ?f [] m m1" "offers E S4 w ?f [Some None] m m1"
    using w idle m f by (simp_all add: offers_def S1_def S2_def S3_def S4_def)
  have m1: "on_wire E m1" using offers_on_wire(1) [OF offer(1)] .
  have 1: "serve_step E w S = Some S1"
    using serve_offers [OF E w idle(1,4,5) M m(1,2) f] idle(2) by (simp add: S1_def)
  have 2: "route_step E S1 = Some S2"
    using route_sends [OF E _ m1 len(2), of S1 "[]"] search1 idle(3) by (simp add: S1_def S2_def)
  have 3: "reload_step E S2 = Some S3"
    using reload_offers_again [OF E _ offer(1)] by (simp add: S3_def S2_def S1_def)
  have 4: "route_step E S3 = Some S4"
    using route_sends [OF E _ m1 len(2), of S3 "[]"] search2 by (simp add: S1_def S2_def S3_def S4_def)
  obtain V where 5: "reply_step E S4 = Some (S4\<lparr>pp_from := [], pp_turn := None, pp_server := V, pp_ends := pp_ends S4 @ [Accepted m1]\<rparr>)"
    "sv_billing V = sv_billing (pp_server S4) @ [bill_of (pp_server S4) m1]"
    using reply_accepts [OF E _ offer(2) _ len(1), of "[]"] by (auto simp: S4_def S3_def)
  have "pool_content ?P2 = (pool_content ?P)(ch_id c := pool_content ?P (ch_id c) @ [y, y])"
    using pool_push_content [OF P(1,2), of y] pool_push_content [of ?P1 "ch_id c" k y] pool_inv_push [OF P(1)] P(2) by simp
  moreover have "pp_server S4 = pp_server S" "pp_ends S4 = pp_ends S" "pp_sched S4 = ?P2" by (simp_all add: S1_def S2_def S3_def S4_def)
  ultimately show ?thesis using 1 2 3 4 5 by (simp add: pipe_step_def)
qed

subsection \<open>A codec and a run\<close>

text \<open>
  The fields one after the other, numbers in unary, each up to a NUL, and the content last. The
  account and the company are those of the client.
\<close>

definition codec_field :: "bytes \<Rightarrow> string \<times> bytes" where
  "codec_field b = (cstr b, tl (dropWhile (\<lambda>c. c \<noteq> NUL) b))"

definition codec_pack :: "Submit \<Rightarrow> bytes" where
  "codec_pack m = replicate (unat (sb_id m)) (CHR ''x'') @ NUL # replicate (nat (sb_msgfmt m)) (CHR ''x'') @ NUL #
     sb_spid m @ NUL # sb_spcode m @ NUL # sb_phone m @ NUL # sb_content m"

definition codec_unpack :: "bytes \<Rightarrow> Submit option" where
  "codec_unpack b =
     (let (i, b) = codec_field b; (fmt, b) = codec_field b; (spid, b) = codec_field b; (spcode, b) = codec_field b;
          (phone, b) = codec_field b
      in Some \<lparr>sb_id = of_nat (length i), sb_account = ab_id (ie_account example_client),
           sb_company = ab_company (ie_account example_client), sb_spid = spid, sb_spcode = spcode, sb_phone = phone,
           sb_msgfmt = int (length fmt), sb_length = int (length b), sb_content = b\<rparr>)"

lemma codec_field_append: "c_string s \<Longrightarrow> codec_field (s @ NUL # b) = (s, b)"
  by (auto simp: codec_field_def cstr_append_NUL c_string_def dropWhile_append)

definition example_pipe :: pipe_env where
  "example_pipe = \<lparr>pi_ismg = example_client\<lparr>ie_pack := codec_pack\<rparr>,
     pi_server = example_server_env\<lparr>se_pack := codec_pack, se_unpack := codec_unpack\<rparr>, pi_resp = example_report,
     pi_channels = [path_channel], pi_sp = (\<lambda>g. example_sp_env\<lparr>pe_unpack := codec_unpack\<rparr>),
     pi_pack = codec_pack, pi_unpack = codec_unpack, pi_queue = 0\<rparr>"

lemma example_pipe_ok: "pipe_env_ok example_pipe"
proof -
  have "codec_unpack (codec_pack m) = Some m" if m: "on_wire example_pipe m" for m
  proof -
    have "c_string (replicate n (CHR ''x''))" for n by (simp add: c_string_def)
    moreover have "0 \<le> sb_msgfmt m" using m by (auto simp: on_wire_def ismg_formats_def)
    ultimately show ?thesis using m
      by (cases m) (simp add: on_wire_def codec_pack_def codec_unpack_def codec_field_append example_pipe_def)
  qed
  then show ?thesis by (simp add: pipe_env_ok_def example_pipe_def)
qed

text \<open>The pools with one empty queue: of the client in mt, of the channel's gateway in the scheduler.\<close>

definition one_queue :: "int \<Rightarrow> lamb_submit_t pool" where
  "one_queue i = \<lparr>pqueues = [\<lparr>bq_id = i, bq_items = []\<rparr>], plist = [0]\<rparr>"

lemma one_queue_facts: "pool_inv (one_queue i)" "pool_find i (one_queue i) = Some 0" "pool_content (one_queue i) i = []"
  "pool_items (one_queue i) = []" "pool_len 0 (one_queue i) = 0"
  by (simp_all add: one_queue_def pool_inv_def pool_find_def pool_content_def pool_items_def pool_len_def)

abbreviation example_start :: pipe where
  "example_start \<equiv> pipe_init (one_queue (ab_id (ie_account example_client))) example_server (one_queue (ch_id path_channel)) (\<lambda>g. sp_initial 1 True)"

lemma path_message_wire: "on_wire example_pipe path_message" "mt_cut path_message = path_message"
  "\<exists>y. submit_store path_message = Some y \<and> submit_load y = Some path_message"
proof -
  have "c_string ''10690''" "c_string ''13800138000''" by (simp_all add: c_string_def)
  then show "on_wire example_pipe path_message"
    by (simp add: on_wire_def path_message_def the_submit_def example_pipe_def ismg_formats_def)
  have fits: "submit_fits path_message"
    by (simp add: submit_fits_def path_message_def the_submit_def example_client_def cstr_def zeroed_def)
  then show "mt_cut path_message = path_message" by (simp add: submit_fits_def mt_cut_def)
  show "\<exists>y. submit_store path_message = Some y \<and> submit_load y = Some path_message" by (rule submit_fits_round [OF fits])
qed

text \<open>After the client's submit is in mt, whatever came before that left the server idle.\<close>

lemma example_submitted:
  "\<exists>S y. pipe_run example_pipe [Client (example_iturn path_submit), Mt_take] example_start = Some S \<and>
     submit_store path_message = Some y \<and> submit_load y = Some path_message \<and>
     pool_content (pp_mt S) (ab_id (ie_account example_client)) = [y] \<and> pool_inv (pp_mt S) \<and>
     pool_find (ab_id (ie_account example_client)) (pp_mt S) = Some (pi_queue example_pipe) \<and>
     pp_turn S = None \<and> pp_to S = [] \<and> pp_from S = [] \<and> pp_server S = example_server \<and>
     pp_sched S = one_queue (ch_id path_channel) \<and> pp_ends S = [] \<and> pp_link S = []"
proof -
  let ?E = example_pipe and ?t = "example_iturn path_submit" and ?i = "ab_id (ie_account example_client)"
  have I: "ismg_buffers ismg_start" by (simp add: ismg_buffers_def ismg_start_def zeroed_def)
  have t: "i_recv ?t = Inr path_submit" "i_pk ?t" "i_frame ?t" "i_sent ?t" by (simp_all add: example_iturn_def)
  have pi: "pi_ismg ?E = example_client\<lparr>ie_pack := codec_pack\<rparr>" "pi_pack ?E = codec_pack" "pi_queue ?E = 0" by (simp_all add: example_pipe_def)
  have pm: "the_submit (ie_account (pi_ismg ?E)) (next_msgid (pi_ismg ?E) ?t ismg_start) ''13800138000'' ''10690'' 11 ''hello'' = path_message"
    by (simp add: pi path_msgid path_message_def)
  obtain I1 where w: "ismg_work_loop (pi_ismg ?E) ?t ismg_start = Some (I1, no_iout\<lparr>io_answers := [Submit_resp (pk_sequenceId path_submit) (next_msgid (pi_ismg ?E) ?t ismg_start) 0],
     io_frames := [submit_frame ?E path_message]\<rparr>)"
    using ismg_takes_submit [OF client_path_submit I t, of "pi_ismg ?E", unfolded pm] by (auto simp: submit_frame_def pi)
  obtain y where y: "submit_store path_message = Some y" "submit_load y = Some path_message" using path_message_wire(3) by blast
  have u: "pi_unpack ?E (pi_pack ?E path_message) = Some path_message" using example_pipe_ok path_message_wire(1) by (simp add: pipe_env_ok_def)
  then have p: "mt_push_loop (pi_unpack ?E) 0 (good_rx (submit_frame ?E path_message)) (one_queue ?i) = Some (pool_push True 0 y (one_queue ?i), [], False)"
    using y(1) by (simp add: mt_push_loop_def good_rx_def submit_frame_def)
  have "pool_content (pool_push True 0 y (one_queue ?i)) ?i = [y]" "pool_inv (pool_push True 0 y (one_queue ?i))"
    using pool_push_content [OF one_queue_facts(1,2)] pool_inv_push [OF one_queue_facts(1)] by (simp_all add: one_queue_facts)
  then show ?thesis using w p y one_queue_facts pi(3)
    by (simp add: pipe_step_def client_step_def mt_step_def pipe_init_def no_iout_def)
qed

theorem pipeline_conserves_witness:
  "\<exists>S. pipe_reach example_pipe steady example_start S \<and> pp_ends S = [Accepted path_message] \<and>
     sv_billing (pp_server S) = [\<lparr>bl_id = 3, bl_money = -1\<rparr>] \<and> answered 0 (pp_answers S) = length (pp_frames S) \<and>
     mset (map snd (pp_handed S)) + mset (pipe_scheduled example_pipe S) = {#submit_frame example_pipe path_message#} + mset (pipe_routed example_pipe S)"
proof -
  let ?E = example_pipe and ?i = "ab_id (ie_account example_client)" and ?w = "example_wturn [] []" and ?f = "submit_frame example_pipe path_message"
  obtain S y where run: "pipe_run ?E [Client (example_iturn path_submit), Mt_take] example_start = Some S"
    and y: "submit_store path_message = Some y" "submit_load y = Some path_message"
    and mt: "pool_content (pp_mt S) ?i = [y]" "pool_inv (pp_mt S)" "pool_find ?i (pp_mt S) = Some (pi_queue ?E)"
    and idle: "pp_turn S = None" "pp_to S = []" "pp_from S = []" "pp_server S = example_server"
    and sched: "pp_sched S = one_queue (ch_id path_channel)" and ends: "pp_ends S = []" and "pp_link S = []"
    using example_submitted by blast
  have V: "\<not> sv_sleeping (pp_server S)" "\<not> sv_arrears (pp_server S)" and w: "w_ok ?w"
    by (simp_all add: idle example_server_def example_wturn_def w_ok_def)
  note f = path_filter [of "pi_server ?E", folded idle(4)]
  define S1 where "S1 = S\<lparr>pp_mt := snd (pool_pop (pi_queue ?E) (pp_mt S)), pp_taken := pp_taken S @ [?f], pp_turn := Some (?w, ?f, []), pp_to := [?f]\<rparr>"
  have 1: "serve_step ?E ?w S = Some S1"
    using serve_offers [OF example_pipe_ok w idle(1) V mt(2,3,1) y(2) path_message_wire(1) f] idle(2) by (simp add: S1_def)
  have offer: "offers ?E S1 ?w ?f [] path_message path_message"
    using w V f path_message_wire by (auto simp: offers_def S1_def)
  have route: "routing_answer y (pi_channels ?E) (pp_sched S) = LAMB_OK"
  proof -
    have "ls_phone y = ''13800138000''" using y(2) by (auto simp: submit_load_def path_message_def the_submit_def bind_eq_Some_conv)
    then show ?thesis
      by (simp add: routing_answer_def example_pipe_def serves_def has_room_def sched one_queue_facts lamb_check_province_def
          lamb_check_operator_def path_channel_def cmcc_def LAMB_CMCC_def)
  qed
  define S2 where "S2 = S1\<lparr>pp_to := [], pp_from := [htonl LAMB_OK], pp_sched := snd (channel_search True y (pi_channels ?E) no_search (pp_sched S))\<rparr>"
  have 2: "route_step ?E S1 = Some S2"
    using route_sends [OF example_pipe_ok _ path_message_wire(1) y(1), of S1 "[]"] route idle(3) by (simp add: S1_def S2_def)
  have offer2: "offers ?E S2 ?w ?f [] path_message path_message" using offer by (simp add: offers_def S2_def)
  obtain V1 where 3: "reply_step ?E S2 = Some (S2\<lparr>pp_from := [], pp_turn := None, pp_server := V1, pp_ends := [Accepted path_message]\<rparr>)"
    "sv_billing V1 = sv_billing example_server @ [bill_of example_server path_message]"
    using reply_accepts [OF example_pipe_ok _ offer2, of "[]"] ends idle(4)
    by (auto simp: S2_def S1_def path_message_def the_submit_def)
  let ?S = "S2\<lparr>pp_from := [], pp_turn := None, pp_server := V1, pp_ends := [Accepted path_message]\<rparr>"
  have "pipe_reach ?E steady example_start S" by (rule pipe_run_reach [OF pipe_start run]) (simp add: steady_def)
  moreover have "pipe_run ?E [Serve ?w, Route, Reply] S = Some ?S" using 1 2 3 by (simp add: pipe_step_def)
  ultimately have reach: "pipe_reach ?E steady example_start ?S" by (rule pipe_run_reach) (simp add: steady_def w)
  have M: "pool_find (ab_id (ie_account (pi_ismg ?E))) (one_queue ?i) = Some (pi_queue ?E)" "pool_content (one_queue ?i) (ab_id (ie_account (pi_ismg ?E))) = []"
    using one_queue_facts by (simp_all add: example_pipe_def)
  have "sv_billing (pp_server ?S) = [\<lparr>bl_id = 3, bl_money = -1\<rparr>]" using 3(2) by (simp add: example_server_def bill_of_def)
  with reach pipeline_conserves [OF example_pipe_ok one_queue_facts(1) M one_queue_facts(1,4) reach]
  show ?thesis by (intro exI [of _ ?S]) (simp add: pipe_accepted_def)
qed

theorem reload_doubles_submit_witness:
  "\<exists>S S' y. pipe_run example_pipe [Serve (example_wturn [] []), Route, Reload, Route, Reply] S = Some S' \<and>
     sv_billing (pp_server S') = [\<lparr>bl_id = 3, bl_money = -1\<rparr>] \<and> pool_content (pp_sched S') (ch_id path_channel) = [y, y]"
proof -
  let ?E = example_pipe and ?i = "ab_id (ie_account example_client)" and ?w = "example_wturn [] []"
  obtain S y where "pipe_run ?E [Client (example_iturn path_submit), Mt_take] example_start = Some S"
    and y: "submit_store path_message = Some y" "submit_load y = Some path_message"
    and mt: "pool_content (pp_mt S) ?i = [y]" "pool_inv (pp_mt S)" "pool_find ?i (pp_mt S) = Some (pi_queue ?E)"
    and idle: "pp_turn S = None" "pp_to S = []" "pp_from S = []" "pp_server S = example_server"
    and sched: "pp_sched S = one_queue (ch_id path_channel)" and "pp_ends S = []" and "pp_link S = []"
    using example_submitted by blast
  have V: "\<not> sv_sleeping (pp_server S)" "\<not> sv_arrears (pp_server S)" and w: "w_ok ?w"
    by (simp_all add: idle example_server_def example_wturn_def w_ok_def)
  note f = path_filter [of "pi_server ?E", folded idle(4)]
  have len: "length (sb_content path_message) \<le> 160" by (simp add: path_message_def the_submit_def)
  have c: "pi_channels ?E = path_channel # []" "lamb_check_operator path_channel (sb_phone path_message)"
    by (simp_all add: example_pipe_def lamb_check_operator_def path_channel_def cmcc_def LAMB_CMCC_def path_message_def the_submit_def)
  have P: "pool_inv (pp_sched S)" "pool_find (ch_id path_channel) (pp_sched S) = Some 0" "pool_len 0 (pp_sched S) < 127"
    by (simp_all add: sched one_queue_facts)
  have eqs: "sv_billing (pp_server S) = []" "bill_of (pp_server S) path_message = \<lparr>bl_id = 3, bl_money = -1\<rparr>"
    "pool_content (pp_sched S) (ch_id path_channel) = []"
    by (simp_all add: idle sched one_queue_facts example_server_def bill_of_def)
  obtain S' where "pipe_run ?E [Serve ?w, Route, Reload, Route, Reply] S = Some S'"
    "sv_billing (pp_server S') = sv_billing (pp_server S) @ [bill_of (pp_server S) path_message]"
    "pool_content (pp_sched S') = (pool_content (pp_sched S))(ch_id path_channel := pool_content (pp_sched S) (ch_id path_channel) @ [y, y])"
    using reload_doubles_submit [OF example_pipe_ok w idle(1-3) V mt(2,3,1) y(2) path_message_wire(1,2) f len y(1) c P] by blast
  then show ?thesis using eqs by (intro exI [of _ S] exI [of _ S'] exI [of _ y]) (simp del: pipe_run.simps)
qed
end
