(* ===== verification/PipeDrain.thy ===== *)
theory PipeDrain
  imports Pipeline
begin

text \<open>
  The submit pipeline comes to an end: what the client was promised is decided. From any state between
  two submits of the server, when the checks give a verdict on every submit and the queues of
  the gateways have room, mt, server and scheduler can empty what is on the way.
\<close>

subsection \<open>What a verdict depends on\<close>

lemma work_lists_rules:
  assumes l: "work_lists e w V m st = Some (st1, cmds, hit)" and V: "same_rules V V'"
  shows "\<exists>st2. work_lists e w V' m st' = Some (st2, cmds, hit)"
proof -
  let ?opts = "ac_options (sv_account V)"
  let ?black = "if bit ?opts 4 then lamb_check_blacklist (w_blacklist w) (sb_phone m) else Some False"
    and ?unsub = "if bit ?opts 3 then lamb_check_unsubscribe (w_unsubscribe w) (se_aid e) (sb_phone m) else Some False"
    and ?freq = "if bit ?opts 2 then lamb_check_frequency (w_frequency w) (se_aid e) (sb_phone m) else Some (False, [])"
  note def = work_lists_def Let_def
  have opts: "sv_account V' = sv_account V" using V by (simp add: same_rules_def)
  obtain a where a: "?black = Some a" using l unfolding def by (cases ?black) simp_all
  show ?thesis
  proof (cases a)
    case True
    then show ?thesis using l a unfolding def opts by simp
  next
    case no_a: False
    obtain b where b: "?unsub = Some b" using l a no_a unfolding def by (cases ?unsub) simp_all
    show ?thesis
    proof (cases b)
      case True
      then show ?thesis using l a no_a b unfolding def opts by simp
    next
      case no_b: False
      obtain c cs where "?freq = Some (c, cs)" using l a no_a b no_b unfolding def by (cases ?freq) auto
      then show ?thesis using l a no_a b no_b unfolding def opts by simp
    qed
  qed
qed

lemma work_content_rules:
  assumes "work_content e w V m st = Some (st1, hit)" and "same_rules V V'"
  shows "\<exists>st2. work_content e w V' m st' = Some (st2, hit)"
  using assms by (auto simp: work_content_def same_rules_def Let_def bind_eq_Some_conv split: if_splits)

lemma submit_filter_rules:
  assumes f: "submit_filter e w V m = Some (st, cmds, v)" and V: "same_rules V V'"
  shows "\<exists>st2. submit_filter e w V' m = Some (st2, cmds, v)"
proof -
  let ?st = "(sv_status V)\<lparr>st_toal := st_toal (sv_status V) + 1\<rparr>" and ?st' = "(sv_status V')\<lparr>st_toal := st_toal (sv_status V') + 1\<rparr>"
  have run: "work_filter e w V m ?st = Some (st, cmds, v)" using f by (simp add: submit_filter_def)
  show ?thesis
  proof (cases "work_fromcode (sb_msgfmt m)")
    case None
    then show ?thesis using run by (simp add: submit_filter_def work_filter_def)
  next
    case (Some code)
    obtain st1 cmds1 hit where l: "work_lists e w V m ?st = Some (st1, cmds1, hit)"
      using run Some by (auto simp: work_filter_def bind_eq_Some_conv)
    obtain st2 where l': "work_lists e w V' m ?st' = Some (st2, cmds1, hit)" using work_lists_rules [OF l V] by blast
    show ?thesis
    proof (cases hit)
      case True
      then show ?thesis using run Some l l' by (simp add: submit_filter_def work_filter_def)
    next
      case no_hit: False
      obtain c where c: "work_convert (se_conv e) (w_content w) code m = Some c"
        using run Some l no_hit by (auto simp: work_filter_def bind_eq_Some_conv)
      show ?thesis
      proof (cases c)
        case (Inl counted)
        then show ?thesis using run Some l l' no_hit c by (simp add: submit_filter_def work_filter_def)
      next
        case (Inr m1)
        obtain st3 hit2 where d: "work_content e w V m1 st1 = Some (st3, hit2)"
          using run Some l no_hit c Inr by (auto simp: work_filter_def bind_eq_Some_conv)
        obtain st4 where "work_content e w V' m1 st2 = Some (st4, hit2)" using work_content_rules [OF d V] by blast
        then show ?thesis using run Some l l' no_hit c Inr d by (simp add: submit_filter_def work_filter_def)
      qed
    qed
  qed
qed

lemma server_turn_rules: "server_turn e resp w f as V = Some (V', r) \<Longrightarrow> same_rules V V'"
  unfolding server_turn_def by (rule work_loop_rules)

subsection \<open>Steps that refuse\<close>

lemma serve_refuses:
  assumes E: "pipe_env_ok E" and idle: "pp_turn S = None" "\<not> sv_sleeping (pp_server S)" "\<not> sv_arrears (pp_server S)"
    and M: "pool_inv (pp_mt S)" "pool_find i (pp_mt S) = Some (pi_queue E)" "pool_content (pp_mt S) i = x # xs"
    and m: "submit_load x = Some m" "on_wire E m" and f: "submit_filter (pi_server E) w (pp_server S) m = Some (st, cmds, Inl c)"
  shows "\<exists>V. serve_step E w S = Some (S\<lparr>pp_mt := snd (pool_pop (pi_queue E) (pp_mt S)), pp_server := V,
     pp_taken := pp_taken S @ [submit_frame E m], pp_ends := pp_ends S @ [Refused c m]\<rparr>) \<and> same_rules (pp_server S) V"
proof -
  obtain M1 where pop: "pool_pop (pi_queue E) (pp_mt S) = (Some x, M1)"
    using pool_pop_content(1) [OF M(1,2)] M(3) by (cases "pool_pop (pi_queue E) (pp_mt S)") simp
  have pull: "mt_pull_loop (pi_pack E) (pi_queue E) (good_rx (htonl LAMB_REQ)) (pp_mt S) = Some (M1, [submit_frame E m], False)"
    using pop m(1) by (simp add: mt_pull_loop_def good_rx_def submit_frame_def)
  have "pi_unpack E (pi_pack E m) = Some m" "se_unpack (pi_server E) = pi_unpack E" using E m(2) by (simp_all add: pipe_env_ok_def)
  then obtain V r where t: "server_turn (pi_server E) (pi_resp E) w (submit_frame E m) [] (pp_server S) = Some (V, r)"
      and r: "wo_end r = Refused c m" "wo_packet r = None"
    using f idle(2,3)
    by (simp add: server_turn_def lamb_work_loop_def submit_frame_def work_submit_def submit_filter_def work_filter_turn refuse_turn_simps)
  have "CHECK_COMMAND (submit_frame E m) \<noteq> LAMB_EMPTY" by (simp add: submit_frame_def)
  with idle pull t r pop server_turn_rules [OF t] show ?thesis
    by (intro exI [of _ V]) (simp add: serve_step_def the_frame_def)
qed

lemma reply_ends:
  assumes E: "pipe_env_ok E" and turn: "pp_turn S = Some (w, f, as)" and offer: "offers E S w f as m m1"
    and c: "pp_from S = [htonl c]" "c \<in> set answer_commands" "c \<noteq> LAMB_BUSY" and len: "length (sb_content m1) \<le> 160"
  shows "\<exists>V x. reply_step E S = Some (S\<lparr>pp_from := [], pp_turn := None, pp_server := V, pp_ends := pp_ends S @ [x]\<rparr>) \<and>
     same_rules (pp_server S) V"
proof -
  let ?as = "as @ [Some (Some (htonl c))]"
  have ofr: "w_ok w" "f = submit_frame E m" "on_wire E m" "\<not> sv_sleeping (pp_server S)" "\<not> sv_arrears (pp_server S)"
    and none: "work_schedule as = None" using offer by (simp_all add: offers_def)
  have sched: "work_schedule ?as = Some c" using work_schedule_answered [OF none c(2)] c(3) by simp
  obtain st cmds where flt: "submit_filter (pi_server E) w (pp_server S) m = Some (st, cmds, Inr m1)" using offer by (auto simp: offers_def)
  have "server_turn (pi_server E) (pi_resp E) w f ?as (pp_server S) \<noteq> None"
  proof (cases "c = LAMB_OK")
    case True
    then have "reply_step E S \<noteq> None" using reply_accepts [OF E turn offer _ len, of "[]"] c(1) by auto
    then show ?thesis using turn c(1)
      by (cases "server_turn (pi_server E) (pi_resp E) w f ?as (pp_server S)") (simp_all add: reply_step_def hear_def)
  next
    case False
    then have "c = LAMB_NOROUTE \<or> c = LAMB_REJECT" using c(2,3) by (simp add: answer_commands_def)
    then show ?thesis using ofr flt E sched
      by (auto simp: server_turn_def lamb_work_loop_def submit_frame_def pipe_env_ok_def work_submit_def submit_filter_def
          work_filter_turn w_ok_def Let_def)
  qed
  then obtain V r where t: "server_turn (pi_server E) (pi_resp E) w f ?as (pp_server S) = Some (V, r)" by auto
  have "wo_end r = answer_end ?as m1"
    using server_turn_ends [OF t [unfolded ofr(2)] ofr(3) E ofr(4,5,1)] flt by auto
  then show ?thesis using t turn c(1) server_turn_rules [OF t] sched
    by (intro exI [of _ V] exI [of _ "answer_end ?as m1"]) (auto simp: reply_step_def hear_def answer_end_def)
qed

subsection \<open>One submit\<close>

text \<open>
  The submits on the way to the server, as it will get them: those sent to mt, and those it holds
  for the client. The state between two submits: the server is awake, its checks give a verdict on
  each submit on the way, and one they pass fits, as converted by iconv, the 160 bytes the
  scheduler has for it; and every channel has a queue with room for \<open>n\<close> more.

  The condition on the length is one on the texts that are on the way and on what iconv makes of
  them (ServerWork shows what the server does with a text that gets longer): it holds for any text
  that is UTF-8 already, and for ASCII, and fails for 60 Chinese characters in UCS-2.
\<close>

definition on_way :: "pipe_env \<Rightarrow> pipe \<Rightarrow> bytes list" where
  "on_way E S = map (mt_pass E) (pp_link S) @ pipe_queued E S"

definition verdicts :: "pipe_env \<Rightarrow> wturn \<Rightarrow> server \<Rightarrow> bytes list \<Rightarrow> bool" where
  "verdicts E w V fs \<longleftrightarrow> (\<forall>f \<in> set fs. \<exists>st cmds v. submit_filter (pi_server E) w V (frame_submit E f) = Some (st, cmds, v) \<and>
     (\<forall>m1. v = Inr m1 \<longrightarrow> length (sb_content m1) \<le> 160))"

definition roomy :: "pipe_env \<Rightarrow> nat \<Rightarrow> lamb_submit_t pool \<Rightarrow> bool" where
  "roomy E n P \<longleftrightarrow> (\<forall>ch \<in> set (pi_channels E). \<exists>k. pool_find (ch_id ch) P = Some k \<and> pool_len k P + n \<le> 128)"

definition between :: "pipe_env \<Rightarrow> wturn \<Rightarrow> server \<Rightarrow> nat \<Rightarrow> pipe \<Rightarrow> bool" where
  "between E w V n S \<longleftrightarrow> pipe_ok E V S \<and> w_ok w \<and> pp_turn S = None \<and> \<not> sv_sleeping (pp_server S) \<and> \<not> sv_arrears (pp_server S) \<and>
     verdicts E w (pp_server S) (on_way E S) \<and> roomy E n (pp_sched S)"

lemma verdicts_rules: "verdicts E w V fs \<Longrightarrow> same_rules V V' \<Longrightarrow> set gs \<subseteq> set fs \<Longrightarrow> verdicts E w V' gs"
  unfolding verdicts_def
proof (intro ballI)
  fix f
  assume v: "\<forall>f \<in> set fs. \<exists>st cmds v. submit_filter (pi_server E) w V (frame_submit E f) = Some (st, cmds, v) \<and>
      (\<forall>m1. v = Inr m1 \<longrightarrow> length (sb_content m1) \<le> 160)" and V: "same_rules V V'" and "set gs \<subseteq> set fs" and "f \<in> set gs"
  then have "f \<in> set fs" by blast
  with v obtain st cmds v where f: "submit_filter (pi_server E) w V (frame_submit E f) = Some (st, cmds, v)"
    and len: "\<forall>m1. v = Inr m1 \<longrightarrow> length (sb_content m1) \<le> 160" by blast
  obtain st2 where "submit_filter (pi_server E) w V' (frame_submit E f) = Some (st2, cmds, v)"
    using submit_filter_rules [OF f V] by blast
  with len show "\<exists>st cmds v. submit_filter (pi_server E) w V' (frame_submit E f) = Some (st, cmds, v) \<and>
      (\<forall>m1. v = Inr m1 \<longrightarrow> length (sb_content m1) \<le> 160)" by (intro exI conjI)
qed

lemma verdictsE:
  assumes "verdicts E w V fs" and "submit_frame E m \<in> set fs" and "pipe_env_ok E" and "on_wire E m"
  obtains st cmds v where "submit_filter (pi_server E) w V m = Some (st, cmds, v)" "\<forall>m1. v = Inr m1 \<longrightarrow> length (sb_content m1) \<le> 160"
  using bspec [OF assms(1) [unfolded verdicts_def] assms(2)] frame_submit_frame [OF assms(3,4)] by auto

lemma mt_emit_load: "submit_load x = Some m \<Longrightarrow> mt_emit (pi_pack E) x = submit_frame E m"
  by (simp add: mt_emit_def submit_frame_def)

lemma pool_len_push: "pool_len k (pool_push True j x P) \<le> Suc (pool_len k P)"
  by (cases "k = j"; cases "j < length (pqueues P)") (auto simp: pool_len_def pool_push_def list_update_beyond)

lemma roomy_search: "roomy E (Suc n) P \<Longrightarrow> roomy E n (snd (channel_search True x chs no_search P))"
proof (cases "find (\<lambda>ch. serves x ch \<and> has_room P ch) chs")
  case None
  assume "roomy E (Suc n) P"
  then show ?thesis using channel_search_none [OF None, of True no_search] by (fastforce simp: roomy_def)
next
  case (Some ch)
  assume r: "roomy E (Suc n) P"
  let ?j = "the (pool_find (ch_id ch) P)"
  have "snd (channel_search True x chs no_search P) = pool_push True ?j x P"
    using channel_search_found [OF Some, of True no_search] by auto
  moreover have "\<exists>k. pool_find (ch_id c) (pool_push True ?j x P) = Some k \<and> pool_len k (pool_push True ?j x P) + n \<le> 128"
    if c: "c \<in> set (pi_channels E)" for c
  proof -
    obtain k where "pool_find (ch_id c) P = Some k" "pool_len k P + Suc n \<le> 128" using r c by (auto simp: roomy_def)
    with pool_len_push [of k ?j x P] show ?thesis by (intro exI [of _ k]) simp
  qed
  ultimately show ?thesis by (simp add: roomy_def)
qed

lemma roomy_not_busy: "roomy E (Suc n) P \<Longrightarrow> routing_answer x (pi_channels E) P \<noteq> LAMB_BUSY"
proof (cases "\<exists>ch \<in> set (pi_channels E). serves x ch")
  case True
  assume "roomy E (Suc n) P"
  then have "\<exists>ch \<in> set (pi_channels E). serves x ch \<and> has_room P ch" using True by (fastforce simp: roomy_def has_room_def)
  then show ?thesis by (auto simp: routing_answer_def commands)
next
  case False
  then show ?thesis by (auto simp: routing_answer_def commands)
qed

definition draining :: "pact \<Rightarrow> bool" where
  "draining a = (case a of Mt_take \<Rightarrow> True | Serve w \<Rightarrow> True | Route \<Rightarrow> True | Reply \<Rightarrow> True | _ \<Rightarrow> False)"

text \<open>The server is done with one submit: refused by its checks, or answered by the scheduler.\<close>

lemma serve_one:
  assumes b: "between E w V (Suc n) S" and E: "pipe_env_ok E" and mt: "pool_content (pp_mt S) (ab_id (ie_account (pi_ismg E))) = x # xs"
  shows "\<exists>as S'. list_all draining as \<and> pipe_run E as S = Some S' \<and> between E w V n S' \<and> pp_link S' = pp_link S \<and>
     pp_frames S' = pp_frames S \<and> pp_answers S' = pp_answers S \<and> pool_content (pp_mt S') (ab_id (ie_account (pi_ismg E))) = xs"
proof -
  let ?i = "ab_id (ie_account (pi_ismg E))"
  have ok: "pipe_ok E V S" and w: "w_ok w" and idle: "pp_turn S = None" "\<not> sv_sleeping (pp_server S)" "\<not> sv_arrears (pp_server S)"
    and v: "verdicts E w (pp_server S) (on_way E S)" and room: "roomy E (Suc n) (pp_sched S)" using b by (simp_all add: between_def)
  have quiet: "pp_to S = []" "pp_from S = []" using ok idle(1) by (simp_all add: pipe_ok_def turn_ok_def)
  have M: "pool_inv (pp_mt S)" "pool_find ?i (pp_mt S) = Some (pi_queue E)" "in_queue E x"
    using ok mt by (simp_all add: pipe_ok_def front_ok_def)
  obtain m where m: "submit_load x = Some m" "on_wire E m" "mt_cut m = m" using M(3) by (auto simp: in_queue_def)
  have rest: "pool_content (snd (pool_pop (pi_queue E) (pp_mt S))) ?i = xs" using pool_pop_content(2) [OF M(1,2)] mt by simp
  note head = mt_emit_load [OF m(1), of E]
  have fewer: "set (on_way E S') \<subseteq> set (on_way E S)" if "pp_link S' = pp_link S" "pool_content (pp_mt S') ?i = xs" for S'
    using that mt by (auto simp: on_way_def pipe_queued_def)
  have way: "submit_frame E m \<in> set (on_way E S)" using mt head by (simp add: on_way_def pipe_queued_def)
  obtain st cmds vd where f: "submit_filter (pi_server E) w (pp_server S) m = Some (st, cmds, vd)"
    and short: "\<forall>m1. vd = Inr m1 \<longrightarrow> length (sb_content m1) \<le> 160"
    using verdictsE [OF v way E m(2)] .
  show ?thesis
  proof (cases vd)
    case (Inl c)
    then obtain V1 where s: "serve_step E w S = Some (S\<lparr>pp_mt := snd (pool_pop (pi_queue E) (pp_mt S)), pp_server := V1,
         pp_taken := pp_taken S @ [submit_frame E m], pp_ends := pp_ends S @ [Refused c m]\<rparr>)" and V1: "same_rules (pp_server S) V1"
      using serve_refuses [OF E idle M(1,2) mt m(1,2)] f by blast
    let ?S = "S\<lparr>pp_mt := snd (pool_pop (pi_queue E) (pp_mt S)), pp_server := V1,
         pp_taken := pp_taken S @ [submit_frame E m], pp_ends := pp_ends S @ [Refused c m]\<rparr>"
    have "between E w V n ?S"
      using serve_step_ok [OF ok E s w] w idle V1 verdicts_rules [OF v V1 fewer [of ?S]] rest room
      by (auto simp: between_def same_rules_def roomy_def)
    moreover have "pipe_run E [Serve w] S = Some ?S" using s by (simp add: pipe_step_def)
    ultimately show ?thesis using rest by (intro exI [of _ "[Serve w]"] exI [of _ ?S]) (simp add: draining_def)
  next
    case (Inr m1)
    define S1 where "S1 = S\<lparr>pp_mt := snd (pool_pop (pi_queue E) (pp_mt S)), pp_taken := pp_taken S @ [submit_frame E m],
      pp_turn := Some (w, submit_frame E m, []), pp_to := [submit_frame E m1]\<rparr>"
    have 1: "serve_step E w S = Some S1"
      using serve_offers [OF E w idle M(1,2) mt m(1,2)] f Inr quiet(1) by (simp add: S1_def)
    have offer1: "offers E S1 w (submit_frame E m) [] m m1" using w idle m f Inr by (simp add: offers_def S1_def)
    have len: "length (sb_content m1) \<le> 160" using short Inr by simp
    obtain y where y: "submit_store m1 = Some y" using submit_store_Some_iff [of m1] len by blast
    let ?c = "routing_answer y (pi_channels E) (pp_sched S)"
    define S2 where "S2 = S1\<lparr>pp_to := [], pp_from := [htonl ?c],
      pp_sched := snd (channel_search True y (pi_channels E) no_search (pp_sched S))\<rparr>"
    have 2: "route_step E S1 = Some S2"
      using route_sends [OF E _ offers_on_wire(1) [OF offer1] y, of S1 "[]"] quiet(2) by (simp add: S1_def S2_def)
    have offer2: "offers E S2 w (submit_frame E m) [] m m1" using offer1 by (simp add: offers_def S2_def)
    have c: "?c \<in> set answer_commands" by (simp add: routing_answer_def answer_commands_def)
    note busy = roomy_not_busy [OF room, of y]
    obtain V1 e where 3: "reply_step E S2 = Some (S2\<lparr>pp_from := [], pp_turn := None, pp_server := V1, pp_ends := pp_ends S2 @ [e]\<rparr>)"
      and V1: "same_rules (pp_server S2) V1"
      using reply_ends [OF E _ offer2 _ c busy len] by (auto simp: S2_def S1_def)
    let ?S = "S2\<lparr>pp_from := [], pp_turn := None, pp_server := V1, pp_ends := pp_ends S2 @ [e]\<rparr>"
    have V2: "same_rules (pp_server S) V1" using V1 by (simp add: S2_def S1_def)
    have "pipe_ok E V ?S"
      using reply_step_ok [OF route_step_ok [OF serve_step_ok [OF ok E 1 w] E 2] E 3] .
    then have "between E w V n ?S"
      using w idle V2 verdicts_rules [OF v V2 fewer [of ?S]] rest roomy_search [OF room, of y "pi_channels E"]
      by (simp add: between_def same_rules_def S2_def S1_def)
    moreover have "pipe_run E [Serve w, Route, Reply] S = Some ?S" using 1 2 3 by (simp add: pipe_step_def)
    moreover have "pp_link ?S = pp_link S" "pp_frames ?S = pp_frames S" "pp_answers ?S = pp_answers S"
      "pool_content (pp_mt ?S) ?i = xs" using rest by (simp_all add: S2_def S1_def)
    ultimately show ?thesis by (intro exI [of _ "[Serve w, Route, Reply]"] exI [of _ ?S]) (simp add: draining_def)
  qed
qed

lemma mt_takes:
  assumes b: "between E w V n S" and E: "pipe_env_ok E" and link: "pp_link S = f # fs"
  shows "\<exists>S' x. mt_step E S = Some S' \<and> between E w V n S' \<and> pp_link S' = fs \<and> pp_frames S' = pp_frames S \<and>
     pp_answers S' = pp_answers S \<and>
     pool_content (pp_mt S') (ab_id (ie_account (pi_ismg E))) = pool_content (pp_mt S) (ab_id (ie_account (pi_ismg E))) @ [x]"
proof -
  have ok: "pipe_ok E V S" using b by (simp add: between_def)
  then obtain m where m: "f = submit_frame E m" "on_wire E m" "length (sb_content m) \<le> 160"
    using link by (auto simp: pipe_ok_def front_ok_def)
  obtain x where x: "submit_store m = Some x" using submit_store_Some_iff [of m] m(3) by blast
  have M: "pool_inv (pp_mt S)" "pool_find (ab_id (ie_account (pi_ismg E))) (pp_mt S) = Some (pi_queue E)"
    using ok by (simp_all add: pipe_ok_def front_ok_def)
  let ?S = "S\<lparr>pp_link := fs, pp_mt := pool_push True (pi_queue E) x (pp_mt S)\<rparr>"
  have "pi_unpack E (pi_pack E m) = Some m" using E m(2) by (simp add: pipe_env_ok_def)
  then have step: "mt_step E S = Some ?S"
    using link m(1) x by (simp add: mt_step_def mt_push_loop_def good_rx_def submit_frame_def)
  have "mt_emit (pi_pack E) x = mt_pass E f" using stored_cut(2) [OF x m(2)] mt_pass_frame [OF E m(2)] m(1) by simp
  then have "set (on_way E ?S) = set (on_way E S)"
    using link pool_push_content [OF M, of x] by (auto simp: on_way_def pipe_queued_def)
  then have "between E w V n ?S"
    using mt_step_ok [OF ok E step] b verdicts_rules [of E w "pp_server S" "on_way E S"] by (simp add: between_def)
  with step show ?thesis using pool_push_content [OF M, of x] by (intro exI [of _ ?S] exI [of _ x]) simp
qed

lemma pipe_run_append: "pipe_run E (as @ bs) S = Option.bind (pipe_run E as S) (pipe_run E bs)"
  by (induction as arbitrary: S) simp_all

lemma drains:
  assumes "between E w V n S" and E: "pipe_env_ok E"
    and "length (pp_link S) + length (pool_content (pp_mt S) (ab_id (ie_account (pi_ismg E)))) \<le> n"
  shows "\<exists>as S'. list_all draining as \<and> pipe_run E as S = Some S' \<and> pipe_ok E V S' \<and> pp_turn S' = None \<and> pp_link S' = [] \<and>
     pool_content (pp_mt S') (ab_id (ie_account (pi_ismg E))) = [] \<and> pp_frames S' = pp_frames S \<and> pp_answers S' = pp_answers S"
  using assms(1,3)
proof (induction "2 * length (pp_link S) + length (pool_content (pp_mt S) (ab_id (ie_account (pi_ismg E))))" arbitrary: S n rule: less_induct)
  case less
  let ?i = "ab_id (ie_account (pi_ismg E))"
  show ?case
  proof (cases "pp_link S")
    case (Cons f fs)
    obtain S1 x where s: "mt_step E S = Some S1" "between E w V n S1" "pp_link S1 = fs" "pp_frames S1 = pp_frames S"
      "pp_answers S1 = pp_answers S" "pool_content (pp_mt S1) ?i = pool_content (pp_mt S) ?i @ [x]"
      using mt_takes [OF less.prems(1) E Cons] by blast
    obtain as S' where r: "list_all draining as" "pipe_run E as S1 = Some S'" "pipe_ok E V S'" "pp_turn S' = None" "pp_link S' = []"
      "pool_content (pp_mt S') ?i = []" "pp_frames S' = pp_frames S1" "pp_answers S' = pp_answers S1"
      using less.hyps [OF _ s(2)] less.prems(2) s Cons by fastforce
    then show ?thesis using s
      by (intro exI [of _ "Mt_take # as"] exI [of _ S']) (simp add: draining_def pipe_step_def)
  next
    case link: Nil
    show ?thesis
    proof (cases "pool_content (pp_mt S) ?i")
      case Nil
      then show ?thesis using less.prems(1) link by (intro exI [of _ "[]"] exI [of _ S]) (simp add: between_def)
    next
      case (Cons x xs)
      obtain k where k: "n = Suc k" using less.prems(2) Cons by (cases n) auto
      obtain as S1 where s: "list_all draining as" "pipe_run E as S = Some S1" "between E w V k S1" "pp_link S1 = pp_link S"
        "pp_frames S1 = pp_frames S" "pp_answers S1 = pp_answers S" "pool_content (pp_mt S1) ?i = xs"
        using serve_one [OF less.prems(1) [unfolded k] E Cons] by blast
      obtain bs S' where r: "list_all draining bs" "pipe_run E bs S1 = Some S'" "pipe_ok E V S'" "pp_turn S' = None" "pp_link S' = []"
        "pool_content (pp_mt S') ?i = []" "pp_frames S' = pp_frames S1" "pp_answers S' = pp_answers S1"
        using less.hyps [OF _ s(3)] less.prems(2) s Cons link k by fastforce
      then show ?thesis using s
        by (intro exI [of _ "as @ bs"] exI [of _ S']) (simp add: pipe_run_append)
    qed
  qed
qed

text \<open>
  C4: What was promised is decided. From any state between two submits, reached without a reload, in
  which the server is awake, each submit on the way is one its checks decide on, refusing it or
  passing a text that fits 160 bytes after the conversion to UTF-8, and every channel has a queue
  with room for what is on the way, mt, server and scheduler can go on until nothing is on the way:
  then the server has accepted or refused as many submits as the client was told were taken.
\<close>

theorem pipeline_drains:
  assumes E: "pipe_env_ok E" and M: "pool_inv M" "pool_find (ab_id (ie_account (pi_ismg E))) M = Some (pi_queue E)"
      "pool_content M (ab_id (ie_account (pi_ismg E))) = []" and P: "pool_inv P" "pool_items P = []"
    and reach: "pipe_reach E steady (pipe_init M V P sps) S"
    and idle: "pp_turn S = None" "\<not> sv_sleeping (pp_server S)" "\<not> sv_arrears (pp_server S)" and w: "w_ok w"
    and checks: "verdicts E w (pp_server S) (on_way E S)" and room: "roomy E (length (pp_link S) + length (pipe_queued E S)) (pp_sched S)"
  shows "\<exists>as S'. list_all draining as \<and> pipe_run E as S = Some S' \<and> pp_link S' = [] \<and> pipe_queued E S' = [] \<and>
     pp_turn S' = None \<and> length (pp_ends S') = answered 0 (pp_answers S)"
proof -
  let ?n = "length (pp_link S) + length (pipe_queued E S)"
  have b: "between E w V ?n S" using pipe_reach_ok [OF reach E M P] idle w checks room by (simp add: between_def)
  have le: "length (pp_link S) + length (pool_content (pp_mt S) (ab_id (ie_account (pi_ismg E)))) \<le> ?n"
    by (simp add: pipe_queued_def)
  obtain as S' where s: "list_all draining as" "pipe_run E as S = Some S'" "pipe_ok E V S'" "pp_turn S' = None" "pp_link S' = []"
    "pool_content (pp_mt S') (ab_id (ie_account (pi_ismg E))) = []" "pp_frames S' = pp_frames S" "pp_answers S' = pp_answers S"
    using drains [OF b E le] by blast
  have "map (mt_pass E) (pp_frames S') = pp_taken S'" and front: "answered 0 (pp_answers S') = length (pp_frames S')"
    using s by (simp_all add: pipe_ok_def front_ok_def pipe_queued_def)
  moreover have "length (pp_taken S') = length (pp_ends S')"
    using s by (auto simp: pipe_ok_def ends_ok_def pipe_offer_def dest: list_all2_lengthD)
  ultimately have "length (pp_ends S') = answered 0 (pp_answers S)" using s(8) by (metis length_map)
  with s show ?thesis by (intro exI [of _ as] exI [of _ S']) (simp add: pipe_queued_def)
qed

lemma example_verdict:
  "\<exists>st cmds. submit_filter (pi_server example_pipe) (example_wturn [] []) example_server path_message = Some (st, cmds, Inr path_message)"
  using path_filter by (simp add: example_pipe_def)

theorem pipeline_drains_witness:
  "\<exists>S as S'. pipe_reach example_pipe steady example_start S \<and> length (pipe_queued example_pipe S) = 1 \<and> list_all draining as \<and>
     pipe_run example_pipe as S = Some S' \<and> pipe_queued example_pipe S' = [] \<and> length (pp_ends S') = answered 0 (pp_answers S)"
proof -
  let ?E = example_pipe and ?i = "ab_id (ie_account example_client)" and ?w = "example_wturn [] []"
  obtain S y where run: "pipe_run ?E [Client (example_iturn path_submit), Mt_take] example_start = Some S"
    and y: "submit_store path_message = Some y" "submit_load y = Some path_message"
    and mt: "pool_content (pp_mt S) ?i = [y]" "pool_inv (pp_mt S)" "pool_find ?i (pp_mt S) = Some (pi_queue ?E)"
    and idle: "pp_turn S = None" "pp_to S = []" "pp_from S = []" "pp_server S = example_server"
    and sched: "pp_sched S = one_queue (ch_id path_channel)" and "pp_ends S = []" and link: "pp_link S = []"
    using example_submitted by blast
  have reach: "pipe_reach ?E steady example_start S" by (rule pipe_run_reach [OF pipe_start run]) (simp add: steady_def)
  have M: "pool_find (ab_id (ie_account (pi_ismg ?E))) (one_queue ?i) = Some (pi_queue ?E)" "pool_content (one_queue ?i) (ab_id (ie_account (pi_ismg ?E))) = []"
    using one_queue_facts by (simp_all add: example_pipe_def)
  have V: "\<not> sv_sleeping (pp_server S)" "\<not> sv_arrears (pp_server S)" "w_ok ?w"
    by (simp_all add: idle example_server_def example_wturn_def w_ok_def)
  have "on_way ?E S = [submit_frame ?E path_message]"
    using mt(1) link mt_emit_load [OF y(2), of ?E] by (simp add: on_way_def pipe_queued_def) (simp add: example_pipe_def)
  then have checks: "verdicts ?E ?w (pp_server S) (on_way ?E S)"
    using example_verdict path_message_wire(2) frame_submit_frame [OF example_pipe_ok path_message_wire(1)]
    by (auto simp: verdicts_def idle path_message_def the_submit_def)
  have q: "length (pipe_queued ?E S) = 1" using mt(1) by (simp add: pipe_queued_def example_pipe_def)
  have room: "roomy ?E (length (pp_link S) + length (pipe_queued ?E S)) (pp_sched S)"
    unfolding q link sched by (simp add: roomy_def one_queue_facts) (simp add: example_pipe_def one_queue_facts)
  from pipeline_drains [OF example_pipe_ok one_queue_facts(1) M one_queue_facts(1,4) reach idle(1) V checks room]
  show ?thesis using reach q by blast
qed

end
