(* ===== verification/Console.thy ===== *)
theory Console
  imports ServerLoops
begin

text \<open>
  The command line console (\<open>src/src/lamb.c\<close>): its commands that change something, with what
  they read and write; the status of programs from their lock files and redis. What a command
  does is the list of its effects. The commands that only print tables are not modelled, nor
  are failing allocations of the console.
\<close>

datatype effect = Redis string | Sql string | System string | Print string

subsection \<open>Parameters of a command\<close>

function strtok_all :: "char \<Rightarrow> string \<Rightarrow> string list" where
  "strtok_all d s =
     (let t = dropWhile (\<lambda>c. c = d) s
      in if t = [] then [] else takeWhile (\<lambda>c. c \<noteq> d) t # strtok_all d (dropWhile (\<lambda>c. c \<noteq> d) t))"
  by pat_completeness auto

termination
proof (relation "measure (\<lambda>(d, s). length s)", simp)
  fix d :: char and s t :: string
  assume t: "t = dropWhile (\<lambda>c. c = d) s" and ne: "t \<noteq> []"
  then have "hd t \<noteq> d" using hd_dropWhile [of "\<lambda>c. c = d" s] by simp
  then obtain c r where "t = c # r" "c \<noteq> d" using ne by (cases t) auto
  then have "length (dropWhile (\<lambda>c. c \<noteq> d) t) < length t"
    using length_dropWhile_le [of "\<lambda>c. c \<noteq> d" r] by simp
  also have "length t \<le> length s" unfolding t by (rule length_dropWhile_le)
  finally show "((d, dropWhile (\<lambda>c. c \<noteq> d) t), d, s) \<in> measure (\<lambda>(d, s). length s)" by simp
qed

declare strtok_all.simps [simp del]

text \<open>The return code and the words after the prefix, at most fifteen.\<close>

definition lamb_opt_parsing :: "string \<Rightarrow> string \<Rightarrow> int \<times> string list" where
  "lamb_opt_parsing cmd prefix =
     (if length prefix \<ge> length cmd then (-1, [])
      else (0, take 15 (strtok_all (CHR '' '') (drop (length prefix) cmd))))"

subsection \<open>Signals and tasks\<close>

definition lamb_is_valid :: "redis \<Rightarrow> string \<Rightarrow> int \<Rightarrow> bool \<times> effect list" where
  "lamb_is_valid rds type i =
     (if i < 1 then (False, [])
      else let cmd = ''EXISTS '' @ type @ ''.'' @ show_int i
      in (rd_reply rds cmd = Some (RInteger 1), [Redis cmd]))"

definition lamb_set_signal :: "string \<Rightarrow> int \<Rightarrow> int \<Rightarrow> effect list" where
  "lamb_set_signal type i signal =
     (if i < 1 then []
      else [Redis (''HSET '' @ type @ ''.'' @ show_int i @ '' signal '' @ show_int signal)])"

definition kill_command :: "string \<Rightarrow> string \<Rightarrow> string \<Rightarrow> redis \<Rightarrow> string \<Rightarrow> effect list" where
  "kill_command command type missing rds line =
     (case lamb_opt_parsing line command of
        (err, []) \<Rightarrow> [Print ''Error: Incorrect command parameters'']
      | (err, v # vs) \<Rightarrow>
          (if err \<noteq> 0 then [Print ''Error: Incorrect command parameters'']
           else let (ok, asked) = lamb_is_valid rds type (atoi v)
           in asked @ (if ok then lamb_set_signal type (atoi v) 9 else [Print missing])))"

definition lamb_kill_client :: "redis \<Rightarrow> string \<Rightarrow> effect list" where
  "lamb_kill_client = kill_command ''kill client'' ''client'' ''Sorry, the client does not exist''"

definition lamb_kill_server :: "redis \<Rightarrow> string \<Rightarrow> effect list" where
  "lamb_kill_server = kill_command ''kill server'' ''server'' ''Sorry, the server does not exist''"

definition lamb_kill_channel :: "redis \<Rightarrow> string \<Rightarrow> effect list" where
  "lamb_kill_channel = kill_command ''kill channel'' ''gateway'' ''Sorry, the channel does not exist''"

text \<open>\<open>exec\<close> says whether the database executes a command.\<close>

definition lamb_add_taskqueue ::
  "(string \<Rightarrow> bool) \<Rightarrow> int \<Rightarrow> string \<Rightarrow> string \<Rightarrow> string \<Rightarrow> int \<times> effect list" where
  "lamb_add_taskqueue exec eid md config argv =
     (let sql = snprintf_z 128 (''INSERT INTO taskqueue(eid, mod, config, argv, create_time) VALUES('' @ show_int eid
            @ '', '' @ quoted md @ '', '' @ quoted config @ '', '' @ quoted argv @ '', now())'')
      in (if exec sql then 0 else -1, [Sql sql]))"

definition lamb_start_server :: "(string \<Rightarrow> bool) \<Rightarrow> string \<Rightarrow> effect list" where
  "lamb_start_server exec line =
     (case lamb_opt_parsing line ''start server'' of
        (err, []) \<Rightarrow> [Print ''Error: Incorrect command parameters'']
      | (err, v # vs) \<Rightarrow>
          (if err \<noteq> 0 then [Print ''Error: Incorrect command parameters'']
           else let (rc, out) = lamb_add_taskqueue exec (atoi v) ''server'' ''server.conf'' ''-d''
           in out @ [Print (if rc \<noteq> 0 then ''Start server service failed'' else ''Start server service successfull'')]))"

definition lamb_start_channel :: "(string \<Rightarrow> bool) \<Rightarrow> string \<Rightarrow> effect list" where
  "lamb_start_channel exec line =
     (case lamb_opt_parsing line ''start channel'' of
        (err, []) \<Rightarrow> [Print ''Error: Incorrect command parameters'']
      | (err, v # vs) \<Rightarrow>
          (if err \<noteq> 0 then [Print ''Error: Incorrect command parameters'']
           else let (rc, out) = lamb_add_taskqueue exec (atoi v) ''sp'' ''sp.conf'' ''-d''
           in out @ (if rc \<noteq> 0 then [Print ''Start channel service failed''] else [])))"

subsection \<open>The password\<close>

definition hex_digit :: "nat \<Rightarrow> char" where
  "hex_digit d = ''0123456789abcdef'' ! d"

text \<open>Each byte is written with two hexadecimal digits; the NUL behind the last is left out.\<close>

definition lamb_hex_string :: "bytes \<Rightarrow> string" where
  "lamb_hex_string digest = concat (map (\<lambda>b. [hex_digit (of_char b div 16), hex_digit (of_char b mod 16)]) digest)"

text \<open>The digests of OpenSSL are parameters.\<close>

definition lamb_md5 :: "(bytes \<Rightarrow> bytes) \<Rightarrow> bytes \<Rightarrow> string" where
  "lamb_md5 md5 d = lamb_hex_string (md5 d)"

definition lamb_sha1 :: "(bytes \<Rightarrow> bytes) \<Rightarrow> bytes \<Rightarrow> string" where
  "lamb_sha1 sha1 d = lamb_hex_string (sha1 d)"

definition lamb_set_password :: "redis \<Rightarrow> string \<Rightarrow> int \<times> effect list" where
  "lamb_set_password rds password =
     (let cmd = ''HSET admin password '' @ password
      in (if rd_reply rds cmd = None then -1 else 0, [Redis cmd]))"

definition lamb_change_password :: "(bytes \<Rightarrow> bytes) \<Rightarrow> (bytes \<Rightarrow> bytes) \<Rightarrow> redis \<Rightarrow> string \<Rightarrow> effect list" where
  "lamb_change_password md5 sha1 rds line =
     (case lamb_opt_parsing line ''change password'' of
        (err, []) \<Rightarrow> [Print ''Error: Incorrect command parameters'']
      | (err, v # vs) \<Rightarrow>
          (if err \<noteq> 0 then [Print ''Error: Incorrect command parameters'']
           else let (rc, out) = lamb_set_password rds (lamb_sha1 sha1 (lamb_md5 md5 v))
           in out @ [Print (if rc \<noteq> 0 then ''Error: change password failed'' else ''change password successfull'')]))"

subsection \<open>The status of programs\<close>

text \<open>
  The pid in a lock file, from its first line, at most 14 characters, and whether that process
  exists: \<open>alive\<close>.
\<close>

definition lamb_check_status :: "(int \<Rightarrow> bool) \<Rightarrow> (string \<rightharpoonup> string) \<Rightarrow> string \<Rightarrow> int \<times> int" where
  "lamb_check_status alive fs lock =
     (case fs lock of
        None \<Rightarrow> (0, 0)
      | Some content \<Rightarrow>
          (if content = [] then (0, 0)
           else let pid = atoi (cstr (take 14 (takeWhile (\<lambda>c. c \<noteq> CHR 0x0A) content)))
           in (pid, if alive pid then 1 else 0)))"

definition server_lock :: "int \<Rightarrow> string" where
  "server_lock i = snprintf_z 128 (''/tmp/serv-'' @ show_int i @ ''.lock'')"

definition lamb_check_server :: "(int \<Rightarrow> bool) \<Rightarrow> (string \<rightharpoonup> string) \<Rightarrow> int \<Rightarrow> int \<times> int" where
  "lamb_check_server alive fs i = lamb_check_status alive fs (server_lock i)"

definition reply_int :: "bytes \<Rightarrow> int" where
  "reply_int s = atoi (cstr s)"

text \<open>The results of the two checks are the status, the speed and the errors.\<close>

definition lamb_check_channel :: "(int \<Rightarrow> bool) \<Rightarrow> (string \<rightharpoonup> string) \<Rightarrow> redis \<Rightarrow> int \<Rightarrow> int \<times> int \<times> int" where
  "lamb_check_channel alive fs rds i =
     (if snd (lamb_check_status alive fs (snprintf_z 128 (''/tmp/gtw-'' @ show_int i @ ''.lock''))) \<noteq> 1 then (0, 0, 0)
      else case rd_reply rds (''HMGET gateway.'' @ show_int i @ '' status speed error'') of
        Some (RArray [a, b, c]) \<Rightarrow> (reply_int a, reply_int b, reply_int c)
      | _ \<Rightarrow> (0, 0, 0))"

definition lamb_check_client :: "redis \<Rightarrow> int \<Rightarrow> int \<Rightarrow> bytes \<Rightarrow> bytes \<times> int \<times> int \<times> int" where
  "lamb_check_client rds now i host =
     (case rd_reply rds (''HMGET client.'' @ show_int i @ '' online addr speed error'') of
        Some (RArray [online, addr, speed, error]) \<Rightarrow>
          (strncpy_buf host (cstr addr) (min 15 (length addr)), (if now - reply_int online < 7 then 1 else 0), reply_int speed, reply_int error)
      | _ \<Rightarrow> (host, 0, 0, 0))"

record lamb_server_statistics_t =
  vs_store :: int
  vs_bill :: int
  vs_blk :: int
  vs_usb :: int
  vs_limt :: int
  vs_rejt :: int
  vs_tmp :: int
  vs_key :: int

text \<open>The last reply, the keyword count, goes into \<open>blk\<close>, and \<open>key\<close> keeps its value.\<close>

definition lamb_server_statistics :: "redis \<Rightarrow> int \<Rightarrow> lamb_server_statistics_t \<Rightarrow> lamb_server_statistics_t" where
  "lamb_server_statistics rds i v =
     (if i < 1 then v
      else case rd_reply rds (''HMGET server.'' @ show_int i @ '' store bill blk usb limt rejt tmp key'') of
        Some (RArray [a, b, c, d, e, f, g, h]) \<Rightarrow>
          v\<lparr>vs_store := reply_int a, vs_bill := reply_int b, vs_blk := reply_int h, vs_usb := reply_int d,
            vs_limt := reply_int e, vs_rejt := reply_int f, vs_tmp := reply_int g\<rparr>
      | _ \<Rightarrow> v)"

record lamb_kv_t =
  kv_id :: int
  kv_acc :: string
  kv_total :: int
  kv_desc :: string

text \<open>The pairs of fields and values of a hash; an odd number of them is read past the end.\<close>

fun queue_pairs :: "bytes list \<Rightarrow> lamb_kv_t list option" where
  "queue_pairs [] = Some []"
| "queue_pairs [a] = None"
| "queue_pairs (a # b # rest) = map_option (\<lambda>qs. \<lparr>kv_id = reply_int a, kv_acc = ''null'', kv_total = reply_int b,
     kv_desc = ''no description''\<rparr> # qs) (queue_pairs rest)"

definition lamb_get_queue :: "redis \<Rightarrow> string \<Rightarrow> lamb_kv_t list option" where
  "lamb_get_queue rds type =
     (case rd_reply rds (''HGETALL '' @ type @ ''.queue'') of
        Some (RArray xs) \<Rightarrow> queue_pairs xs
      | _ \<Rightarrow> Some [])"

subsection \<open>Parsing commands\<close>

definition plain_word :: "string \<Rightarrow> bool" where
  "plain_word w \<longleftrightarrow> w \<noteq> [] \<and> CHR '' '' \<notin> set w"

definition spaced :: "string list \<Rightarrow> string" where
  "spaced ws = concat (map (\<lambda>w. CHR '' '' # w) ws)"

lemma strtok_spaced: "\<forall>w \<in> set ws. plain_word w \<Longrightarrow> strtok_all (CHR '' '') (spaced ws) = ws"
proof (induction ws)
  case Nil
  then show ?case by (simp add: spaced_def strtok_all.simps)
next
  case (Cons w ws)
  then obtain c r where w: "w = c # r" "c \<noteq> CHR '' ''" "CHR '' '' \<notin> set r"
    by (cases w) (auto simp: plain_word_def)
  have rest: "spaced ws = [] \<or> hd (spaced ws) = CHR '' ''" by (cases ws) (simp_all add: spaced_def)
  have take: "takeWhile (\<lambda>c. c \<noteq> CHR '' '') (w @ spaced ws) = w"
    using w rest by (cases "spaced ws") (auto simp: takeWhile_append takeWhile_eq_all_conv)
  have drop: "dropWhile (\<lambda>c. c \<noteq> CHR '' '') (w @ spaced ws) = spaced ws"
    using w rest by (cases "spaced ws") (auto simp: dropWhile_append dropWhile_eq_Nil_conv)
  have sp: "spaced (w # ws) = CHR '' '' # w @ spaced ws" by (simp add: spaced_def)
  have "dropWhile (\<lambda>c. c = CHR '' '') (spaced (w # ws)) = w @ spaced ws" unfolding sp using w by simp
  then have "strtok_all (CHR '' '') (spaced (w # ws)) = w # strtok_all (CHR '' '') (spaced ws)"
    using take drop w by (subst strtok_all.simps) (simp add: Let_def)
  then show ?case using Cons by simp
qed

lemma opt_parsing_words:
  assumes "\<forall>w \<in> set ws. plain_word w" and "ws \<noteq> []"
  shows "lamb_opt_parsing (cmd @ spaced ws) cmd = (0, take 15 ws)"
proof -
  have "spaced ws \<noteq> []" using assms(2) by (cases ws) (simp_all add: spaced_def)
  then show ?thesis using strtok_spaced [OF assms(1)] by (simp add: lamb_opt_parsing_def)
qed

lemma plain_show_int: "plain_word (show_int i)"
proof -
  have "CHR '' '' \<notin> set (show_nat n)" for n
    using show_nat_digits [of "CHR '' ''" n] by (auto simp: is_digit_def)
  then show ?thesis by (simp add: plain_word_def show_int_def)
qed

lemma atoi_show_int: "0 \<le> i \<Longrightarrow> atoi (show_int i) = i"
  by (simp add: show_int_def)

lemma atoi_show_int_all: "atoi (show_int i) = i"
proof (cases "i < 0")
  case True
  then show ?thesis by (simp add: show_int_def atoi_def is_blank_def)
next
  case False
  then show ?thesis by (intro atoi_show_int) simp
qed

lemma opt_parsing_number: "lamb_opt_parsing (cmd @ CHR '' '' # show_int i) cmd = (0, [show_int i])"
  using opt_parsing_words [of "[show_int i]" cmd] plain_show_int [of i] by (simp add: spaced_def)

text \<open>The SQL of a start command is never cut: the number has at most 11 characters.\<close>

lemma add_taskqueue_fits:
  assumes "length (show_int eid) \<le> 11" and "(md, config) \<in> {(''server'', ''server.conf''), (''sp'', ''sp.conf'')}"
  shows "snd (lamb_add_taskqueue exec eid md config ''-d'') =
     [Sql (''INSERT INTO taskqueue(eid, mod, config, argv, create_time) VALUES('' @ show_int eid
            @ '', '' @ quoted md @ '', '' @ quoted config @ '', '' @ quoted ''-d'' @ '', now())'')]"
  using assms by (auto simp: lamb_add_taskqueue_def snprintf_z_def quoted_def Let_def)

lemma lamb_server_statistics_key: "vs_key (lamb_server_statistics rds i v) = vs_key v"
  by (simp add: lamb_server_statistics_def split: option.splits reply.splits list.splits)

subsection \<open>Hexadecimal digests\<close>

definition hex_value :: "char \<Rightarrow> nat" where
  "hex_value c = length (takeWhile (\<lambda>d. d \<noteq> c) ''0123456789abcdef'')"

lemma hex_value_digit: "d < 16 \<Longrightarrow> hex_value (hex_digit d) = d"
proof -
  assume "d < 16"
  then have "d = 0 \<or> d = 1 \<or> d = 2 \<or> d = 3 \<or> d = 4 \<or> d = 5 \<or> d = 6 \<or> d = 7 \<or> d = 8 \<or> d = 9 \<or> d = 10 \<or>
    d = 11 \<or> d = 12 \<or> d = 13 \<or> d = 14 \<or> d = 15" by arith
  then show ?thesis by (auto simp: hex_value_def hex_digit_def)
qed

fun unhex :: "string \<Rightarrow> bytes" where
  "unhex (a # b # s) = char_of (16 * hex_value a + hex_value b) # unhex s"
| "unhex s = []"

lemma unhex_hex_string: "unhex (lamb_hex_string d) = d" and length_hex_string: "length (lamb_hex_string d) = 2 * length d"
proof -
  have byte: "(of_char x :: nat) < 256" for x by (metis of_char_mod_256 mod_less_divisor zero_less_numeral)
  have "char_of (16 * hex_value (hex_digit (of_char x div 16)) + hex_value (hex_digit (of_char x mod 16))) = x" for x
  proof -
    have "(of_char x :: nat) div 16 < 16" using byte [of x] by (intro less_mult_imp_div_less) simp
    then have "16 * hex_value (hex_digit (of_char x div 16)) + hex_value (hex_digit (of_char x mod 16)) = (of_char x :: nat)"
      by (simp add: hex_value_digit)
    then show ?thesis by (metis char_of_char)
  qed
  then show "unhex (lamb_hex_string d) = d" by (induction d) (simp_all add: lamb_hex_string_def)
  show "length (lamb_hex_string d) = 2 * length d" by (induction d) (simp_all add: lamb_hex_string_def)
qed

end
