(* ===== verification/Control.thy ===== *)
theory Control
  imports Console Sp Ismg
begin

text \<open>
  The console and the processes it controls: a \<open>kill\<close> command reaches the status thread of the
  process through redis, and the status the console shows comes from the lock file of the process.
\<close>

subsection \<open>Hashes in redis\<close>

text \<open>
  Redis is what it answers after the commands it was given. Of hashes it promises that a field
  has the value last set, that setting another field of the same or another key does not change
  it, and that reading changes nothing.
\<close>

type_synonym redis_history = "string list \<Rightarrow> redis"

definition hget :: "string \<Rightarrow> string \<Rightarrow> string" where
  "hget k f = ''HGET '' @ k @ '' '' @ f"

definition hset :: "string \<Rightarrow> string \<Rightarrow> string \<Rightarrow> string" where
  "hset k f v = ''HSET '' @ k @ '' '' @ f @ '' '' @ v"

definition redis_hashes :: "redis_history \<Rightarrow> bool" where
  "redis_hashes R \<longleftrightarrow>
     (\<forall>W k f v. plain_word k \<and> plain_word f \<and> plain_word v \<longrightarrow>
        rd_reply (R (W @ [hset k f v])) (hget k f) = Some (RString v)) \<and>
     (\<forall>W k f k' f' v. plain_word k \<and> plain_word f \<and> plain_word k' \<and> plain_word f' \<and> plain_word v \<and>
        (k, f) \<noteq> (k', f') \<longrightarrow> rd_reply (R (W @ [hset k' f' v])) (hget k f) = rd_reply (R W) (hget k f)) \<and>
     (\<forall>W k f c. take 6 c = ''EXISTS'' \<longrightarrow> rd_reply (R (W @ [c])) (hget k f) = rd_reply (R W) (hget k f))"

lemma redis_hashesD:
  assumes "redis_hashes R"
  shows "plain_word k \<Longrightarrow> plain_word f \<Longrightarrow> plain_word v \<Longrightarrow>
      rd_reply (R (W @ [hset k f v])) (hget k f) = Some (RString v)"
    and "plain_word k \<Longrightarrow> plain_word f \<Longrightarrow> plain_word k' \<Longrightarrow> plain_word f' \<Longrightarrow> plain_word v \<Longrightarrow> (k, f) \<noteq> (k', f') \<Longrightarrow>
      rd_reply (R (W @ [hset k' f' v])) (hget k f) = rd_reply (R W) (hget k f)"
    and "take 6 c = ''EXISTS'' \<Longrightarrow> rd_reply (R (W @ [c])) (hget k f) = rd_reply (R W) (hget k f)"
  using assms unfolding redis_hashes_def by blast+

fun redis_of :: "effect list \<Rightarrow> string list" where
  "redis_of [] = []"
| "redis_of (Redis c # es) = c # redis_of es"
| "redis_of (Sql c # es) = redis_of es"
| "redis_of (System c # es) = redis_of es"
| "redis_of (Print c # es) = redis_of es"

subsection \<open>Signals\<close>

definition signal_key :: "string \<Rightarrow> int \<Rightarrow> string" where
  "signal_key type i = type @ ''.'' @ show_int i"

text \<open>What the three checks read, from the reply to \<open>HGET\<close>.\<close>

definition reply_signal :: "reply option \<Rightarrow> int" where
  "reply_signal r = (case r of Some (RString s) \<Rightarrow> (if 0 < length s then atoi (cstr s) else 0) | _ \<Rightarrow> 0)"

lemma check_signals:
  "lamb_check_signal rds i = (reply_signal (rd_reply rds (hget (signal_key ''server'' i) ''signal'')),
     [hget (signal_key ''server'' i) ''signal'', hset (signal_key ''server'' i) ''signal'' ''0''])"
  "sp_check_signal rds i = (reply_signal (rd_reply rds (hget (signal_key ''gateway'' i) ''signal'')),
     [hget (signal_key ''gateway'' i) ''signal'', hset (signal_key ''gateway'' i) ''signal'' ''0''])"
  "ismg_check_signal rds i = (reply_signal (rd_reply rds (hget (signal_key ''client'' i) ''signal'')),
     [hget (signal_key ''client'' i) ''signal'', hset (signal_key ''client'' i) ''signal'' ''0''])"
  by (simp_all add: lamb_check_signal_def sp_check_signal_def ismg_check_signal_def lamb_clear_signal_def
      sp_clear_signal_def ismg_clear_signal_def hget_def hset_def signal_key_def reply_signal_def Let_def)

lemma plain_signal_key: "plain_word type \<Longrightarrow> plain_word (signal_key type i)"
  using plain_show_int [of i] by (auto simp: plain_word_def signal_key_def)

lemma signal_key_inject: "signal_key type i = signal_key type j \<longleftrightarrow> i = j"
  by (metis append_same_eq append.assoc atoi_show_int_all same_append_eq signal_key_def)

lemma reply_nine: "reply_signal (Some (RString ''9'')) = 9" and reply_zero: "reply_signal (Some (RString ''0'')) = 0"
  by (simp_all add: reply_signal_def cstr_def atoi_def is_blank_def digits_val_def digit_val_def is_digit_def)

lemma kill_effects:
  assumes "0 < N" and "rd_reply rds (''EXISTS '' @ signal_key type N) = Some (RInteger 1)"
  shows "redis_of (kill_command command type missing rds (command @ CHR '' '' # show_int N)) =
     [''EXISTS '' @ signal_key type N, hset (signal_key type N) ''signal'' ''9'']"
  using assms opt_parsing_number [of command N]
  by (simp add: kill_command_def lamb_is_valid_def lamb_set_signal_def atoi_show_int_all signal_key_def hset_def
      show_int_def show_nat.simps [of 9] digit_char_def Let_def)

lemma killed_signal:
  assumes "redis_hashes R" and "0 < N" and "rd_reply (R W) (''EXISTS '' @ signal_key type N) = Some (RInteger 1)"
    and "plain_word type"
    and W': "W' = W @ redis_of (kill_command command type missing (R W) (command @ CHR '' '' # show_int N))"
  shows "reply_signal (rd_reply (R W') (hget (signal_key type N) ''signal'')) = 9"
    and "M \<noteq> N \<Longrightarrow> rd_reply (R W') (hget (signal_key type M) ''signal'') = rd_reply (R W) (hget (signal_key type M) ''signal'')"
proof -
  note laws = redis_hashesD [OF assms(1)]
  have words: "plain_word ''signal''" "plain_word ''9''" by (simp_all add: plain_word_def)
  have key: "plain_word (signal_key type i)" for i by (rule plain_signal_key [OF assms(4)])
  let ?asked = "W @ [''EXISTS '' @ signal_key type N]"
  have W2: "W' = ?asked @ [hset (signal_key type N) ''signal'' ''9'']"
    unfolding W' kill_effects [OF assms(2,3)] by simp
  show "reply_signal (rd_reply (R W') (hget (signal_key type N) ''signal'')) = 9"
    unfolding W2 laws(1) [OF key words] by (rule reply_nine)
  assume "M \<noteq> N"
  then have other: "(signal_key type M, ''signal'') \<noteq> (signal_key type N, ''signal'')" by (simp add: signal_key_inject)
  show "rd_reply (R W') (hget (signal_key type M) ''signal'') = rd_reply (R W) (hget (signal_key type M) ''signal'')"
    unfolding W2 laws(2) [OF key words(1) key words other] by (rule laws(3)) simp
qed

lemma cleared_signal:
  assumes "redis_hashes R" and "plain_word type"
  shows "reply_signal (rd_reply (R (W @ cmds @ [hset (signal_key type N) ''signal'' ''0''])) (hget (signal_key type N) ''signal'')) = 0"
proof -
  have words: "plain_word ''signal''" "plain_word ''0''" by (simp_all add: plain_word_def)
  show ?thesis
    using redis_hashesD(1) [OF assms(1) plain_signal_key [OF assms(2)] words, of "W @ cmds" N] reply_zero by simp
qed

lemma killed_checks:
  assumes "redis_hashes R" and "0 < N"
  shows "rd_reply (R W) (''EXISTS server.'' @ show_int N) = Some (RInteger 1) \<Longrightarrow>
      W' = W @ redis_of (lamb_kill_server (R W) (''kill server '' @ show_int N)) \<Longrightarrow> fst (lamb_check_signal (R W') N) = 9"
    and "rd_reply (R W) (''EXISTS gateway.'' @ show_int N) = Some (RInteger 1) \<Longrightarrow>
      W' = W @ redis_of (lamb_kill_channel (R W) (''kill channel '' @ show_int N)) \<Longrightarrow> fst (sp_check_signal (R W') N) = 9"
    and "rd_reply (R W) (''EXISTS client.'' @ show_int N) = Some (RInteger 1) \<Longrightarrow>
      W' = W @ redis_of (lamb_kill_client (R W) (''kill client '' @ show_int N)) \<Longrightarrow> fst (ismg_check_signal (R W') N) = 9"
proof -
  have plain: "plain_word ''server''" "plain_word ''gateway''" "plain_word ''client''" by (simp_all add: plain_word_def)
  note kill = killed_signal(1) [OF assms, where W = W and W' = W']
  show "rd_reply (R W) (''EXISTS server.'' @ show_int N) = Some (RInteger 1) \<Longrightarrow>
      W' = W @ redis_of (lamb_kill_server (R W) (''kill server '' @ show_int N)) \<Longrightarrow> fst (lamb_check_signal (R W') N) = 9"
    unfolding check_signals fst_conv lamb_kill_server_def
    by (rule kill [OF _ plain(1), where command = "''kill server''" and missing = "''Sorry, the server does not exist''"]) (simp_all add: signal_key_def)
  show "rd_reply (R W) (''EXISTS gateway.'' @ show_int N) = Some (RInteger 1) \<Longrightarrow>
      W' = W @ redis_of (lamb_kill_channel (R W) (''kill channel '' @ show_int N)) \<Longrightarrow> fst (sp_check_signal (R W') N) = 9"
    unfolding check_signals fst_conv lamb_kill_channel_def
    by (rule kill [OF _ plain(2), where command = "''kill channel''" and missing = "''Sorry, the channel does not exist''"]) (simp_all add: signal_key_def)
  show "rd_reply (R W) (''EXISTS client.'' @ show_int N) = Some (RInteger 1) \<Longrightarrow>
      W' = W @ redis_of (lamb_kill_client (R W) (''kill client '' @ show_int N)) \<Longrightarrow> fst (ismg_check_signal (R W') N) = 9"
    unfolding check_signals fst_conv lamb_kill_client_def
    by (rule kill [OF _ plain(3), where command = "''kill client''" and missing = "''Sorry, the client does not exist''"]) (simp_all add: signal_key_def)
qed

text \<open>What a check leaves in redis for the next one.\<close>

lemma checked_signal:
  assumes "redis_hashes R"
  shows "fst (lamb_check_signal (R (W @ cs @ snd (lamb_check_signal rds N))) N) = 0"
    and "fst (sp_check_signal (R (W @ cs @ snd (sp_check_signal rds N))) N) = 0"
    and "fst (ismg_check_signal (R (W @ cs @ snd (ismg_check_signal rds N))) N) = 0"
proof -
  have plain: "plain_word ''server''" "plain_word ''gateway''" "plain_word ''client''" by (simp_all add: plain_word_def)
  note clear = cleared_signal [OF assms, where W = W and N = N]
  show "fst (lamb_check_signal (R (W @ cs @ snd (lamb_check_signal rds N))) N) = 0"
    using clear [OF plain(1), of "cs @ [hget (signal_key ''server'' N) ''signal'']"] by (simp add: check_signals)
  show "fst (sp_check_signal (R (W @ cs @ snd (sp_check_signal rds N))) N) = 0"
    using clear [OF plain(2), of "cs @ [hget (signal_key ''gateway'' N) ''signal'']"] by (simp add: check_signals)
  show "fst (ismg_check_signal (R (W @ cs @ snd (ismg_check_signal rds N))) N) = 0"
    using clear [OF plain(3), of "cs @ [hget (signal_key ''client'' N) ''signal'']"] by (simp add: check_signals)
qed

subsection \<open>A kill command and the process it is for\<close>

lemma server_turn_killed:
  assumes "fst (lamb_check_signal rds N) = 9"
  shows "\<exists>S' L' c1. lamb_stat_loop n c d dup cfg rds N mem S L =
     Some (S', L', c1 # snd (lamb_check_signal rds N), \<not> sv_sleeping S)"
  using assms by (simp add: lamb_stat_loop_def Let_def case_prod_unfold)

text \<open>
  C32: A killed process stops: after \<open>kill server N\<close> the next turn of the status thread of that
  server ends the process, unless the server is just reloading, when the turn takes the signal
  away without effect; after \<open>kill channel N\<close> the next turn of the status thread of that
  gateway client does, and after \<open>kill client N\<close> that of the process of that client. No such
  turn leaves the signal in redis for a later process.
\<close>

theorem kill_stops_process:
  assumes "redis_hashes R" and "0 < N"
    and "\<forall>type \<in> {''server'', ''gateway'', ''client''}. rd_reply (R W) (''EXISTS '' @ type @ ''.'' @ show_int N) = Some (RInteger 1)"
    and "W1 = W @ redis_of (lamb_kill_server (R W) (''kill server '' @ show_int N))"
    and "W2 = W @ redis_of (lamb_kill_channel (R W) (''kill channel '' @ show_int N))"
    and "W3 = W @ redis_of (lamb_kill_client (R W) (''kill client '' @ show_int N))"
    and "pe_gid e = N" and "v_redis v = R W2" and "ab_id (ie_account g) = N"
  shows "(\<exists>S' L' cmds. lamb_stat_loop n c d dup cfg (R W1) N mem S L = Some (S', L', cmds, \<not> sv_sleeping S) \<and>
            fst (lamb_check_signal (R (W1 @ cmds)) N) = 0) \<and>
         (\<exists>P' out. sp_stat_loop e v speed P = (P', out) \<and> vo_exit out \<and>
            fst (sp_check_signal (R (W2 @ vo_cmds out)) N) = 0) \<and>
         (\<exists>G' speed' cmds s'. ismg_stat_loop g n (R W3) addr pid interval socks speed G s = (G', speed', cmds, s', True) \<and>
            fst (ismg_check_signal (R (W3 @ cmds)) N) = 0)"
proof (intro conjI)
  have ex: "rd_reply (R W) (''EXISTS server.'' @ show_int N) = Some (RInteger 1)"
    "rd_reply (R W) (''EXISTS gateway.'' @ show_int N) = Some (RInteger 1)"
    "rd_reply (R W) (''EXISTS client.'' @ show_int N) = Some (RInteger 1)" using assms(3) by simp_all
  note kill = killed_checks [OF assms(1,2), where W = W]
  have "fst (lamb_check_signal (R W1) N) = 9" by (rule kill(1) [OF ex(1) assms(4)])
  then obtain S' L' c1 where "lamb_stat_loop n c d dup cfg (R W1) N mem S L =
      Some (S', L', c1 # snd (lamb_check_signal (R W1) N), \<not> sv_sleeping S)"
    using server_turn_killed by blast
  then show "\<exists>S' L' cmds. lamb_stat_loop n c d dup cfg (R W1) N mem S L = Some (S', L', cmds, \<not> sv_sleeping S) \<and>
            fst (lamb_check_signal (R (W1 @ cmds)) N) = 0"
    using checked_signal(1) [OF assms(1), of W1 "[c1]" "R W1" N] by auto
  have "fst (sp_check_signal (R W2) N) = 9" by (rule kill(2) [OF ex(2) assms(5)])
  then obtain P' out c2 where "sp_stat_loop e v speed P = (P', out)" "vo_exit out"
      "vo_cmds out = c2 # snd (sp_check_signal (R W2) N)"
    using assms(7,8) by (auto simp: sp_stat_loop_def Let_def case_prod_unfold)
  then show "\<exists>P' out. sp_stat_loop e v speed P = (P', out) \<and> vo_exit out \<and>
            fst (sp_check_signal (R (W2 @ vo_cmds out)) N) = 0"
    using checked_signal(2) [OF assms(1), of W2 "[c2]" "R W2" N] by auto
  have "fst (ismg_check_signal (R W3) N) = 9" by (rule kill(3) [OF ex(3) assms(6)])
  then obtain G' speed' c3 s' where "ismg_stat_loop g n (R W3) addr pid interval socks speed G s =
      (G', speed', c3 # snd (ismg_check_signal (R W3) N), s', True)"
    using assms(9) by (auto simp: ismg_stat_loop_def Let_def case_prod_unfold)
  then show "\<exists>G' speed' cmds s'. ismg_stat_loop g n (R W3) addr pid interval socks speed G s = (G', speed', cmds, s', True) \<and>
            fst (ismg_check_signal (R (W3 @ cmds)) N) = 0"
    using checked_signal(3) [OF assms(1), of W3 "[c3]" "R W3" N] by auto
qed

subsection \<open>A redis\<close>

text \<open>An instance of redis, which looks for the last command that set the field.\<close>

definition text_reply :: "string list \<Rightarrow> string \<Rightarrow> reply option" where
  "text_reply W c =
     (if take 5 c = ''HGET '' then
        (let p = ''HSET '' @ drop 5 c @ '' ''
         in case find (\<lambda>w. take (length p) w = p) (rev W) of
              Some w \<Rightarrow> Some (RString (drop (length p) w))
            | None \<Rightarrow> Some RNil)
      else if take 7 c = ''EXISTS '' then
        (let p = ''HSET '' @ drop 7 c @ '' ''
         in Some (RInteger (if find (\<lambda>w. take (length p) w = p) W = None then 0 else 1)))
      else Some (RStatus ''OK''))"

definition text_redis :: redis_history where
  "text_redis W = \<lparr>rd_connect = (\<lambda>h p. True), rd_reply = text_reply W\<rparr>"

lemma plain_word_split:
  assumes "plain_word k" and "plain_word k'" and "k @ CHR '' '' # a = k' @ CHR '' '' # b"
  shows "k = k' \<and> a = b"
proof -
  have cut: "takeWhile (\<lambda>c. c \<noteq> CHR '' '') (w @ CHR '' '' # r) = w" if "plain_word w" for w r
    using that by (auto simp: plain_word_def takeWhile_append)
  have "k = k'" using cut [OF assms(1), of a] cut [OF assms(2), of b] assms(3) by simp
  then show ?thesis using assms(3) by simp
qed

lemma hset_prefix:
  fixes k f k' f' v :: string
  defines "p \<equiv> ''HSET '' @ (k @ '' '' @ f) @ '' ''"
  assumes "plain_word k" and "plain_word f" and "plain_word k'" and "plain_word f'"
  shows "take (length p) (hset k' f' v) = p \<longleftrightarrow> (k', f') = (k, f)"
proof
  assume "take (length p) (hset k' f' v) = p"
  then have "hset k' f' v = p @ drop (length p) (hset k' f' v)" by (metis append_take_drop_id)
  then obtain r where "k' @ CHR '' '' # (f' @ CHR '' '' # v) = k @ CHR '' '' # (f @ CHR '' '' # r)"
    by (auto simp: hset_def p_def)
  then show "(k', f') = (k, f)"
    using plain_word_split [OF assms(4,2)] plain_word_split [OF assms(5,3)] by blast
next
  assume "(k', f') = (k, f)"
  then have "hset k' f' v = p @ v" by (simp add: hset_def p_def)
  then show "take (length p) (hset k' f' v) = p" by simp
qed

lemma text_redis_hashes: "redis_hashes text_redis"
proof -
  have get: "rd_reply (text_redis W) (hget k f) =
      (let p = ''HSET '' @ (k @ '' '' @ f) @ '' ''
       in case find (\<lambda>w. take (length p) w = p) (rev W) of
            Some w \<Rightarrow> Some (RString (drop (length p) w)) | None \<Rightarrow> Some RNil)" for W k f
    by (simp add: text_redis_def text_reply_def hget_def)
  have same: "rd_reply (text_redis (W @ [hset k f v])) (hget k f) = Some (RString v)"
    if "plain_word k" "plain_word f" for W k f v
  proof -
    let ?p = "''HSET '' @ (k @ '' '' @ f) @ '' ''"
    have "take (length ?p) (hset k f v) = ?p" by (simp only: hset_prefix [OF that that])
    moreover have "drop (length ?p) (hset k f v) = v" by (simp add: hset_def)
    ultimately show ?thesis unfolding get Let_def rev_append by (simp only: rev.simps append_Nil append_Cons find.simps simp_thms if_True option.case)
  qed
  have other: "rd_reply (text_redis (W @ [hset k' f' v])) (hget k f) = rd_reply (text_redis W) (hget k f)"
    if "plain_word k" "plain_word f" "plain_word k'" "plain_word f'" "(k, f) \<noteq> (k', f')" for W k f k' f' v
  proof -
    let ?p = "''HSET '' @ (k @ '' '' @ f) @ '' ''"
    have "(take (length ?p) (hset k' f' v) = ?p) = False" using hset_prefix [OF that(1-4), of v] that(5) by blast
    then show ?thesis unfolding get Let_def rev_append by (simp only: rev.simps append_Nil append_Cons find.simps if_False)
  qed
  have exists: "rd_reply (text_redis (W @ [c])) (hget k f) = rd_reply (text_redis W) (hget k f)"
    if "take 6 c = ''EXISTS''" for W k f c
  proof -
    let ?p = "''HSET '' @ (k @ '' '' @ f) @ '' ''"
    have "hd c = CHR ''E''" "c \<noteq> []" using that by (cases c; simp)+
    then have "(take (length ?p) c = ?p) = False" by (cases c) auto
    then show ?thesis unfolding get Let_def rev_append by (simp only: rev.simps append_Nil append_Cons find.simps if_False)
  qed
  show ?thesis unfolding redis_hashes_def using same other exists by blast
qed

definition example_history :: "string list" where
  "example_history = [hset ''server.7'' ''store'' ''0'', hset ''gateway.7'' ''status'' ''1'', hset ''client.7'' ''online'' ''5'']"

lemma example_exists:
  "\<forall>type \<in> {''server'', ''gateway'', ''client''}.
     rd_reply (text_redis example_history) (''EXISTS '' @ type @ ''.'' @ show_int 7) = Some (RInteger 1)"
  by (simp add: text_redis_def text_reply_def example_history_def hset_def show_int_def show_nat.simps [of 7] digit_char_def)

theorem kill_stops_process_witness:
  "\<forall>n c d dup cfg mem S L. \<exists>S' L' cmds.
     lamb_stat_loop n c d dup cfg (text_redis (example_history @ [''EXISTS server.7'', ''HSET server.7 signal 9''])) 7 mem S L =
       Some (S', L', cmds, \<not> sv_sleeping S)"
proof (intro allI)
  fix n c d dup cfg mem S L
  let ?W = "example_history @ redis_of (lamb_kill_server (text_redis example_history) (''kill server '' @ show_int 7))"
  let ?v = "\<lparr>v_interval = 5, v_pid = 1, v_exec = (\<lambda>c. True),
     v_redis = text_redis (example_history @ redis_of (lamb_kill_channel (text_redis example_history) (''kill channel '' @ show_int 7)))\<rparr>"
  let ?e = "undefined\<lparr>pe_gid := 7\<rparr> :: sp_env" and ?g = "undefined\<lparr>ie_account := undefined\<lparr>ab_id := 7\<rparr>\<rparr> :: ismg_env"
  have pos: "(0 :: int) < 7" and e: "pe_gid ?e = 7" and g: "ab_id (ie_account ?g) = 7" by simp_all
  have v: "v_redis ?v = text_redis (example_history @
      redis_of (lamb_kill_channel (text_redis example_history) (''kill channel '' @ show_int 7)))" by simp
  have "\<exists>S' L' cmds. lamb_stat_loop n c d dup cfg (text_redis ?W) 7 mem S L = Some (S', L', cmds, \<not> sv_sleeping S)"
    using conjunct1 [OF kill_stops_process [OF text_redis_hashes pos example_exists refl refl refl e v g,
        where n = n and c = c and d = d and dup = dup and cfg = cfg and mem = mem and S = S and L = L]] by blast
  moreover have "?W = example_history @ [''EXISTS server.7'', ''HSET server.7 signal 9'']"
    using kill_effects [of 7 "text_redis example_history" "''server''" "''kill server''"] example_exists
    by (simp add: lamb_kill_server_def signal_key_def hset_def show_int_def show_nat.simps [of 7] digit_char_def)
  ultimately show "\<exists>S' L' cmds.
     lamb_stat_loop n c d dup cfg (text_redis (example_history @ [''EXISTS server.7'', ''HSET server.7 signal 9''])) 7 mem S L =
       Some (S', L', cmds, \<not> sv_sleeping S)" by simp
qed

end
