(* ===== verification/IsmgFront.thy ===== *)
theory IsmgFront
  imports IsmgRun Control
begin

text \<open>
  The event loop of the front end (\<open>lamb_event_loop\<close> of \<open>src/src/ismg.c\<close>): it accepts connections,
  watches them with epoll, and for a login that succeeds forks the process of the client and
  lets go of the connection. Which process a client gets over time, and what two logins do that
  come one right after the other.
\<close>

subsection \<open>The loop\<close>

text \<open>
  The connections the process has open and those it watches, besides the one it listens on; the
  processes it forked, with the connection and the account; the answers to CONNECT packets, those
  of new processes included; the commands that changed redis. \<open>fn_logins\<close> is a ghost: for each
  process the time of its login, the packet, and the commands that had changed redis by then.
\<close>

record front =
  fn_open :: "int list"
  fn_watched :: "int list"
  fn_children :: "(int \<times> account_bufs) list"
  fn_answers :: "(int \<times> int) list"
  fn_redis :: "string list"
  fn_logins :: "(int \<times> cmpp_pack_t \<times> string list) list"

definition front_start :: front where
  "front_start = \<lparr>fn_open = [], fn_watched = [], fn_children = [], fn_answers = [], fn_redis = [], fn_logins = []\<rparr>"

text \<open>
  The events: \<open>accept\<close> returns on the listening socket; a connection can be read, at a time, and
  \<open>fork\<close> would succeed or not; it has another event; a client's process says that it is online.
\<close>

datatype fevent = Fconn int | Fdata int "int + cmpp_pack_t" int bool | Fother int | Fonline int int

definition front_event ::
  "redis_history \<Rightarrow> int \<Rightarrow> (cmpp_pack_t \<Rightarrow> string \<Rightarrow> string \<Rightarrow> bool) \<Rightarrow> fevent \<Rightarrow> front \<Rightarrow> front option" where
  "front_event R version auth ev F =
     (case ev of
        Fconn confd \<Rightarrow>
          Some (if confd < 0 then F
                else F\<lparr>fn_open := fn_open F @ [confd], fn_watched := fn_watched F @ [confd]\<rparr>)
      | Fdata sockfd r now forked \<Rightarrow>
          (if sockfd < 0 then Some F
           else do {
             l \<leftarrow> ismg_event (R (fn_redis F)) version auth now forked r;
             let F1 = F\<lparr>fn_answers := fn_answers F @ (case lg_answer l of None \<Rightarrow> [] | Some a \<Rightarrow> [(sockfd, a)]),
                        fn_children := fn_children F @ (case lg_child l of None \<Rightarrow> [] | Some account \<Rightarrow> [(sockfd, account)]),
                        fn_logins := fn_logins F @ (case (lg_child l, r) of (Some a, Inr p) \<Rightarrow> [(now, p, fn_redis F)] | _ \<Rightarrow> [])\<rparr>;
             Some (if lg_closed l \<or> lg_child l \<noteq> None
                   then F1\<lparr>fn_watched := remove1 sockfd (fn_watched F1), fn_open := remove1 sockfd (fn_open F1)\<rparr>
                   else F1) })
      | Fother sockfd \<Rightarrow> Some F
      | Fonline account now \<Rightarrow> Some (F\<lparr>fn_redis := fn_redis F @ [snd (lamb_state_renewal (R (fn_redis F)) now account)]\<rparr>))"

primrec front_run ::
  "redis_history \<Rightarrow> int \<Rightarrow> (cmpp_pack_t \<Rightarrow> string \<Rightarrow> string \<Rightarrow> bool) \<Rightarrow> fevent list \<Rightarrow> front \<Rightarrow> front option" where
  "front_run R version auth [] F = Some F"
| "front_run R version auth (ev # evs) F = do { F1 \<leftarrow> front_event R version auth ev F; front_run R version auth evs F1 }"

text \<open>\<open>accept\<close> returns a descriptor that is not in use; epoll reports connections that are watched.\<close>

definition front_ev_ok :: "front \<Rightarrow> fevent \<Rightarrow> bool" where
  "front_ev_ok F ev =
     (case ev of
        Fconn confd \<Rightarrow> confd \<notin> set (fn_open F)
      | Fdata sockfd r now forked \<Rightarrow> sockfd \<in> set (fn_watched F)
      | Fother sockfd \<Rightarrow> sockfd \<in> set (fn_watched F)
      | Fonline account now \<Rightarrow> True)"

inductive front_reach :: "redis_history \<Rightarrow> int \<Rightarrow> (cmpp_pack_t \<Rightarrow> string \<Rightarrow> string \<Rightarrow> bool) \<Rightarrow> front \<Rightarrow> bool"
  for R :: redis_history and version :: int and auth :: "cmpp_pack_t \<Rightarrow> string \<Rightarrow> string \<Rightarrow> bool" where
  front_begin: "front_reach R version auth front_start"
| front_next: "front_reach R version auth F \<Longrightarrow> front_ev_ok F ev \<Longrightarrow> front_event R version auth ev F = Some F' \<Longrightarrow>
    front_reach R version auth F'"

subsection \<open>Who gets a process\<close>

text \<open>
  What redis \<open>rds\<close> and the library say at the time \<open>now\<close> at which the packet \<open>p\<close> comes from the client
  of account \<open>a\<close>: the user name of the packet is known, the authentication of this packet with
  the stored password succeeds, and the account was not said to be online in the last seven seconds.
\<close>

definition admitted :: "redis \<Rightarrow> int \<Rightarrow> (cmpp_pack_t \<Rightarrow> string \<Rightarrow> string \<Rightarrow> bool) \<Rightarrow> int \<Rightarrow> cmpp_pack_t \<Rightarrow> account_bufs \<Rightarrow> bool" where
  "admitted rds version auth now p a \<longleftrightarrow> pack_byte p cmpp_connect_version = version \<and>
     (\<exists>username. pack_string p cmpp_connect_source_addr 8 6 = Some username \<and>
        lamb_cache_has rds (Some \<lparr>ca_handle = True\<rparr>) (snprintf_z 32 (''account.'' @ username)) \<and>
        auth p username (cstr (snd (lamb_cache_hget rds (Some \<lparr>ca_handle = True\<rparr>)
          (Some (snprintf_z 32 (''account.'' @ username))) ''password'' (zeroed 64) 64))) \<and>
        lamb_account_get rds username no_account_bufs = (0, a)) \<and>
     (\<forall>t. 0 \<le> t \<and> online_since rds (ab_id a) t \<longrightarrow> 7 \<le> now - t)"

lemma connect_child:
  assumes "ismg_connect rds version auth now forked p = Some l" and "lg_child l = Some a"
  shows "lg_answer l = Some 0 \<and> \<not> lamb_is_login rds now (ab_id a)"
  using assms by (auto simp: ismg_connect_def Let_def bind_eq_Some_conv split: if_splits prod.splits)

lemma connect_answer:
  assumes "ismg_connect rds version auth now forked p = Some l"
  shows "lg_answer l = Some 0 \<longleftrightarrow> lg_child l \<noteq> None"
  using assms by (auto simp: ismg_connect_def Let_def bind_eq_Some_conv split: if_splits prod.splits)

lemma event_login:
  assumes "ismg_event rds version auth now forked r = Some l"
  shows "lg_answer l = Some 0 \<longleftrightarrow> lg_child l \<noteq> None"
    and "lg_child l = Some a \<Longrightarrow> \<exists>p. r = Inr p \<and> ismg_connect rds version auth now forked p = Some l"
  using assms connect_answer by (auto simp: ismg_event_def split: sum.splits if_splits)

lemma connect_admitted:
  assumes "ismg_connect rds version auth now forked p = Some l" and "lg_child l = Some a"
  shows "admitted rds version auth now p a"
  using admits_login [OF assms] unfolding admitted_def by blast

definition login_ok ::
  "redis_history \<Rightarrow> int \<Rightarrow> (cmpp_pack_t \<Rightarrow> string \<Rightarrow> string \<Rightarrow> bool) \<Rightarrow> string list \<Rightarrow> int \<times> account_bufs \<Rightarrow>
   int \<times> cmpp_pack_t \<times> string list \<Rightarrow> bool" where
  "login_ok R version auth all c g =
     (case g of (now, p, W) \<Rightarrow> admitted (R W) version auth now p (snd c) \<and> (\<exists>V. all = W @ V))"

definition fronts_ok :: "redis_history \<Rightarrow> int \<Rightarrow> (cmpp_pack_t \<Rightarrow> string \<Rightarrow> string \<Rightarrow> bool) \<Rightarrow> front \<Rightarrow> bool" where
  "fronts_ok R version auth F \<longleftrightarrow> fn_watched F = fn_open F \<and> distinct (fn_open F) \<and> (\<forall>fd \<in> set (fn_open F). 0 \<le> fd) \<and>
     map fst (filter (\<lambda>x. snd x = 0) (fn_answers F)) = map fst (fn_children F) \<and>
     list_all2 (login_ok R version auth (fn_redis F)) (fn_children F) (fn_logins F)"

lemma login_ok_grow: "login_ok R version auth all c g \<Longrightarrow> login_ok R version auth (all @ new) c g"
  by (auto simp: login_ok_def)

lemma front_event_ok:
  assumes ok: "fronts_ok R version auth F" and ev: "front_ev_ok F ev" and step: "front_event R version auth ev F = Some F'"
  shows "fronts_ok R version auth F'"
proof (cases ev)
  case (Fconn confd)
  then show ?thesis using assms by (auto simp: front_event_def front_ev_ok_def fronts_ok_def split: if_splits)
next
  case (Fdata fd r now forked)
  then have fd: "\<not> fd < 0" using ok ev by (auto simp: fronts_ok_def front_ev_ok_def)
  obtain l where l: "ismg_event (R (fn_redis F)) version auth now forked r = Some l"
    using step Fdata fd by (auto simp: front_event_def bind_eq_Some_conv)
  have F': "F' = (let F1 = F\<lparr>fn_answers := fn_answers F @ (case lg_answer l of None \<Rightarrow> [] | Some a \<Rightarrow> [(fd, a)]),
                        fn_children := fn_children F @ (case lg_child l of None \<Rightarrow> [] | Some account \<Rightarrow> [(fd, account)]),
                        fn_logins := fn_logins F @ (case (lg_child l, r) of (Some a, Inr p) \<Rightarrow> [(now, p, fn_redis F)] | _ \<Rightarrow> [])\<rparr>
             in if lg_closed l \<or> lg_child l \<noteq> None
                then F1\<lparr>fn_watched := remove1 fd (fn_watched F1), fn_open := remove1 fd (fn_open F1)\<rparr> else F1)"
    using step Fdata fd l by (simp add: front_event_def Let_def)
  have "map fst (filter (\<lambda>x. snd x = 0) (fn_answers F')) = map fst (fn_children F')"
    using ok event_login(1) [OF l] unfolding F' fronts_ok_def
    by (cases "lg_answer l"; cases "lg_child l") (auto simp: Let_def)
  moreover have "list_all2 (login_ok R version auth (fn_redis F')) (fn_children F') (fn_logins F')"
  proof (cases "lg_child l")
    case None
    then show ?thesis using ok unfolding F' fronts_ok_def by (simp add: Let_def)
  next
    case (Some a)
    then obtain p where p: "r = Inr p" "ismg_connect (R (fn_redis F)) version auth now forked p = Some l"
      using event_login(2) [OF l] by blast
    have "login_ok R version auth (fn_redis F) (fd, a) (now, p, fn_redis F)"
      using connect_admitted [OF p(2) Some] by (simp add: login_ok_def)
    then show ?thesis using ok Some p(1) unfolding F' fronts_ok_def by (simp add: Let_def list_all2_appendI)
  qed
  moreover have "fn_watched F' = fn_open F'" "distinct (fn_open F')" "set (fn_open F') \<subseteq> set (fn_open F)"
    using ok notin_set_remove1 set_remove1_subset unfolding F' fronts_ok_def by (auto simp: Let_def)
  ultimately show ?thesis using ok unfolding fronts_ok_def by blast
next
  case (Fother fd)
  then show ?thesis using assms by (simp add: front_event_def)
next
  case (Fonline account now)
  have "list_all2 (login_ok R version auth (fn_redis F @ new)) (fn_children F) (fn_logins F)" for new
    using ok login_ok_grow by (auto simp: fronts_ok_def elim: list_all2_mono)
  then show ?thesis using ok step Fonline by (auto simp: front_event_def fronts_ok_def)
qed

text \<open>
  C19: Only admitted clients get a process. Over any run of the front end, each process it forks
  is answered with success on its connection, and nobody else is; when its client logged in, with
  what redis held at that time and at the time of day it was then, its user name was known, the
  authentication of its packet with the stored password succeeded, and its account had not been
  online for seven seconds; and the front end watches exactly the connections it has open, so that
  those of its clients' processes are out of its hands.
\<close>

theorem front_processes:
  assumes "front_reach R version auth F"
  shows "map fst (filter (\<lambda>x. snd x = 0) (fn_answers F)) = map fst (fn_children F) \<and>
     list_all2 (\<lambda>(fd, a) (now, p, W). admitted (R W) version auth now p a \<and> (\<exists>V. fn_redis F = W @ V)) (fn_children F) (fn_logins F) \<and>
     fn_watched F = fn_open F \<and> distinct (fn_open F)"
proof -
  have "fronts_ok R version auth F"
    using assms
  proof induction
    case front_begin
    then show ?case by (simp add: fronts_ok_def front_start_def)
  next
    case (front_next F ev F')
    then show ?case by (blast intro: front_event_ok)
  qed
  moreover have "login_ok R version auth all = (\<lambda>(fd, a) (now, p, W). admitted (R W) version auth now p a \<and> (\<exists>V. all = W @ V))" for all
    by (auto simp: login_ok_def fun_eq_iff)
  ultimately show ?thesis by (simp add: fronts_ok_def)
qed

subsection \<open>Two logins at once\<close>

text \<open>Whether a client is online can only end with time, not begin.\<close>

lemma is_login_mono: "\<not> lamb_is_login rds now i \<Longrightarrow> now \<le> now' \<Longrightarrow> \<not> lamb_is_login rds now' i"
  by (auto simp: lamb_is_login_def split: option.splits reply.splits if_splits)

lemma connect_later:
  assumes "ismg_connect rds version auth now True p = Some l" and "lg_child l = Some a" and "now \<le> now'"
  shows "ismg_connect rds version auth now' True p = Some l"
proof -
  have off: "\<not> lamb_is_login rds now (ab_id a)" using connect_child [OF assms(1,2)] by blast
  note off' = is_login_mono [OF off assms(3)]
  have v: "pack_byte p cmpp_connect_version = version"
    using assms by (cases "pack_byte p cmpp_connect_version = version") (auto simp: ismg_connect_def)
  obtain u where u: "pack_string p cmpp_connect_source_addr 8 6 = Some u"
    using assms v by (cases "pack_string p cmpp_connect_source_addr 8 6") (simp_all add: ismg_connect_def)
  let ?key = "snprintf_z 32 (''account.'' @ u)"
  let ?pw = "cstr (snd (lamb_cache_hget rds (Some \<lparr>ca_handle = True\<rparr>) (Some ?key) ''password'' (zeroed 64) 64))"
  have has: "lamb_cache_has rds (Some \<lparr>ca_handle = True\<rparr>) ?key"
    using assms v u by (cases "lamb_cache_has rds (Some \<lparr>ca_handle = True\<rparr>) ?key") (auto simp: ismg_connect_def)
  have ok: "auth p u ?pw" using assms v u has by (cases "auth p u ?pw") (auto simp: ismg_connect_def)
  obtain err b where g: "lamb_account_get rds u no_account_bufs = (err, b)" by fastforce
  have err: "err = 0" using assms v u has ok g by (cases "err = 0") (auto simp: ismg_connect_def)
  have "b = a" using assms v u has ok g err
    by (cases "lamb_is_login rds now (ab_id b)") (auto simp: ismg_connect_def)
  then show ?thesis using assms(1) v u has ok g err off off' by (simp add: ismg_connect_def Let_def)
qed

text \<open>
  C16: The check for a repeated login does not hold off two logins at once. A client that may log in
  can do so twice, on two connections, as long as the process of the first login has not told
  redis that it is online: both are answered with success, and two processes serve the account.
\<close>

theorem front_admits_twice:
  assumes l: "ismg_connect (R (fn_redis F)) version auth now True p = Some l" "lg_child l = Some a"
    and p: "pk_commandId p = CMPP_CONNECT" and fd: "0 \<le> fd" "0 \<le> fd'" "fd \<noteq> fd'" and later: "now \<le> now'"
  shows "\<exists>F'. front_run R version auth [Fdata fd (Inr p) now True, Fdata fd' (Inr p) now' True] F = Some F' \<and>
     fn_children F' = fn_children F @ [(fd, a), (fd', a)] \<and> fn_answers F' = fn_answers F @ [(fd, 0), (fd', 0)]"
  using assms connect_child [OF l] connect_later [OF l later] by (simp add: front_event_def ismg_event_def Let_def)

definition accounts_history :: redis_history where
  "accounts_history W = example_accounts"

lemma example_connect:
  "\<exists>b. ismg_connect example_accounts 32 (\<lambda>p u w. w = ''pw'') 1000 True connect_packet =
      Some \<lparr>lg_answer = Some 0, lg_closed = False, lg_child = Some b\<rparr>"
proof -
  have user: "pack_string connect_packet cmpp_connect_source_addr 8 6 = Some ''901234''"
    by (simp add: pack_string_def connect_packet_def memcpy_z_def zeroed_def cstr_def)
  obtain b where b: "lamb_account_get example_accounts ''901234'' no_account_bufs = (0, b)"
    using example_account_get by blast
  have has: "lamb_cache_has example_accounts (Some \<lparr>ca_handle = True\<rparr>) key" for key
    by (simp add: lamb_cache_has_def example_accounts_def)
  have off: "\<not> lamb_is_login example_accounts 1000 i" for i
    by (simp add: lamb_is_login_def example_accounts_def)
  have pw: "cstr (snd (lamb_cache_hget example_accounts (Some \<lparr>ca_handle = True\<rparr>)
      (Some (''account.901234'')) ''password'' (zeroed 64) 64)) = ''pw''"
    by (simp add: lamb_cache_hget_def example_accounts_def fetch_into_def overwrite_def zeroed_def cstr_def)
  show ?thesis
    using user b has off pw
    by (simp add: ismg_connect_def pack_byte_def snprintf_z_def) (simp add: connect_packet_def)
qed

theorem front_admits_twice_witness:
  "\<exists>F' a. front_run accounts_history 32 (\<lambda>p u w. w = ''pw'') [Fdata 7 (Inr connect_packet) 1000 True, Fdata 8 (Inr connect_packet) 1001 True]
       (front_start\<lparr>fn_open := [7, 8], fn_watched := [7, 8]\<rparr>) = Some F' \<and> fn_children F' = [(7, a), (8, a)]"
proof -
  let ?F = "front_start\<lparr>fn_open := [7, 8], fn_watched := [7, 8]\<rparr>"
  obtain b where b: "ismg_connect example_accounts 32 (\<lambda>p u w. w = ''pw'') 1000 True connect_packet =
      Some \<lparr>lg_answer = Some 0, lg_closed = False, lg_child = Some b\<rparr>" using example_connect by blast
  have "ismg_connect (accounts_history (fn_redis ?F)) 32 (\<lambda>p u w. w = ''pw'') 1000 True connect_packet =
      Some \<lparr>lg_answer = Some 0, lg_closed = False, lg_child = Some b\<rparr>" using b by (simp add: accounts_history_def)
  moreover have "lg_child \<lparr>lg_answer = Some 0, lg_closed = False, lg_child = Some b\<rparr> = Some b" "pk_commandId connect_packet = CMPP_CONNECT"
    by (simp_all add: connect_packet_def)
  ultimately show ?thesis using front_admits_twice [of accounts_history ?F 32 "\<lambda>p u w. w = ''pw''" 1000 connect_packet _ b 7 8 1001]
    by (auto simp: front_start_def)
qed

text \<open>The process of another client has told redis that it is online; then this one logs in.\<close>

theorem front_processes_witness:
  "\<exists>F a W. front_reach accounts_history 32 (\<lambda>p u w. w = ''pw'') F \<and> fn_children F = [(7, a)] \<and> length W = 1 \<and>
     map fst (filter (\<lambda>x. snd x = 0) (fn_answers F)) = [7] \<and>
     admitted (accounts_history W) 32 (\<lambda>p u w. w = ''pw'') 1000 connect_packet a"
proof -
  let ?auth = "\<lambda>(p :: cmpp_pack_t) (u :: string) (w :: string). w = ''pw''"
  obtain b where b: "ismg_connect example_accounts 32 ?auth 1000 True connect_packet =
      Some \<lparr>lg_answer = Some 0, lg_closed = False, lg_child = Some b\<rparr>" using example_connect by blast
  define W where "W = [snd (lamb_state_renewal (accounts_history []) 999 3)]"
  define F0 where "F0 = front_start\<lparr>fn_redis := W\<rparr>"
  define F1 where "F1 = F0\<lparr>fn_open := [7], fn_watched := [7]\<rparr>"
  define F2 where "F2 = F0\<lparr>fn_answers := [(7, 0)], fn_children := [(7, b)], fn_logins := [(1000, connect_packet, W)]\<rparr>"
  have 0: "front_event accounts_history 32 ?auth (Fonline 3 999) front_start = Some F0"
    by (simp add: front_event_def F0_def W_def front_start_def)
  have 1: "front_event accounts_history 32 ?auth (Fconn 7) F0 = Some F1"
    by (simp add: front_event_def F0_def F1_def front_start_def)
  have 2: "front_event accounts_history 32 ?auth (Fdata 7 (Inr connect_packet) 1000 True) F1 = Some F2"
    using b by (simp add: front_event_def ismg_event_def accounts_history_def connect_packet_def F0_def F1_def F2_def front_start_def)
  have "front_reach accounts_history 32 ?auth F0"
    by (rule front_next [OF front_begin _ 0]) (simp add: front_ev_ok_def)
  then have "front_reach accounts_history 32 ?auth F1"
    by (rule front_next [OF _ _ 1]) (simp add: front_ev_ok_def F0_def front_start_def)
  then have reach: "front_reach accounts_history 32 ?auth F2"
    by (rule front_next [OF _ _ 2]) (simp add: front_ev_ok_def F1_def)
  from front_processes [OF this] this show ?thesis
    by (intro exI [of _ F2] exI [of _ b] exI [of _ W]) (simp add: F2_def F0_def W_def)
qed

end
