(* ===== verification/Daemon.thy ===== *)
theory Daemon
  imports Console
begin

text \<open>
  The daemon (\<open>src/src/daemon.c\<close>), which starts the programs the console puts into the table
  \<open>taskqueue\<close>. A turn of its loop reads the database and gives the list of its effects. The
  configuration is read as the theory \<open>Config\<close> says, with \<open>daemon_config\<close>.
\<close>

subsection \<open>The operations\<close>

record lamb_task_t =
  tk_id :: int
  tk_eid :: int
  tk_mod :: string
  tk_config :: string
  tk_argv :: string

definition task_select :: string where
  "task_select = ''SELECT * FROM taskqueue ORDER BY create_time DESC LIMIT 1''"

text \<open>The id is a \<open>long long\<close>, which always fits into the 128 bytes of the command.\<close>

definition task_delete :: "int \<Rightarrow> string" where
  "task_delete i = ''DELETE FROM taskqueue WHERE id = '' @ show_int i"

text \<open>\<open>query\<close> gives the rows of a query, \<open>None\<close> when it fails; the task is cleared before.\<close>

definition lamb_fetch_taskqueue :: "(string \<Rightarrow> string list list option) \<Rightarrow> lamb_task_t option" where
  "lamb_fetch_taskqueue query =
     (case query task_select of
        Some (row # _) \<Rightarrow> Some \<lparr>tk_id = atoi (PQgetvalue row 0), tk_eid = atoi (PQgetvalue row 1),
          tk_mod = strncpy_z 254 (PQgetvalue row 2), tk_config = strncpy_z 254 (PQgetvalue row 3),
          tk_argv = strncpy_z 254 (PQgetvalue row 4)\<rparr>
      | _ \<Rightarrow> None)"

definition lamb_del_taskqueue :: "int \<Rightarrow> effect list" where
  "lamb_del_taskqueue i = [Sql (task_delete i)]"

definition lamb_start_program :: "lamb_config_t \<Rightarrow> lamb_task_t \<Rightarrow> effect list" where
  "lamb_start_program cfg task =
     (let prog = snprintf_z 128 (conf_str cfg ''module'' @ ''/'' @ tk_mod task);
          conf = snprintf_z 128 (conf_str cfg ''config'' @ ''/'' @ tk_config task)
      in if 0 < length (tk_argv task)
         then [System (snprintf_z 512 (prog @ '' -a '' @ show_int (tk_eid task) @ '' -c '' @ conf @ '' '' @ tk_argv task))]
         else [System (snprintf_z 512 (prog @ '' -a '' @ show_int (tk_eid task) @ '' -c '' @ conf))])"

text \<open>One turn of the master control loop.\<close>

definition daemon_turn :: "lamb_config_t \<Rightarrow> (string \<Rightarrow> string list list option) \<Rightarrow> effect list" where
  "daemon_turn cfg query =
     Sql task_select # (case lamb_fetch_taskqueue query of
        None \<Rightarrow> []
      | Some task \<Rightarrow> lamb_start_program cfg task @ lamb_del_taskqueue (tk_id task))"

definition daemon_component_initialization :: "bool \<Rightarrow> (string \<Rightarrow> bool) \<Rightarrow> lamb_config_t \<Rightarrow> int" where
  "daemon_component_initialization mem up cfg =
     (if \<not> mem then -1
      else if lamb_db_connect up (conf_str cfg ''db_host'') (c_int cfg ''db_port'') (conf_str cfg ''db_user'')
                (conf_str cfg ''db_password'') (conf_str cfg ''db_name'') \<noteq> 0 then -1 else 0)"

subsection \<open>The loop on a database\<close>

text \<open>
  A database is what it answers after the commands it was given. The loop of \<open>n\<close> turns adds its
  commands to them and gives its effects.
\<close>

type_synonym database = "string list \<Rightarrow> string \<Rightarrow> string list list option"

fun sql_of :: "effect list \<Rightarrow> string list" where
  "sql_of [] = []"
| "sql_of (Sql c # es) = c # sql_of es"
| "sql_of (Redis c # es) = sql_of es"
| "sql_of (System c # es) = sql_of es"
| "sql_of (Print c # es) = sql_of es"

fun system_of :: "effect list \<Rightarrow> string list" where
  "system_of [] = []"
| "system_of (System c # es) = c # system_of es"
| "system_of (Sql c # es) = system_of es"
| "system_of (Redis c # es) = system_of es"
| "system_of (Print c # es) = system_of es"

fun daemon_run :: "lamb_config_t \<Rightarrow> database \<Rightarrow> nat \<Rightarrow> string list \<Rightarrow> effect list" where
  "daemon_run cfg R 0 W = []"
| "daemon_run cfg R (Suc n) W =
     (let out = daemon_turn cfg (R W) in out @ daemon_run cfg R n (W @ sql_of out))"

lemma sql_of_append [simp]: "sql_of (a @ b) = sql_of a @ sql_of b"
  by (induction a rule: sql_of.induct) simp_all

lemma system_of_append [simp]: "system_of (a @ b) = system_of a @ system_of b"
  by (induction a rule: system_of.induct) simp_all

text \<open>
  What the database promises of the table: \<open>T\<close> gives its rows, newest first, which the query
  reads; a query changes nothing; a deletion removes the row of that id; and an insertion of the
  console (which fits into its buffer) adds a newest row.
\<close>

definition task_row :: "lamb_task_t \<Rightarrow> string list" where
  "task_row t = [show_int (tk_id t), show_int (tk_eid t), tk_mod t, tk_config t, tk_argv t]"

definition task_insert :: "int \<Rightarrow> string \<Rightarrow> string" where
  "task_insert eid md =
     ''INSERT INTO taskqueue(eid, mod, config, argv, create_time) VALUES('' @ show_int eid
       @ '', '' @ quoted md @ '', '' @ quoted (md @ ''.conf'') @ '', '' @ quoted ''-d'' @ '', now())''"

definition inserted :: "int \<Rightarrow> string \<Rightarrow> lamb_task_t \<Rightarrow> bool" where
  "inserted eid md t \<longleftrightarrow>
     tk_eid t = eid \<and> tk_mod t = md \<and> tk_config t = md @ ''.conf'' \<and> tk_argv t = ''-d''"

definition task_table :: "database \<Rightarrow> (string list \<Rightarrow> lamb_task_t list) \<Rightarrow> bool" where
  "task_table R T \<longleftrightarrow>
     (\<forall>W. distinct (map tk_id (T W))) \<and>
     (\<forall>W. R W task_select = Some (take 1 (map task_row (T W)))) \<and>
     (\<forall>W. T (W @ [task_select]) = T W) \<and>
     (\<forall>W i. T (W @ [task_delete i]) = filter (\<lambda>t. tk_id t \<noteq> i) (T W)) \<and>
     (\<forall>W eid md. md \<in> {''server'', ''sp''} \<longrightarrow>
        (\<exists>t. inserted eid md t \<and> T (W @ [task_insert eid md]) = t # T W))"

lemma task_tableD:
  assumes "task_table R T"
  shows "distinct (map tk_id (T W))" and "R W task_select = Some (take 1 (map task_row (T W)))"
    and "T (W @ [task_select]) = T W" and "T (W @ [task_delete i]) = filter (\<lambda>t. tk_id t \<noteq> i) (T W)"
    and "md \<in> {''server'', ''sp''} \<Longrightarrow> \<exists>t. inserted eid md t \<and> T (W @ [task_insert eid md]) = t # T W"
  using assms unfolding task_table_def by blast+

subsection \<open>Every task is system_of\<close>

text \<open>The task as the daemon has it in its buffers, and the program it runs for it.\<close>

definition fetched :: "lamb_task_t \<Rightarrow> lamb_task_t" where
  "fetched t = t\<lparr>tk_mod := strncpy_z 254 (tk_mod t), tk_config := strncpy_z 254 (tk_config t),
     tk_argv := strncpy_z 254 (tk_argv t)\<rparr>"

definition start_command :: "lamb_config_t \<Rightarrow> lamb_task_t \<Rightarrow> string" where
  "start_command cfg t = concat (system_of (lamb_start_program cfg (fetched t)))"

lemma start_program: "lamb_start_program cfg (fetched t) = [System (start_command cfg t)]"
  by (simp add: start_command_def lamb_start_program_def Let_def)

lemma tk_id_fetched [simp]: "tk_id (fetched t) = tk_id t"
  by (simp add: fetched_def)

lemma fetch_table:
  assumes "task_table R T"
  shows "lamb_fetch_taskqueue (R W) = (case T W of [] \<Rightarrow> None | t # ts \<Rightarrow> Some (fetched t))"
  using task_tableD(2) [OF assms, of W]
  by (cases "T W") (simp_all add: lamb_fetch_taskqueue_def task_row_def fetched_def PQgetvalue_def atoi_show_int_all)

lemma daemon_turn_table:
  assumes "task_table R T"
  shows "system_of (daemon_turn cfg (R W)) = map (start_command cfg) (take 1 (T W))"
    and "T (W @ sql_of (daemon_turn cfg (R W))) = drop 1 (T W)"
proof -
  note turn = daemon_turn_def fetch_table [OF assms] start_program lamb_del_taskqueue_def
  show "system_of (daemon_turn cfg (R W)) = map (start_command cfg) (take 1 (T W))"
    by (cases "T W") (simp_all add: turn)
  show "T (W @ sql_of (daemon_turn cfg (R W))) = drop 1 (T W)"
  proof (cases "T W")
    case Nil
    then show ?thesis using task_tableD(3) [OF assms] by (simp add: turn)
  next
    case (Cons t ts)
    then have fresh: "tk_id t \<notin> set (map tk_id ts)" using task_tableD(1) [OF assms, of W] by simp
    have "W @ sql_of (daemon_turn cfg (R W)) = (W @ [task_select]) @ [task_delete (tk_id t)]"
      using Cons by (simp add: turn)
    then have "T (W @ sql_of (daemon_turn cfg (R W))) = T ((W @ [task_select]) @ [task_delete (tk_id t)])"
      by (rule arg_cong)
    also have "\<dots> = filter (\<lambda>u. tk_id u \<noteq> tk_id t) (t # ts)"
      unfolding task_tableD(4) [OF assms] task_tableD(3) [OF assms] Cons by (rule refl)
    also have "\<dots> = ts" using fresh by (simp add: filter_id_conv) (metis image_eqI)
    finally show ?thesis using Cons by simp
  qed
qed

lemma daemon_run_table:
  assumes "task_table R T"
  shows "system_of (daemon_run cfg R n W) = map (start_command cfg) (take n (T W)) \<and>
    T (W @ sql_of (daemon_run cfg R n W)) = drop n (T W)"
proof (induction n arbitrary: W)
  case 0
  then show ?case by simp
next
  case (Suc n)
  let ?W = "W @ sql_of (daemon_turn cfg (R W))"
  have turn: "T ?W = drop 1 (T W)"
    "system_of (daemon_turn cfg (R W)) = map (start_command cfg) (take 1 (T W))"
    by (rule daemon_turn_table [OF assms])+
  have run: "daemon_run cfg R (Suc n) W = daemon_turn cfg (R W) @ daemon_run cfg R n ?W" by (simp add: Let_def)
  have take: "take (Suc n) (T W) = take 1 (T W) @ take n (drop 1 (T W))" using take_add [of 1 n "T W"] by simp
  have drop: "drop (Suc n) (T W) = drop n (drop 1 (T W))" by simp
  have IH: "system_of (daemon_run cfg R n ?W) = map (start_command cfg) (take n (T ?W))"
    "T (?W @ sql_of (daemon_run cfg R n ?W)) = drop n (T ?W)" using Suc [of ?W] by blast+
  show ?case
    unfolding run system_of_append turn IH(1) take map_append sql_of_append append_assoc [symmetric] IH(2) drop
    by (rule conjI [OF refl refl])
qed

text \<open>
  C33: The daemon starts each queued program exactly once, the newest first, one per turn: after
  \<open>n\<close> turns it has run the commands of the first \<open>n\<close> rows, in the order of the table, and
  exactly the others are left.
\<close>

theorem daemon_starts_each_once:
  assumes "task_table R T"
  shows "system_of (daemon_run cfg R n W) = map (start_command cfg) (take n (T W)) \<and>
     T (W @ sql_of (daemon_run cfg R n W)) = drop n (T W)"
  using daemon_run_table [OF assms] by blast

subsection \<open>A database\<close>

text \<open>An instance of the database: the rows, after the number of insertions so far.\<close>

definition unquote :: "string \<Rightarrow> string" where
  "unquote s = takeWhile (\<lambda>c. c \<noteq> CHR 0x27) (tl (dropWhile (\<lambda>c. c \<noteq> CHR 0x27) s))"

definition table_apply :: "string \<Rightarrow> nat \<times> lamb_task_t list \<Rightarrow> nat \<times> lamb_task_t list" where
  "table_apply c s =
     (if take 66 c = ''INSERT INTO taskqueue(eid, mod, config, argv, create_time) VALUES('' then
        (Suc (fst s), \<lparr>tk_id = int (Suc (fst s)), tk_eid = atoi (drop 66 c), tk_mod = unquote c,
           tk_config = unquote c @ ''.conf'', tk_argv = ''-d''\<rparr> # snd s)
      else if take 33 c = ''DELETE FROM taskqueue WHERE id = '' then
        (fst s, filter (\<lambda>t. tk_id t \<noteq> atoi (drop 33 c)) (snd s))
      else s)"

definition table_state :: "string list \<Rightarrow> nat \<times> lamb_task_t list" where
  "table_state W = fold table_apply W (0, [])"

definition table_rows :: "string list \<Rightarrow> lamb_task_t list" where
  "table_rows W = snd (table_state W)"

definition table_db :: database where
  "table_db W c = (if c = task_select then Some (take 1 (map task_row (table_rows W))) else None)"

lemma table_state_snoc: "table_state (W @ [c]) = table_apply c (table_state W)"
  by (simp add: table_state_def)

lemma table_distinct: "distinct (map tk_id (table_rows W)) \<and> (\<forall>t \<in> set (table_rows W). tk_id t \<le> int (fst (table_state W)))"
proof (induction W rule: rev_induct)
  case Nil
  then show ?case by (simp add: table_rows_def table_state_def)
next
  case (snoc c W)
  then show ?case
    by (force simp: table_rows_def table_state_snoc table_apply_def distinct_map inj_on_def)
qed

lemma atoi_show_int_append:
  assumes "\<not> is_digit c"
  shows "atoi (show_int i @ c # s) = i"
proof (cases "i < 0")
  case True
  then show ?thesis using assms
    by (simp add: atoi_def show_int_def is_blank_def takeWhile_show_nat_append)
next
  case False
  obtain d r where dr: "show_nat (nat i) = d # r" by (cases "show_nat (nat i)") auto
  then have "is_digit d" using show_nat_hd [of "nat i"] by simp
  then have d: "d \<noteq> CHR ''-''" "d \<noteq> CHR ''+''" "\<not> is_blank d" using digit_not_special by blast+
  have "atoi (d # r @ c # s) = digits_val (takeWhile is_digit (d # r @ c # s))"
    using d by (intro atoi_unsigned) simp_all
  also have "takeWhile is_digit (d # r @ c # s) = show_nat (nat i)"
    using takeWhile_show_nat_append [OF assms, of "nat i" s] dr by simp
  finally show ?thesis using False dr digits_val_show_nat [of "nat i"] by (simp add: show_int_def)
qed

lemma no_quote_show_int: "c \<in> set (show_int i) \<Longrightarrow> c \<noteq> CHR 0x27"
  using show_nat_digits [of c "nat (- i)"] show_nat_digits [of c "nat i"]
  by (auto simp: show_int_def is_digit_def split: if_splits)

lemma unquote_insert:
  assumes "md \<in> {''server'', ''sp''}"
  shows "unquote (task_insert eid md) = md"
proof -
  have skip: "dropWhile (\<lambda>c. c \<noteq> CHR 0x27) (show_int eid @ r) = dropWhile (\<lambda>c. c \<noteq> CHR 0x27) r" for r
    using no_quote_show_int by (simp add: dropWhile_append)
  show ?thesis using assms by (auto simp: unquote_def task_insert_def skip quoted_def)
qed

lemma table_db_table: "task_table table_db table_rows"
  unfolding task_table_def
proof (intro conjI allI impI)
  fix W i eid and md :: string
  show "distinct (map tk_id (table_rows W))" using table_distinct by blast
  show "table_db W task_select = Some (take 1 (map task_row (table_rows W)))" by (simp add: table_db_def)
  show "table_rows (W @ [task_select]) = table_rows W"
    by (simp add: table_rows_def table_state_snoc table_apply_def task_select_def)
  show "table_rows (W @ [task_delete i]) = filter (\<lambda>t. tk_id t \<noteq> i) (table_rows W)"
    using atoi_show_int_all [of i]
    by (simp add: table_rows_def table_state_snoc table_apply_def task_delete_def)
  assume md: "md \<in> {''server'', ''sp''}"
  have "atoi (drop 66 (task_insert eid md)) = eid"
    using atoi_show_int_append [of "CHR '',''" eid] by (simp add: task_insert_def is_digit_def)
  moreover have "take 66 (task_insert eid md) = ''INSERT INTO taskqueue(eid, mod, config, argv, create_time) VALUES(''"
    by (simp add: task_insert_def)
  ultimately show "\<exists>t. inserted eid md t \<and> table_rows (W @ [task_insert eid md]) = t # table_rows W"
    using unquote_insert [OF md]
    by (simp add: table_rows_def table_state_snoc table_apply_def inserted_def)
qed

lemma length_show_nat: "n < 10 ^ k \<Longrightarrow> 0 < k \<Longrightarrow> length (show_nat n) \<le> k"
proof (induction k arbitrary: n)
  case 0
  then show ?case by simp
next
  case (Suc k)
  then show ?case
  proof (cases "n < 10")
    case True
    then show ?thesis by (simp add: show_nat.simps)
  next
    case False
    then have "0 < k" using Suc.prems by (cases k) simp_all
    moreover have "n div 10 < 10 ^ k" using Suc.prems by (simp add: div_less_iff_less_mult)
    ultimately show ?thesis using Suc.IH [of "n div 10"] False by (simp add: show_nat.simps [of n])
  qed
qed

lemma length_show_int: "\<bar>N\<bar> < 2 ^ 31 \<Longrightarrow> length (show_int N) \<le> 11"
proof -
  assume "\<bar>N\<bar> < 2 ^ 31"
  then have "nat (- N) < 10 ^ 10" "nat N < 10 ^ 10" by auto
  then show ?thesis using length_show_nat [of "nat (- N)" 10] length_show_nat [of "nat N" 10]
    by (simp add: show_int_def)
qed

subsection \<open>From the console to the program\<close>

lemma start_inserts:
  assumes "\<bar>N\<bar> < 2 ^ 31"
  shows "sql_of (lamb_start_server exec (''start server '' @ show_int N)) = [task_insert N ''server'']"
    and "sql_of (lamb_start_channel exec (''start channel '' @ show_int N)) = [task_insert N ''sp'']"
proof -
  note fits = add_taskqueue_fits [OF length_show_int [OF assms]]
  have "snd (lamb_add_taskqueue exec N ''server'' ''server.conf'' ''-d'') = [Sql (task_insert N ''server'')]"
    and "snd (lamb_add_taskqueue exec N ''sp'' ''sp.conf'' ''-d'') = [Sql (task_insert N ''sp'')]"
    using fits [of "''server''" "''server.conf''" exec] fits [of "''sp''" "''sp.conf''" exec]
    by (simp_all add: task_insert_def)
  then show "sql_of (lamb_start_server exec (''start server '' @ show_int N)) = [task_insert N ''server'']"
    and "sql_of (lamb_start_channel exec (''start channel '' @ show_int N)) = [task_insert N ''sp'']"
    using opt_parsing_number [of "''start server''" N] opt_parsing_number [of "''start channel''" N]
    by (simp_all add: lamb_start_server_def lamb_start_channel_def atoi_show_int_all case_prod_unfold)
qed

definition program_command :: "lamb_config_t \<Rightarrow> string \<Rightarrow> int \<Rightarrow> string" where
  "program_command cfg md N =
     snprintf_z 512 (snprintf_z 128 (conf_str cfg ''module'' @ ''/'' @ md) @ '' -a '' @ show_int N @ '' -c ''
       @ snprintf_z 128 (conf_str cfg ''config'' @ ''/'' @ md @ ''.conf'') @ '' -d'')"

lemma inserted_command: "inserted N md t \<Longrightarrow> md \<in> {''server'', ''sp''} \<Longrightarrow> start_command cfg t = program_command cfg md N"
  by (auto simp: inserted_def start_command_def lamb_start_program_def fetched_def program_command_def Let_def)

lemma insert_then_run:
  assumes "task_table R T" and "md \<in> {''server'', ''sp''}"
  shows "system_of (daemon_run cfg R (Suc n) (W @ [task_insert N md])) =
     program_command cfg md N # map (start_command cfg) (take n (T W))"
proof -
  obtain t where t: "inserted N md t" "T (W @ [task_insert N md]) = t # T W"
    using task_tableD(5) [OF assms] by blast
  then show ?thesis
    using daemon_run_table [OF assms(1), where cfg = cfg and n = "Suc n" and W = "W @ [task_insert N md]"] inserted_command [OF t(1) assms(2)]
    by (simp del: daemon_run.simps)
qed

text \<open>
  What the console is told to start is started: after \<open>start server N\<close> (or \<open>start channel N\<close>)
  the next turn of the daemon runs the program \<open>server\<close> (or \<open>sp\<close>) of the module directory with the
  number \<open>N\<close> and its configuration file, before all that was queued earlier, and the later turns
  run that, and do not start \<open>N\<close> again.
\<close>

theorem console_starts_programs:
  assumes "task_table R T" and "\<bar>N\<bar> < 2 ^ 31"
  shows "system_of (daemon_run cfg R (Suc n) (W @ sql_of (lamb_start_server exec (''start server '' @ show_int N)))) =
       program_command cfg ''server'' N # map (start_command cfg) (take n (T W)) \<and>
     system_of (daemon_run cfg R (Suc n) (W @ sql_of (lamb_start_channel exec (''start channel '' @ show_int N)))) =
       program_command cfg ''sp'' N # map (start_command cfg) (take n (T W))"
  unfolding start_inserts [OF assms(2)] using insert_then_run [OF assms(1)] by blast

definition example_daemon :: lamb_config_t where
  "example_daemon = blank_config\<lparr>c_buf := (\<lambda>f. if f = ''module'' then ''/opt/bin'' else ''/etc'')\<rparr>"

lemma example_command:
  "md \<in> {''server'', ''sp''} \<Longrightarrow>
   program_command example_daemon md 7 = ''/opt/bin/'' @ md @ '' -a 7 -c /etc/'' @ md @ ''.conf -d''"
  by (auto simp: program_command_def example_daemon_def conf_str_def cstr_def snprintf_z_def show_int_def
      show_nat.simps digit_char_def)

theorem console_starts_programs_witness:
  "system_of (daemon_run example_daemon table_db (Suc 0)
      ([] @ sql_of (lamb_start_server (\<lambda>c. True) (''start server '' @ show_int 7)))) =
     [''/opt/bin/server -a 7 -c /etc/server.conf -d'']"
proof -
  have "system_of (daemon_run example_daemon table_db (Suc 0)
      ([] @ sql_of (lamb_start_server (\<lambda>c. True) (''start server '' @ show_int 7)))) =
      program_command example_daemon ''server'' 7 # map (start_command example_daemon) (take 0 (table_rows []))"
    using console_starts_programs [OF table_db_table, where N = 7 and cfg = example_daemon and n = 0 and W = "[]" and exec = "\<lambda>c. True"] by (simp del: daemon_run.simps)
  then show ?thesis by (simp add: example_command)
qed

theorem daemon_starts_each_once_witness:
  "system_of (daemon_run example_daemon table_db 5 [task_insert 7 ''server'', task_insert 7 ''sp'']) =
     [''/opt/bin/sp -a 7 -c /etc/sp.conf -d'', ''/opt/bin/server -a 7 -c /etc/server.conf -d'']"
proof -
  obtain t where t: "inserted 7 ''server'' t" "table_rows ([] @ [task_insert 7 ''server'']) = t # table_rows []"
    using task_tableD(5) [OF table_db_table, of "''server''" 7 "[]"] by blast
  obtain u where u: "inserted 7 ''sp'' u"
    "table_rows ([task_insert 7 ''server''] @ [task_insert 7 ''sp'']) = u # table_rows [task_insert 7 ''server'']"
    using task_tableD(5) [OF table_db_table, of "''sp''" 7 "[task_insert 7 ''server'']"] by blast
  have "table_rows [] = []" by (simp add: table_rows_def table_state_def)
  then have "table_rows [task_insert 7 ''server'', task_insert 7 ''sp''] = [u, t]" using t(2) u(2) by simp
  then show ?thesis
    using daemon_starts_each_once [OF table_db_table, where cfg = example_daemon and n = 5 and W = "[task_insert 7 ''server'', task_insert 7 ''sp'']"]
      inserted_command [OF t(1), of example_daemon] inserted_command [OF u(1), of example_daemon]
    by (simp add: example_command del: daemon_run.simps)
qed

end
