(* ===== verification/Testd.thy ===== *)
theory Testd
  imports Daemon Scheduler Sp
begin

text \<open>
  The test process (\<open>src/src/test.c\<close>): it takes messages from the table \<open>message\<close>, gives each
  to the scheduler for one channel and writes the answer back. The database, the memory and the
  answers received are parameters; a turn of the loop gives its commands and the frames it sends.
\<close>

subsection \<open>The operations\<close>

definition test_select :: string where
  "test_select = ''SELECT * FROM message WHERE status = 0 ORDER BY create_time DESC LIMIT 1''"

text \<open>The channel and the message, in a structure cleared before.\<close>

definition lamb_fetch_message :: "(string \<Rightarrow> string list list option) \<Rightarrow> (int \<times> lamb_submit_t) option" where
  "lamb_fetch_message query =
     (case query test_select of
        Some (row # _) \<Rightarrow>
          (let content = strncpy_z 159 (PQgetvalue row 3)
           in Some (atoi (PQgetvalue row 5),
             \<lparr>ls_id = strtoull (PQgetvalue row 0), ls_account = 0, ls_company = 0, ls_spid = [],
              ls_spcode = strncpy_z 20 (PQgetvalue row 1), ls_phone = strncpy_z 20 (PQgetvalue row 2),
              ls_msgfmt = 0, ls_length = int (length content),
              ls_content = content @ zeroed (160 - length content)\<rparr>))
      | _ \<Rightarrow> None)"

definition lamb_check_response :: "bytes option \<Rightarrow> int" where
  "lamb_check_response reply =
     (case classify reply of
        Short \<Rightarrow> -1
      | Frame c body \<Rightarrow> (if c = LAMB_OK then 1 else if c = LAMB_NOROUTE then 2 else -1))"

definition test_update :: "u64 \<Rightarrow> int \<Rightarrow> string" where
  "test_update i status =
     snprintf_z 128 (''UPDATE message SET status = '' @ show_int status @ '' WHERE id = '' @ show_nat (unat i))"

definition lamb_update_message :: "u64 \<Rightarrow> int \<Rightarrow> effect list" where
  "lamb_update_message i status = [Sql (test_update i status)]"

text \<open>The fields the loop sets; the others keep what \<open>MESSAGE__INIT\<close> gives them.\<close>

definition test_message :: "int \<Rightarrow> lamb_submit_t \<Rightarrow> Message" where
  "test_message channel submit =
     \<lparr>mg_id = ls_id submit, mg_spid = [], mg_spcode = ls_spcode submit, mg_phone = ls_phone submit,
      mg_msgfmt = 0, mg_length = ls_length submit, mg_content = take (nat (ls_length submit)) (ls_content submit), mg_channel = channel\<rparr>"

record tturn =
  x_pk :: bool
  x_frame :: bool
  x_reply :: "bytes option"

text \<open>One turn of the master control loop: the database commands and the frames to the scheduler.\<close>

definition testd_turn :: "(Message \<Rightarrow> bytes) \<Rightarrow> (string \<Rightarrow> string list list option) \<Rightarrow> tturn \<Rightarrow> effect list \<times> bytes list" where
  "testd_turn pack query t =
     (case lamb_fetch_message query of
        None \<Rightarrow> ([Sql test_select], [])
      | Some (channel, submit) \<Rightarrow>
          (if \<not> x_pk t then ([Sql test_select], [])
           else case lamb_pack_assembly (x_frame t) LAMB_MESSAGE (Some (pack (test_message channel submit))) of
                  None \<Rightarrow> ([Sql test_select], [])
                | Some buf \<Rightarrow>
                    (Sql test_select # lamb_update_message (ls_id submit) (lamb_check_response (x_reply t)), [buf])))"

definition lamb_nn_testsched :: "nnenv \<Rightarrow> codec \<Rightarrow> string \<Rightarrow> int \<Rightarrow> int \<Rightarrow> nnet \<Rightarrow> int \<times> nnet" where
  "lamb_nn_testsched e c host i timeout s =
     ask_and_connect e c host \<lparr>req_id = i, req_type = LAMB_TEST, req_addr = ''0.0.0.0''\<rparr> NN_PAIR timeout s"

text \<open>The return value, the scheduler's socket and the network.\<close>

definition testd_component_initialization ::
  "bool \<Rightarrow> (string \<Rightarrow> bool) \<Rightarrow> nnenv \<Rightarrow> codec \<Rightarrow> lamb_config_t \<Rightarrow> nnet \<Rightarrow> int \<times> int \<times> nnet" where
  "testd_component_initialization mem up e c cfg s =
     (if \<not> mem then (-1, -1, s)
      else if lamb_db_connect up (conf_str cfg ''db_host'') (c_int cfg ''db_port'') (conf_str cfg ''db_user'')
                (conf_str cfg ''db_password'') (conf_str cfg ''db_name'') \<noteq> 0 then (-1, -1, s)
      else let (fd, s1) = lamb_nn_testsched e c (conf_str cfg ''scheduler'') (c_int cfg ''id'') (c_int cfg ''timeout'') s
           in if fd < 0 then (-1, fd, s1) else (0, fd, s1))"

subsection \<open>A test message through the scheduler\<close>

text \<open>What the scheduler keeps of a row: its own buffer has room for 11 characters of the number.\<close>

definition routed_test :: "string list \<Rightarrow> lamb_submit_t" where
  "routed_test row =
     \<lparr>ls_id = strtoull (PQgetvalue row 0), ls_account = 0, ls_company = 0, ls_spid = [],
      ls_spcode = strncpy_z 20 (PQgetvalue row 1), ls_phone = strncpy_z 11 (PQgetvalue row 2),
      ls_msgfmt = 0, ls_length = int (length (strncpy_z 159 (PQgetvalue row 3))),
      ls_content = strncpy_z 159 (PQgetvalue row 3) @ zeroed (160 - length (strncpy_z 159 (PQgetvalue row 3)))\<rparr>"

lemma strncpy_z_min: "strncpy_z m (strncpy_z n s) = strncpy_z (min m n) s"
  by (simp add: strncpy_z_def)

lemma test_message_stored:
  assumes "lamb_fetch_message query = Some (channel, submit)" and "query test_select = Some (row # rest)"
  shows "message_store (test_message channel submit) = Some (routed_test row)"
proof -
  let ?c = "strncpy_z 159 (PQgetvalue row 3)"
  have "length ?c \<le> 160" using length_strncpy_z [of 159 "PQgetvalue row 3"] by linarith
  then have "memcpy_z 160 ?c = Some (?c @ zeroed (160 - length ?c))" by (simp add: memcpy_z_def)
  then show ?thesis using assms
    by (auto simp: lamb_fetch_message_def test_message_def message_store_def routed_test_def Let_def strncpy_z_min)
qed

text \<open>
  C35: A test message goes to the queue of its channel and to no other: the frame the test process
  sends for the row it reads makes the scheduler append the row's message to the queue of that
  channel, or change nothing when the channel has none, and its answer makes the test process
  write status 1 or 2 accordingly to that row.
\<close>

theorem test_message_routed:
  assumes "query test_select = Some (row # rest)" and "lamb_fetch_message query = Some (channel, submit)"
    and "unpack (pack (test_message channel submit)) = Some (test_message channel submit)" and "rx_ok r"
  shows "\<exists>buf ans.
     testd_turn pack query \<lparr>x_pk = True, x_frame = True, x_reply = Some ans\<rparr> =
       ([Sql test_select, Sql (test_update (strtoull (PQgetvalue row 0))
           (if pool_find (atoi (PQgetvalue row 5)) P = None then 2 else 1))], [buf]) \<and>
     sched_test_loop unpack (r\<lparr>r_buf := Some buf\<rparr>) P =
       Some (case pool_find (atoi (PQgetvalue row 5)) P of
               None \<Rightarrow> P
             | Some k \<Rightarrow> pool_push True k (routed_test row) P, [ans], False)"
proof -
  have c: "channel = atoi (PQgetvalue row 5)" and i: "ls_id submit = strtoull (PQgetvalue row 0)"
    using assms(1,2) by (auto simp: lamb_fetch_message_def Let_def)
  note fetch = assms(2) [unfolded c]
  let ?msg = "test_message (atoi (PQgetvalue row 5)) submit"
  let ?buf = "htonl LAMB_MESSAGE @ pack ?msg"
  have codec: "unpack (pack ?msg) = Some ?msg" using assms(3) c by simp
  let ?cmd = "if pool_find (atoi (PQgetvalue row 5)) P = None then LAMB_NOROUTE else LAMB_OK"
  have store: "message_store ?msg = Some (routed_test row)" by (rule test_message_stored [OF fetch assms(1)])
  have channel: "mg_channel ?msg = atoi (PQgetvalue row 5)" by (simp add: test_message_def)
  have "LAMB_OK \<noteq> LAMB_NOROUTE" by (simp add: commands)
  then have "testd_turn pack query \<lparr>x_pk = True, x_frame = True, x_reply = Some (htonl ?cmd)\<rparr> =
       ([Sql test_select, Sql (test_update (strtoull (PQgetvalue row 0))
           (if pool_find (atoi (PQgetvalue row 5)) P = None then 2 else 1))], [?buf])"
    using fetch i
    by (simp add: testd_turn_def lamb_pack_assembly_def lamb_update_message_def lamb_check_response_def)
  moreover have "sched_test_loop unpack (r\<lparr>r_buf := Some ?buf\<rparr>) P =
       Some (case pool_find (atoi (PQgetvalue row 5)) P of
               None \<Rightarrow> P
             | Some k \<Rightarrow> pool_push True k (routed_test row) P, [htonl ?cmd], False)"
    using assms(4) codec store
    by (simp add: sched_test_loop_def rx_ok_def channel answer_frame_def lamb_pack_assembly_def split: option.splits)
  ultimately show ?thesis by blast
qed

theorem test_message_routed_witness:
  "\<exists>buf ans.
     testd_turn (\<lambda>m. ''m'') (\<lambda>c. Some [[''77'', ''1065'', ''13800000000'', ''hello'', ''5'', ''12'', ''0'', ''now'']])
       \<lparr>x_pk = True, x_frame = True, x_reply = Some ans\<rparr> =
       ([Sql test_select, Sql (test_update 77 2)], [buf])"
proof -
  let ?row = "[''77'', ''1065'', ''13800000000'', ''hello'', ''5'', ''12'', ''0'', ''now'']"
  let ?q = "\<lambda>c. Some [?row]"
  let ?r = "\<lparr>r_buf = None, r_timedout = False, r_conns = 0, r_calloc = True, r_node = True, r_pk = True, r_frame = True\<rparr>"
  obtain channel submit where f: "lamb_fetch_message ?q = Some (channel, submit)"
    by (simp add: lamb_fetch_message_def Let_def)
  have none: "pool_find i empty_pool = None" for i by (simp add: empty_pool_def pool_find_def)
  have "strtoull (PQgetvalue ?row 0) = 77"
    by (simp add: PQgetvalue_def strtoull_def atoi_def is_blank_def digits_val_def digit_val_def is_digit_def)
  then show ?thesis
    using test_message_routed [of ?q ?row "[]" channel submit "\<lambda>b. Some (test_message channel submit)" "\<lambda>m. ''m''"
        ?r empty_pool] f
    unfolding none if_P [OF refl] by (auto simp: rx_ok_def)
qed

end
