(* ===== verification/Startup.thy ===== *)
theory Startup
  imports Daemon Testd Delivery
begin

text \<open>
  How the programs start: the \<open>main\<close> functions of \<open>mt.c\<close>, \<open>mo.c\<close>, \<open>scheduler.c\<close>,
  \<open>delivery.c\<close>, \<open>server.c\<close>, \<open>sp.c\<close>, \<open>ismg.c\<close>, \<open>daemon.c\<close> and \<open>test.c\<close>, the parts of their event
  loops that come before the loop, and \<open>lamb_daemon\<close> of \<open>common.c\<close>. The state is the file system
  with the lock files.
\<close>

subsection \<open>Command line options\<close>

text \<open>
  \<open>getopt\<close> of the C library: \<open>optkind\<close> says of an option letter whether it is known and takes
  an argument; words that are not options are skipped, and \<open>--\<close> ends them. The first argument
  of \<open>getopt\<close> is what is left of the current word. Errors give the letter \<open>?\<close>.
\<close>

fun optkind :: "string \<Rightarrow> char \<Rightarrow> bool option" where
  "optkind [] c = None"
| "optkind (x # xs) c = (if x = c \<and> c \<noteq> CHR '':'' then Some (take 1 xs = '':'') else optkind xs c)"

fun getopt :: "(char \<Rightarrow> bool option) \<Rightarrow> string \<Rightarrow> string list \<Rightarrow> (char \<times> string) list" where
  "getopt k [] [] = []"
| "getopt k [] (w # ws) =
     (if w = ''--'' then []
      else if take 1 w = ''-'' \<and> 1 < length w then getopt k (tl w) ws
      else getopt k [] ws)"
| "getopt k (c # cs) ws =
     (case k c of
        None \<Rightarrow> (CHR ''?'', []) # getopt k cs ws
      | Some False \<Rightarrow> (c, []) # getopt k cs ws
      | Some True \<Rightarrow>
          (if cs \<noteq> [] then (c, cs) # getopt k [] ws
           else case ws of [] \<Rightarrow> [(CHR ''?'', [])] | a # as \<Rightarrow> (c, a) # getopt k [] as))"

record options =
  op_id :: int
  op_file :: string
  op_background :: bool

text \<open>The \<open>switch\<close> over one option.\<close>

definition set_option :: "char \<times> string \<Rightarrow> options \<Rightarrow> options" where
  "set_option arg p =
     (case arg of (c, a) \<Rightarrow>
        if c = CHR ''a'' then p\<lparr>op_id := atoi a\<rparr>
        else if c = CHR ''c'' then p\<lparr>op_file := a\<rparr>
        else if c = CHR ''d'' then p\<lparr>op_background := True\<rparr>
        else p)"

definition read_options :: "string \<Rightarrow> string \<Rightarrow> string list \<Rightarrow> options" where
  "read_options optstring file argv =
     fold set_option (getopt (optkind optstring) [] argv) \<lparr>op_id = 0, op_file = file, op_background = False\<rparr>"

subsection \<open>The background\<close>

datatype syscall = Fork | Exit | Setsid | Umask int | Chdir string | Close int | OpenNull | Dup2 int int

text \<open>
  The system calls of \<open>lamb_daemon\<close> and whether the process that made them goes on. A fork
  gives \<open>None\<close> when it fails, otherwise whether this is the child.
\<close>

definition lamb_daemon :: "bool option \<Rightarrow> bool \<Rightarrow> bool option \<Rightarrow> int \<Rightarrow> int \<Rightarrow> (int \<Rightarrow> int) \<Rightarrow> syscall list \<times> bool" where
  "lamb_daemon fork1 session fork2 open_max null dup =
     (case fork1 of
        None \<Rightarrow> ([Fork], True)
      | Some False \<Rightarrow> ([Fork, Exit], False)
      | Some True \<Rightarrow>
          (if \<not> session then ([Fork, Setsid], True)
           else case fork2 of
             None \<Rightarrow> ([Fork, Setsid, Fork], True)
           | Some False \<Rightarrow> ([Fork, Setsid, Fork, Exit], False)
           | Some True \<Rightarrow>
               (let closing = (if open_max = -1 then map (Close \<circ> int) [0 ..< 8192] else []);
                    start = [Fork, Setsid, Fork, Umask 0, Chdir ''/''] @ closing @ [Close 0, OpenNull]
                in if null \<noteq> 0 then (start, True)
                   else if dup 1 \<noteq> 1 then (start @ [Dup2 0 1], True)
                   else (start @ [Dup2 0 1, Dup2 0 2], True))))"

subsection \<open>The programs\<close>

text \<open>
  What a program depends on: what its reading of a configuration file gives (\<open>None\<close> is the
  return value -1), the descriptor \<open>open\<close> returns for the lock file, the process id, and whether
  the initialization in the event loop succeeds, after which the loop does not end by itself.
\<close>

record world =
  wo_config :: "string \<Rightarrow> lamb_config_t option"
  wo_open :: int
  wo_pid :: int
  wo_init :: "lamb_config_t \<Rightarrow> bool"

type_synonym files = "string \<rightharpoonup> string"

text \<open>
  How a start ends: with the return value -1, with the return value 0 because the event loop
  came back, or in the event loop, holding the lock.
\<close>

datatype start = Refused files | Returned files | Running lamb_lock_t files

definition no_lock :: lamb_lock_t where
  "no_lock = \<lparr>lk_fd = 0, lk_file = None\<rparr>"

text \<open>
  The \<open>main\<close> functions share one shape; they differ in the options, the file read when none is
  given, whether a number is required (\<open>pr_numbered\<close>) and the lock file.
\<close>

record program =
  pr_options :: string
  pr_file :: string
  pr_numbered :: bool
  pr_lock :: "int \<Rightarrow> string"

definition run_main :: "program \<Rightarrow> world \<Rightarrow> string list \<Rightarrow> files \<Rightarrow> start" where
  "run_main p w argv fs =
     (let opts = read_options (pr_options p) (pr_file p) argv
      in if pr_numbered p \<and> op_id opts < 1 then Refused fs
         else case wo_config w (op_file opts) of
           None \<Rightarrow> Refused fs
         | Some cfg \<Rightarrow>
             (let (rc, lock, fs1) = lamb_lock_protection (wo_open w) (pr_lock p (op_id opts)) no_lock fs
              in if rc \<noteq> 0 then Refused fs1
                 else let fs2 = lamb_pid_file lock (wo_pid w) fs1
                 in if wo_init w cfg then Running lock fs2 else Returned (snd (lamb_lock_release lock fs2))))"

definition mt_program :: program where
  "mt_program = \<lparr>pr_options = ''c:d'', pr_file = ''mt.conf'', pr_numbered = False, pr_lock = (\<lambda>i. ''/tmp/mt.lock'')\<rparr>"

definition mo_program :: program where
  "mo_program = \<lparr>pr_options = ''c:d'', pr_file = ''mo.conf'', pr_numbered = False, pr_lock = (\<lambda>i. ''/tmp/mo.lock'')\<rparr>"

definition scheduler_program :: program where
  "scheduler_program = \<lparr>pr_options = ''c:d'', pr_file = ''scheduler.conf'', pr_numbered = False,
     pr_lock = (\<lambda>i. ''/tmp/scheduler.lock'')\<rparr>"

definition delivery_program :: program where
  "delivery_program = \<lparr>pr_options = ''c:d'', pr_file = ''deliver.conf'', pr_numbered = False,
     pr_lock = (\<lambda>i. ''/tmp/delivery.lock'')\<rparr>"

definition daemon_program :: program where
  "daemon_program = \<lparr>pr_options = ''c:d'', pr_file = ''daemon.conf'', pr_numbered = False,
     pr_lock = (\<lambda>i. ''/tmp/daemon.lock'')\<rparr>"

definition test_program :: program where
  "test_program = \<lparr>pr_options = ''c:d'', pr_file = ''test.conf'', pr_numbered = False,
     pr_lock = (\<lambda>i. ''/tmp/testd.lock'')\<rparr>"

definition server_program :: program where
  "server_program = \<lparr>pr_options = ''a:c:d'', pr_file = ''server.conf'', pr_numbered = True,
     pr_lock = (\<lambda>i. snprintf_z 128 (''/tmp/serv-'' @ show_int i @ ''.lock''))\<rparr>"

definition sp_program :: program where
  "sp_program = \<lparr>pr_options = ''a:c:d'', pr_file = ''sp.conf'', pr_numbered = True,
     pr_lock = (\<lambda>i. snprintf_z 128 (''/tmp/gtw-'' @ show_int i @ ''.lock''))\<rparr>"

text \<open>
  \<open>ismg\<close> connects to redis and opens its port between taking the lock and writing its process id,
  and returns at once when that fails.
\<close>

definition ismg_main :: "(lamb_config_t \<Rightarrow> bool) \<Rightarrow> redis \<Rightarrow> bool \<Rightarrow> world \<Rightarrow> string list \<Rightarrow> files \<Rightarrow> start" where
  "ismg_main cmpp_init rds mem w argv fs =
     (let opts = read_options ''c:d'' ''ismg.conf'' argv
      in case wo_config w (op_file opts) of
           None \<Rightarrow> Refused fs
         | Some cfg \<Rightarrow>
             (let (rc, lock, fs1) = lamb_lock_protection (wo_open w) ''/tmp/ismg.lock'' no_lock fs
              in if rc \<noteq> 0 then Refused fs1
                 else if \<not> mem then Refused fs1
                 else if fst (lamb_cache_connect rds ''127.0.0.1'' 6379 None 0) \<noteq> 0 then Refused fs1
                 else if \<not> cmpp_init cfg then Refused fs1
                 else Running lock (lamb_pid_file lock (wo_pid w) fs1)))"

subsection \<open>What comes before the loops\<close>

text \<open>
  The initialization in the event loops of \<open>mt\<close> and \<open>mo\<close>, of the scheduler and of the delivery
  process: the socket for requests, when all succeeded, and the network.
\<close>

definition open_rep :: "nnenv \<Rightarrow> lamb_config_t \<Rightarrow> nnet \<Rightarrow> int option \<times> nnet" where
  "open_rep e cfg s =
     (let (fd, s1) = nn_socket e NN_REP s
      in if fd < 0 then (None, s1)
         else let addr = snprintf_z 128 (''tcp://'' @ conf_str cfg ''listen'' @ '':'' @ show_int (c_int cfg ''port''))
              in if e_bind e (ntick s1) fd addr < 0 then (None, nn_close fd (tick s1)) else (Some fd, tick s1))"

definition mt_start :: "init_env \<Rightarrow> lamb_config_t \<Rightarrow> nnet \<Rightarrow> int option \<times> nnet" where
  "mt_start n cfg s =
     (if \<not> in_list n 0 \<or> \<not> in_structs n then (None, s)
      else if fst (lamb_cache_connect (in_redis n) (conf_str cfg ''redis_host'') (c_int cfg ''redis_port'')
                     None (c_int cfg ''redis_db'')) \<noteq> 0 then (None, s)
      else open_rep (in_nn n) cfg s)"

definition mo_start :: "init_env \<Rightarrow> lamb_config_t \<Rightarrow> nnet \<Rightarrow> int option \<times> nnet" where
  "mo_start n cfg s =
     (if \<not> in_list n 0 then (None, s)
      else if \<not> in_structs n then (None, s)
      else if fst (lamb_cache_connect (in_redis n) (conf_str cfg ''redis_host'') (c_int cfg ''redis_port'')
                     None (c_int cfg ''redis_db'')) \<noteq> 0 then (None, s)
      else open_rep (in_nn n) cfg s)"

definition scheduler_start :: "init_env \<Rightarrow> lamb_config_t \<Rightarrow> nnet \<Rightarrow> int option \<times> nnet" where
  "scheduler_start n cfg s =
     (if \<not> in_list n 0 then (None, s)
      else if lamb_db_connect (in_up n) (conf_str cfg ''db_host'') (c_int cfg ''db_port'') (conf_str cfg ''db_user'')
                (conf_str cfg ''db_password'') (conf_str cfg ''db_name'') \<noteq> 0 then (None, s)
      else lamb_nn_server (in_nn n) (conf_str cfg ''listen'') (word_of_int (c_int cfg ''port'')) NN_REP s)"

text \<open>Without memory for its redis structure the delivery process goes on without redis.\<close>

definition delivery_start :: "init_env \<Rightarrow> lamb_config_t \<Rightarrow> nnet \<Rightarrow> (int \<times> lamb_delivery_t list) option \<times> nnet" where
  "delivery_start n cfg s =
     (if \<not> in_list n 0 \<or> \<not> in_list n 1 \<or> \<not> in_list n 2 then (None, s)
      else if in_structs n \<and>
              fst (lamb_cache_connect (in_redis n) (conf_str cfg ''redis_host'') (c_int cfg ''redis_port'')
                     None (c_int cfg ''redis_db'')) \<noteq> 0 then (None, s)
      else if lamb_db_connect (in_up n) (conf_str cfg ''db_host'') (c_int cfg ''db_port'') (conf_str cfg ''db_user'')
                (conf_str cfg ''db_password'') (conf_str cfg ''db_name'') \<noteq> 0 then (None, s)
      else if lamb_db_connect (in_up n) (conf_str cfg ''msg_host'') (c_int cfg ''msg_port'') (conf_str cfg ''msg_user'')
                (conf_str cfg ''msg_password'') (conf_str cfg ''msg_name'') \<noteq> 0 then (None, s)
      else let (err, routes) = lamb_get_delivery (in_pg n)
      in if err \<noteq> 0 then (None, s)
         else (case open_rep (in_nn n) cfg s of (fd, s1) \<Rightarrow> (map_option (\<lambda>x. (x, routes)) fd, s1)))"

subsection \<open>One instance\<close>

definition given_id :: "program \<Rightarrow> string list \<Rightarrow> int" where
  "given_id p argv = op_id (read_options (pr_options p) (pr_file p) argv)"

lemma run_main_Running:
  assumes "run_main p w argv fs = Running l fs'"
  shows "fs (pr_lock p (given_id p argv)) = None"
    and "l = \<lparr>lk_fd = wo_open w, lk_file = Some (pr_lock p (given_id p argv))\<rparr>"
    and "fs' = fs(pr_lock p (given_id p argv) \<mapsto> snprintf_z 16 (show_int (wo_pid w)))"
  using assms
  by (auto simp: run_main_def given_id_def lamb_lock_protection_def lamb_pid_file_def no_lock_def Let_def
      split: option.splits if_splits)

lemma run_main_locked:
  assumes "fs (pr_lock p (given_id p argv)) \<noteq> None"
  shows "run_main p w argv fs = Refused fs"
  using assms by (auto simp: run_main_def given_id_def lamb_lock_protection_def Let_def split: option.splits)

lemma status_of_pid:
  assumes "\<bar>i\<bar> < 2 ^ 31" and "fs lock = Some (snprintf_z 16 (show_int i))"
  shows "lamb_check_status alive fs lock = (i, if alive i then 1 else 0)"
proof -
  have len: "length (show_int i) \<le> 11" by (rule length_show_int [OF assms(1)])
  have digits: "c \<noteq> NUL \<and> c \<noteq> CHR 0x0A" if "c \<in> set (show_int i)" for c
    using that show_nat_digits [of c "nat (- i)"] show_nat_digits [of c "nat i"]
    by (auto simp: show_int_def is_digit_def split: if_splits)
  have content: "snprintf_z 16 (show_int i) = show_int i" using len by (simp add: snprintf_z_def)
  have read: "cstr (take 14 (takeWhile (\<lambda>c. c \<noteq> CHR 0x0A) (show_int i))) = show_int i"
  proof -
    have "takeWhile (\<lambda>c. c \<noteq> CHR 0x0A) (show_int i) = show_int i" using digits by (simp add: takeWhile_eq_all_conv)
    moreover have "take 14 (show_int i) = show_int i" using len by simp
    moreover have "cstr (show_int i) = show_int i" using digits by (simp add: cstr_def takeWhile_eq_all_conv)
    ultimately show ?thesis by (simp only:)
  qed
  have "show_int i \<noteq> []" using plain_show_int [of i] by (simp add: plain_word_def)
  then show ?thesis
    unfolding lamb_check_status_def assms(2) content option.case read Let_def atoi_show_int_all by simp
qed

text \<open>
  C34: A program runs once: while an instance is in its event loop every other start of it, for
  the same number if it takes one, is refused and changes nothing; the console shows the process
  id of the running one; and releasing the lock leaves the files as they were before the start.
\<close>

theorem one_instance:
  assumes "run_main p w argv fs = Running l fs'" and "given_id p argv2 = given_id p argv"
    and "0 \<le> wo_open w" and "\<bar>wo_pid w\<bar> < 2 ^ 31"
  shows "run_main p w2 argv2 fs' = Refused fs' \<and>
     lamb_check_status alive fs' (pr_lock p (given_id p argv)) = (wo_pid w, if alive (wo_pid w) then 1 else 0) \<and>
     snd (lamb_lock_release l fs') = fs"
proof (intro conjI)
  note run = run_main_Running [OF assms(1)]
  show "run_main p w2 argv2 fs' = Refused fs'"
    by (rule run_main_locked) (simp add: run(3) assms(2))
  show "lamb_check_status alive fs' (pr_lock p (given_id p argv)) = (wo_pid w, if alive (wo_pid w) then 1 else 0)"
    by (rule status_of_pid [OF assms(4)]) (simp add: run(3))
  show "snd (lamb_lock_release l fs') = fs"
    using assms(3) run(1) by (simp add: lamb_lock_release_def run(2,3) fun_upd_idem)
qed


text \<open>
  A front end whose start fails after it took the lock blocks itself: it leaves an empty lock
  file behind, for which the console shows no process, and no later start succeeds.
\<close>

theorem ismg_failed_start_blocks:
  assumes "wo_config w (op_file (read_options ''c:d'' ''ismg.conf'' argv)) = Some cfg" and "fs ''/tmp/ismg.lock'' = None"
    and "wo_open w \<noteq> -1" and "\<not> rd_connect rds ''127.0.0.1'' 6379"
  shows "\<exists>fs'. ismg_main cmpp rds mem w argv fs = Refused fs' \<and>
     lamb_check_status alive fs' ''/tmp/ismg.lock'' = (0, 0) \<and>
     ismg_main cmpp2 rds2 mem2 w2 argv2 fs' = Refused fs'"
proof -
  have "ismg_main cmpp rds mem w argv fs = Refused (fs(''/tmp/ismg.lock'' \<mapsto> []))"
    using assms by (simp add: ismg_main_def lamb_lock_protection_def lamb_cache_connect_def Let_def)
  moreover have "ismg_main cmpp2 rds2 mem2 w2 argv2 (fs(''/tmp/ismg.lock'' \<mapsto> [])) = Refused (fs(''/tmp/ismg.lock'' \<mapsto> []))"
    by (simp add: ismg_main_def lamb_lock_protection_def Let_def split: option.splits)
  moreover have "lamb_check_status alive (fs(''/tmp/ismg.lock'' \<mapsto> [])) ''/tmp/ismg.lock'' = (0, 0)"
    by (simp add: lamb_check_status_def)
  ultimately show ?thesis by blast
qed

subsection \<open>From the console to the running program\<close>

text \<open>The words of a command without quotes and other characters special to the shell.\<close>

definition shell_words :: "string \<Rightarrow> string list" where
  "shell_words cmd = strtok_all (CHR '' '') cmd"

lemma shell_words_command:
  assumes "plain_word (conf_str cfg ''module'')" and "plain_word (conf_str cfg ''config'')" and "\<bar>N\<bar> < 2 ^ 31"
    and "length (conf_str cfg ''module'') \<le> 100" and "length (conf_str cfg ''config'') \<le> 100" and "md \<in> {''server'', ''sp''}"
  shows "shell_words (program_command cfg md N) =
     [conf_str cfg ''module'' @ ''/'' @ md, ''-a'', show_int N, ''-c'', conf_str cfg ''config'' @ ''/'' @ md @ ''.conf'', ''-d'']"
proof -
  let ?m = "conf_str cfg ''module'' @ ''/'' @ md" and ?c = "conf_str cfg ''config'' @ ''/'' @ md @ ''.conf''"
  let ?ws = "[?m, ''-a'', show_int N, ''-c'', ?c, ''-d'']"
  have md: "length md \<le> 6" "CHR '' '' \<notin> set md" using assms(6) by auto
  have fits: "snprintf_z 128 ?m = ?m" "snprintf_z 128 ?c = ?c" using assms(4,5) md by (simp_all add: snprintf_z_def)
  have "length (?m @ '' -a '' @ show_int N @ '' -c '' @ ?c @ '' -d'') \<le> 511"
    using assms(4,5) md length_show_int [OF assms(3)] by simp
  then have cmd: "program_command cfg md N = ?m @ '' -a '' @ show_int N @ '' -c '' @ ?c @ '' -d''"
    using fits by (simp add: program_command_def snprintf_z_def)
  have plain: "\<forall>w \<in> set ?ws. plain_word w"
    using assms(1,2) md plain_show_int [of N] by (auto simp: plain_word_def)
  then have "strtok_all (CHR '' '') (spaced ?ws) = ?ws" by (rule strtok_spaced)
  moreover have "spaced ?ws = CHR '' '' # program_command cfg md N" by (simp add: cmd spaced_def)
  moreover have "strtok_all (CHR '' '') (CHR '' '' # s) = strtok_all (CHR '' '') s" for s
    by (subst (1 2) strtok_all.simps) simp
  ultimately show ?thesis by (simp add: shell_words_def)
qed

lemma command_options:
  assumes "0 < N"
  shows "read_options ''a:c:d'' file [''-a'', show_int N, ''-c'', conf, ''-d''] =
     \<lparr>op_id = N, op_file = conf, op_background = True\<rparr>"
  by (simp add: read_options_def set_option_def atoi_show_int_all)

lemma lock_fits: "\<bar>N\<bar> < 2 ^ 31 \<Longrightarrow> snprintf_z 128 (''/tmp/serv-'' @ show_int N @ ''.lock'') = ''/tmp/serv-'' @ show_int N @ ''.lock''"
  using length_show_int [of N] by (simp add: snprintf_z_def)

text \<open>
  C31: A server is started from the console: after \<open>start server N\<close> the next turn of the daemon runs
  a command; the program \<open>server\<close> that is called with the words of that command reads its
  configuration from the directory of the daemon's configuration, comes to its event loop with the
  lock file of number \<open>N\<close>, and the console then shows its process id for server \<open>N\<close>.
\<close>

theorem console_start_runs:
  assumes "task_table R T" and "0 < N" and "N < 2 ^ 31"
    and "plain_word (conf_str cfg ''module'')" and "plain_word (conf_str cfg ''config'')"
    and "length (conf_str cfg ''module'') \<le> 100" and "length (conf_str cfg ''config'') \<le> 100"
    and "wo_config w (conf_str cfg ''config'' @ ''/server.conf'') = Some scfg" and "wo_init w scfg"
    and "fs (''/tmp/serv-'' @ show_int N @ ''.lock'') = None" and "0 \<le> wo_open w" and "\<bar>wo_pid w\<bar> < 2 ^ 31"
  shows "\<exists>cmd l fs'.
     system_of (daemon_run cfg R 1 (W @ sql_of (lamb_start_server exec (''start server '' @ show_int N)))) = [cmd] \<and>
     run_main server_program w (tl (shell_words cmd)) fs = Running l fs' \<and>
     lamb_check_server alive fs' N = (wo_pid w, if alive (wo_pid w) then 1 else 0)"
proof -
  have N: "\<bar>N\<bar> < 2 ^ 31" using assms(2,3) by simp
  let ?cmd = "program_command cfg ''server'' N"
  have one: "system_of (daemon_run cfg R 1 (W @ sql_of (lamb_start_server exec (''start server '' @ show_int N)))) = [?cmd]"
    using insert_then_run [OF assms(1), of "''server''" cfg 0 W N] start_inserts(1) [OF N] by simp
  have words: "tl (shell_words ?cmd) = [''-a'', show_int N, ''-c'', conf_str cfg ''config'' @ ''/server.conf'', ''-d'']"
    using shell_words_command [OF assms(4,5) N assms(6,7)] by simp
  have opts: "read_options ''a:c:d'' ''server.conf'' (tl (shell_words ?cmd)) =
      \<lparr>op_id = N, op_file = conf_str cfg ''config'' @ ''/server.conf'', op_background = True\<rparr>"
    unfolding words by (rule command_options [OF assms(2)])
  have lock: "pr_lock server_program N = ''/tmp/serv-'' @ show_int N @ ''.lock''"
    using lock_fits [OF N] by (simp add: server_program_def)
  let ?l = "\<lparr>lk_fd = wo_open w, lk_file = Some (pr_lock server_program N)\<rparr>"
  let ?fs = "fs(pr_lock server_program N \<mapsto> snprintf_z 16 (show_int (wo_pid w)))"
  have "run_main server_program w (tl (shell_words ?cmd)) fs = Running ?l ?fs"
  proof -
    have pr: "pr_options server_program = ''a:c:d''" "pr_file server_program = ''server.conf''" "pr_numbered server_program"
      by (simp_all add: server_program_def)
    have free: "fs (pr_lock server_program N) = None" using assms(10) lock by simp
    show ?thesis using assms(2,8,9,11) free
      by (simp add: run_main_def pr opts lamb_lock_protection_def lamb_pid_file_def no_lock_def Let_def)
  qed
  moreover have "lamb_check_server alive ?fs N = (wo_pid w, if alive (wo_pid w) then 1 else 0)"
    unfolding lamb_check_server_def
    by (rule status_of_pid [OF assms(12)]) (simp add: server_lock_def server_program_def)
  ultimately show ?thesis using one by blast
qed

subsection \<open>Examples\<close>

definition example_world :: world where
  "example_world = \<lparr>wo_config = (\<lambda>f. Some blank_config), wo_open = 3, wo_pid = 42, wo_init = (\<lambda>c. True)\<rparr>"

lemma example_mt:
  "run_main mt_program example_world [''-d''] Map.empty =
     Running \<lparr>lk_fd = 3, lk_file = Some ''/tmp/mt.lock''\<rparr> [''/tmp/mt.lock'' \<mapsto> snprintf_z 16 (show_int 42)]"
  by (simp add: run_main_def mt_program_def example_world_def read_options_def set_option_def lamb_lock_protection_def
      lamb_pid_file_def no_lock_def Let_def)

theorem one_instance_witness:
  "run_main mt_program example_world [''-c'', ''other.conf''] [''/tmp/mt.lock'' \<mapsto> snprintf_z 16 (show_int 42)] =
     Refused [''/tmp/mt.lock'' \<mapsto> snprintf_z 16 (show_int 42)] \<and>
   lamb_check_status (\<lambda>i. True) [''/tmp/mt.lock'' \<mapsto> snprintf_z 16 (show_int 42)] ''/tmp/mt.lock'' = (42, 1)"
proof -
  have ids: "given_id mt_program [''-c'', ''other.conf''] = given_id mt_program [''-d'']"
    by (simp add: given_id_def mt_program_def read_options_def set_option_def)
  have w: "0 \<le> wo_open example_world" "\<bar>wo_pid example_world\<bar> < 2 ^ 31" "wo_pid example_world = 42"
    by (simp_all add: example_world_def)
  have "pr_lock mt_program i = ''/tmp/mt.lock''" for i by (simp add: mt_program_def)
  then show ?thesis
    using one_instance [OF example_mt ids w(1,2), of example_world "\<lambda>i. True"] by (simp add: w(3))
qed

theorem ismg_failed_start_blocks_witness:
  "\<exists>fs'. ismg_main (\<lambda>c. True) \<lparr>rd_connect = (\<lambda>h p. False), rd_reply = (\<lambda>c. None)\<rparr> True example_world [] Map.empty = Refused fs' \<and>
     ismg_main (\<lambda>c. True) \<lparr>rd_connect = (\<lambda>h p. True), rd_reply = (\<lambda>c. Some (RStatus ''OK''))\<rparr> True example_world [''-d''] fs' =
       Refused fs'"
proof -
  have "wo_config example_world (op_file (read_options ''c:d'' ''ismg.conf'' [])) = Some blank_config"
    "(Map.empty :: files) ''/tmp/ismg.lock'' = None" "wo_open example_world \<noteq> -1"
    "\<not> rd_connect \<lparr>rd_connect = (\<lambda>h p. False), rd_reply = (\<lambda>c. None)\<rparr> ''127.0.0.1'' 6379"
    by (simp_all add: example_world_def)
  from ismg_failed_start_blocks [OF this] show ?thesis by blast
qed

theorem console_start_runs_witness:
  "\<exists>cmd l fs'.
     system_of (daemon_run example_daemon table_db 1 ([] @ sql_of (lamb_start_server (\<lambda>c. True) (''start server '' @ show_int 7)))) = [cmd] \<and>
     run_main server_program example_world (tl (shell_words cmd)) Map.empty = Running l fs' \<and>
     lamb_check_server (\<lambda>i. True) fs' 7 = (42, 1)"
proof -
  have conf: "conf_str example_daemon ''module'' = ''/opt/bin''" "conf_str example_daemon ''config'' = ''/etc''"
    by (simp_all add: example_daemon_def conf_str_def cstr_def)
  have plain: "plain_word (conf_str example_daemon ''module'')" "plain_word (conf_str example_daemon ''config'')"
    "length (conf_str example_daemon ''module'') \<le> 100" "length (conf_str example_daemon ''config'') \<le> 100"
    by (simp_all add: conf plain_word_def)
  have w: "wo_config example_world f = Some blank_config" "wo_init example_world blank_config" "0 \<le> wo_open example_world"
    "\<bar>wo_pid example_world\<bar> < 2 ^ 31" "wo_pid example_world = 42" for f by (simp_all add: example_world_def)
  have N: "(0 :: int) < 7" "(7 :: int) < 2 ^ 31" and free: "(Map.empty :: files) (''/tmp/serv-'' @ show_int 7 @ ''.lock'') = None"
    by simp_all
  show ?thesis
    using console_start_runs [OF table_db_table N plain w(1,2) free w(3,4), of "[]" "\<lambda>c. True" "\<lambda>i. True"]
    by (simp only: w(5) if_True)
qed

end
