(* ===== verification/ConsoleShow.thy ===== *)
theory ConsoleShow
  imports Console Sp Delivery
begin

text \<open>
  The tables of the console and its command loop (\<open>src/src/lamb.c\<close>). A \<open>Print\<close> is a line without
  its line end and its color codes. The arrays of 128 pointers the loaders fill are read as long
  as the loader's result says; \<open>None\<close> is undefined behaviour, the use of a pointer behind the end
  of the array or of NULL. The allocations of the console succeed.
\<close>

subsection \<open>Columns\<close>

definition fmt_right :: "nat \<Rightarrow> string \<Rightarrow> string" where
  "fmt_right n s = replicate (n - length s) (CHR '' '') @ s"

definition fmt_left :: "nat \<Rightarrow> string \<Rightarrow> string" where
  "fmt_left n s = s @ replicate (n - length s) (CHR '' '')"

definition fmt_cut :: "nat \<Rightarrow> nat \<Rightarrow> string \<Rightarrow> string" where
  "fmt_cut n p s = fmt_left n (take p s)"

definition fmt_num :: "nat \<Rightarrow> int \<Rightarrow> string" where
  "fmt_num n i = fmt_left n (show_int i)"

definition okno :: "bool \<Rightarrow> string" where
  "okno b = (if b then ''ok'' else ''no'')"

definition no_data :: effect where
  "no_data = Print '' There is no available data''"

definition table_head :: "(nat \<times> string) list \<Rightarrow> nat \<Rightarrow> effect list" where
  "table_head cols n =
     [Print [], Print (fmt_right 4 ''Id'' @ '' '' @ concat (map (\<lambda>c. fmt_left (fst c) (snd c)) cols)),
      Print (replicate n (CHR ''-''))]"

text \<open>The loop over an array of pointers; \<open>guard\<close> says whether it skips NULL.\<close>

fun slot_rows :: "bool \<Rightarrow> ('a \<Rightarrow> effect list) \<Rightarrow> (nat \<rightharpoonup> 'a) \<Rightarrow> nat list \<Rightarrow> effect list option" where
  "slot_rows guard row slots [] = Some []"
| "slot_rows guard row slots (i # is) =
     (if 128 \<le> i then None
      else case slots i of
        None \<Rightarrow> (if guard then slot_rows guard row slots is else None)
      | Some a \<Rightarrow> map_option (\<lambda>out. row a @ out) (slot_rows guard row slots is))"

definition show_slots :: "bool \<Rightarrow> ('a \<Rightarrow> effect list) \<Rightarrow> effect list \<Rightarrow> int \<times> (nat \<rightharpoonup> 'a) \<Rightarrow> effect list option" where
  "show_slots guard row head loaded =
     (if fst loaded < 1 then Some [no_data]
      else map_option (\<lambda>out. head @ out @ [Print []]) (slot_rows guard row (snd loaded) [0 ..< nat (fst loaded)]))"

subsection \<open>The tables\<close>

text \<open>\<open>show mt\<close> and \<open>show mo\<close> differ in the hash they read.\<close>

definition show_queue :: "string \<Rightarrow> redis \<Rightarrow> effect list option" where
  "show_queue type rds =
     map_option (\<lambda>qs. Redis (''HGETALL '' @ type @ ''.queue'') #
       (if qs = [] then [no_data]
        else table_head [(8, ''Account''), (7, ''Total''), (16, ''Description'')] 51 @
          map (\<lambda>q. Print ('' '' @ fmt_right 3 (show_int (kv_id q)) @ '' '' @ fmt_cut 7 7 (kv_acc q) @ '' ''
            @ fmt_num 6 (kv_total q) @ '' '' @ fmt_cut 15 15 (kv_desc q))) qs @ [Print []]))
       (lamb_get_queue rds type)"

definition lamb_show_mt :: "redis \<Rightarrow> effect list option" where
  "lamb_show_mt = show_queue ''mt''"

definition lamb_show_mo :: "redis \<Rightarrow> effect list option" where
  "lamb_show_mo = show_queue ''mo''"

definition core_modules :: "(string \<times> string \<times> string) list" where
  "core_modules =
     [(''/tmp/ismg.lock'', ''ismg'', ''client cmpp access gateway''),
      (''/tmp/mt.lock'', ''mt'', ''core uplink message queue service''),
      (''/tmp/mo.lock'', ''mo'', ''core downlink message queue service''),
      (''/tmp/scheduler.lock'', ''scheduler'', ''core routing scheduler service''),
      (''/tmp/delivery.lock'', ''delivery'', ''core delivery scheduler service''),
      (''/tmp/testd.lock'', ''testd'', ''carrier gateway test service''),
      (''/tmp/daemon.lock'', ''daemon'', ''daemon management service'')]"

definition core_row :: "int \<times> int \<Rightarrow> string \<Rightarrow> string \<Rightarrow> string" where
  "core_row st name desc = '' '' @ fmt_right 5 (show_int (fst st)) @ '' '' @ fmt_cut 9 9 name @ ''   ''
     @ okno (snd st \<noteq> 0) @ ''   '' @ fmt_left 35 desc"

definition lamb_show_core :: "(int \<Rightarrow> bool) \<Rightarrow> (string \<rightharpoonup> string) \<Rightarrow> effect list" where
  "lamb_show_core alive fs =
     [Print [], Print (fmt_right 6 ''Pid'' @ '' '' @ fmt_left 10 ''Module'' @ fmt_left 7 ''Status'' @ fmt_left 16 ''Description''),
      Print (replicate 59 (CHR ''-''))] @
     map (\<lambda>(lock, name, desc). Print (core_row (lamb_check_status alive fs lock) name desc)) core_modules @ [Print []]"

definition client_row :: "redis \<Rightarrow> int \<Rightarrow> lamb_account_t \<Rightarrow> effect list" where
  "client_row rds now a =
     (let (host, status, speed, error) = lamb_check_client rds now (ac_id a) (zeroed 16)
      in Redis (''HMGET client.'' @ show_int (ac_id a) @ '' online addr speed error'') #
         (if status \<noteq> 0
          then [Print ('' '' @ fmt_right 3 (show_int (ac_id a)) @ '' '' @ fmt_cut 6 6 (ac_username a) @ '' ''
                 @ fmt_num 9 (ac_company a) @ '' '' @ fmt_cut 15 15 (cstr host) @ ''   '' @ okno True @ ''  '' @ '' ''
                 @ fmt_num 5 speed @ '' '' @ fmt_num 5 error)]
          else []))"

definition lamb_show_client :: "pg \<Rightarrow> redis \<Rightarrow> int \<Rightarrow> effect list option" where
  "lamb_show_client d rds now =
     show_slots True (client_row rds now)
       [Print [], Print (fmt_right 4 ''Id'' @ '' '' @ fmt_left 7 ''User'' @ fmt_left 8 ''company'' @ ''  '' @ fmt_left 16 ''Host''
          @ fmt_left 7 ''Status'' @ fmt_left 6 ''Speed'' @ fmt_left 6 ''Error''), Print (replicate 58 (CHR ''-''))]
       (lamb_get_accounts d 128 Map.empty)"

definition no_statistics :: lamb_server_statistics_t where
  "no_statistics = \<lparr>vs_store = 0, vs_bill = 0, vs_blk = 0, vs_usb = 0, vs_limt = 0, vs_rejt = 0, vs_tmp = 0, vs_key = 0\<rparr>"

definition server_row :: "(int \<Rightarrow> bool) \<Rightarrow> (string \<rightharpoonup> string) \<Rightarrow> redis \<Rightarrow> lamb_account_t \<Rightarrow> effect list" where
  "server_row alive fs rds a =
     (let (pid, status) = lamb_check_server alive fs (ac_id a);
          st = lamb_server_statistics rds (ac_id a) no_statistics
      in [Print ('' '' @ fmt_right 3 (show_int (ac_id a)) @ '' '' @ fmt_num 5 pid @ ''   '' @ okno (status \<noteq> 0) @ ''  ''
            @ concat (map (\<lambda>v. '' '' @ fmt_num 5 v)
                [vs_store st, vs_bill st, vs_blk st, vs_usb st, vs_limt st, vs_rejt st, vs_tmp st, vs_key st]))])"

definition lamb_show_server :: "(int \<Rightarrow> bool) \<Rightarrow> (string \<rightharpoonup> string) \<Rightarrow> pg \<Rightarrow> redis \<Rightarrow> effect list option" where
  "lamb_show_server alive fs d rds =
     show_slots False (server_row alive fs rds)
       (table_head [(6, ''Pid''), (7, ''Status''), (6, ''store''), (6, ''bill''), (6, ''blk''), (6, ''usb''), (6, ''limt''),
          (6, ''rejt''), (6, ''tmp''), (6, ''key'')] 65)
       (lamb_get_accounts d 128 Map.empty)"

definition account_row :: "lamb_account_t \<Rightarrow> effect list" where
  "account_row a =
     [Print ('' '' @ fmt_right 3 (show_int (ac_id a)) @ '' '' @ fmt_cut 7 7 (ac_username a) @ '' '' @ fmt_cut 8 8 (ac_password a)
        @ '' '' @ fmt_cut 19 19 (ac_spcode a) @ '' '' @ fmt_num 7 (ac_company a) @ '' '' @ fmt_cut 15 15 (ac_address a) @ '' ''
        @ fmt_num 10 (ac_concurrent a) @ '' '' @ fmt_num 6 (ac_options a))]"

definition lamb_show_account :: "pg \<Rightarrow> effect list option" where
  "lamb_show_account d =
     show_slots True account_row
       (table_head [(8, ''User''), (9, ''Password''), (20, ''Spcode''), (8, ''company''), (16, ''address''),
          (11, ''concurrent''), (7, ''options'')] 84)
       (lamb_get_accounts d 128 Map.empty)"

definition encoding_name :: "int \<Rightarrow> string" where
  "encoding_name e = (if e = 0 then ''ascii'' else if e = 8 then ''ucs-2'' else if e = 11 then ''utf-8''
     else if e = 15 then ''gbk'' else ''unkno'')"

definition gateway_row :: "lamb_gateway_t \<Rightarrow> effect list" where
  "gateway_row g =
     [Print ('' '' @ fmt_right 3 (show_int (gw_id g)) @ '' '' @ fmt_cut 11 11 (gw_name g) @ '' '' @ fmt_cut 15 15 (gw_host g)
        @ '' '' @ fmt_num 5 (gw_port g) @ '' '' @ fmt_cut 6 6 (gw_username g) @ '' '' @ fmt_cut 8 8 (gw_password g) @ '' ''
        @ fmt_cut 21 21 (gw_spcode g) @ '' '' @ fmt_cut 8 8 (encoding_name (gw_encoding g)) @ '' ''
        @ fmt_cut 8 8 (if gw_extended g then ''true'' else ''false'') @ '' '' @ fmt_num 10 (gw_concurrent g))]"

definition lamb_show_gateway :: "pg \<Rightarrow> effect list option" where
  "lamb_show_gateway d =
     show_slots True gateway_row
       (table_head [(12, ''Name''), (16, ''Host''), (6, ''Port''), (7, ''User''), (9, ''Password''), (22, ''Spcode''),
          (9, ''Encoding''), (9, ''Extended''), (11, ''Concurrent'')] 105)
       (lamb_get_gateways d 128 Map.empty)"

definition channel_row :: "(int \<Rightarrow> bool) \<Rightarrow> (string \<rightharpoonup> string) \<Rightarrow> redis \<Rightarrow> lamb_gateway_t \<Rightarrow> effect list" where
  "channel_row alive fs rds g =
     (let (status, speed, error) = lamb_check_channel alive fs rds (gw_id g)
      in [Print ('' '' @ fmt_right 3 (show_int (gw_id g)) @ '' '' @ fmt_cut 11 11 (gw_name g) @ '' '' @ fmt_cut 4 4 ''cmpp''
            @ '' '' @ fmt_cut 15 15 (gw_host g) @ ''   '' @ okno (status \<noteq> 0) @ ''  '' @ '' '' @ fmt_num 5 speed @ '' ''
            @ fmt_num 5 error)])"

definition lamb_show_channel :: "(int \<Rightarrow> bool) \<Rightarrow> (string \<rightharpoonup> string) \<Rightarrow> pg \<Rightarrow> redis \<Rightarrow> effect list option" where
  "lamb_show_channel alive fs d rds =
     show_slots True (channel_row alive fs rds)
       (table_head [(12, ''Name''), (5, ''Type''), (16, ''Host''), (7, ''Status''), (6, ''Speed''), (6, ''Error'')] 58)
       (lamb_get_gateways d 128 Map.empty)"

definition routing_row :: "lamb_channel_t \<Rightarrow> string" where
  "routing_row c =
     '' '' @ fmt_right 3 (show_int (ch_id c)) @ '' '' @ fmt_num 7 (ch_acc c) @ '' '' @ fmt_num 6 (ch_weight c)
     @ concat (map (\<lambda>k. '' '' @ fmt_cut 5 5 (if bit (ch_operator c) k then ''true'' else ''false'')) [0, 1, 2, 3])"

definition lamb_show_routing :: "pg \<Rightarrow> string \<Rightarrow> effect list" where
  "lamb_show_routing d line =
     (case lamb_opt_parsing line ''show routing'' of
        (err, []) \<Rightarrow> [Print ''Error: Incorrect command parameters'']
      | (err, v # vs) \<Rightarrow>
          (if err \<noteq> 0 then [Print ''Error: Incorrect command parameters'']
           else let channels = snd (lamb_get_channels d (atoi v))
           in if channels = [] then [no_data]
              else table_head [(8, ''Account''), (7, ''Weight''), (6, ''Cmcc''), (6, ''Ctcc''), (6, ''Cucc''), (6, ''Other'')] 51
                   @ map (Print \<circ> routing_row) channels @ [Print []]))"

definition lamb_show_delivery :: "pg \<Rightarrow> effect list" where
  "lamb_show_delivery d =
     (let (err, routes) = lamb_get_delivery d
      in if err \<noteq> 0 then [Print ''Error: reading database error'']
         else if routes = [] then [no_data]
         else table_head [(25, ''Rexp''), (8, ''Account'')] 51
              @ map (\<lambda>r. Print ('' '' @ fmt_right 3 (show_int (dv_id r)) @ '' '' @ fmt_left 24 (dv_rexp r) @ '' ''
                   @ fmt_num 7 (dv_target r))) routes @ [Print []])"

definition log_files :: "(string \<times> string) list" where
  "log_files =
     [(''client'', ''lamb-ismg.log''), (''server'', ''lamb-server.log''), (''channel'', ''lamb-gateway.log''),
      (''mt'', ''lamb-mt.log''), (''mo'', ''lamb-mo.log''), (''scheduler'', ''lamb-scheduler.log''),
      (''delivery'', ''lamb-delivery.log''), (''testd'', ''lamb-testd.log''), (''daemon'', ''lamb-daemon.log''),
      (''database'', ''postgresql.log'')]"

definition log_usage :: "effect list" where
  "log_usage = map Print [[],
     '' client       Client log information'', '' server       Server log information'',
     '' channel      Channel log information'', '' mt           MT module log information'',
     '' mo           MO module log information'', '' scheduler    Scheduler log information'',
     '' delivery     Delivery log information'', '' testd        Test module log information'',
     '' daemon       Daemon module log information'', '' database     Database log information'', []]"

definition strcasecmp_eq :: "string \<Rightarrow> string \<Rightarrow> bool" where
  "strcasecmp_eq a b = (map lower a = map lower b)"

definition lamb_show_log :: "string \<Rightarrow> effect list" where
  "lamb_show_log line =
     (let (err, val) = lamb_opt_parsing line ''show log''
      in if err \<noteq> 0 then [Print ''Error: Incorrect command parameters'']
         else case val of
           [] \<Rightarrow> []
         | type # _ \<Rightarrow>
             (if strcasecmp_eq type ''?'' then log_usage
              else case find (\<lambda>p. strcasecmp_eq type (fst p)) log_files of
                Some p \<Rightarrow> [System (''tail -n 100 /var/log/'' @ snd p)]
              | None \<Rightarrow> [Print ''Error: Incorrect command parameters'']))"

subsection \<open>The command loop\<close>

text \<open>What a command sees of the system when it runs.\<close>

record console =
  co_pg :: pg
  co_redis :: redis
  co_exec :: "string \<Rightarrow> bool"
  co_alive :: "int \<Rightarrow> bool"
  co_fs :: "string \<rightharpoonup> string"
  co_now :: int
  co_md5 :: "bytes \<Rightarrow> bytes"
  co_sha1 :: "bytes \<Rightarrow> bytes"

definition lamb_help :: "effect list" where
  "lamb_help = map Print [[],
     '' help                        Display help information'',
     '' show mt                     Display mt queue information'',
     '' show mo                     Display mo queue information'',
     '' show core                   Display core module status information'',
     '' show client                 Display client connection information'',
     '' show server                 Display service module status information'',
     '' show account                Display account information'',
     '' show channel                Display carrier channel status information'',
     '' show gateway                Display carrier gateway information'',
     '' show delivery               Display downlink routing information'',
     '' show routing <id>           Display uplink routing information'',
     '' show log <type>             Display module log information'',
     '' kill client <id>            Kill a client disconnected'',
     '' kill server <id>            Kill a service processing module'',
     '' kill channel <id>           Kill a gateway disconnected'',
     '' start server <id>           Start a service processing module'',
     '' start channel <id>          Start a gateway channel service'',
     '' change password <password>  Change user login password'',
     '' show version                Display software version information'',
     '' exit                        Exit system login'', []]"

definition lamb_show_version :: "effect list" where
  "lamb_show_version = [Print ''lamb gateway version 1.2'', Print ''Copyright (C) 2018 typefo <typefo@qq.com>'']"

text \<open>
  The start: the message printed when a part of it fails. The loop is entered in any case, and
  its commands then use whatever \<open>db\<close> and \<open>rdb\<close> are.
\<close>

definition console_component_initialization :: "bool \<Rightarrow> (string \<Rightarrow> bool) \<Rightarrow> bool \<Rightarrow> redis \<Rightarrow> effect list" where
  "console_component_initialization mem up mem2 rds =
     (if \<not> mem then [Print (''Error: The kernel can'' @ [CHR 0x27] @ ''t allocate memory'')]
      else if lamb_db_connect up ''127.0.0.1'' 5432 ''postgres'' ''postgres'' ''lamb'' \<noteq> 0
        then [Print (''Error: Can'' @ [CHR 0x27] @ ''t connect to database'')]
      else if \<not> mem2 then [Print (''Error: The kernel can'' @ [CHR 0x27] @ ''t allocate memory'')]
      else if fst (lamb_cache_connect rds ''127.0.0.1'' 6379 None 0) \<noteq> 0
        then [Print (''Error: Can'' @ [CHR 0x27] @ ''t connect to redis database'')]
      else [])"

text \<open>The tests of the loop in their order, each of a prefix of the line.\<close>

definition console_commands :: "(string \<times> (console \<Rightarrow> string \<Rightarrow> effect list option)) list" where
  "console_commands =
     [(''help'', \<lambda>c l. Some lamb_help),
      (''show version'', \<lambda>c l. Some lamb_show_version),
      (''show mt'', \<lambda>c l. lamb_show_mt (co_redis c)),
      (''show mo'', \<lambda>c l. lamb_show_mo (co_redis c)),
      (''show core'', \<lambda>c l. Some (lamb_show_core (co_alive c) (co_fs c))),
      (''show client'', \<lambda>c l. lamb_show_client (co_pg c) (co_redis c) (co_now c)),
      (''show server'', \<lambda>c l. lamb_show_server (co_alive c) (co_fs c) (co_pg c) (co_redis c)),
      (''show account'', \<lambda>c l. lamb_show_account (co_pg c)),
      (''show gateway'', \<lambda>c l. lamb_show_gateway (co_pg c)),
      (''show routing'', \<lambda>c l. Some (lamb_show_routing (co_pg c) l)),
      (''show delivery'', \<lambda>c l. Some (lamb_show_delivery (co_pg c))),
      (''show channel'', \<lambda>c l. lamb_show_channel (co_alive c) (co_fs c) (co_pg c) (co_redis c)),
      (''show log'', \<lambda>c l. Some (lamb_show_log l)),
      (''start server'', \<lambda>c l. Some (lamb_start_server (co_exec c) l)),
      (''start channel'', \<lambda>c l. Some (lamb_start_channel (co_exec c) l)),
      (''kill client'', \<lambda>c l. Some (lamb_kill_client (co_redis c) l)),
      (''kill server'', \<lambda>c l. Some (lamb_kill_server (co_redis c) l)),
      (''kill channel'', \<lambda>c l. Some (lamb_kill_channel (co_redis c) l)),
      (''change password'', \<lambda>c l. Some (lamb_change_password (co_md5 c) (co_sha1 c) (co_redis c) l))]"

text \<open>\<open>CHECK\<close> compares as many characters as the command has.\<close>

definition line_has :: "string \<Rightarrow> string \<Rightarrow> bool" where
  "line_has line w \<longleftrightarrow> take (length w) line = w"

text \<open>One turn of the loop: the effects, and whether the console goes on.\<close>

definition console_turn :: "console \<Rightarrow> string \<Rightarrow> (effect list \<times> bool) option" where
  "console_turn c line =
     (if line = [] then Some ([], True)
      else if line_has line ''exit'' then Some ([], False)
      else case find (\<lambda>p. line_has line (fst p)) console_commands of
        Some p \<Rightarrow> map_option (\<lambda>out. (out, True)) (snd p c line)
      | None \<Rightarrow> Some ([Print ''Error: Unknown command''], True))"

subsection \<open>Which command runs\<close>

definition clash :: "string \<Rightarrow> string \<Rightarrow> bool" where
  "clash a b \<longleftrightarrow> take (length b) a = b \<or> take (length a) b = a"

fun no_clash :: "string list \<Rightarrow> bool" where
  "no_clash [] = True"
| "no_clash (w # ws) = (list_all (\<lambda>v. \<not> clash w v) ws \<and> no_clash ws)"

lemma line_clash:
  assumes "line_has line a" and "line_has line b"
  shows "clash a b"
proof -
  have a: "a = take (length a) line" and b: "b = take (length b) line" using assms by (simp_all add: line_has_def)
  have "take (length b) a = b" if "length b \<le> length a" using a b that by (metis min.absorb1 take_take)
  moreover have "take (length a) b = a" if "length a \<le> length b" using a b that by (metis min.absorb1 take_take)
  ultimately show ?thesis unfolding clash_def by (metis nle_le)
qed

lemma find_no_clash:
  assumes "no_clash (map fst ps)" and "p \<in> set ps" and "line_has line (fst p)"
  shows "find (\<lambda>q. line_has line (fst q)) ps = Some p"
  using assms
proof (induction ps)
  case Nil
  then show ?case by simp
next
  case (Cons q ps)
  show ?case
  proof (cases "line_has line (fst q)")
    case True
    have "p \<notin> set ps" using Cons.prems True line_clash [OF True Cons.prems(3)] by (auto simp: list_all_iff)
    then show ?thesis using Cons.prems True by simp
  next
    case False
    then show ?thesis using Cons by auto
  qed
qed

lemma commands_no_clash: "no_clash (''exit'' # map fst console_commands)"
  by (simp add: console_commands_def clash_def)

lemma console_dispatch:
  assumes "(w, h) \<in> set console_commands" and "line_has line w"
  shows "console_turn c line = map_option (\<lambda>out. (out, True)) (h c line)"
proof -
  have exit: "\<not> clash ''exit'' w" using commands_no_clash assms(1) by (auto simp: list_all_iff)
  then have "\<not> line_has line ''exit''" using line_clash [of line "''exit''" w] assms(2) by blast
  moreover have "line \<noteq> []" using exit assms(2) by (auto simp: line_has_def clash_def)
  moreover have "find (\<lambda>p. line_has line (fst p)) console_commands = Some (w, h)"
    using commands_no_clash assms by (intro find_no_clash) simp_all
  ultimately show ?thesis by (simp add: console_turn_def)
qed

subsection \<open>Tables of accounts\<close>

lemma slot_rows_None:
  "slot_rows guard row slots is = None \<longleftrightarrow>
     (\<exists>i \<in> set is. 128 \<le> i \<or> \<not> guard \<and> slots i = None)"
proof (induction "is")
  case Nil
  then show ?case by simp
next
  case (Cons i "is")
  then show ?case by (cases "slots i") auto
qed

lemma slot_rows_all:
  assumes "length rows \<le> 128" and "\<forall>i < length rows. pg_calloc d i"
  shows "slot_rows guard row (load_slots d mk 128 rows Map.empty) [0 ..< length rows] = Some (concat (map (row \<circ> mk) rows))"
proof -
  have "slot_rows guard row (load_slots d mk 128 rows Map.empty) [n ..< length rows] = Some (concat (map (row \<circ> mk) (drop n rows)))"
    if "n \<le> length rows" for n
    using that
  proof (induction n rule: inc_induct)
    case base
    then show ?case by simp
  next
    case (step n)
    then have "[n ..< length rows] = n # [Suc n ..< length rows]" "drop n rows = rows ! n # drop (Suc n) rows"
      by (simp_all add: upt_conv_Cons Cons_nth_drop_Suc)
    then show ?case using step assms by (simp add: load_slots_def)
  qed
  from this [of 0] show ?thesis by simp
qed

text \<open>
  The console's tables of accounts show every account in the order of the database, when there
  are at most 128 and their structs could be allocated; with more than 128 accounts every table is
  read behind its array, and \<open>show server\<close> also uses the NULL of an account without memory.
\<close>

theorem console_tables:
  assumes "pg_exec d (snprintf_z 512 (''SELECT id,username,password,spcode,company,address,concurrent,options''
             @ '' FROM account ORDER BY id'')) = Some rows" and "rows \<noteq> []"
  shows "(lamb_show_account d = None \<longleftrightarrow> 128 < length rows) \<and>
     (lamb_show_server alive fs d rds = None \<longleftrightarrow> 128 < length rows \<or> (\<exists>i < length rows. \<not> pg_calloc d i)) \<and>
     (length rows \<le> 128 \<and> (\<forall>i < length rows. pg_calloc d i) \<longrightarrow>
        (\<exists>accounts head. map ac_id accounts = map (\<lambda>r. atoi (PQgetvalue r 0)) rows \<and>
           lamb_show_account d = Some (head @ concat (map account_row accounts) @ [Print []])))"
proof -
  obtain mk where load: "lamb_get_accounts d 128 Map.empty = (int (length rows), load_slots d mk 128 rows Map.empty)"
    and mk: "\<And>r. ac_id (mk r) = atoi (PQgetvalue r 0)"
    using assms(1) by (auto simp: lamb_get_accounts_def)
  have n: "\<not> int (length rows) < 1" using assms(2) by (cases rows) auto
  have "lamb_show_account d = None \<longleftrightarrow> 128 < length rows"
    using n by (auto simp: lamb_show_account_def show_slots_def load slot_rows_None)
  moreover have "lamb_show_server alive fs d rds = None \<longleftrightarrow> 128 < length rows \<or> (\<exists>i < length rows. \<not> pg_calloc d i)"
  proof -
    have "lamb_show_server alive fs d rds = None \<longleftrightarrow>
        (\<exists>i < length rows. 128 \<le> i \<or> load_slots d mk 128 rows Map.empty i = None)"
      using n by (simp add: lamb_show_server_def show_slots_def load slot_rows_None Bex_def)
    also have "\<dots> \<longleftrightarrow> (\<exists>i < length rows. 128 \<le> i \<or> \<not> pg_calloc d i)"
    proof -
      have "128 \<le> i \<or> load_slots d mk 128 rows Map.empty i = None \<longleftrightarrow> 128 \<le> i \<or> \<not> pg_calloc d i"
        if "i < length rows" for i
        using that by (cases "128 \<le> i") (simp_all add: load_slots_def)
      then show ?thesis by blast
    qed
    also have "\<dots> \<longleftrightarrow> 128 < length rows \<or> (\<exists>i < length rows. \<not> pg_calloc d i)"
      using le_less_trans by blast
    finally show ?thesis .
  qed
  moreover have "\<exists>accounts head. map ac_id accounts = map (\<lambda>r. atoi (PQgetvalue r 0)) rows \<and>
      lamb_show_account d = Some (head @ concat (map account_row accounts) @ [Print []])"
    if "length rows \<le> 128 \<and> (\<forall>i < length rows. pg_calloc d i)"
  proof -
    have "slot_rows True account_row (load_slots d mk 128 rows Map.empty) [0 ..< length rows] =
        Some (concat (map account_row (map mk rows)))"
      using slot_rows_all [of rows d True account_row mk] that by (simp add: comp_def)
    then have "\<exists>head. lamb_show_account d = Some (head @ concat (map account_row (map mk rows)) @ [Print []])"
      using n by (simp add: lamb_show_account_def show_slots_def load)
    moreover have "map ac_id (map mk rows) = map (\<lambda>r. atoi (PQgetvalue r 0)) rows" using mk by simp
    ultimately show ?thesis by blast
  qed
  ultimately show ?thesis by blast
qed

definition many_accounts :: pg where
  "many_accounts = \<lparr>pg_exec = (\<lambda>q. Some (replicate 129 [''1''])), pg_calloc = (\<lambda>i. True), pg_node = (\<lambda>i. True)\<rparr>"

theorem console_tables_witness: "lamb_show_account many_accounts = None"
proof -
  have "pg_exec many_accounts q = Some (replicate 129 [''1''])" for q by (simp add: many_accounts_def)
  moreover have "replicate 129 [''1''] \<noteq> ([] :: string list list)" by simp
  ultimately show ?thesis
    using console_tables [of many_accounts "replicate 129 [''1'']" "\<lambda>i. True" Map.empty] by simp
qed

subsection \<open>The password\<close>

lemma password_stored:
  assumes "plain_word p" and "length (md5 p) = 16" and "length (sha1 (lamb_hex_string (md5 p))) = 20"
  shows "\<exists>h rest. lamb_change_password md5 sha1 rds (''change password '' @ p) = Redis (''HSET admin password '' @ h) # rest \<and>
     length h = 40 \<and> length (lamb_md5 md5 p) = 32 \<and> unhex h = sha1 (lamb_md5 md5 p)"
proof -
  have "lamb_opt_parsing (''change password '' @ p) ''change password'' = (0, [p])"
    using opt_parsing_words [of "[p]" "''change password''"] assms(1) by (simp add: spaced_def)
  then show ?thesis using assms(2,3)
    by (simp add: lamb_change_password_def lamb_set_password_def lamb_sha1_def lamb_md5_def length_hex_string unhex_hex_string
        Let_def case_prod_unfold)
qed

end
