(* ===== verification/Spec2Isabelle.thy ===== *)
theory Spec2Isabelle
  imports ListProps Handshake SchedThreads DeliveryThreads PhonePath PipeDrain Config IsmgFront Startup ConsoleShow
begin

text \<open>
  A verification library for the Lamb short message gateway (\<open>src/src/*.c\<close>).

  \<^bold>\<open>The program.\<close> Clients connect to the ismg front end, which pushes their submits to the mt
  process. Each account has a server process: it pulls the account's submits from mt, checks
  and converts them, offers them to the scheduler, bills and stores them. The scheduler routes
  a submit to the queue of a gateway; an sp process per gateway pulls from there, talks CMPP
  to the operator, and pushes status reports and messages from phones to the delivery process.
  Delivery routes them to the account's server, which refunds, stores and passes them to the
  mo process, where ismg fetches them. The processes exchange frames over nanomsg sockets; a
  broker (mt, mo, scheduler, delivery) opens one session per client and direction.

  \<^bold>\<open>The theories.\<close>
  \<^item> \<open>Prelude\<close>: C strings, buffers, numbers as text, shared lemmas.
  \<^item> \<open>HeapList\<close>, \<open>HeapListRep\<close>: \<open>list.c\<close> on an explicit heap; a representation predicate and
    one lemma per operation. \<open>Queue\<close>: \<open>queue.c\<close> and the locale \<open>fifo\<close>, interpreted on the heap
    queue. \<open>Pool\<close>: the queues of a broker by client, with the locale \<open>client_queues\<close>.
    \<open>ListProps\<close>: what these promise (a deque, a first-in first-out queue, isolated clients).
  \<^item> \<open>Wire\<close>, \<open>Socket\<close>, \<open>Messages\<close>: frames, \<open>socket.c\<close> against a socket environment, the message
    structs and the copies between wire and memory.
  \<^item> \<open>Broker\<close>: the sessions of a broker and their turns; the locales \<open>store_forward\<close>
    and \<open>store_forward_total\<close> are the contract of a pair of session loops, from which the
    behaviour of a whole broker follows. \<open>Mt\<close> and \<open>Mo\<close> interpret them for \<open>mt.c\<close> and \<open>mo.c\<close>.
    \<open>Handshake\<close>: the request loops and the starts of sessions at the granularity of the threads, as
    a step relation, with the sessions going on in between.
  \<^item> \<open>Scheduler\<close>, \<open>Delivery\<close>: \<open>scheduler.c\<close> and \<open>delivery.c\<close>, turn by turn. \<open>SchedThreads\<close>,
    \<open>DeliveryThreads\<close>: their sessions operation by operation, where looking for a queue and making
    it, and testing its length and pushing, are steps of their own; a turn is what the steps of
    one session come to when no other comes in between.
  \<^item> \<open>Common\<close>, \<open>Db\<close>, \<open>Cache\<close>, \<open>Config\<close>: helpers of \<open>common.c\<close>, the loaders over PostgreSQL, the
    redis clients, the configuration files of all nine programs.
  \<^item> \<open>ServerChecks\<close>, \<open>Server\<close>, \<open>ServerWork\<close>, \<open>ServerLoops\<close>, \<open>ServerRun\<close>: \<open>server.c\<close>; the checks,
    the work loop, what it does over time, the other threads, all threads interleaved.
  \<^item> \<open>Cmpp\<close>, \<open>Sp\<close>, \<open>SpCache\<close>, \<open>SpRun\<close>: packets of the CMPP library and \<open>sp.c\<close>; its cache of message
    ids with the threads of sender and receiver as a step relation at the granularity of their
    accesses to the shared \<open>confirmed\<close>; statistics over runs and connecting again.
  \<^item> \<open>Ismg\<close>, \<open>IsmgRun\<close>, \<open>IsmgFront\<close>: \<open>ismg.c\<close>; the login and the process of a client, over time;
    the event loop that accepts connections and forks the processes, as a step relation.
  \<^item> \<open>ReportPath\<close>: a status report from the operator's packet through \<open>sp.c\<close>, \<open>delivery.c\<close>,
    \<open>server.c\<close>, \<open>mo.c\<close> and \<open>ismg.c\<close> to the client. \<open>SubmitPath\<close>: a submit from the client's
    packet through \<open>ismg.c\<close>, \<open>mt.c\<close>, \<open>server.c\<close>, \<open>scheduler.c\<close> and \<open>sp.c\<close> to the operator.
    \<open>PhonePath\<close>: a message from a phone, on the way of the reports.
  \<^item> \<open>Pipeline\<close>, \<open>PipeDrain\<close>: the five processes a submit passes as one system: their turns in
    any order, with the frames under way, as a step relation; its invariant, and that what is
    under way can be brought to an end.
  \<^item> \<open>Console\<close>, \<open>ConsoleShow\<close>: \<open>lamb.c\<close>; the commands that change something with the status of
    programs, then the tables and the command loop. \<open>Daemon\<close>, \<open>Testd\<close>: \<open>daemon.c\<close> and \<open>test.c\<close>.
    \<open>Startup\<close>: the \<open>main\<close> functions with their lock files. \<open>Control\<close>: kill commands from the
    console over redis to the status threads of \<open>server.c\<close>, \<open>sp.c\<close> and \<open>ismg.c\<close>.

  \<^bold>\<open>How code becomes definitions.\<close> A C function is a function of the same name (with a prefix
  where several programs share one); structs are records with the C field names behind a
  prefix; statics and globals are fields of a state record that is passed and returned. A loop
  that serves for ever is the function of one turn; runs fold turns in any order, so that
  every interleaving of sessions or threads at the granularity of a turn is covered. Undefined
  behaviour (NULL or dangling pointers, writes past an array, reads past a buffer) is \<open>None\<close>
  of an option, and so is a search loop that does not return; a theorem that something
  succeeds therefore excludes both. Failing allocations are flags of a turn.

  \<^bold>\<open>Parameters.\<close> nanomsg (\<open>nnenv\<close>), the generated protobuf codecs, PostgreSQL (\<open>pg\<close>), redis
  (\<open>redis\<close>, \<open>lamb_caches_t\<close>), libconfig (\<open>cfgfile\<close>), libcmpp, PCRE and iconv are not in the repository;
  each is a parameter answering the calls the code makes, and no law is assumed of it except
  where a theorem says so (a codec that gives back what it packed, nodes that keep a set of
  keys or count, a redis that keeps hashes, a database that keeps the task table). A command
  of the console, the daemon or the test process is the list of its effects in order.

  \<^bold>\<open>Bounds and fuel.\<close> No definition has fuel. The port search of the brokers, the search loop of
  the lists, the reconnecting loops and the resending loop of the front end are partial functions; that they return is
  proved where the code needs it. Counters, message ids, ports, list lengths and sequence
  numbers are words of their C width; other integers are unbounded.

  \<^bold>\<open>What is proved.\<close> The lists implement a deque, searching, indexing, removing and emptying
  included; queues are first-in first-out; a pool isolates clients. The brokers mt and mo are
  transparent: what a client pulls is byte for byte what was pushed for it, also when the threads
  interleave while sessions start, as long as each is ready within the wait for it; reachable
  states show what happens to clients when one is not. The scheduler serves the first channel
  that fits; its limit of 128 messages is tested without a lock, so that \<open>n\<close> sessions at once keep
  to \<open>127 + n\<close>, which is reached. Delivery loses nothing as long as no two sessions make the queue
  of an account at once, and a run shows that otherwise it does. The server offers nothing
  unchecked to the scheduler; each accepted submit and each failure leads to one command to redis,
  with the charge or the refund, in any interleaving of its threads; its counters balance; a stop
  word refuses the number from
  then on; a started server is fully connected. The front end forks a process for exactly the
  clients it admits, though two logins at once are both admitted; a client's process answers
  each submit once and sends a report until it is acknowledged. A submit travels from the
  client to the operator, answered, charged and recorded once; with all processes interleaved
  no submit is lost or doubled on the way, unless the server is reloaded while it waits for the
  scheduler, and each can be brought to a decision. A report travels back from the operator to the client
  under the id of the client's message, and so does a message from a phone, but without the
  extension it was sent to; the gateway client stores that id rightly as long as
  its two threads take turns, and a reachable state shows that nothing makes them. What the
  console is told to start is started by the daemon, once, and runs once; what it is told to
  kill stops. Where the code does something else than it
  means to, the theorem states what it does (the overflow of a long message, the lost routing
  of phone messages, the text cut in conversion, the number cut in mt, the submit sent twice,
  the session that is not ready in time, the queue made twice, the limit exceeded, the dead check of connections, the repeated sequence
  number, the repeated report, the repeated login).

  \<^bold>\<open>Not modelled.\<close> Thread creation, signal dispositions, scheduling and resource limits, which
  are single system calls in \<open>common.c\<close> and at the start of the programs; \<open>log.c\<close>, which opens syslog; the vendored \<open>linenoise.c\<close> and the generated
  \<open>message.c\<close> and \<open>command.c\<close>; the color codes of the console. Races inside a turn are modelled
  where \<open>sp.c\<close> (the shared \<open>confirmed\<close>), \<open>mt.c\<close> and \<open>mo.c\<close> (the start of sessions), \<open>scheduler.c\<close>
  (the limit of a queue) and \<open>delivery.c\<close> (the queue of an account) have them; the mutexes of the
  lists make each list operation atomic. The request loops of \<open>scheduler.c\<close> and \<open>delivery.c\<close> and
  the runs through several processes (\<open>Pipeline\<close>, the paths) are at the granularity of turns.
\<close>

end
